(* ===== verification/Prelude.thy ===== *)
theory Prelude
  imports Main "HOL-Library.Word"
begin

text \<open>
  The types and generic facts every theory of the development shares.

  Rust's unsigned integers are words of their width, so that \<open>+\<close> and \<open>*\<close> wrap as the
  release build (and the atomics of both builds) do; \<open>usize\<close> is a natural number bounded
  by \<open>usize_max\<close>, the 64-bit targets the program is built for.  A \<open>Result\<close> is a sum with
  the error on the left, and \<open>and_then\<close> is the question-mark operator.
\<close>

section \<open>Types\<close>

type_synonym u8 = "8 word"
type_synonym u16 = "16 word"
type_synonym u32 = "32 word"
type_synonym u64 = "64 word"
type_synonym usize = nat
type_synonym bytes = "u8 list"

named_theorems unat_simps \<open>facts that move word goals to natural numbers\<close>
named_theorems result_simps \<open>facts about results in error or value form\<close>

definition usize_max :: nat where
  "usize_max = 2 ^ 64 - 1"

section \<open>Results\<close>

fun and_then :: "'e + 'a \<Rightarrow> ('a \<Rightarrow> 'e + 'b) \<Rightarrow> 'e + 'b" where
  "and_then (Inl e) f = Inl e"
| "and_then (Inr x) f = f x"

definition ensure :: "bool \<Rightarrow> 'e \<Rightarrow> 'e + unit" where
  "ensure c e = (if c then Inr () else Inl e)"

definition ok_or :: "'a option \<Rightarrow> 'e \<Rightarrow> 'e + 'a" where
  "ok_or x e = (case x of None \<Rightarrow> Inl e | Some v \<Rightarrow> Inr v)"

fun is_ok :: "'e + 'a \<Rightarrow> bool" where
  "is_ok (Inl e) = False"
| "is_ok (Inr x) = True"

lemma and_then_Inr_iff [result_simps]:
  "and_then r f = Inr y \<longleftrightarrow> (\<exists>x. r = Inr x \<and> f x = Inr y)"
  by (cases r) auto

lemma and_then_Inl_iff [result_simps]:
  "and_then r f = Inl e \<longleftrightarrow> r = Inl e \<or> (\<exists>x. r = Inr x \<and> f x = Inl e)"
  by (cases r) auto

lemma ensure_Inr_iff [result_simps]: "ensure c e = Inr u \<longleftrightarrow> c"
  by (simp add: ensure_def)

lemma ensure_Inl_iff [result_simps]: "ensure c e = Inl e' \<longleftrightarrow> \<not> c \<and> e' = e"
  by (auto simp: ensure_def)

lemma ensure_cases [simp]:
  "c \<Longrightarrow> ensure c e = Inr ()"
  "\<not> c \<Longrightarrow> ensure c e = Inl e"
  by (simp_all add: ensure_def)

lemma ok_or_Inr_iff [result_simps]: "ok_or x e = Inr v \<longleftrightarrow> x = Some v"
  by (simp add: ok_or_def split: option.splits)

lemma ok_or_simps [simp]: "ok_or None e = Inl e" "ok_or (Some v) e = Inr v"
  by (simp_all add: ok_or_def)

lemma is_ok_iff: "is_ok r \<longleftrightarrow> (\<exists>x. r = Inr x)"
  by (cases r) auto

section \<open>Integer operations of the standard library\<close>

definition usize_try_from :: "u64 \<Rightarrow> usize option" where
  "usize_try_from n = (if unat n \<le> usize_max then Some (unat n) else None)"

definition checked_add :: "'a::len word \<Rightarrow> 'a word \<Rightarrow> 'a word option" where
  "checked_add a b = (if unat a + unat b < 2 ^ LENGTH('a) then Some (a + b) else None)"

definition checked_mul :: "'a::len word \<Rightarrow> 'a word \<Rightarrow> 'a word option" where
  "checked_mul a b = (if unat a * unat b < 2 ^ LENGTH('a) then Some (a * b) else None)"

definition saturating_add :: "'a::len word \<Rightarrow> 'a word \<Rightarrow> 'a word" where
  "saturating_add a b = (if unat a + unat b < 2 ^ LENGTH('a) then a + b else - 1)"

definition saturating_sub :: "'a::len word \<Rightarrow> 'a word \<Rightarrow> 'a word" where
  "saturating_sub a b = (if b \<le> a then a - b else 0)"

definition div_ceil :: "'a::len word \<Rightarrow> 'a word \<Rightarrow> 'a word" where
  "div_ceil a b = (if a mod b = 0 then a div b else a div b + 1)"

definition is_multiple_of :: "'a::len word \<Rightarrow> 'a word \<Rightarrow> bool" where
  "is_multiple_of a b = (if b = 0 then a = 0 else a mod b = 0)"

definition usize_saturating_add :: "usize \<Rightarrow> usize \<Rightarrow> usize" where
  "usize_saturating_add a b = min (a + b) usize_max"

section \<open>Word facts\<close>

lemma usize_try_from_u64 [simp]: "usize_try_from n = Some (unat n)"
  using unsigned_less [of n, where ?'a = nat] by (simp add: usize_try_from_def usize_max_def)

lemma unat_lt64: "unat (w :: u64) < 18446744073709551616"
  using unsigned_less [of w, where ?'a = nat] by simp

lemma unat_min [unat_simps]: "unat (min a b :: 'a::len word) = min (unat a) (unat b)"
  by (simp add: min_def word_le_nat_alt)

lemma unat_sub_le [unat_simps]:
  "unat b \<le> unat a \<Longrightarrow> unat (a - b :: 'a::len word) = unat a - unat b"
  by (simp add: unat_sub word_le_nat_alt)

lemma unat_add_lt [unat_simps]:
  "unat a + unat b < 2 ^ LENGTH('a) \<Longrightarrow> unat (a + b :: 'a::len word) = unat a + unat b"
  by (simp add: unat_word_ariths)

lemma unat_mult_lt [unat_simps]:
  "unat a * unat b < 2 ^ LENGTH('a) \<Longrightarrow> unat (a * b :: 'a::len word) = unat a * unat b"
  by (simp add: unat_word_ariths)

lemmas unat_divmod [unat_simps] = unat_div_distrib unat_mod_distrib

lemma word_eq_nat_iff: "(a :: 'a::len word) = b \<longleftrightarrow> unat a = unat b"
  by (rule word_unat_eq_iff)

lemma word_pos_iff: "(w :: 'a::len word) \<noteq> 0 \<longleftrightarrow> 0 < unat w"
  by (simp add: unat_gt_0)

lemma is_multiple_of_iff: "is_multiple_of a b \<longleftrightarrow> unat b dvd unat a"
  by (auto simp: is_multiple_of_def word_eq_nat_iff unat_mod_distrib dvd_eq_mod_eq_0)

lemma checked_add_Some_iff:
  "checked_add a b = Some c \<longleftrightarrow>
     unat a + unat b < 2 ^ LENGTH('a) \<and> unat (c :: 'a::len word) = unat a + unat b"
  by (auto simp: checked_add_def word_eq_nat_iff unat_simps)

lemma checked_mul_Some_iff:
  "checked_mul a b = Some c \<longleftrightarrow>
     unat a * unat b < 2 ^ LENGTH('a) \<and> unat (c :: 'a::len word) = unat a * unat b"
  by (auto simp: checked_mul_def word_eq_nat_iff unat_simps)

lemma unat_saturating_sub:
  "unat (saturating_sub a b :: 'a::len word) = unat a - unat b"
  by (auto simp: saturating_sub_def word_le_nat_alt unat_simps)

lemma unat_saturating_add:
  "unat (saturating_add a b :: 'a::len word) = min (unat a + unat b) (2 ^ LENGTH('a) - 1)"
  by (auto simp: saturating_add_def unat_simps unsigned_minus_1_eq_mask mask_eq_exp_minus_1)

text \<open>The same rounding-up division on natural numbers, and what it counts.\<close>

definition nat_div_ceil :: "nat \<Rightarrow> nat \<Rightarrow> nat" where
  "nat_div_ceil a b = (if a mod b = 0 then a div b else Suc (a div b))"

lemma less_nat_div_ceil_iff:
  assumes b: "0 < b"
  shows "i < nat_div_ceil a b \<longleftrightarrow> i * b < a"
proof (cases "a mod b = 0")
  case True
  then obtain q where q: "a = b * q" by (auto elim: dvdE simp: mod_eq_0_iff_dvd)
  with b show ?thesis by (simp add: nat_div_ceil_def mult.commute)
next
  case False
  define q r where "q = a div b" and "r = a mod b"
  have a: "a = q * b + r" by (simp add: q_def r_def)
  have r: "0 < r" "r < b" using False b by (simp_all add: r_def)
  have "i \<le> q \<longleftrightarrow> i * b < q * b + r"
  proof
    assume "i \<le> q"
    then have "i * b \<le> q * b" by (rule mult_le_mono1)
    with r show "i * b < q * b + r" by linarith
  next
    assume h: "i * b < q * b + r"
    show "i \<le> q"
    proof (rule ccontr)
      assume "\<not> i \<le> q"
      then have "Suc q * b \<le> i * b" by (intro mult_le_mono1) simp
      with h r show False by simp
    qed
  qed
  with False show ?thesis
    by (simp add: nat_div_ceil_def less_Suc_eq_le flip: a q_def)
qed

lemma nat_div_ceil_le: "0 < b \<Longrightarrow> nat_div_ceil a b \<le> a"
  by (metis less_irrefl less_nat_div_ceil_iff mult.right_neutral mult_le_mono2 not_less Suc_leI
      One_nat_def le_less_trans)

lemma unat_div_ceil:
  assumes "b \<noteq> 0"
  shows "unat (div_ceil a b :: 'a::len word) = nat_div_ceil (unat a) (unat b)"
proof (cases "unat a mod unat b = 0")
  case True
  then show ?thesis
    by (simp add: div_ceil_def nat_div_ceil_def word_eq_nat_iff unat_simps)
next
  case False
  have b: "0 < unat b" using assms by (simp add: word_pos_iff)
  have "Suc (unat a div unat b) \<le> unat a"
    using False nat_div_ceil_le [OF b, of "unat a"] by (simp add: nat_div_ceil_def)
  also have "unat a < 2 ^ LENGTH('a)" by (rule unsigned_less)
  finally have "unat (a div b + 1) = Suc (unat a div unat b)"
    by (subst unat_add_lt) (simp_all add: unat_div_distrib)
  with False show ?thesis
    by (simp add: div_ceil_def nat_div_ceil_def word_eq_nat_iff unat_mod_distrib)
qed

section \<open>Lists\<close>

lemma list_all_conv_nth: "list_all P xs \<longleftrightarrow> (\<forall>i < length xs. P (xs ! i))"
  by (simp add: list_all_length)

lemma sum_list_map_filter_upt:
  "sum_list (map f (filter P [0..<n])) = (\<Sum>i | i < n \<and> P i. f (i::nat) :: nat)"
proof -
  have "distinct (filter P [0..<n])" by simp
  then have "sum_list (map f (filter P [0..<n])) = sum f (set (filter P [0..<n]))"
    by (simp add: sum_list_distinct_conv_sum_set)
  then show ?thesis by (simp add: Collect_conj_eq lessThan_def conj_commute)
qed

end
