(* ===== verification/Protocol.thy ===== *)
theory Protocol
  imports Prelude
begin

text \<open>
  The wire format of the memory benchmark, crates/winrisef-core/src/protocol.rs: the session
  hello and its acknowledgement, the lane header, the extent header and the final result,
  all big-endian and of fixed size.  A Rust byte array is a list of bytes; that a decoder's
  argument has the array's length is what its type says in the source.

  The lemmas show the round trips of the decodable messages in both directions: what is
  decoded is what was encoded, and whatever the decoder accepts is the encoding of its result.
\<close>

section \<open>Big-endian integers\<close>

fun be_digits :: "nat \<Rightarrow> nat \<Rightarrow> bytes" where
  "be_digits 0 v = []"
| "be_digits (Suc n) v = be_digits n (v div 256) @ [word_of_nat v]"

definition be_value :: "bytes \<Rightarrow> nat" where
  "be_value bs = foldl (\<lambda>acc b. acc * 256 + unat b) 0 bs"

definition u16_to_be_bytes :: "u16 \<Rightarrow> bytes" where
  "u16_to_be_bytes w = be_digits 2 (unat w)"

definition u32_to_be_bytes :: "u32 \<Rightarrow> bytes" where
  "u32_to_be_bytes w = be_digits 4 (unat w)"

definition u64_to_be_bytes :: "u64 \<Rightarrow> bytes" where
  "u64_to_be_bytes w = be_digits 8 (unat w)"

definition u16_from_be_bytes :: "bytes \<Rightarrow> u16" where
  "u16_from_be_bytes bs = word_of_nat (be_value bs)"

definition u32_from_be_bytes :: "bytes \<Rightarrow> u32" where
  "u32_from_be_bytes bs = word_of_nat (be_value bs)"

definition u64_from_be_bytes :: "bytes \<Rightarrow> u64" where
  "u64_from_be_bytes bs = word_of_nat (be_value bs)"

lemma length_be_digits [simp]: "length (be_digits n v) = n"
  by (induction n arbitrary: v) auto

lemma be_value_snoc [simp]: "be_value (bs @ [b]) = be_value bs * 256 + unat b"
  by (simp add: be_value_def)

lemma be_value_Nil [simp]: "be_value [] = 0"
  by (simp add: be_value_def)

lemma be_value_less: "be_value bs < 256 ^ length bs"
proof (induction bs rule: rev_induct)
  case (snoc b bs)
  have "unat b < 256" using unsigned_less [of b, where ?'a = nat] by simp
  moreover have "Suc (be_value bs) * 256 \<le> 256 ^ length bs * 256"
    using snoc by (intro mult_le_mono1) simp
  ultimately show ?case by simp
qed simp

lemma be_value_digits: "v < 256 ^ n \<Longrightarrow> be_value (be_digits n v) = v"
proof (induction n arbitrary: v)
  case (Suc n)
  then have "v div 256 < 256 ^ n" by (simp add: less_mult_imp_div_less mult.commute)
  with Suc.IH have "be_value (be_digits n (v div 256)) = v div 256" by simp
  then show ?case by (simp add: unat_of_nat)
qed simp

lemma be_digits_value: "be_digits (length bs) (be_value bs) = bs"
proof (induction bs rule: rev_induct)
  case (snoc b bs)
  have "unat b < 256" using unsigned_less [of b, where ?'a = nat] by simp
  moreover have "(word_of_nat (be_value bs * 256 + unat b) :: u8) = b"
    by (subst word_eq_nat_iff) (use \<open>unat b < 256\<close> in \<open>simp del: of_nat_add of_nat_mult add: unat_of_nat\<close>)
  ultimately show ?case using snoc by simp
qed simp

lemma be_bytes_lengths [simp]:
  "length (u16_to_be_bytes a) = 2" "length (u32_to_be_bytes b) = 4" "length (u64_to_be_bytes c) = 8"
  by (simp_all add: u16_to_be_bytes_def u32_to_be_bytes_def u64_to_be_bytes_def)

lemma from_to_be_bytes [simp]:
  "u16_from_be_bytes (u16_to_be_bytes a) = a"
  "u32_from_be_bytes (u32_to_be_bytes b) = b"
  "u64_from_be_bytes (u64_to_be_bytes c) = c"
  using unsigned_less [of a, where ?'a = nat] unsigned_less [of b, where ?'a = nat]
    unsigned_less [of c, where ?'a = nat]
  by (simp_all add: u16_from_be_bytes_def u16_to_be_bytes_def u32_from_be_bytes_def
      u32_to_be_bytes_def u64_from_be_bytes_def u64_to_be_bytes_def be_value_digits)

lemma to_from_be_bytes:
  "length xs = 2 \<Longrightarrow> u16_to_be_bytes (u16_from_be_bytes xs) = xs"
  "length ys = 4 \<Longrightarrow> u32_to_be_bytes (u32_from_be_bytes ys) = ys"
  "length zs = 8 \<Longrightarrow> u64_to_be_bytes (u64_from_be_bytes zs) = zs"
  using be_value_less [of xs] be_value_less [of ys] be_value_less [of zs]
    be_digits_value [of xs] be_digits_value [of ys] be_digits_value [of zs]
  by (simp_all add: u16_from_be_bytes_def u16_to_be_bytes_def u32_from_be_bytes_def
      u32_to_be_bytes_def u64_from_be_bytes_def u64_to_be_bytes_def unat_of_nat)

section \<open>Slices of byte arrays\<close>

definition byte_slice :: "nat \<Rightarrow> nat \<Rightarrow> 'a list \<Rightarrow> 'a list" where
  "byte_slice a b xs = take (b - a) (drop a xs)"

definition copy_from_slice :: "nat \<Rightarrow> 'a list \<Rightarrow> 'a list \<Rightarrow> 'a list" where
  "copy_from_slice at src dst = take at dst @ src @ drop (at + length src) dst"

lemma length_byte_slice: "b \<le> length xs \<Longrightarrow> length (byte_slice a b xs) = b - a"
  by (simp add: byte_slice_def)

lemma byte_slice_append_right:
  "length xs \<le> a \<Longrightarrow> byte_slice a b (xs @ ys) = byte_slice (a - length xs) (b - length xs) ys"
  by (simp add: byte_slice_def)

lemma byte_slice_append_left: "b \<le> length xs \<Longrightarrow> byte_slice a b (xs @ ys) = byte_slice a b xs"
  by (simp add: byte_slice_def)

lemma byte_slice_all: "byte_slice 0 (length xs) xs = xs"
  by (simp add: byte_slice_def)

lemma byte_slice_join:
  assumes "a \<le> b" and "b \<le> c"
  shows "byte_slice a b xs @ byte_slice b c xs = byte_slice a c xs"
proof -
  from assms have c: "c - a = (b - a) + (c - b)" and b: "b = (b - a) + a" by simp_all
  have "drop b xs = drop (b - a) (drop a xs)" using b by simp
  then show ?thesis by (simp add: byte_slice_def c take_add)
qed

section \<open>Constants and enumerations\<close>

definition PROTOCOL_VERSION :: u16 where "PROTOCOL_VERSION = 3"

definition HELLO_LEN :: nat where "HELLO_LEN = 48"
definition ACK_LEN :: nat where "ACK_LEN = 32"
definition LANE_HEADER_LEN :: nat where "LANE_HEADER_LEN = 32"
definition EXTENT_HEADER_LEN :: nat where "EXTENT_HEADER_LEN = 16"
definition RESULT_LEN :: nat where "RESULT_LEN = 32"

text \<open>The ASCII bytes of WRNFHEL1, WRNFACK1, WRNFLAN1 and WRNFDON1.\<close>

definition HELLO_MAGIC :: bytes where
  "HELLO_MAGIC = [0x57, 0x52, 0x4E, 0x46, 0x48, 0x45, 0x4C, 0x31]"
definition ACK_MAGIC :: bytes where
  "ACK_MAGIC = [0x57, 0x52, 0x4E, 0x46, 0x41, 0x43, 0x4B, 0x31]"
definition LANE_MAGIC :: bytes where
  "LANE_MAGIC = [0x57, 0x52, 0x4E, 0x46, 0x4C, 0x41, 0x4E, 0x31]"
definition RESULT_MAGIC :: bytes where
  "RESULT_MAGIC = [0x57, 0x52, 0x4E, 0x46, 0x44, 0x4F, 0x4E, 0x31]"

lemma length_magics [simp]:
  "length HELLO_MAGIC = 8" "length ACK_MAGIC = 8" "length LANE_MAGIC = 8" "length RESULT_MAGIC = 8"
  by (simp_all add: HELLO_MAGIC_def ACK_MAGIC_def LANE_MAGIC_def RESULT_MAGIC_def)

datatype protocol_error =
    InvalidMagic
  | UnsupportedVersion u16
  | UnknownDirection u8
  | InvalidHello
  | InvalidLane
  | InvalidExtent

datatype transfer_direction = BrowserToAgentMemory | AgentToBrowserMemory

fun direction_code :: "transfer_direction \<Rightarrow> u8" where
  "direction_code BrowserToAgentMemory = 1"
| "direction_code AgentToBrowserMemory = 2"

definition direction_try_from :: "u8 \<Rightarrow> protocol_error + transfer_direction" where
  "direction_try_from v =
     (if v = 1 then Inr BrowserToAgentMemory
      else if v = 2 then Inr AgentToBrowserMemory
      else Inl (UnknownDirection v))"

datatype ack_status = Accepted | AuthenticationFailed | InvalidConfiguration | Busy | TransferFailed

fun ack_status_code :: "ack_status \<Rightarrow> u8" where
  "ack_status_code Accepted = 0"
| "ack_status_code AuthenticationFailed = 1"
| "ack_status_code InvalidConfiguration = 2"
| "ack_status_code Busy = 3"
| "ack_status_code TransferFailed = 4"

definition check_magic :: "bytes \<Rightarrow> bytes \<Rightarrow> protocol_error + unit" where
  "check_magic actual expected = ensure (actual = expected) InvalidMagic"

definition check_version :: "u16 \<Rightarrow> protocol_error + unit" where
  "check_version v = ensure (v = PROTOCOL_VERSION) (UnsupportedVersion v)"

lemma direction_try_from_code [simp]: "direction_try_from (direction_code d) = Inr d"
  by (cases d) (simp_all add: direction_try_from_def)

lemma direction_try_from_Inr_iff [result_simps]:
  "direction_try_from v = Inr d \<longleftrightarrow> v = direction_code d"
  by (cases d) (auto simp: direction_try_from_def)

lemma ack_status_code_inject: "ack_status_code a = ack_status_code b \<longleftrightarrow> a = b"
  by (cases a; cases b) simp_all

section \<open>Hello\<close>

record hello =
  h_direction :: transfer_direction
  h_lanes :: u8
  h_block_size :: u32
  h_extent_size :: u64
  h_total_size :: u64
  h_token :: bytes

text \<open>The token is a 16-byte array.\<close>

definition hello_wf :: "hello \<Rightarrow> bool" where
  "hello_wf h \<longleftrightarrow> length (h_token h) = 16"

definition hello_encode :: "hello \<Rightarrow> bytes" where
  "hello_encode h =
     (let b = replicate HELLO_LEN 0;
          b = copy_from_slice 0 HELLO_MAGIC b;
          b = copy_from_slice 8 (u16_to_be_bytes PROTOCOL_VERSION) b;
          b = b[10 := direction_code (h_direction h)];
          b = b[11 := h_lanes h];
          b = copy_from_slice 12 (u32_to_be_bytes (h_block_size h)) b;
          b = copy_from_slice 16 (u64_to_be_bytes (h_extent_size h)) b;
          b = copy_from_slice 24 (u64_to_be_bytes (h_total_size h)) b;
          b = copy_from_slice 32 (h_token h) b
      in b)"

definition hello_validate :: "hello \<Rightarrow> protocol_error + unit" where
  "hello_validate h =
     (if h_lanes h = 0 \<or> h_block_size h = 0 \<or> h_extent_size h = 0 \<or> h_total_size h = 0
      then Inl InvalidHello
      else if \<not> is_multiple_of (h_extent_size h) (ucast (h_block_size h))
      then Inl InvalidHello
      else Inr ())"

definition hello_decode :: "bytes \<Rightarrow> protocol_error + hello" where
  "hello_decode b =
     and_then (check_magic (byte_slice 0 8 b) HELLO_MAGIC) (\<lambda>_.
     and_then (check_version (u16_from_be_bytes [b ! 8, b ! 9])) (\<lambda>_.
     and_then (direction_try_from (b ! 10)) (\<lambda>d.
     let h = \<lparr>h_direction = d,
              h_lanes = b ! 11,
              h_block_size = u32_from_be_bytes (byte_slice 12 16 b),
              h_extent_size = u64_from_be_bytes (byte_slice 16 24 b),
              h_total_size = u64_from_be_bytes (byte_slice 24 32 b),
              h_token = byte_slice 32 48 b\<rparr>
     in and_then (hello_validate h) (\<lambda>_. Inr h))))"

section \<open>HelloAck\<close>

record hello_ack =
  a_status :: ack_status
  a_lanes :: u8
  a_block_size :: u32
  a_extent_size :: u64
  a_total_size :: u64

definition hello_ack_encode :: "hello_ack \<Rightarrow> bytes" where
  "hello_ack_encode a =
     (let b = replicate ACK_LEN 0;
          b = copy_from_slice 0 ACK_MAGIC b;
          b = copy_from_slice 8 (u16_to_be_bytes PROTOCOL_VERSION) b;
          b = b[10 := ack_status_code (a_status a)];
          b = b[11 := a_lanes a];
          b = copy_from_slice 12 (u32_to_be_bytes (a_block_size a)) b;
          b = copy_from_slice 16 (u64_to_be_bytes (a_extent_size a)) b;
          b = copy_from_slice 24 (u64_to_be_bytes (a_total_size a)) b
      in b)"

section \<open>LaneHeader\<close>

record lane_header =
  l_lane_id :: u16
  l_lane_count :: u16
  l_total_size :: u64
  l_extent_size :: u64

definition lane_header_encode :: "lane_header \<Rightarrow> bytes" where
  "lane_header_encode l =
     (let b = replicate LANE_HEADER_LEN 0;
          b = copy_from_slice 0 LANE_MAGIC b;
          b = copy_from_slice 8 (u16_to_be_bytes PROTOCOL_VERSION) b;
          b = copy_from_slice 10 (u16_to_be_bytes (l_lane_id l)) b;
          b = copy_from_slice 12 (u16_to_be_bytes (l_lane_count l)) b;
          b = copy_from_slice 16 (u64_to_be_bytes (l_total_size l)) b;
          b = copy_from_slice 24 (u64_to_be_bytes (l_extent_size l)) b
      in b)"

definition lane_header_decode :: "bytes \<Rightarrow> protocol_error + lane_header" where
  "lane_header_decode b =
     and_then (check_magic (byte_slice 0 8 b) LANE_MAGIC) (\<lambda>_.
     and_then (check_version (u16_from_be_bytes [b ! 8, b ! 9])) (\<lambda>_.
     let l = \<lparr>l_lane_id = u16_from_be_bytes [b ! 10, b ! 11],
              l_lane_count = u16_from_be_bytes [b ! 12, b ! 13],
              l_total_size = u64_from_be_bytes (byte_slice 16 24 b),
              l_extent_size = u64_from_be_bytes (byte_slice 24 32 b)\<rparr>
     in if l_lane_count l = 0 \<or> l_lane_count l \<le> l_lane_id l then Inl InvalidLane else Inr l))"

section \<open>ExtentHeader\<close>

record extent_header =
  e_offset :: u64
  e_len :: u64

definition EXTENT_END :: extent_header where
  "EXTENT_END = \<lparr>e_offset = 0, e_len = 0\<rparr>"

definition extent_header_encode :: "extent_header \<Rightarrow> bytes" where
  "extent_header_encode e =
     (let b = replicate EXTENT_HEADER_LEN 0;
          b = copy_from_slice 0 (u64_to_be_bytes (e_offset e)) b;
          b = copy_from_slice 8 (u64_to_be_bytes (e_len e)) b
      in b)"

definition extent_header_decode :: "bytes \<Rightarrow> protocol_error + extent_header" where
  "extent_header_decode b =
     (let e = \<lparr>e_offset = u64_from_be_bytes (byte_slice 0 8 b),
               e_len = u64_from_be_bytes (byte_slice 8 16 b)\<rparr>
      in if e = EXTENT_END then Inr e
         else if e_len e = 0 \<or> checked_add (e_offset e) (e_len e) = None then Inl InvalidExtent
         else Inr e)"

definition is_end :: "extent_header \<Rightarrow> bool" where
  "is_end e \<longleftrightarrow> e_offset e = 0 \<and> e_len e = 0"

section \<open>TransferResult\<close>

record transfer_result =
  r_status :: ack_status
  r_bytes :: u64
  r_elapsed_nanos :: u64

definition transfer_result_encode :: "transfer_result \<Rightarrow> bytes" where
  "transfer_result_encode r =
     (let b = replicate RESULT_LEN 0;
          b = copy_from_slice 0 RESULT_MAGIC b;
          b = copy_from_slice 8 (u16_to_be_bytes PROTOCOL_VERSION) b;
          b = b[10 := ack_status_code (r_status r)];
          b = copy_from_slice 12 (u64_to_be_bytes (r_bytes r)) b;
          b = copy_from_slice 20 (u64_to_be_bytes (r_elapsed_nanos r)) b
      in b)"

section \<open>Layouts\<close>

text \<open>Writing fields from left to right into a zeroed array lays them out one after the other.\<close>

named_theorems layout_simps \<open>slices and copies on concatenated fields\<close>

lemma copy_append [layout_simps]:
  "length xs \<le> at \<Longrightarrow> copy_from_slice at src (xs @ ys) = xs @ copy_from_slice (at - length xs) src ys"
  by (simp add: copy_from_slice_def)

lemma copy_Cons [layout_simps]:
  "0 < at \<Longrightarrow> copy_from_slice at src (x # ys) = x # copy_from_slice (at - 1) src ys"
  by (cases at) (simp_all add: copy_from_slice_def)

lemma copy_replicate [layout_simps]:
  "at + length src \<le> n \<Longrightarrow>
     copy_from_slice at src (replicate n z) =
       replicate at z @ src @ replicate (n - (at + length src)) z"
  by (simp add: copy_from_slice_def min_def)

lemma update_append [layout_simps]:
  "length xs \<le> i \<Longrightarrow> (xs @ ys)[i := v] = xs @ ys[i - length xs := v]"
  by (simp add: list_update_append)

lemma update_replicate [layout_simps]:
  "0 < n \<Longrightarrow> (replicate n z)[0 := v] = v # replicate (n - 1) z"
  by (cases n) simp_all

lemma byte_slice_Cons [layout_simps]:
  "0 < a \<Longrightarrow> a \<le> b \<Longrightarrow> byte_slice a b (x # xs) = byte_slice (a - 1) (b - 1) xs"
  by (cases a) (simp_all add: byte_slice_def)

lemma byte_slice_full [layout_simps]: "length xs \<le> b \<Longrightarrow> byte_slice 0 b xs = xs"
  by (simp add: byte_slice_def)

lemmas [layout_simps] = byte_slice_append_right byte_slice_append_left nth_append

lemma two_bytes [layout_simps]:
  "u16_from_be_bytes [u16_to_be_bytes w ! 0, u16_to_be_bytes w ! Suc 0] = w"
proof -
  have "[u16_to_be_bytes w ! 0, u16_to_be_bytes w ! Suc 0] = u16_to_be_bytes w"
    by (rule nth_equalityI) (auto simp: less_Suc_eq nth_Cons split: nat.splits)
  then show ?thesis by simp
qed

lemma byte_slice_two: "Suc i < length b \<Longrightarrow> byte_slice i (i + 2) b = [b ! i, b ! Suc i]"
  by (simp add: byte_slice_def numeral_2_eq_2 flip: Cons_nth_drop_Suc)

lemma hello_encode_layout:
  assumes "hello_wf h"
  shows "hello_encode h =
    HELLO_MAGIC @ u16_to_be_bytes PROTOCOL_VERSION @ [direction_code (h_direction h), h_lanes h] @
    u32_to_be_bytes (h_block_size h) @ u64_to_be_bytes (h_extent_size h) @
    u64_to_be_bytes (h_total_size h) @ h_token h"
  using assms by (simp add: hello_encode_def hello_wf_def HELLO_LEN_def layout_simps Let_def)

lemma lane_header_encode_layout:
  "lane_header_encode l =
    LANE_MAGIC @ u16_to_be_bytes PROTOCOL_VERSION @ u16_to_be_bytes (l_lane_id l) @
    u16_to_be_bytes (l_lane_count l) @ [0, 0] @
    u64_to_be_bytes (l_total_size l) @ u64_to_be_bytes (l_extent_size l)"
  by (simp add: lane_header_encode_def LANE_HEADER_LEN_def layout_simps Let_def numeral_2_eq_2)

lemma extent_header_encode_layout:
  "extent_header_encode e = u64_to_be_bytes (e_offset e) @ u64_to_be_bytes (e_len e)"
  by (simp add: extent_header_encode_def EXTENT_HEADER_LEN_def layout_simps Let_def)

lemma length_encodings:
  "hello_wf h \<Longrightarrow> length (hello_encode h) = HELLO_LEN"
  "length (lane_header_encode l) = LANE_HEADER_LEN"
  "length (extent_header_encode e) = EXTENT_HEADER_LEN"
  "length (hello_ack_encode a) = ACK_LEN"
  "length (transfer_result_encode r) = RESULT_LEN"
  by (simp_all add: hello_encode_layout lane_header_encode_layout extent_header_encode_layout
      hello_wf_def HELLO_LEN_def LANE_HEADER_LEN_def EXTENT_HEADER_LEN_def ACK_LEN_def RESULT_LEN_def
      hello_ack_encode_def transfer_result_encode_def Let_def copy_from_slice_def)

section \<open>Round trips\<close>

lemma hello_decode_encode:
  assumes "hello_wf h"
  shows "hello_decode (hello_encode h) = and_then (hello_validate h) (\<lambda>_. Inr h)"
  using assms
  by (cases h) (simp add: hello_encode_layout hello_decode_def check_magic_def check_version_def layout_simps
      hello_wf_def Let_def)

lemma hello_decode_sound:
  assumes len: "length b = HELLO_LEN" and dec: "hello_decode b = Inr h"
  shows "hello_wf h \<and> hello_validate h = Inr () \<and> hello_encode h = b"
proof -
  have len48: "length b = 48" using len by (simp add: HELLO_LEN_def)
  from dec have magic: "byte_slice 0 8 b = HELLO_MAGIC"
    and version: "u16_from_be_bytes [b ! 8, b ! 9] = PROTOCOL_VERSION"
    and valid: "hello_validate h = Inr ()"
    and fields: "b ! 10 = direction_code (h_direction h)" "b ! 11 = h_lanes h"
      "u32_from_be_bytes (byte_slice 12 16 b) = h_block_size h"
      "u64_from_be_bytes (byte_slice 16 24 b) = h_extent_size h"
      "u64_from_be_bytes (byte_slice 24 32 b) = h_total_size h"
      "byte_slice 32 48 b = h_token h"
    by (auto simp: hello_decode_def check_magic_def check_version_def result_simps Let_def)
  have wf: "hello_wf h"
    using fields(6) len48 length_byte_slice [of 48 b 32] by (simp add: hello_wf_def)
  have "u16_to_be_bytes PROTOCOL_VERSION = byte_slice 8 10 b"
    using byte_slice_two [of 8 b] len48 by (simp flip: version add: to_from_be_bytes)
  moreover have "[direction_code (h_direction h), h_lanes h] = byte_slice 10 12 b"
    using byte_slice_two [of 10 b] len48 fields(1,2) by simp
  moreover have "u32_to_be_bytes (h_block_size h) = byte_slice 12 16 b"
    "u64_to_be_bytes (h_extent_size h) = byte_slice 16 24 b"
    "u64_to_be_bytes (h_total_size h) = byte_slice 24 32 b"
    using len48 by (simp_all flip: fields(3-5) add: to_from_be_bytes length_byte_slice)
  ultimately have "hello_encode h = byte_slice 0 8 b @ byte_slice 8 10 b @ byte_slice 10 12 b @
      byte_slice 12 16 b @ byte_slice 16 24 b @ byte_slice 24 32 b @ byte_slice 32 48 b"
    by (simp only: hello_encode_layout [OF wf] magic fields(6))
  then have "hello_encode h = byte_slice 0 48 b" by (simp add: byte_slice_join)
  then show ?thesis using wf valid len48 by (simp add: byte_slice_full)
qed

lemma lane_header_decode_encode:
  assumes "l_lane_id l < l_lane_count l"
  shows "lane_header_decode (lane_header_encode l) = Inr l"
proof -
  have "l_lane_count l \<noteq> 0" using assms by auto
  with assms show ?thesis
    by (simp add: lane_header_encode_layout lane_header_decode_def check_magic_def check_version_def
        layout_simps Let_def not_le)
qed

lemma lane_header_decode_id_less:
  "lane_header_decode b = Inr l \<Longrightarrow> l_lane_id l < l_lane_count l"
  by (auto simp: lane_header_decode_def result_simps Let_def not_le split: if_splits)

lemma extent_header_eq_END: "\<lparr>e_offset = a, e_len = b\<rparr> = EXTENT_END \<longleftrightarrow> a = 0 \<and> b = 0"
  by (simp add: EXTENT_END_def)

lemma extent_header_decode_encode:
  "extent_header_decode (extent_header_encode e) =
     (if e = EXTENT_END \<or> (e_len e \<noteq> 0 \<and> unat (e_offset e) + unat (e_len e) < 2 ^ 64)
      then Inr e else Inl InvalidExtent)"
  by (cases e) (auto simp: extent_header_encode_layout extent_header_decode_def layout_simps Let_def
      checked_add_def extent_header_eq_END)

lemma extent_header_decode_sound:
  assumes len: "length b = EXTENT_HEADER_LEN" and dec: "extent_header_decode b = Inr e"
  shows "extent_header_encode e = b \<and>
    (e = EXTENT_END \<or> (0 < unat (e_len e) \<and> unat (e_offset e) + unat (e_len e) < 2 ^ 64))"
proof -
  have len16: "length b = 16" using len by (simp add: EXTENT_HEADER_LEN_def)
  from dec have fields: "u64_from_be_bytes (byte_slice 0 8 b) = e_offset e"
      "u64_from_be_bytes (byte_slice 8 16 b) = e_len e"
    and ok: "e = EXTENT_END \<or> (0 < unat (e_len e) \<and> unat (e_offset e) + unat (e_len e) < 2 ^ 64)"
    by (cases e; force simp: extent_header_decode_def Let_def checked_add_def
        extent_header_eq_END word_pos_iff split: if_splits)+
  have "extent_header_encode e = byte_slice 0 8 b @ byte_slice 8 16 b"
    using len16 by (simp add: extent_header_encode_layout to_from_be_bytes length_byte_slice flip: fields)
  then show ?thesis using ok len16 by (simp add: byte_slice_join byte_slice_full)
qed

lemma is_end_iff: "is_end e \<longleftrightarrow> e = EXTENT_END"
  by (cases e) (auto simp: is_end_def EXTENT_END_def)

section \<open>Properties\<close>

text \<open>The hello codec is exact: a hello whose fields validate decodes from its own encoding, and
  any 48 bytes the decoder accepts are the encoding of the hello it returns, which is valid.\<close>

theorem hello_codec_exact:
  assumes "length b = HELLO_LEN"
  shows "hello_decode b = Inr h \<longleftrightarrow> hello_wf h \<and> hello_validate h = Inr () \<and> hello_encode h = b"
  using hello_decode_sound [OF assms] hello_decode_encode [of h] by auto

definition hello_sample :: hello where
  "hello_sample = \<lparr>h_direction = BrowserToAgentMemory, h_lanes = 4, h_block_size = 4194304,
     h_extent_size = 16777216, h_total_size = 1000000000, h_token = replicate 16 7\<rparr>"

theorem hello_codec_exact_witness:
  "hello_decode (hello_encode hello_sample) = Inr hello_sample"
proof -
  have wf: "hello_wf hello_sample" by (simp add: hello_wf_def hello_sample_def)
  have "length (hello_encode hello_sample) = HELLO_LEN" using wf by (rule length_encodings)
  from hello_codec_exact [OF this, of hello_sample] wf show ?thesis
    by (simp add: hello_validate_def hello_sample_def is_multiple_of_def)
qed

text \<open>The extent codec: sixteen bytes decode to an extent exactly when they are its encoding and
  it is either the end marker or a non-empty range whose end fits 64 bits; the end marker is the
  only extent of length zero a receiver can see.\<close>

theorem extent_codec_exact:
  assumes "length b = EXTENT_HEADER_LEN"
  shows "extent_header_decode b = Inr e \<longleftrightarrow>
           extent_header_encode e = b \<and>
           (is_end e \<or> (0 < unat (e_len e) \<and> unat (e_offset e) + unat (e_len e) < 2 ^ 64))"
  using extent_header_decode_sound [OF assms, of e] extent_header_decode_encode [of e]
  by (auto simp: is_end_iff word_pos_iff)

theorem extent_codec_exact_witness:
  "extent_header_decode (extent_header_encode \<lparr>e_offset = 64, e_len = 22\<rparr>) =
     Inr \<lparr>e_offset = 64, e_len = 22\<rparr>"
  using extent_codec_exact [OF length_encodings(3), of "\<lparr>e_offset = 64, e_len = 22\<rparr>"
      "\<lparr>e_offset = 64, e_len = 22\<rparr>"] by simp

end
