(* ===== verification/Framing.thy ===== *)
theory Framing
  imports Protocol
begin

text \<open>
  The length-prefixed control frames of the three control channels: \<open>read_frame\<close> and \<open>write_frame\<close>
  of crates/winrisef-agent/src/bridge.rs and version_control_io.rs, \<open>read_control\<close> and
  \<open>write_control\<close> of file_webtransport.rs.  A stream is the list of the bytes that will still
  arrive before it ends.  The JSON codec is a library: \<open>parse\<close> is a parameter, and a written
  value is its serialized body.

  The locale \<open>frame_channel\<close> is the contract of a channel; from it follows that a whole
  conversation is read back frame by frame.
\<close>

section \<open>Frames\<close>

datatype frame_error =
    FrameStreamEnded
  | FrameLengthInvalid
  | FrameTooLarge
  | FrameJsonInvalid

definition MAX_FRAME_BYTES :: nat where "MAX_FRAME_BYTES = 64 * 1024"
definition CONTROL_FRAME_MAX_BYTES :: nat where "CONTROL_FRAME_MAX_BYTES = 64 * 1024"

text \<open>\<open>read_exact\<close> fails when the stream ends first; what it took is gone.\<close>

definition read_exact :: "nat \<Rightarrow> bytes \<Rightarrow> (frame_error + bytes) \<times> bytes" where
  "read_exact n stream =
     (if n \<le> length stream then (Inr (take n stream), drop n stream) else (Inl FrameStreamEnded, []))"

definition read_body :: "nat \<Rightarrow> bytes \<Rightarrow> (frame_error + bytes option) \<times> bytes" where
  "read_body bound stream =
     (case stream of
        [] \<Rightarrow> (Inr None, [])
      | first # rest \<Rightarrow> (
          case read_exact 3 rest of
            (Inl e, s) \<Rightarrow> (Inl e, s)
          | (Inr others, s) \<Rightarrow> (
              let len = unat (u32_from_be_bytes (first # others)) in
              if 0 < len \<and> len \<le> bound
              then (case read_exact len s of
                      (Inl e, s') \<Rightarrow> (Inl e, s')
                    | (Inr body, s') \<Rightarrow> (Inr (Some body), s'))
              else (Inl FrameLengthInvalid, s))))"

definition read_frame :: "(bytes \<Rightarrow> 'a option) \<Rightarrow> bytes \<Rightarrow> (frame_error + 'a option) \<times> bytes" where
  "read_frame parse stream =
     (case read_body MAX_FRAME_BYTES stream of
        (Inl e, s) \<Rightarrow> (Inl e, s)
      | (Inr None, s) \<Rightarrow> (Inr None, s)
      | (Inr (Some body), s) \<Rightarrow> (
          case parse body of
            None \<Rightarrow> (Inl FrameJsonInvalid, s)
          | Some v \<Rightarrow> (Inr (Some v), s)))"

definition read_control :: "(bytes \<Rightarrow> 'a option) \<Rightarrow> bytes \<Rightarrow> (frame_error + 'a option) \<times> bytes" where
  "read_control parse stream =
     (case read_body CONTROL_FRAME_MAX_BYTES stream of
        (Inl e, s) \<Rightarrow> (Inl e, s)
      | (Inr None, s) \<Rightarrow> (Inr None, s)
      | (Inr (Some body), s) \<Rightarrow> (
          case parse body of
            None \<Rightarrow> (Inl FrameJsonInvalid, s)
          | Some v \<Rightarrow> (Inr (Some v), s)))"

text \<open>The three writers: the version-control one refuses an empty body as well.\<close>

definition bridge_write_frame :: "bytes \<Rightarrow> frame_error + bytes" where
  "bridge_write_frame body =
     (if length body \<le> MAX_FRAME_BYTES
      then Inr (u32_to_be_bytes (word_of_nat (length body)) @ body) else Inl FrameTooLarge)"

definition write_control :: "bytes \<Rightarrow> frame_error + bytes" where
  "write_control body =
     (if length body \<le> CONTROL_FRAME_MAX_BYTES
      then Inr (u32_to_be_bytes (word_of_nat (length body)) @ body) else Inl FrameTooLarge)"

definition version_control_write_frame :: "bytes \<Rightarrow> frame_error + bytes" where
  "version_control_write_frame body =
     (if body \<noteq> [] \<and> length body \<le> MAX_FRAME_BYTES
      then Inr (u32_to_be_bytes (word_of_nat (length body)) @ body) else Inl FrameTooLarge)"

section \<open>The contract of a channel\<close>

locale frame_channel =
  fixes send :: "bytes \<Rightarrow> frame_error + bytes"
    and parse :: "bytes \<Rightarrow> 'a option"
    and recv :: "bytes \<Rightarrow> (frame_error + 'a option) \<times> bytes"
  assumes read_end: "recv [] = (Inr None, [])"
    and read_written: "send body = Inr w \<Longrightarrow> body \<noteq> [] \<Longrightarrow> parse body = Some v \<Longrightarrow>
          recv (w @ rest) = (Inr (Some v), rest)"
    and read_shrinks: "recv s = (Inr (Some v), s') \<Longrightarrow> length s' < length s"
begin

text \<open>The frames of a conversation, read until the stream ends or breaks.\<close>

fun read_many :: "nat \<Rightarrow> bytes \<Rightarrow> (frame_error + unit) \<times> 'a list" where
  "read_many 0 s = (Inr (), [])"
| "read_many (Suc n) s =
     (case recv s of
        (Inl e, _) \<Rightarrow> (Inl e, [])
      | (Inr None, _) \<Rightarrow> (Inr (), [])
      | (Inr (Some v), s') \<Rightarrow> (let (r, vs) = read_many n s' in (r, v # vs)))"

lemma conversation:
  assumes "list_all2 (\<lambda>body w. send body = Inr w \<and> body \<noteq> []) bodies ws"
    and "map parse bodies = map Some vs" and "length vs \<le> n"
  shows "read_many n (concat ws) = (Inr (), vs)"
  using assms
proof (induction bodies ws arbitrary: vs n rule: list_all2_induct)
  case Nil
  then show ?case by (cases n) (simp_all add: read_end)
next
  case (Cons body bodies w ws)
  then obtain v us where vs: "vs = v # us" "parse body = Some v" "map parse bodies = map Some us"
    by (cases vs) auto
  with Cons.prems obtain m where n: "n = Suc m" "length us \<le> m" by (cases n) auto
  have "recv (w @ concat ws) = (Inr (Some v), concat ws)"
    using Cons.hyps vs(2) by (intro read_written) simp_all
  with Cons.IH [OF vs(3) n(2)] vs(1) n(1) show ?case by simp
qed

end

lemma length_four: "length xs = 4 \<Longrightarrow> \<exists>a b c d. xs = [a, b, c, d]"
  by (auto simp: length_Suc_conv numeral_eq_Suc)

lemma read_body_frame:
  assumes "0 < length body" and "length body \<le> bound" and "bound < 2 ^ 32"
  shows "read_body bound (u32_to_be_bytes (word_of_nat (length body)) @ body @ rest) = (Inr (Some body), rest)"
proof -
  let ?p = "u32_to_be_bytes (word_of_nat (length body))"
  obtain a b c d where p: "?p = [a, b, c, d]"
    using length_four [OF be_bytes_lengths(2)] by blast
  then have "u32_from_be_bytes [a, b, c, d] = word_of_nat (length body)"
    by (metis from_to_be_bytes(2))
  then have "unat (u32_from_be_bytes [a, b, c, d]) = length body"
    using assms by (simp add: unat_of_nat)
  with p assms show ?thesis
    by (simp add: read_body_def read_exact_def Let_def)
qed

lemma read_body_bound:
  assumes "read_body bound s = (Inr (Some body), s')"
  shows "0 < length body \<and> length body \<le> bound \<and> (\<exists>p. length p = 4 \<and> s = p @ body @ s')"
proof -
  obtain first rest where s: "s = first # rest"
    using assms by (cases s) (simp_all add: read_body_def)
  with assms have three: "3 \<le> length rest"
    and body: "0 < length body" "length body \<le> bound"
      "body = take (length body) (drop 3 rest)" "s' = drop (length body) (drop 3 rest)"
    by (auto simp: read_body_def read_exact_def Let_def min_def split: if_splits)
  have "s = (first # take 3 rest) @ body @ s'"
    using s body(3,4) by (metis append_Cons append_take_drop_id)
  moreover have "length (first # take 3 rest) = 4" using three by simp
  ultimately show ?thesis using body(1,2) by blast
qed

lemma read_frame_written:
  assumes "length body \<le> MAX_FRAME_BYTES" and "body \<noteq> []" and "parse body = Some v"
  shows "read_frame parse ((u32_to_be_bytes (word_of_nat (length body)) @ body) @ rest) = (Inr (Some v), rest)"
  using assms by (simp add: read_frame_def read_body_frame MAX_FRAME_BYTES_def)

lemma read_frame_shrinks: "read_frame parse s = (Inr (Some v), s') \<Longrightarrow> length s' < length s"
  by (auto simp: read_frame_def split: prod.splits sum.splits option.splits dest!: read_body_bound)

lemma read_frame_end: "read_frame parse [] = (Inr None, [])"
  by (simp add: read_frame_def read_body_def)

interpretation bridge_channel: frame_channel bridge_write_frame parse "read_frame parse" for parse
  by unfold_locales
     (auto simp: bridge_write_frame_def read_frame_end simp del: append_assoc
       intro: read_frame_written dest: read_frame_shrinks split: if_splits)

lemma read_control_eq: "read_control parse = read_frame parse"
  by (simp add: fun_eq_iff read_control_def read_frame_def CONTROL_FRAME_MAX_BYTES_def MAX_FRAME_BYTES_def)

lemma write_control_eq: "write_control = bridge_write_frame"
  by (simp add: fun_eq_iff write_control_def bridge_write_frame_def CONTROL_FRAME_MAX_BYTES_def MAX_FRAME_BYTES_def)

interpretation file_channel: frame_channel write_control parse "read_control parse" for parse
  unfolding read_control_eq write_control_eq
  by unfold_locales
     (auto simp: bridge_write_frame_def read_frame_end simp del: append_assoc
       intro: read_frame_written dest: read_frame_shrinks split: if_splits)

interpretation version_control_channel: frame_channel version_control_write_frame parse "read_frame parse" for parse
  by unfold_locales
     (auto simp: version_control_write_frame_def read_frame_end simp del: append_assoc
       intro: read_frame_written dest: read_frame_shrinks split: if_splits)

section \<open>Properties\<close>

text \<open>Reading frames until the stream ends or breaks, at most \<open>n\<close> of them.\<close>

fun read_frames :: "(bytes \<Rightarrow> 'a option) \<Rightarrow> nat \<Rightarrow> bytes \<Rightarrow> (frame_error + unit) \<times> 'a list" where
  "read_frames parse 0 s = (Inr (), [])"
| "read_frames parse (Suc n) s =
     (case read_frame parse s of
        (Inl e, _) \<Rightarrow> (Inl e, [])
      | (Inr None, _) \<Rightarrow> (Inr (), [])
      | (Inr (Some v), s') \<Rightarrow> (let (r, vs) = read_frames parse n s' in (r, v # vs)))"

lemma read_frames_eq:
  "read_frames parse n s = bridge_channel.read_many parse n s"
  "read_frames parse n s = file_channel.read_many parse n s"
  "read_frames parse n s = version_control_channel.read_many parse n s"
  by (induction n arbitrary: s) (simp_all add: read_control_eq split: prod.splits sum.splits option.splits)


lemma small_prefixes:
  "u32_to_be_bytes (word_of_nat (length [a, b])) = [0, 0, 0, 2]"
  "u32_to_be_bytes (word_of_nat (length [a])) = [0, 0, 0, 1]"
proof -
  have four: "(4 :: nat) = Suc (Suc (Suc (Suc 0)))" by simp
  show "u32_to_be_bytes (word_of_nat (length [a, b])) = [0, 0, 0, 2]"
    "u32_to_be_bytes (word_of_nat (length [a])) = [0, 0, 0, 1]"
    by (simp_all only: u32_to_be_bytes_def four be_digits.simps) simp_all
qed


text \<open>No frame outside the bounds is ever parsed: a value that \<open>read_frame\<close> returns comes from a
  body of 1 to 65536 bytes that stood on the stream after its four-byte length, and exactly
  these bytes were taken.\<close>

theorem read_frame_within_bounds:
  assumes "read_frame parse s = (Inr (Some v), s')"
  shows "\<exists>prefix body. length prefix = 4 \<and> s = prefix @ body @ s' \<and> parse body = Some v \<and>
           0 < length body \<and> length body \<le> 65536"
  using assms
  by (auto simp: read_frame_def MAX_FRAME_BYTES_def split: prod.splits sum.splits option.splits
      dest!: read_body_bound)

theorem read_frame_within_bounds_witness:
  "\<exists>prefix body. length prefix = 4 \<and> [0, 0, 0, 1, 9, 5 :: u8] = prefix @ body @ [5] \<and>
     (\<lambda>b. Some (length b)) body = Some 1 \<and> 0 < length body \<and> length body \<le> (65536 :: nat)"
proof -
  have "read_frame (\<lambda>b. Some (length b)) [0, 0, 0, 1, 9, 5] = (Inr (Some 1), [5])"
    using read_frame_written [of "[9]" "\<lambda>b. Some (length b)" 1 "[5]"]
    unfolding small_prefixes by (simp add: MAX_FRAME_BYTES_def)
  from read_frame_within_bounds [OF this] show ?thesis by simp
qed

end
