(* ===== verification/Frame_Reader.thy ===== *)
theory Frame_Reader
  imports Framing
begin

text \<open>
  \<open>read_frame\<close> as the future it is.  In the session loops of crates/winrisef-agent/src/bridge.rs and
  version_control_bridge.rs it is one branch of a \<open>select!\<close>: it takes what has arrived, keeps its
  place in the frame between polls, and is dropped with the bytes it took when another branch is
  ready first.

  The lemmas show that the polled reader, fed the stream in any pieces, delivers what \<open>read_frames\<close>
  of Framing reads from the whole stream, and what a drop in the middle of a frame does.
\<close>

section \<open>Model\<close>

text \<open>The place in a frame: the bytes of the length so far, or the length and the bytes of the body.\<close>

datatype read_progress = InPrefix bytes | InBody bytes bytes

definition frame_length :: "bytes \<Rightarrow> nat" where
  "frame_length prefix = unat (u32_from_be_bytes prefix)"

definition poll_body :: "bytes \<Rightarrow> bytes \<Rightarrow> bytes \<Rightarrow> (read_progress + (frame_error + bytes)) \<times> bytes" where
  "poll_body prefix got avail =
     (let need = frame_length prefix - length got
      in if need \<le> length avail then (Inr (Inr (got @ take need avail)), drop need avail)
         else (Inl (InBody prefix (got @ avail)), []))"

fun poll_frame :: "read_progress \<Rightarrow> bytes \<Rightarrow> (read_progress + (frame_error + bytes)) \<times> bytes" where
  "poll_frame (InPrefix got) avail =
     (let need = 4 - length got
      in if need \<le> length avail then
           let prefix = got @ take need avail; len = frame_length prefix
           in if 0 < len \<and> len \<le> MAX_FRAME_BYTES then poll_body prefix [] (drop need avail)
              else (Inr (Inl FrameLengthInvalid), drop need avail)
         else (Inl (InPrefix (got @ avail)), []))"
| "poll_frame (InBody prefix got) avail = poll_body prefix got avail"

lemma poll_start_consumes:
  "poll_frame (InPrefix []) avail = (Inr (Inr body), rest) \<Longrightarrow> length rest < length avail"
  by (auto simp: poll_body_def Let_def split: if_splits)

lemma poll_consumes:
  "poll_frame p avail = (Inr (Inr body), rest) \<Longrightarrow> length rest \<le> length avail"
  by (cases p) (auto simp: poll_body_def Let_def split: if_splits)

lemma pump_decreases:
  assumes "(r, rest) = poll_frame p avail" and "r = Inr (Inr body)"
  shows "2 * length rest < 2 * length avail + (if p = InPrefix [] then 0 else 1)"
  using assms poll_start_consumes [of avail body rest] poll_consumes [of p avail body rest] by auto

text \<open>The loop over what has arrived: the frames it delivers, the error that ends the session, and the
  place of the reader afterwards.\<close>

function pump :: "(bytes \<Rightarrow> 'a option) \<Rightarrow> read_progress \<Rightarrow> bytes \<Rightarrow> 'a list \<times> frame_error option \<times> read_progress" where
  "pump parse p avail =
     (case poll_frame p avail of
        (Inl p', _) \<Rightarrow> ([], None, p')
      | (Inr (Inl e), _) \<Rightarrow> ([], Some e, InPrefix [])
      | (Inr (Inr body), rest) \<Rightarrow> (
          case parse body of
            None \<Rightarrow> ([], Some FrameJsonInvalid, InPrefix [])
          | Some v \<Rightarrow> (let (vs, e, q) = pump parse (InPrefix []) rest in (v # vs, e, q))))"
  by pat_completeness auto
termination
  by (relation "measure (\<lambda>(parse, p, avail). 2 * length avail + (if p = InPrefix [] then 0 else 1))")
     (simp, simp only: in_measure prod.case, simp add: pump_decreases)

declare pump.simps [simp del]

text \<open>What a session sees: pieces of the stream, and polls that another branch won.\<close>

datatype reader_event = Chunk bytes | Dropped

fun run_reader :: "(bytes \<Rightarrow> 'a option) \<Rightarrow> read_progress \<Rightarrow> reader_event list \<Rightarrow> 'a list \<times> frame_error option \<times> read_progress" where
  "run_reader parse p [] = ([], None, p)"
| "run_reader parse p (Chunk avail # es) =
     (case pump parse p avail of
        (vs, Some e, q) \<Rightarrow> (vs, Some e, q)
      | (vs, None, q) \<Rightarrow> (let (ws, e, q') = run_reader parse q es in (vs @ ws, e, q')))"
| "run_reader parse p (Dropped # es) = run_reader parse (InPrefix []) es"

text \<open>The end of the stream, as the pending read sees it.\<close>

fun reader_end :: "'a list \<times> frame_error option \<times> read_progress \<Rightarrow> (frame_error + unit) \<times> 'a list" where
  "reader_end (vs, Some e, q) = (Inl e, vs)"
| "reader_end (vs, None, q) = (if q = InPrefix [] then Inr () else Inl FrameStreamEnded, vs)"

section \<open>Pieces do not matter\<close>

fun held :: "read_progress \<Rightarrow> bytes" where
  "held (InPrefix got) = got"
| "held (InBody prefix got) = prefix @ got"

fun progress_ok :: "read_progress \<Rightarrow> bool" where
  "progress_ok (InPrefix got) = (length got < 4)"
| "progress_ok (InBody prefix got) =
     (length prefix = 4 \<and> length got < frame_length prefix \<and> frame_length prefix \<le> MAX_FRAME_BYTES)"

lemma poll_held: "progress_ok p \<Longrightarrow> poll_frame p avail = poll_frame (InPrefix []) (held p @ avail)"
  by (cases p) (auto simp: poll_body_def Let_def)

lemma poll_pending:
  "progress_ok p \<Longrightarrow> poll_frame p avail = (Inl q, rest) \<Longrightarrow> progress_ok q \<and> held q = held p @ avail"
  by (cases p) (auto simp: poll_body_def Let_def split: if_splits)

lemma poll_more:
  assumes "progress_ok p" and "poll_frame p avail = (Inr r, rest)"
  shows "poll_frame p (avail @ later) = (Inr r, rest @ later)"
  using assms by (cases p) (auto simp: poll_body_def Let_def split: if_splits)

lemma pump_held: "progress_ok p \<Longrightarrow> pump parse p avail = pump parse (InPrefix []) (held p @ avail)"
  using poll_held [of p avail]
  by (simp add: pump.simps [of parse p avail] pump.simps [of parse "InPrefix []" "held p @ avail"]
      del: poll_frame.simps)

lemma pump_pending:
  "progress_ok p \<Longrightarrow> poll_frame p avail = (Inl q, rest) \<Longrightarrow> pump parse p avail = ([], None, q)"
  by (subst pump.simps) simp

lemma pump_pieces:
  assumes "progress_ok p" and "pump parse p a = (vs, e, q)"
  shows "progress_ok q \<and> pump parse p (a @ b) =
     (if e = None then (let (ws, e', q') = pump parse q b in (vs @ ws, e', q')) else (vs, e, q))"
  using assms
proof (induction parse p a arbitrary: vs e q rule: pump.induct)
  case (1 parse p a)
  obtain r rest where poll: "poll_frame p a = (r, rest)" by fastforce
  show ?case
  proof (cases r)
    case (Inl p')
    with poll 1(2,3) have "progress_ok q" "held q = held p @ a" "vs = []" "e = None"
      using poll_pending [of p a p' rest] by (auto simp: pump_pending)
    then show ?thesis
      using pump_held [of p parse "a @ b"] pump_held [of q parse b] 1(2) by (simp split: prod.splits)
  next
    case (Inr x)
    note later = poll_more [OF 1(2) poll [unfolded Inr], of b]
    show ?thesis
    proof (cases x)
      case (Inl e')
      with poll Inr 1(3) later show ?thesis
        by (subst pump.simps) (subst (asm) pump.simps, auto)
    next
      case body: (Inr body)
      show ?thesis
      proof (cases "parse body")
        case None
        with poll Inr body 1(3) later show ?thesis
          by (subst pump.simps) (subst (asm) pump.simps, auto)
      next
        case (Some v)
        obtain ws e' q' where rec: "pump parse (InPrefix []) rest = (ws, e', q')"
          by (metis surj_pair)
        have res: "vs = v # ws" "e = e'" "q = q'"
          using 1(3) poll Inr body Some rec by (simp_all add: pump.simps [of parse p a])
        note IH = 1(1) [OF poll [symmetric] Inr body Some _ rec]
        show ?thesis
          using IH later body Some res by (subst pump.simps) (auto split: prod.splits)
      qed
    qed
  qed
qed

lemma pump_nothing: "progress_ok p \<Longrightarrow> pump parse p [] = ([], None, p)"
  by (cases p; subst pump.simps) (auto simp: poll_body_def Let_def)

lemma run_chunks: "progress_ok p \<Longrightarrow> run_reader parse p (map Chunk pieces) = pump parse p (concat pieces)"
proof (induction pieces arbitrary: p)
  case (Cons a pieces)
  obtain vs e q where a: "pump parse p a = (vs, e, q)" by (metis surj_pair)
  from pump_pieces [OF Cons.prems a, of "concat pieces"] Cons.IH [of q] a show ?case
    by (cases e) (simp_all split: prod.splits)
qed (simp add: pump_nothing)

section \<open>The whole stream\<close>

lemma poll_read_body:
  "poll_frame (InPrefix []) s = (Inr (Inr body), rest) \<Longrightarrow> read_body MAX_FRAME_BYTES s = (Inr (Some body), rest)"
  "poll_frame (InPrefix []) s = (Inr (Inl e), rest) \<Longrightarrow> fst (read_body MAX_FRAME_BYTES s) = Inl e"
  "poll_frame (InPrefix []) s = (Inl q, rest) \<Longrightarrow>
     fst (read_body MAX_FRAME_BYTES s) = (if q = InPrefix [] then Inr None else Inl FrameStreamEnded)"
  by (cases s; auto simp: poll_body_def read_body_def read_exact_def frame_length_def Let_def numeral_eq_Suc
      split: if_splits)+

lemma pump_read_frames:
  "length s < n \<Longrightarrow> read_frames parse n s = reader_end (pump parse (InPrefix []) s)"
proof (induction n arbitrary: s)
  case (Suc n)
  obtain r rest where poll: "poll_frame (InPrefix []) s = (r, rest)" by fastforce
  show ?case
  proof (cases r)
    case (Inl q)
    with poll_read_body(3) [of s q rest] poll show ?thesis
      by (auto simp: read_frame_def pump.simps [of parse "InPrefix []" s] split: prod.splits)
  next
    case (Inr x)
    show ?thesis
    proof (cases x)
      case (Inl e)
      with poll_read_body(2) [of s e rest] poll Inr show ?thesis
        by (auto simp: read_frame_def pump.simps [of parse "InPrefix []" s] split: prod.splits)
    next
      case body: (Inr body)
      have "length rest < n" using poll_start_consumes [of s body rest] poll Inr body Suc.prems by simp
      from Suc.IH [OF this] poll_read_body(1) [of s body rest] poll Inr body show ?thesis
        by (cases "parse body")
           (auto simp: read_frame_def pump.simps [of parse "InPrefix []" s] split: prod.splits elim: reader_end.elims)
    qed
  qed
qed simp


lemma pump_written:
  assumes "bridge_write_frame body = Inr w" and "body \<noteq> []" and "parse body = Some v"
  shows "pump parse (InPrefix []) w = ([v], None, InPrefix [])"
proof -
  have "read_frames parse (Suc (length w)) w = (Inr (), [v])"
  proof -
    have "read_frame parse w = (Inr (Some v), [])"
      using bridge_channel.read_written [where parse = parse and rest = "[]", OF assms] by simp
    moreover have "length w \<noteq> 0"
      using assms(1,2) by (auto simp: bridge_write_frame_def split: if_splits)
    ultimately show ?thesis by (cases w) (simp_all add: read_frame_end)
  qed
  moreover obtain vs e q where "pump parse (InPrefix []) w = (vs, e, q)" by (metis surj_pair)
  ultimately show ?thesis
    using pump_read_frames [of w "Suc (length w)" parse] by (cases e) (auto split: if_splits)
qed

lemma json_not_a_length:
  assumes "4 \<le> length body" and "hd body = (0x7b :: u8)"
  shows "MAX_FRAME_BYTES < frame_length (take 4 body)"
proof -
  obtain b c d where four: "take 4 body = [0x7b, b, c, d]"
    using assms length_four [of "take 4 body"] by (cases body) auto
  have "be_value [0x7b, b, c, d] < 2 ^ 32" using be_value_less [of "[0x7b, b, c, d]"] by simp
  then have "unat (u32_from_be_bytes [0x7b, b, c, d]) = be_value [0x7b, b, c, d]"
    by (simp add: u32_from_be_bytes_def unat_of_nat)
  also have "\<dots> \<ge> 123 * 256 * 256 * 256" by (simp add: be_value_def)
  finally show ?thesis unfolding four frame_length_def MAX_FRAME_BYTES_def by simp
qed

text \<open>The read is not safe to drop.  When the length of a frame whose body is a JSON object has
  arrived and another branch of the loop is ready before the body, the length is lost and the first
  bytes of the body are taken for one: the session ends with an invalid length, where the same bytes
  without the interruption deliver the frame.\<close>
theorem dropped_read_breaks_session:
  assumes "bridge_write_frame body = Inr w" and "4 \<le> length body" and "hd body = 0x7b" and "parse body = Some v"
  shows "run_reader parse (InPrefix []) [Chunk (take 4 w), Dropped, Chunk (drop 4 w)] =
           ([], Some FrameLengthInvalid, InPrefix []) \<and>
         run_reader parse (InPrefix []) [Chunk (take 4 w), Chunk (drop 4 w)] = ([v], None, InPrefix [])"
proof
  let ?p = "u32_to_be_bytes (word_of_nat (length body))"
  have w: "w = ?p @ body" "length ?p = 4" "length body \<le> MAX_FRAME_BYTES"
    using assms(1) by (auto simp: bridge_write_frame_def be_bytes_lengths split: if_splits)
  have whole: "pump parse (InPrefix []) w = ([v], None, InPrefix [])"
    using assms by (intro pump_written) auto
  then show "run_reader parse (InPrefix []) [Chunk (take 4 w), Chunk (drop 4 w)] = ([v], None, InPrefix [])"
    using run_chunks [of "InPrefix []" parse "[take 4 w, drop 4 w]"] by simp
  obtain x y z ws where body: "body = x # y # z # ws" using assms(2) by (auto simp: numeral_eq_Suc Suc_le_length_iff)
  have "pump parse (InPrefix []) (drop 4 w) = ([], Some FrameLengthInvalid, InPrefix [])"
    using json_not_a_length [OF assms(2,3)] assms(2) w by (subst pump.simps) (simp add: Let_def)
  moreover obtain q where "pump parse (InPrefix []) (take 4 w) = ([], None, q)"
  proof -
    have "frame_length ?p = length body"
      using w(2,3) by (simp add: frame_length_def from_to_be_bytes unat_of_nat MAX_FRAME_BYTES_def)
    then have "poll_frame (InPrefix []) (take 4 w) = (Inl (InBody ?p []), [])"
      using w assms(2) by (auto simp: poll_body_def Let_def)
    then show ?thesis using that by (auto simp: pump.simps)
  qed
  ultimately show "run_reader parse (InPrefix []) [Chunk (take 4 w), Dropped, Chunk (drop 4 w)] =
      ([], Some FrameLengthInvalid, InPrefix [])" by simp
qed

lemma dropped_read_breaks_session_witness:
  "\<exists>w. bridge_write_frame [0x7b, 0x22, 0x22, 0x7d] = Inr w \<and>
     run_reader Some (InPrefix []) [Chunk (take 4 w), Dropped, Chunk (drop 4 w)] =
       ([], Some FrameLengthInvalid, InPrefix [])"
proof -
  let ?body = "[0x7b, 0x22, 0x22, 0x7d] :: bytes"
  obtain w where w: "bridge_write_frame ?body = Inr w" by (simp add: bridge_write_frame_def MAX_FRAME_BYTES_def)
  from dropped_read_breaks_session [of ?body w Some, OF w] w show ?thesis by simp
qed

end
