(* ===== verification/Text_Codec.thy ===== *)
theory Text_Codec
  imports Prelude "HOL-Library.Char_ord"
begin

text \<open>
  The string operations of the standard library the program relies on, and the hexadecimal and
  decimal codecs built on them: \<open>parse_hex\<close> of crates/winrisef-agent/src/auth.rs, \<open>format_hex\<close> of
  certificate.rs, \<open>parse_token\<close> and \<open>parse_session_count\<close> of cli.rs.

  A \<open>str\<close> is the list of its UTF-8 bytes as characters, so that lengths and slice positions are
  the source's.  Slicing inside a multi-byte character panics, which is \<open>None\<close> here.
\<close>

section \<open>Slices and searches\<close>

definition is_char_boundary :: "nat \<Rightarrow> string \<Rightarrow> bool" where
  "is_char_boundary i s \<longleftrightarrow>
     i = length s \<or> (i < length s \<and> (of_char (s ! i) < (128 :: nat) \<or> 192 \<le> (of_char (s ! i) :: nat)))"

definition str_slice :: "nat \<Rightarrow> nat \<Rightarrow> string \<Rightarrow> string option" where
  "str_slice a b s =
     (if a \<le> b \<and> is_char_boundary a s \<and> is_char_boundary b s then Some (take (b - a) (drop a s))
      else None)"

fun strip_prefix :: "'a list \<Rightarrow> 'a list \<Rightarrow> 'a list option" where
  "strip_prefix [] s = Some s"
| "strip_prefix (p # ps) [] = None"
| "strip_prefix (p # ps) (c # cs) = (if p = c then strip_prefix ps cs else None)"

fun starts_with :: "'a list \<Rightarrow> 'a list \<Rightarrow> bool" where
  "starts_with [] s = True"
| "starts_with (p # ps) [] = False"
| "starts_with (p # ps) (c # cs) = (p = c \<and> starts_with ps cs)"

fun split_once :: "'a list \<Rightarrow> 'a list \<Rightarrow> ('a list \<times> 'a list) option" where
  "split_once sep [] = (if sep = [] then Some ([], []) else None)"
| "split_once sep (c # cs) =
     (case strip_prefix sep (c # cs) of
        Some rest \<Rightarrow> Some ([], rest)
      | None \<Rightarrow> map_option (\<lambda>(a, b). (c # a, b)) (split_once sep cs))"

fun split_char :: "char \<Rightarrow> string \<Rightarrow> string list" where
  "split_char sep [] = [[]]"
| "split_char sep (c # cs) =
     (if c = sep then [] # split_char sep cs
      else (case split_char sep cs of
              [] \<Rightarrow> [[c]]
            | p # ps \<Rightarrow> (c # p) # ps))"

definition ascii_lower :: "char \<Rightarrow> char" where
  "ascii_lower c = (if CHR ''A'' \<le> c \<and> c \<le> CHR ''Z'' then char_of (of_char c + 32 :: nat) else c)"

definition eq_ignore_ascii_case :: "string \<Rightarrow> string \<Rightarrow> bool" where
  "eq_ignore_ascii_case a b \<longleftrightarrow> map ascii_lower a = map ascii_lower b"

definition is_ascii_hexdigit :: "char \<Rightarrow> bool" where
  "is_ascii_hexdigit c \<longleftrightarrow> (CHR ''0'' \<le> c \<and> c \<le> CHR ''9'') \<or> (CHR ''a'' \<le> c \<and> c \<le> CHR ''f'') \<or>
     (CHR ''A'' \<le> c \<and> c \<le> CHR ''F'')"

definition ascii_whitespace :: "char \<Rightarrow> bool" where
  "ascii_whitespace c \<longleftrightarrow> c \<in> {CHR '' '', CHR 0x09, CHR 0x0A, CHR 0x0C, CHR 0x0D}"

definition trim_ascii :: "string \<Rightarrow> string" where
  "trim_ascii s = rev (dropWhile ascii_whitespace (rev (dropWhile ascii_whitespace s)))"

lemma strip_prefix_Some_iff: "strip_prefix p s = Some r \<longleftrightarrow> s = p @ r"
  by (induction p s rule: strip_prefix.induct) auto

lemma strip_prefix_None_iff: "strip_prefix p s = None \<longleftrightarrow> (\<nexists>r. s = p @ r)"
  using strip_prefix_Some_iff [of p s] by (cases "strip_prefix p s") auto

lemma strip_prefix_append [simp]: "strip_prefix p (p @ r) = Some r"
  by (simp add: strip_prefix_Some_iff)

lemma starts_with_iff: "starts_with p s \<longleftrightarrow> (\<exists>r. s = p @ r)"
  by (induction p s rule: starts_with.induct) auto

lemma split_once_Some: "split_once sep s = Some (a, b) \<Longrightarrow> s = a @ sep @ b"
  by (induction s arbitrary: a b) (auto simp: strip_prefix_Some_iff split: option.splits if_splits)

lemma split_char_not_Nil [simp]: "split_char sep s \<noteq> []"
  by (cases s) (auto split: list.splits)

lemma split_char_no_sep: "p \<in> set (split_char sep s) \<Longrightarrow> sep \<notin> set p"
  by (induction s arbitrary: p) (force split: if_splits list.splits)+

lemma split_char_join: "concat (map (\<lambda>p. sep # p) (split_char sep s)) = sep # s"
  by (induction s) (auto split: list.splits)

section \<open>Numbers\<close>

definition digit_value :: "nat \<Rightarrow> char \<Rightarrow> nat option" where
  "digit_value radix c =
     (let n = of_char c;
          d = (if CHR ''0'' \<le> c \<and> c \<le> CHR ''9'' then Some (n - 48)
               else if CHR ''a'' \<le> c \<and> c \<le> CHR ''z'' then Some (n - 97 + 10)
               else if CHR ''A'' \<le> c \<and> c \<le> CHR ''Z'' then Some (n - 65 + 10)
               else None)
      in (case d of None \<Rightarrow> None | Some v \<Rightarrow> if v < radix then Some v else None))"

fun parse_digits :: "nat \<Rightarrow> nat \<Rightarrow> nat \<Rightarrow> string \<Rightarrow> nat option" where
  "parse_digits radix bound acc [] = Some acc"
| "parse_digits radix bound acc (c # cs) =
     (case digit_value radix c of
        None \<Rightarrow> None
      | Some d \<Rightarrow>
          if acc * radix + d \<le> bound then parse_digits radix bound (acc * radix + d) cs else None)"

text \<open>\<open>from_str_radix\<close> and \<open>parse\<close> of the unsigned types: a leading plus sign is accepted.\<close>

definition from_str_radix :: "nat \<Rightarrow> nat \<Rightarrow> string \<Rightarrow> nat option" where
  "from_str_radix radix bound s =
     (case s of
        [] \<Rightarrow> None
      | c # cs \<Rightarrow>
          if cs = [] \<and> (c = CHR ''+'' \<or> c = CHR ''-'') then None
          else if c = CHR ''+'' then parse_digits radix bound 0 cs
          else parse_digits radix bound 0 s)"

definition u8_from_str_radix16 :: "string \<Rightarrow> u8 option" where
  "u8_from_str_radix16 s = map_option word_of_nat (from_str_radix 16 255 s)"

definition parse_u16 :: "string \<Rightarrow> u16 option" where
  "parse_u16 s = map_option word_of_nat (from_str_radix 10 (2 ^ 16 - 1) s)"

definition parse_u64 :: "string \<Rightarrow> u64 option" where
  "parse_u64 s = map_option word_of_nat (from_str_radix 10 (2 ^ 64 - 1) s)"

definition parse_usize :: "string \<Rightarrow> usize option" where
  "parse_usize s = from_str_radix 10 usize_max s"

definition hex_char :: "nat \<Rightarrow> char" where
  "hex_char n = (if n < 10 then char_of (48 + n) else char_of (87 + n))"

function show_nat :: "nat \<Rightarrow> string" where
  "show_nat n = (if n < 10 then [hex_char n] else show_nat (n div 10) @ [hex_char (n mod 10)])"
  by auto
termination by (relation "measure id") auto

declare show_nat.simps [simp del]

lemma digit_value_hex_char:
  assumes "n < radix" and "radix \<le> 16"
  shows "digit_value radix (hex_char n) = Some n"
proof -
  have "digit_value 16 (hex_char n) = Some n"
    using assms by (auto simp: digit_value_def Let_def less_eq_char_def hex_char_def)
  moreover have "digit_value radix c = Some v" if "digit_value 16 c = Some v" "v < radix" for c v
    using that unfolding digit_value_def Let_def by (auto split: if_splits option.splits)
  ultimately show ?thesis using assms by blast
qed

lemma parse_digits_append:
  "parse_digits radix bound acc (xs @ ys) =
     (case parse_digits radix bound acc xs of
        None \<Rightarrow> None | Some v \<Rightarrow> parse_digits radix bound v ys)"
  by (induction xs arbitrary: acc) (auto split: option.splits)

lemma parse_digits_show:
  "n \<le> bound \<Longrightarrow> parse_digits 10 bound 0 (show_nat n) = Some n"
proof (induction n rule: show_nat.induct)
  case (1 n)
  show ?case
  proof (cases "n < 10")
    case True
    with 1 show ?thesis by (subst show_nat.simps) (simp add: digit_value_hex_char)
  next
    case False
    then have "parse_digits 10 bound 0 (show_nat (n div 10)) = Some (n div 10)"
      using 1 by (simp add: div_le_dividend [THEN le_trans])
    then show ?thesis
      using False 1(2)
      by (subst show_nat.simps) (simp add: parse_digits_append digit_value_hex_char)
  qed
qed

lemma of_char_hex_char:
  "n < 16 \<Longrightarrow> of_char (hex_char n) = (if n < 10 then 48 + n else 87 + n)"
  by (simp add: hex_char_def)

lemma hex_char_not_sign: "n < 16 \<Longrightarrow> hex_char n \<noteq> CHR ''+''" "n < 16 \<Longrightarrow> hex_char n \<noteq> CHR ''-''"
  using of_char_hex_char [of n] by (auto split: if_splits)

lemma show_nat_Cons: "\<exists>d cs. show_nat n = hex_char d # cs \<and> d < 10"
proof (induction n rule: show_nat.induct)
  case (1 n)
  show ?case
  proof (cases "n < 10")
    case False
    with 1 obtain d cs where "show_nat (n div 10) = hex_char d # cs" "d < 10" by blast
    with False show ?thesis by (subst show_nat.simps) auto
  qed (subst show_nat.simps, auto)
qed

lemma from_str_radix_show: "n \<le> bound \<Longrightarrow> from_str_radix 10 bound (show_nat n) = Some n"
  using show_nat_Cons [of n] parse_digits_show [of n bound] hex_char_not_sign
  by (auto simp: from_str_radix_def)

lemma parse_u64_show: "parse_u64 (show_nat (unat n)) = Some n"
proof -
  have "unat n \<le> 2 ^ 64 - 1" using unat_lt64 [of n] by simp
  then show ?thesis by (simp add: parse_u64_def from_str_radix_show del: One_nat_def)
qed

lemma parse_digits_le: "acc \<le> bound \<Longrightarrow> parse_digits radix bound acc s = Some n \<Longrightarrow> n \<le> bound"
  by (induction s arbitrary: acc) (auto split: option.splits if_splits)

lemma from_str_radix_le: "from_str_radix radix bound s = Some n \<Longrightarrow> n \<le> bound"
  using parse_digits_le [of 0 bound]
  by (auto simp: from_str_radix_def simp del: parse_digits.simps split: list.splits if_splits)

section \<open>Hexadecimal\<close>

datatype hex_error = HexLength | NotHex | HexPanic

text \<open>\<open>n\<close> is the const parameter; the loop runs over the byte positions in order.\<close>

fun parse_hex_from :: "nat \<Rightarrow> nat \<Rightarrow> string \<Rightarrow> hex_error + bytes" where
  "parse_hex_from 0 i s = Inr []"
| "parse_hex_from (Suc n) i s =
     (case str_slice (i * 2) (i * 2 + 2) s of
        None \<Rightarrow> Inl HexPanic
      | Some cs \<Rightarrow>
          and_then (ok_or (u8_from_str_radix16 cs) NotHex) (\<lambda>b.
          and_then (parse_hex_from n (i + 1) s) (\<lambda>bs. Inr (b # bs))))"

definition parse_hex :: "nat \<Rightarrow> string \<Rightarrow> hex_error + bytes" where
  "parse_hex n s = (if length s = n * 2 then parse_hex_from n 0 s else Inl HexLength)"

definition parse_token :: "string \<Rightarrow> hex_error + bytes" where
  "parse_token s = (if length s \<noteq> 32 then Inl HexLength else parse_hex_from 16 0 s)"

definition format_hex :: "bytes \<Rightarrow> string" where
  "format_hex bs = concat (map (\<lambda>b. [hex_char (unat b div 16), hex_char (unat b mod 16)]) bs)"

definition parse_session_count :: "string \<Rightarrow> string + usize" where
  "parse_session_count s =
     and_then (ok_or (parse_usize s) ''session count must be an integer'') (\<lambda>parsed.
       if 1 \<le> parsed \<and> parsed \<le> 8 then Inr parsed
       else Inl ''session count must be between 1 and 8'')"

lemma length_format_hex [simp]: "length (format_hex bs) = length bs * 2"
  by (induction bs) (simp_all add: format_hex_def)

lemma u8_lt: "unat (b :: u8) < 256"
  using unsigned_less [of b, where ?'a = nat] by simp

lemma hex_char_boundary:
  assumes "n < 16" shows "of_char (hex_char n) < (128 :: nat)"
  using assms by (simp add: hex_char_def)

lemma u8_from_hex_chars:
  "u8_from_str_radix16 [hex_char (unat b div 16), hex_char (unat b mod 16)] = Some b"
proof -
  have lt: "unat b div 16 < 16" "unat b mod 16 < 16" using u8_lt [of b] by auto
  then show ?thesis
    using u8_lt [of b]
    by (simp add: u8_from_str_radix16_def from_str_radix_def hex_char_not_sign digit_value_hex_char
        div_mult_mod_eq)
qed

lemma nth_format_hex:
  "i < length bs * 2 \<Longrightarrow> \<exists>n < 16. format_hex bs ! i = hex_char n"
proof (induction bs arbitrary: i)
  case (Cons b bs)
  have lt: "unat b div 16 < 16" "unat b mod 16 < 16" using u8_lt [of b] by auto
  consider "i = 0" | "i = 1" | j where "i = j + 2" "j < length bs * 2"
    using Cons.prems by (metis One_nat_def add_2_eq_Suc' less_2_cases not_less le_Suc_ex
        length_Cons mult_Suc add_less_cancel_right add.commute)
  then show ?case
  proof cases
    case 1
    with lt(1) show ?thesis by (auto simp: format_hex_def)
  next
    case 2
    then have "format_hex (b # bs) ! i = hex_char (unat b mod 16)" by (simp add: format_hex_def)
    with lt(2) show ?thesis by blast
  next
    case 3
    with Cons.IH [of j] show ?thesis by (simp add: format_hex_def)
  qed
qed simp

lemma format_hex_slice:
  assumes "i < length bs"
  shows "str_slice (i * 2) (i * 2 + 2) (format_hex bs) =
           Some [hex_char (unat (bs ! i) div 16), hex_char (unat (bs ! i) mod 16)]"
proof -
  have b: "is_char_boundary j (format_hex bs)" if "j \<le> length bs * 2" for j
    using that nth_format_hex [of j bs] hex_char_boundary
    by (cases "j = length bs * 2") (auto simp: is_char_boundary_def)
  have "take 2 (drop (i * 2) (format_hex bs)) = [hex_char (unat (bs ! i) div 16), hex_char (unat (bs ! i) mod 16)]"
    using assms
  proof (induction bs arbitrary: i)
    case (Cons b bs)
    then show ?case by (cases i) (simp_all add: format_hex_def)
  qed simp
  then show ?thesis using assms b by (simp add: str_slice_def)
qed

lemma parse_hex_from_format:
  "i + n = length bs \<Longrightarrow> parse_hex_from n i (format_hex bs) = Inr (drop i bs)"
  by (induction n arbitrary: i)
     (simp_all add: format_hex_slice u8_from_hex_chars Cons_nth_drop_Suc del: mult_Suc_right add_2_eq_Suc')

lemma parse_hex_format: "parse_hex (length bs) (format_hex bs) = Inr bs"
  by (simp add: parse_hex_def parse_hex_from_format)

lemma parse_hex_from_length: "parse_hex_from n i s = Inr bs \<Longrightarrow> length bs = n"
  by (induction n arbitrary: i bs) (auto simp: result_simps split: option.splits)

lemma parse_hex_length: "parse_hex n s = Inr bs \<Longrightarrow> length bs = n \<and> length s = n * 2"
  by (auto simp: parse_hex_def parse_hex_from_length split: if_splits)

section \<open>Properties\<close>

text \<open>Tokens survive their text form: what \<open>format_hex\<close> writes, \<open>parse_hex\<close> (and the command
  line's \<open>parse_token\<close> for 16 bytes) reads back, for every byte array.\<close>

theorem hex_round_trip:
  "parse_hex (length bs) (format_hex bs) = Inr bs \<and>
   (length bs = 16 \<longrightarrow> parse_token (format_hex bs) = Inr bs)"
  by (simp add: parse_hex_format parse_token_def parse_hex_from_format)

theorem hex_round_trip_witness:
  "parse_token (format_hex [0, 1, 2, 3, 4, 5, 6, 7, 8, 9, 10, 11, 12, 13, 14, 255]) =
     Inr [0, 1, 2, 3, 4, 5, 6, 7, 8, 9, 10, 11, 12, 13, 14, 255]"
  using hex_round_trip [of "[0, 1, 2, 3, 4, 5, 6, 7, 8, 9, 10, 11, 12, 13, 14, 255]"] by simp

text \<open>The parser checks bytes, not characters: a value of the right byte length with a two-byte
  character across a pair boundary panics instead of being rejected, and a plus sign is taken
  for a digit position, so that two different texts are the same token.\<close>

theorem parse_hex_panics_and_aliases:
  "parse_hex 2 [CHR ''0'', CHR 0xC3, CHR 0xA9, CHR ''0''] = Inl HexPanic \<and>
   parse_hex 2 ''+a0b'' = Inr [10, 11] \<and> parse_hex 2 ''0a0b'' = Inr [10, 11]"
  by code_simp

end
