(* ===== verification/One_Time.thy ===== *)
theory One_Time
  imports Text_Codec
begin

text \<open>
  The contract of a store of one-time credentials, and what every authority of the program shares:
  the clock, the random source and the comparison of tokens.

  A store counts its live credentials per token.  Its law is that a step neither creates a
  credential it did not issue nor keeps one it redeemed; from it follows, once for all stores,
  that a token is redeemed at most as often as it was issued.
\<close>

section \<open>Clock and comparison\<close>

text \<open>The clock is the number of milliseconds since the Unix epoch, negative before it.\<close>

datatype clock_error = ClockBeforeEpoch

definition now_ms :: "int \<Rightarrow> clock_error + u64" where
  "now_ms t =
     (if t < 0 then Inl ClockBeforeEpoch
      else if t < 2 ^ 64 then Inr (word_of_int t)
      else Inr (- 1))"

lemma now_ms_in_range:
  assumes "0 \<le> t" and "t < 2 ^ 64"
  shows "now_ms t = Inr (word_of_int t)" and "unat (word_of_int t :: u64) = nat t"
proof -
  have "take_bit 64 t = t" using assms by (simp add: take_bit_int_eq_self)
  then show "unat (word_of_int t :: u64) = nat t" by (simp add: unsigned_of_int)
  show "now_ms t = Inr (word_of_int t)" using assms by (simp add: now_ms_def)
qed

definition constant_time_equal :: "bytes \<Rightarrow> bytes \<Rightarrow> bool" where
  "constant_time_equal left right \<longleftrightarrow>
     foldl (\<lambda>difference (l, r). or difference (xor l r)) 0 (zip left right) = 0"

lemma or_eq_0_word: "or (a :: u8) b = 0 \<longleftrightarrow> a = 0 \<and> b = 0"
  by (simp add: bit_eq_iff bit_or_iff) blast

lemma xor_eq_0_word: "xor (a :: u8) b = 0 \<longleftrightarrow> a = b"
  by (metis xor_self_eq xor.right_neutral xor.assoc)

lemma constant_time_fold:
  "length xs = length ys \<Longrightarrow>
     foldl (\<lambda>difference (l, r). or difference (xor l r)) (acc :: u8) (zip xs ys) = 0 \<longleftrightarrow>
       acc = 0 \<and> xs = ys"
  by (induction xs ys arbitrary: acc rule: list_induct2) (auto simp: or_eq_0_word xor_eq_0_word)

lemma constant_time_equal_iff:
  "length xs = length ys \<Longrightarrow> constant_time_equal xs ys \<longleftrightarrow> xs = ys"
  by (simp add: constant_time_equal_def constant_time_fold)

section \<open>The contract\<close>

locale one_time_store =
  fixes invar :: "'s \<Rightarrow> bool"
    and credits :: "'s \<Rightarrow> 't \<Rightarrow> nat"
    and step :: "'s \<Rightarrow> 'op \<Rightarrow> 's"
    and issued :: "'s \<Rightarrow> 'op \<Rightarrow> 't \<Rightarrow> nat"
    and redeemed :: "'s \<Rightarrow> 'op \<Rightarrow> 't \<Rightarrow> nat"
  assumes step_invar: "invar s \<Longrightarrow> invar (step s p)"
    and step_credits: "invar s \<Longrightarrow>
          credits (step s p) t + redeemed s p t \<le> credits s t + issued s p t"
begin

text \<open>The number of redemptions and of issues of a token in a run.\<close>

fun redemptions :: "'s \<Rightarrow> 'op list \<Rightarrow> 't \<Rightarrow> nat" where
  "redemptions s [] t = 0"
| "redemptions s (p # ps) t = redeemed s p t + redemptions (step s p) ps t"

fun issues :: "'s \<Rightarrow> 'op list \<Rightarrow> 't \<Rightarrow> nat" where
  "issues s [] t = 0"
| "issues s (p # ps) t = issued s p t + issues (step s p) ps t"

lemma run_credits:
  "invar s \<Longrightarrow> credits (foldl step s ps) t + redemptions s ps t \<le> credits s t + issues s ps t"
proof (induction ps arbitrary: s)
  case (Cons p ps)
  from Cons.IH [OF step_invar [OF Cons.prems], of p] step_credits [OF Cons.prems, of p t]
  show ?case by simp
qed simp

lemma redemptions_le_issues:
  assumes "invar s" and "credits s t = 0"
  shows "redemptions s ps t \<le> issues s ps t"
  using run_credits [OF assms(1), of ps t] assms(2) by simp

lemma redemptions_le_credits:
  assumes "invar s" and "\<And>s p. issued s p t = 0"
  shows "redemptions s ps t \<le> credits s t"
proof -
  have "issues s ps t = 0" for s by (induction ps arbitrary: s) (simp_all add: assms(2))
  with run_credits [OF assms(1), of ps t] show ?thesis by simp
qed

end

end
