(* ===== verification/Auth.thy ===== *)
theory Auth
  imports One_Time
begin

text \<open>
  The ticket authority, crates/winrisef-agent/src/auth.rs: the launch token of the activation,
  used once, and the one-time peer tickets.  The clock reading and the random bytes of a call are
  arguments; the mutex of the ticket store is its poison flag, and the launch flag is an atomic.
  Token arrays are lists of 16 bytes.

  The authority interprets \<open>one_time_store\<close> twice, for the launch token and for the tickets.
\<close>

section \<open>Model\<close>

datatype auth_error =
    AuthClock clock_error
  | RandomUnavailable
  | TicketStoreUnavailable
  | TooManyPendingTickets

definition TICKET_TTL_MS :: u64 where "TICKET_TTL_MS = 120000"
definition MAX_PENDING_TICKETS :: nat where "MAX_PENDING_TICKETS = 64"

record peer_ticket =
  tk_token :: bytes
  tk_expires_at_ms :: u64

record ticket_authority =
  ta_launch_token :: bytes
  ta_launch_expires_at_ms :: u64
  ta_launch_used :: bool
  ta_poisoned :: bool
  ta_tickets :: "peer_ticket list"

definition authority_new :: "bytes \<Rightarrow> u64 \<Rightarrow> ticket_authority" where
  "authority_new launch_token launch_expires_at_ms =
     \<lparr>ta_launch_token = launch_token, ta_launch_expires_at_ms = launch_expires_at_ms,
      ta_launch_used = False, ta_poisoned = False, ta_tickets = []\<rparr>"

definition consume_launch_token ::
  "int \<Rightarrow> bytes \<Rightarrow> ticket_authority \<Rightarrow> (auth_error + bool) \<times> ticket_authority" where
  "consume_launch_token t token a =
     (case now_ms t of
        Inl e \<Rightarrow> (Inl (AuthClock e), a)
      | Inr now \<Rightarrow>
          if ta_launch_expires_at_ms a < now then (Inr False, a)
          else if \<not> constant_time_equal token (ta_launch_token a) then (Inr False, a)
          else if ta_launch_used a then (Inr False, a)
          else (Inr True, a\<lparr>ta_launch_used := True\<rparr>))"

definition launch_is_consumed :: "ticket_authority \<Rightarrow> bool" where
  "launch_is_consumed a = ta_launch_used a"

definition retain_live :: "u64 \<Rightarrow> peer_ticket list \<Rightarrow> peer_ticket list" where
  "retain_live now ts = filter (\<lambda>k. now \<le> tk_expires_at_ms k) ts"

definition issue_ticket ::
  "int \<Rightarrow> bytes option \<Rightarrow> ticket_authority \<Rightarrow> (auth_error + peer_ticket) \<times> ticket_authority" where
  "issue_ticket t random a =
     (case now_ms t of
        Inl e \<Rightarrow> (Inl (AuthClock e), a)
      | Inr now \<Rightarrow> (
          let expires_at_ms = saturating_add now TICKET_TTL_MS in
          case random of
            None \<Rightarrow> (Inl RandomUnavailable, a)
          | Some token \<Rightarrow>
              if ta_poisoned a then (Inl TicketStoreUnavailable, a)
              else
                let tickets = retain_live now (ta_tickets a) in
                if length tickets < MAX_PENDING_TICKETS
                then (Inr \<lparr>tk_token = token, tk_expires_at_ms = expires_at_ms\<rparr>,
                      a\<lparr>ta_tickets := tickets @ [\<lparr>tk_token = token, tk_expires_at_ms = expires_at_ms\<rparr>]\<rparr>)
                else (Inl TooManyPendingTickets, a\<lparr>ta_tickets := tickets\<rparr>)))"

text \<open>The scan does not stop at a match: the last one counts.\<close>

fun matched_index :: "bytes \<Rightarrow> nat \<Rightarrow> nat option \<Rightarrow> peer_ticket list \<Rightarrow> nat option" where
  "matched_index token i m [] = m"
| "matched_index token i m (k # ks) =
     matched_index token (Suc i) (if constant_time_equal token (tk_token k) then Some i else m) ks"

definition consume_ticket ::
  "int \<Rightarrow> bytes \<Rightarrow> ticket_authority \<Rightarrow> (auth_error + bool) \<times> ticket_authority" where
  "consume_ticket t token a =
     (case now_ms t of
        Inl e \<Rightarrow> (Inl (AuthClock e), a)
      | Inr now \<Rightarrow>
          if ta_poisoned a then (Inl TicketStoreUnavailable, a)
          else (case matched_index token 0 None (ta_tickets a) of
            None \<Rightarrow> (Inr False, a\<lparr>ta_tickets := retain_live now (ta_tickets a)\<rparr>)
          | Some index \<Rightarrow>
              let ticket = ta_tickets a ! index;
                  rest = take index (ta_tickets a) @ drop (Suc index) (ta_tickets a)
              in (Inr (now \<le> tk_expires_at_ms ticket), a\<lparr>ta_tickets := retain_live now rest\<rparr>)))"

text \<open>Calls on an authority, and their answer as a success flag.\<close>

datatype auth_op =
    ConsumeLaunch int bytes
  | IssueTicket int "bytes option"
  | ConsumeTicket int bytes

fun auth_step :: "ticket_authority \<Rightarrow> auth_op \<Rightarrow> ticket_authority" where
  "auth_step a (ConsumeLaunch t token) = snd (consume_launch_token t token a)"
| "auth_step a (IssueTicket t random) = snd (issue_ticket t random a)"
| "auth_step a (ConsumeTicket t token) = snd (consume_ticket t token a)"

fun launch_redeemed :: "ticket_authority \<Rightarrow> auth_op \<Rightarrow> unit \<Rightarrow> nat" where
  "launch_redeemed a (ConsumeLaunch t token) u =
     (if fst (consume_launch_token t token a) = Inr True then 1 else 0)"
| "launch_redeemed a _ u = 0"

fun ticket_issued :: "ticket_authority \<Rightarrow> auth_op \<Rightarrow> bytes \<Rightarrow> nat" where
  "ticket_issued a (IssueTicket t random) token =
     (case fst (issue_ticket t random a) of
        Inr k \<Rightarrow> if tk_token k = token then 1 else 0
      | Inl _ \<Rightarrow> 0)"
| "ticket_issued a _ token = 0"

fun ticket_redeemed :: "ticket_authority \<Rightarrow> auth_op \<Rightarrow> bytes \<Rightarrow> nat" where
  "ticket_redeemed a (ConsumeTicket t token) token' =
     (if fst (consume_ticket t token a) = Inr True \<and> token' = token then 1 else 0)"
| "ticket_redeemed a _ token' = 0"

section \<open>Invariant\<close>

text \<open>Tokens are 16-byte arrays; the calls of a run carry such arrays too.\<close>

definition auth_inv :: "ticket_authority \<Rightarrow> bool" where
  "auth_inv a \<longleftrightarrow> length (ta_tickets a) \<le> MAX_PENDING_TICKETS \<and>
     (\<forall>k \<in> set (ta_tickets a). length (tk_token k) = 16) \<and> length (ta_launch_token a) = 16"

fun auth_op_wf :: "auth_op \<Rightarrow> bool" where
  "auth_op_wf (ConsumeLaunch t token) = (length token = 16)"
| "auth_op_wf (IssueTicket t random) = (case random of None \<Rightarrow> True | Some r \<Rightarrow> length r = 16)"
| "auth_op_wf (ConsumeTicket t token) = (length token = 16)"

definition ticket_credits :: "ticket_authority \<Rightarrow> bytes \<Rightarrow> nat" where
  "ticket_credits a token = length (filter (\<lambda>k. tk_token k = token) (ta_tickets a))"

definition launch_credits :: "ticket_authority \<Rightarrow> unit \<Rightarrow> nat" where
  "launch_credits a u = (if ta_launch_used a then 0 else 1)"

lemma set_retain_live: "set (retain_live now ts) = {k \<in> set ts. now \<le> tk_expires_at_ms k}"
  by (auto simp: retain_live_def)

lemma length_retain_live: "length (retain_live now ts) \<le> length ts"
  by (simp add: retain_live_def)

lemma credits_retain_live:
  "length (filter P (retain_live now ts)) \<le> length (filter P ts)"
  by (induction ts) (auto simp: retain_live_def)

lemma matched_index_Some:
  assumes "matched_index token i m ts = Some j"
    and "\<forall>k \<in> set ts. length (tk_token k) = length token"
  shows "(m = Some j \<and> token \<notin> tk_token ` set ts) \<or>
         (i \<le> j \<and> j - i < length ts \<and> tk_token (ts ! (j - i)) = token)"
  using assms
proof (induction ts arbitrary: i m)
  case (Cons k ks)
  then have eq: "constant_time_equal token (tk_token k) \<longleftrightarrow> token = tk_token k"
    by (simp add: constant_time_equal_iff)
  from Cons.IH [of "Suc i" "if token = tk_token k then Some i else m"] Cons.prems
  consider "(if token = tk_token k then Some i else m) = Some j" "token \<notin> tk_token ` set ks"
    | "Suc i \<le> j" "j - Suc i < length ks" "tk_token (ks ! (j - Suc i)) = token"
    by (auto simp: eq)
  then show ?case
  proof cases
    case 1
    then show ?thesis by (auto split: if_splits)
  next
    case 2
    then have "j - i = Suc (j - Suc i)" by simp
    with 2 show ?thesis by simp
  qed
qed simp

lemma matched_index_None:
  assumes "matched_index token i m ts = None"
    and "\<forall>k \<in> set ts. length (tk_token k) = length token"
  shows "token \<notin> tk_token ` set ts \<and> m = None"
  using assms
  by (induction ts arbitrary: i m) (auto simp: constant_time_equal_iff split: if_splits)

lemma filter_remove_nth:
  assumes "i < length ts" and "P (ts ! i)"
  shows "Suc (length (filter P (take i ts @ drop (Suc i) ts))) = length (filter P ts)"
proof -
  have "length (filter P ts) = length (filter P (take i ts @ ts ! i # drop (Suc i) ts))"
    using assms(1) by (simp add: id_take_nth_drop [symmetric])
  with assms(2) show ?thesis by simp
qed

lemma consume_ticket_cases:
  assumes inv: "auth_inv a" and len: "length token = 16"
  shows "(\<exists>e. consume_ticket t token a = (Inl e, a)) \<or>
    (\<exists>now. now_ms t = Inr now \<and> token \<notin> tk_token ` set (ta_tickets a) \<and>
       consume_ticket t token a = (Inr False, a\<lparr>ta_tickets := retain_live now (ta_tickets a)\<rparr>)) \<or>
    (\<exists>now i. now_ms t = Inr now \<and> i < length (ta_tickets a) \<and>
       tk_token (ta_tickets a ! i) = token \<and>
       consume_ticket t token a =
         (Inr (now \<le> tk_expires_at_ms (ta_tickets a ! i)),
          a\<lparr>ta_tickets := retain_live now (take i (ta_tickets a) @ drop (Suc i) (ta_tickets a))\<rparr>))"
proof -
  have same: "\<forall>k \<in> set (ta_tickets a). length (tk_token k) = length token"
    using inv len by (simp add: auth_inv_def)
  show ?thesis
  proof (cases "matched_index token 0 None (ta_tickets a)")
    case None
    with matched_index_None [OF None same] show ?thesis
      by (auto simp: consume_ticket_def split: sum.splits)
  next
    case (Some j)
    with matched_index_Some [OF Some same] show ?thesis
      by (auto simp: consume_ticket_def Let_def split: sum.splits)
  qed
qed

lemma consume_ticket_inv: "auth_inv a \<Longrightarrow> length token = 16 \<Longrightarrow> auth_inv (snd (consume_ticket t token a))"
  using consume_ticket_cases [of a token t]
  by (fastforce simp: auth_inv_def set_retain_live
      dest: in_set_takeD in_set_dropD intro: le_trans [OF length_retain_live])

lemma issue_ticket_inv:
  assumes "auth_inv a" and "\<And>r. random = Some r \<Longrightarrow> length r = 16"
  shows "auth_inv (snd (issue_ticket t random a))"
  using assms le_trans [OF length_retain_live]
  by (auto simp: issue_ticket_def auth_inv_def Let_def set_retain_live split: sum.splits option.splits)

lemma consume_ticket_credits:
  assumes "auth_inv a" and "length token = 16"
  shows "ticket_credits (snd (consume_ticket t token a)) u +
           (if fst (consume_ticket t token a) = Inr True \<and> u = token then 1 else 0) \<le>
         ticket_credits a u"
proof -
  let ?P = "\<lambda>k. tk_token k = u"
  have drop_le: "length (filter ?P (take i ts @ drop (Suc i) ts)) \<le> length (filter ?P ts)" for i ts
  proof (cases "i < length ts")
    case True
    then have "length (filter ?P ts) = length (filter ?P (take i ts @ ts ! i # drop (Suc i) ts))"
      by (simp add: id_take_nth_drop [symmetric])
    then show ?thesis by simp
  qed simp
  show ?thesis
    using consume_ticket_cases [OF assms, of t]
  proof (elim disjE exE conjE)
    fix now i
    assume i: "i < length (ta_tickets a)" "tk_token (ta_tickets a ! i) = token"
      and eq: "consume_ticket t token a = (Inr (now \<le> tk_expires_at_ms (ta_tickets a ! i)),
          a\<lparr>ta_tickets := retain_live now (take i (ta_tickets a) @ drop (Suc i) (ta_tickets a))\<rparr>)"
    let ?rest = "take i (ta_tickets a) @ drop (Suc i) (ta_tickets a)"
    have le: "length (filter ?P (retain_live now ?rest)) \<le> length (filter ?P ?rest)"
      by (rule credits_retain_live)
    show ?thesis
    proof (cases "u = token")
      case True
      then have "Suc (length (filter ?P ?rest)) = length (filter ?P (ta_tickets a))"
        using i by (intro filter_remove_nth) auto
      with le show ?thesis unfolding eq True by (simp add: ticket_credits_def del: filter_append)
    next
      case False
      with le drop_le [of i "ta_tickets a"] eq show ?thesis
        by (simp add: ticket_credits_def del: filter_append)
    qed
  qed (simp_all add: ticket_credits_def credits_retain_live)
qed

lemma issue_ticket_credits:
  "ticket_credits (snd (issue_ticket t random a)) u \<le>
     ticket_credits a u + ticket_issued a (IssueTicket t random) u"
  using credits_retain_live [of "\<lambda>k. tk_token k = u" _ "ta_tickets a"]
  by (auto simp: issue_ticket_def ticket_credits_def Let_def split: sum.splits option.splits)

lemma consume_launch_frame:
  "ta_tickets (snd (consume_launch_token t token a)) = ta_tickets a"
  "ta_launch_token (snd (consume_launch_token t token a)) = ta_launch_token a"
  by (simp_all add: consume_launch_token_def split: sum.splits)

lemma launch_frame:
  "ta_launch_used (snd (issue_ticket t random a)) = ta_launch_used a"
  "ta_launch_used (snd (consume_ticket t token a)) = ta_launch_used a"
  by (simp_all add: issue_ticket_def consume_ticket_def Let_def split: sum.splits option.splits)

text \<open>Runs of calls that carry 16-byte arrays keep the invariant.\<close>

definition wf_step :: "ticket_authority \<Rightarrow> auth_op \<Rightarrow> ticket_authority" where
  "wf_step a p = (if auth_op_wf p then auth_step a p else a)"

definition wf_count ::
  "(ticket_authority \<Rightarrow> auth_op \<Rightarrow> 't \<Rightarrow> nat) \<Rightarrow> ticket_authority \<Rightarrow> auth_op \<Rightarrow> 't \<Rightarrow> nat" where
  "wf_count f a p t = (if auth_op_wf p then f a p t else 0)"

lemma auth_step_inv: "auth_inv a \<Longrightarrow> auth_op_wf p \<Longrightarrow> auth_inv (auth_step a p)"
proof (cases p)
  case (ConsumeLaunch t token)
  then show "auth_inv a \<Longrightarrow> auth_op_wf p \<Longrightarrow> ?thesis"
    by (simp add: auth_inv_def consume_launch_frame)
qed (auto intro!: consume_ticket_inv issue_ticket_inv split: option.splits)

interpretation tickets: one_time_store auth_inv ticket_credits wf_step
  "wf_count ticket_issued" "wf_count ticket_redeemed"
proof
  fix a p u
  assume inv: "auth_inv a"
  then show "auth_inv (wf_step a p)" by (simp add: wf_step_def auth_step_inv)
  show "ticket_credits (wf_step a p) u + wf_count ticket_redeemed a p u \<le>
      ticket_credits a u + wf_count ticket_issued a p u"
  proof (cases p)
    case (ConsumeLaunch t token)
    then show ?thesis by (simp add: wf_step_def wf_count_def ticket_credits_def consume_launch_frame)
  next
    case (IssueTicket t random)
    then show ?thesis
      using issue_ticket_credits [of t random a u]
      by (simp add: wf_step_def wf_count_def del: ticket_issued.simps) 
  next
    case (ConsumeTicket t token)
    then show ?thesis
      using consume_ticket_credits [OF inv, of token t u] by (simp add: wf_step_def wf_count_def)
  qed
qed

interpretation launch: one_time_store "\<lambda>_. True" launch_credits auth_step
  "\<lambda>_ _ _. 0" launch_redeemed
proof
  fix a p and u :: unit
  show "launch_credits (auth_step a p) u + launch_redeemed a p u \<le> launch_credits a u + 0"
    by (cases p)
       (auto simp: launch_credits_def launch_frame consume_launch_token_def split: sum.splits)
qed simp

section \<open>Properties\<close>

fun count_launches :: "ticket_authority \<Rightarrow> auth_op list \<Rightarrow> nat" where
  "count_launches a [] = 0"
| "count_launches a (p # ps) = launch_redeemed a p () + count_launches (auth_step a p) ps"

fun count_issued :: "bytes \<Rightarrow> ticket_authority \<Rightarrow> auth_op list \<Rightarrow> nat" where
  "count_issued u a [] = 0"
| "count_issued u a (p # ps) = ticket_issued a p u + count_issued u (auth_step a p) ps"

fun count_redeemed :: "bytes \<Rightarrow> ticket_authority \<Rightarrow> auth_op list \<Rightarrow> nat" where
  "count_redeemed u a [] = 0"
| "count_redeemed u a (p # ps) = ticket_redeemed a p u + count_redeemed u (auth_step a p) ps"

lemma count_launches_eq: "count_launches a ps = launch.redemptions a ps ()"
  by (induction ps arbitrary: a) simp_all

lemma counts_eq:
  "list_all auth_op_wf ps \<Longrightarrow>
     count_issued u a ps = tickets.issues a ps u \<and> count_redeemed u a ps = tickets.redemptions a ps u"
  by (induction ps arbitrary: a) (simp_all add: wf_count_def wf_step_def)

lemma run_wf_step: "list_all auth_op_wf ps \<Longrightarrow> foldl wf_step a ps = foldl auth_step a ps"
  by (induction ps arbitrary: a) (simp_all add: wf_step_def)

lemma auth_run_inv: "auth_inv a \<Longrightarrow> list_all auth_op_wf ps \<Longrightarrow> auth_inv (foldl auth_step a ps)"
  by (induction ps arbitrary: a) (simp_all add: auth_step_inv)

text \<open>The launch token authorises one launch: in any sequence of calls on the authority at most
  one \<open>consume_launch_token\<close> answers true, however the clock reads.\<close>

theorem launch_token_used_once: "count_launches (authority_new token expires) ps \<le> 1"
  using launch.redemptions_le_credits [where s = "authority_new token expires" and t = "()" and ps = ps]
  by (simp add: count_launches_eq launch_credits_def authority_new_def)

text \<open>C5. A peer ticket is redeemed at most as often as it was issued, and at no time are more than
  64 tickets pending: for every token and every sequence of calls on a new authority.\<close>

theorem tickets_redeemed_at_most_issued:
  assumes "length token = 16" and "list_all auth_op_wf ps"
  shows "count_redeemed u (authority_new token expires) ps \<le>
           count_issued u (authority_new token expires) ps \<and>
         length (ta_tickets (foldl auth_step (authority_new token expires) ps)) \<le> 64"
proof -
  have inv: "auth_inv (authority_new token expires)"
    using assms(1) by (simp add: auth_inv_def authority_new_def)
  have "ticket_credits (authority_new token expires) u = 0"
    by (simp add: ticket_credits_def authority_new_def)
  with tickets.redemptions_le_issues [OF inv] have
    "count_redeemed u (authority_new token expires) ps \<le> count_issued u (authority_new token expires) ps"
    by (simp add: counts_eq [OF assms(2)])
  with auth_run_inv [OF inv assms(2)] show ?thesis
    by (simp add: auth_inv_def MAX_PENDING_TICKETS_def)
qed

theorem tickets_redeemed_at_most_issued_witness:
  "let ps = [IssueTicket 5 (Some (replicate 16 7)), ConsumeTicket 6 (replicate 16 7),
             ConsumeTicket 7 (replicate 16 7)];
       a = authority_new (replicate 16 1) 100
   in count_redeemed (replicate 16 7) a ps \<le> count_issued (replicate 16 7) a ps"
  using tickets_redeemed_at_most_issued [of "replicate 16 1"
      "[IssueTicket 5 (Some (replicate 16 7)), ConsumeTicket 6 (replicate 16 7),
        ConsumeTicket 7 (replicate 16 7)]" "replicate 16 7" 100]
  by (simp add: Let_def)

text \<open>An issued ticket is good for 120 seconds and no longer: consumed at any time that the clock
  shows within its life it is accepted, after it it is not, and either way it is gone.\<close>

theorem ticket_lifetime:
  assumes "auth_inv a" and "length r = 16" and "r \<notin> tk_token ` set (ta_tickets a)"
    and "0 \<le> t" and "t + 120000 < 2 ^ 64" and "t \<le> t'" and "t' < 2 ^ 64"
    and "issue_ticket t (Some r) a = (Inr k, a')"
  shows "fst (consume_ticket t' r a') = Inr (t' \<le> t + 120000) \<and>
         r \<notin> tk_token ` set (ta_tickets (snd (consume_ticket t' r a')))"
proof -
  have t: "0 \<le> t'" "t < 2 ^ 64" using assms(4-7) by simp_all
  note now = now_ms_in_range(1) [OF assms(4) t(2)] now_ms_in_range(1) [OF t(1) assms(7)]
  note unat = now_ms_in_range(2) [OF assms(4) t(2)] now_ms_in_range(2) [OF t(1) assms(7)]
  let ?e = "saturating_add (word_of_int t) TICKET_TTL_MS :: u64"
  have e: "unat ?e = nat t + 120000"
    using assms(4,5) by (simp add: unat_saturating_add unat TICKET_TTL_MS_def)
  from assms(8) now have up: "\<not> ta_poisoned a"
    and a': "a' = a\<lparr>ta_tickets := retain_live (word_of_int t) (ta_tickets a) @
                     [\<lparr>tk_token = r, tk_expires_at_ms = ?e\<rparr>]\<rparr>"
    by (auto simp: issue_ticket_def Let_def split: if_splits)
  have inv: "auth_inv a'"
    using issue_ticket_inv [OF assms(1), of "Some r" t] assms(2,8) by simp
  have in': "r \<in> tk_token ` set (ta_tickets a')" by (simp add: a')
  let ?old = "retain_live (word_of_int t) (ta_tickets a)"
  have old: "r \<notin> tk_token ` set ?old" using assms(3) by (auto simp: set_retain_live)
  have only: "ta_tickets a' ! i = \<lparr>tk_token = r, tk_expires_at_ms = ?e\<rparr> \<and> i = length ?old"
    if "i < length (ta_tickets a')" "tk_token (ta_tickets a' ! i) = r" for i
  proof -
    have "\<not> i < length ?old" using that old nth_mem [of i ?old] by (auto simp: a' nth_append)
    with that show ?thesis by (simp add: a' nth_append less_Suc_eq)
  qed
  obtain i where i: "i < length (ta_tickets a')" "tk_token (ta_tickets a' ! i) = r"
    and eq: "consume_ticket t' r a' =
      (Inr (word_of_int t' \<le> tk_expires_at_ms (ta_tickets a' ! i)),
       a'\<lparr>ta_tickets := retain_live (word_of_int t') (take i (ta_tickets a') @ drop (Suc i) (ta_tickets a'))\<rparr>)"
    using consume_ticket_cases [OF inv assms(2), of t'] in' now up
    by (auto simp: consume_ticket_def a' split: option.splits)
  have "(word_of_int t' :: u64) \<le> ?e \<longleftrightarrow> t' \<le> t + 120000"
    using assms(4,6) by (auto simp: word_le_nat_alt unat e)
  moreover have "r \<notin> tk_token ` set (take i (ta_tickets a') @ drop (Suc i) (ta_tickets a'))"
    using only [OF i] old by (simp add: a')
  ultimately show ?thesis
    unfolding eq using only [OF i] by (auto simp: set_retain_live)
qed

theorem ticket_lifetime_witness:
  "let a = authority_new (replicate 16 1) 100;
       a' = snd (issue_ticket 5 (Some (replicate 16 7)) a)
   in fst (consume_ticket 120005 (replicate 16 7) a') = Inr True \<and>
      fst (consume_ticket 120006 (replicate 16 7) a') = Inr False"
proof -
  let ?a = "authority_new (replicate 16 1) 100"
  have inv: "auth_inv ?a" by (simp add: auth_inv_def authority_new_def MAX_PENDING_TICKETS_def)
  obtain k a' where k: "issue_ticket 5 (Some (replicate 16 7)) ?a = (Inr k, a')"
    by (auto simp: issue_ticket_def now_ms_def authority_new_def retain_live_def Let_def
        MAX_PENDING_TICKETS_def)
  have fresh: "replicate 16 7 \<notin> tk_token ` set (ta_tickets ?a)" by (simp add: authority_new_def)
  from ticket_lifetime [OF inv _ fresh _ _ _ _ k, of 120005]
    ticket_lifetime [OF inv _ fresh _ _ _ _ k, of 120006]
  show ?thesis by (simp add: k)
qed

end
