(* ===== verification/Extent_Grid.thy ===== *)
theory Extent_Grid
  imports Prelude "HOL-Library.Multiset"
begin

text \<open>
  The abstract specification every transfer component works against: a file of \<open>tot\<close>
  bytes is cut at multiples of \<open>ext\<close> into extents, the last one possibly shorter.  Schedulers
  hand these extents out, lanes are assigned some of them, trackers tick them off.

  The locale \<open>extent_ledger\<close> is the contract of a tracker: what a successful tick does to the
  set of counted slots.  Its clients' facts (a completed ledger has seen every extent exactly
  once) are proved here, and the trackers of the program interpret it.
\<close>

section \<open>The extents of a transfer\<close>

definition extent_count :: "nat \<Rightarrow> nat \<Rightarrow> nat" where
  "extent_count tot ext = nat_div_ceil tot ext"

definition extent_len :: "nat \<Rightarrow> nat \<Rightarrow> nat \<Rightarrow> nat" where
  "extent_len tot ext i = min ext (tot - i * ext)"

definition extent_grid :: "nat \<Rightarrow> nat \<Rightarrow> (nat \<times> nat) list" where
  "extent_grid tot ext = map (\<lambda>i. (i * ext, extent_len tot ext i)) [0..<extent_count tot ext]"

definition extent_bytes :: "nat \<times> nat \<Rightarrow> nat set" where
  "extent_bytes e = {fst e..<fst e + snd e}"

lemma less_extent_count_iff: "0 < ext \<Longrightarrow> i < extent_count tot ext \<longleftrightarrow> i * ext < tot"
  by (simp add: extent_count_def less_nat_div_ceil_iff)

lemma length_extent_grid [simp]: "length (extent_grid tot ext) = extent_count tot ext"
  by (simp add: extent_grid_def)

lemma extent_len_pos: "0 < ext \<Longrightarrow> i < extent_count tot ext \<Longrightarrow> 0 < extent_len tot ext i"
  by (simp add: less_extent_count_iff extent_len_def)

lemma extent_end_le:
  "0 < ext \<Longrightarrow> i < extent_count tot ext \<Longrightarrow> i * ext + extent_len tot ext i \<le> tot"
  by (auto simp: less_extent_count_iff extent_len_def)

lemma extent_count_pos: "0 < ext \<Longrightarrow> 0 < tot \<Longrightarrow> 0 < extent_count tot ext"
  by (simp add: less_extent_count_iff)

lemma set_extent_grid:
  assumes "0 < ext"
  shows "(off, len) \<in> set (extent_grid tot ext) \<longleftrightarrow>
           ext dvd off \<and> off < tot \<and> len = min ext (tot - off)"
  using assms
  by (auto simp: extent_grid_def extent_len_def less_extent_count_iff image_iff mult.commute
      elim!: dvdE)

lemma distinct_extent_grid: "0 < ext \<Longrightarrow> distinct (extent_grid tot ext)"
  by (auto simp: extent_grid_def distinct_map inj_on_def)

text \<open>The first \<open>k\<close> extents hold \<open>k * ext\<close> bytes, until the file ends.\<close>

lemma sum_extent_len: "(\<Sum>i<k. extent_len tot ext i) = min (k * ext) tot"
  by (induction k) (auto simp: extent_len_def min_def algebra_simps)

lemma sum_extent_count:
  assumes "0 < ext"
  shows "(\<Sum>i<extent_count tot ext. extent_len tot ext i) = tot"
  using less_extent_count_iff [OF assms, of "extent_count tot ext" tot]
  by (simp add: sum_extent_len min_def)

text \<open>A set of slots holds all the bytes only if it is all the slots.\<close>

lemma sum_extent_eq_total_iff:
  assumes ext: "0 < ext" and D: "D \<subseteq> {..<extent_count tot ext}"
  shows "(\<Sum>i\<in>D. extent_len tot ext i) = tot \<longleftrightarrow> D = {..<extent_count tot ext}"
proof
  let ?A = "{..<extent_count tot ext}"
  assume eq: "(\<Sum>i\<in>D. extent_len tot ext i) = tot"
  show "D = ?A"
  proof (rule ccontr)
    assume "D \<noteq> ?A"
    with D obtain j where j: "j \<in> ?A - D" by blast
    have "tot = (\<Sum>i\<in>?A. extent_len tot ext i)"
      by (simp add: sum_extent_count [OF ext])
    also have "\<dots> = (\<Sum>i\<in>D. extent_len tot ext i) + (\<Sum>i\<in>?A - D. extent_len tot ext i)"
      using D by (metis add.commute finite_lessThan sum.subset_diff)
    finally have "(\<Sum>i\<in>?A - D. extent_len tot ext i) = 0" using eq by simp
    with j have "extent_len tot ext j = 0" by simp
    with extent_len_pos [OF ext, of j tot] j show False by simp
  qed
qed (simp add: sum_extent_count [OF ext])

lemma sum_extent_le_total:
  assumes ext: "0 < ext" and D: "D \<subseteq> {..<extent_count tot ext}"
  shows "(\<Sum>i\<in>D. extent_len tot ext i) \<le> tot"
  using sum_mono2 [of "{..<extent_count tot ext}" D "extent_len tot ext"] D
  by (simp add: sum_extent_count [OF ext])

text \<open>The extents partition the bytes of the file.\<close>

lemma extent_bytes_iff:
  assumes ext: "0 < ext"
  shows "p \<in> extent_bytes (i * ext, extent_len tot ext i) \<longleftrightarrow> p < tot \<and> i = p div ext"
proof -
  have "i * ext \<le> p \<and> p < i * ext + ext \<longleftrightarrow> i = p div ext"
    using ext
    by (metis add.commute div_nat_eqI dividend_less_times_div mult.commute mult_Suc
        times_div_less_eq_dividend)
  moreover have "p \<in> extent_bytes (i * ext, extent_len tot ext i) \<longleftrightarrow>
      p < tot \<and> i * ext \<le> p \<and> p < i * ext + ext"
    by (simp add: extent_bytes_def extent_len_def) linarith
  ultimately show ?thesis by blast
qed

lemma Union_extent_grid:
  assumes "0 < ext"
  shows "(\<Union>e\<in>set (extent_grid tot ext). extent_bytes e) = {..<tot}"
proof -
  have "p div ext < extent_count tot ext" if "p < tot" for p
    using assms that less_extent_count_iff [OF assms]
    by (meson le_less_trans div_times_less_eq_dividend)
  then show ?thesis
    using assms by (auto simp: extent_grid_def extent_bytes_iff)
qed

section \<open>The contract of a tracker\<close>

locale extent_ledger =
  fixes invar :: "'t \<Rightarrow> bool"
    and tot :: "'t \<Rightarrow> nat"
    and ext :: "'t \<Rightarrow> nat"
    and slot :: "'t \<Rightarrow> 'k \<Rightarrow> nat"
    and counted :: "'t \<Rightarrow> nat set"
    and bytes :: "'t \<Rightarrow> nat"
    and mark :: "'t \<Rightarrow> 'k \<Rightarrow> 't option"
  assumes mark_invar: "invar t \<Longrightarrow> mark t k = Some t' \<Longrightarrow> invar t'"
    and mark_total: "invar t \<Longrightarrow> mark t k = Some t' \<Longrightarrow> tot t' = tot t"
    and mark_ext: "invar t \<Longrightarrow> mark t k = Some t' \<Longrightarrow> ext t' = ext t"
    and mark_slot: "invar t \<Longrightarrow> mark t k = Some t' \<Longrightarrow> slot t' = slot t"
    and mark_fresh: "invar t \<Longrightarrow> mark t k = Some t' \<Longrightarrow> slot t k \<notin> counted t"
    and mark_counted: "invar t \<Longrightarrow> mark t k = Some t' \<Longrightarrow> counted t' = insert (slot t k) (counted t)"
    and invar_ext: "invar t \<Longrightarrow> 0 < ext t"
    and invar_counted: "invar t \<Longrightarrow> counted t \<subseteq> {..<extent_count (tot t) (ext t)}"
    and invar_bytes: "invar t \<Longrightarrow> bytes t = (\<Sum>i\<in>counted t. extent_len (tot t) (ext t) i)"
begin

lemmas mark_laws = mark_invar mark_total mark_ext mark_slot mark_fresh mark_counted

fun mark_all :: "'t \<Rightarrow> 'k list \<Rightarrow> 't option" where
  "mark_all t [] = Some t"
| "mark_all t (k # ks) = (case mark t k of None \<Rightarrow> None | Some t' \<Rightarrow> mark_all t' ks)"

lemma mark_all_spec:
  assumes "invar t" and "mark_all t ks = Some t'"
  shows "invar t' \<and> tot t' = tot t \<and> ext t' = ext t
       \<and> distinct (map (slot t) ks) \<and> slot t ` set ks \<inter> counted t = {}
       \<and> counted t' = counted t \<union> slot t ` set ks"
  using assms
proof (induction ks arbitrary: t)
  case Nil
  then show ?case by simp
next
  case (Cons k ks)
  then obtain u where u: "mark t k = Some u" and rest: "mark_all u ks = Some t'"
    by (auto split: option.splits)
  note laws = mark_laws [OF Cons.prems(1) u]
  from Cons.IH [OF laws(1) rest] laws show ?case by auto
qed

lemma bytes_le_total: "invar t \<Longrightarrow> bytes t \<le> tot t"
  by (simp add: invar_bytes sum_extent_le_total invar_ext invar_counted)

lemma bytes_total_iff:
  "invar t \<Longrightarrow> bytes t = tot t \<longleftrightarrow> counted t = {..<extent_count (tot t) (ext t)}"
  by (simp add: invar_bytes sum_extent_eq_total_iff invar_ext invar_counted)

lemma mark_all_complete:
  assumes "invar t" and "counted t = {}" and "mark_all t ks = Some t'" and "bytes t' = tot t'"
  shows "mset (map (slot t) ks) = mset [0..<extent_count (tot t) (ext t)]"
proof -
  note spec = mark_all_spec [OF assms(1,3)]
  then have "slot t ` set ks = {..<extent_count (tot t) (ext t)}"
    using assms(2,4) bytes_total_iff [of t'] by simp
  then have "set (map (slot t) ks) = set [0..<extent_count (tot t) (ext t)]" by auto
  moreover have "distinct (map (slot t) ks)" using spec by simp
  ultimately show ?thesis
    by (metis distinct_upt set_eq_iff_mset_eq_distinct)
qed

end

end
