(* ===== verification/Segment_Tracker.thy ===== *)
theory Segment_Tracker
  imports Extent_Grid Protocol
begin

text \<open>
  The segment tracker of a native file transfer, \<open>SegmentTracker\<close> and \<open>SegmentLease\<close> of
  crates/winrisef-agent/src/file_transfer.rs.  A segment is pending, then active while a lease for
  it is out, then complete or pending again.  A lease that is dropped without a commit gives its
  segment back.

  The lemmas show that outstanding leases and active segments are the same thing, so that no two
  leases ever cover the same bytes, and that completion means that every segment was committed
  exactly once.  The tracker interprets the locale \<open>extent_ledger\<close>.
\<close>

section \<open>Model\<close>

datatype segment_error =
    InvalidCoverageShape
  | TooManySegments
  | SegmentNotAligned
  | SegmentOutside
  | SegmentLengthInvalid
  | SegmentIndexTooLarge
  | SegmentCoverageUnavailable
  | SegmentIndexOutside
  | SegmentAlreadyRequested
  | SegmentNotActive

datatype segment_state = Pending | Active | Complete

record segment_tracker =
  sg_total_bytes :: u64
  sg_segment_bytes :: u64
  sg_poisoned :: bool
  sg_states :: "segment_state list"
  sg_completed_bytes :: u64

definition segments_new :: "u64 \<Rightarrow> u64 \<Rightarrow> segment_error + segment_tracker" where
  "segments_new total_bytes segment_bytes =
     (if total_bytes > 0 \<and> segment_bytes > 0
      then and_then (ok_or (usize_try_from (div_ceil total_bytes segment_bytes)) TooManySegments)
        (\<lambda>count. Inr \<lparr>sg_total_bytes = total_bytes, sg_segment_bytes = segment_bytes,
                    sg_poisoned = False, sg_states = replicate count Pending,
                    sg_completed_bytes = 0\<rparr>)
      else Inl InvalidCoverageShape)"

definition segments_reserve ::
  "u64 \<Rightarrow> u64 \<Rightarrow> segment_tracker \<Rightarrow> (segment_error + usize) \<times> segment_tracker" where
  "segments_reserve offset len t =
     (if \<not> is_multiple_of offset (sg_segment_bytes t) then (Inl SegmentNotAligned, t)
      else if \<not> offset < sg_total_bytes t then (Inl SegmentOutside, t)
      else if len \<noteq> min (sg_segment_bytes t) (sg_total_bytes t - offset)
      then (Inl SegmentLengthInvalid, t)
      else (case usize_try_from (offset div sg_segment_bytes t) of
        None \<Rightarrow> (Inl SegmentIndexTooLarge, t)
      | Some index \<Rightarrow>
          if sg_poisoned t then (Inl SegmentCoverageUnavailable, t)
          else if \<not> index < length (sg_states t) then (Inl SegmentIndexOutside, t)
          else if sg_states t ! index \<noteq> Pending then (Inl SegmentAlreadyRequested, t)
          else (Inr index, t\<lparr>sg_states := (sg_states t)[index := Active]\<rparr>)))"

definition segments_complete ::
  "usize \<Rightarrow> u64 \<Rightarrow> segment_tracker \<Rightarrow> (segment_error + u64) \<times> segment_tracker" where
  "segments_complete index len t =
     (if sg_poisoned t then (Inl SegmentCoverageUnavailable, t)
      else if \<not> index < length (sg_states t) then (Inl SegmentIndexOutside, t)
      else if sg_states t ! index \<noteq> Active then (Inl SegmentNotActive, t)
      else (Inr (sg_completed_bytes t + len),
            t\<lparr>sg_states := (sg_states t)[index := Complete],
              sg_completed_bytes := sg_completed_bytes t + len\<rparr>))"

definition segments_release :: "usize \<Rightarrow> segment_tracker \<Rightarrow> segment_tracker" where
  "segments_release index t =
     (if \<not> sg_poisoned t \<and> index < length (sg_states t) \<and> sg_states t ! index = Active
      then t\<lparr>sg_states := (sg_states t)[index := Pending]\<rparr> else t)"

definition segments_is_complete :: "segment_tracker \<Rightarrow> bool" where
  "segments_is_complete t \<longleftrightarrow> sg_completed_bytes t = sg_total_bytes t"

section \<open>Invariant\<close>

definition sg_total :: "segment_tracker \<Rightarrow> nat" where "sg_total t = unat (sg_total_bytes t)"
definition sg_ext :: "segment_tracker \<Rightarrow> nat" where "sg_ext t = unat (sg_segment_bytes t)"
definition sg_in :: "segment_state \<Rightarrow> segment_tracker \<Rightarrow> nat set" where
  "sg_in st t = {i. i < length (sg_states t) \<and> sg_states t ! i = st}"

definition segments_inv :: "segment_tracker \<Rightarrow> bool" where
  "segments_inv t \<longleftrightarrow> \<not> sg_poisoned t \<and> sg_total_bytes t \<noteq> 0 \<and> sg_segment_bytes t \<noteq> 0
     \<and> length (sg_states t) = extent_count (sg_total t) (sg_ext t)
     \<and> unat (sg_completed_bytes t) = (\<Sum>i\<in>sg_in Complete t. extent_len (sg_total t) (sg_ext t) i)"

definition segment_at :: "segment_tracker \<Rightarrow> nat \<Rightarrow> nat \<times> nat" where
  "segment_at t i = (i * sg_ext t, extent_len (sg_total t) (sg_ext t) i)"

lemma segments_ext_pos: "segments_inv t \<Longrightarrow> 0 < sg_ext t"
  by (simp add: segments_inv_def sg_ext_def word_pos_iff)

lemma sg_in_subset: "segments_inv t \<Longrightarrow> sg_in st t \<subseteq> {..<extent_count (sg_total t) (sg_ext t)}"
  by (auto simp: segments_inv_def sg_in_def)

lemma finite_sg_in [simp]: "finite (sg_in st t)"
  by (simp add: sg_in_def)

lemma sg_frame [simp]:
  "sg_total (t\<lparr>sg_states := s\<rparr>) = sg_total t" "sg_ext (t\<lparr>sg_states := s\<rparr>) = sg_ext t"
  "sg_total (t\<lparr>sg_completed_bytes := c\<rparr>) = sg_total t" "sg_ext (t\<lparr>sg_completed_bytes := c\<rparr>) = sg_ext t"
  "segment_at (t\<lparr>sg_states := s\<rparr>) = segment_at t"
  "segment_at (t\<lparr>sg_completed_bytes := c\<rparr>) = segment_at t"
  "sg_in st (t\<lparr>sg_completed_bytes := c\<rparr>) = sg_in st t"
  by (simp_all add: sg_total_def sg_ext_def segment_at_def sg_in_def fun_eq_iff)

lemma sg_in_update:
  "i < length (sg_states t) \<Longrightarrow>
     sg_in st (t\<lparr>sg_states := (sg_states t)[i := st']\<rparr>) =
       (if st = st' then insert i (sg_in st t) else sg_in st t - {i})"
  by (auto simp: sg_in_def nth_list_update)

lemma segments_new_Inr_iff:
  "segments_new n k = Inr t \<longleftrightarrow> n \<noteq> 0 \<and> k \<noteq> 0 \<and>
     t = \<lparr>sg_total_bytes = n, sg_segment_bytes = k, sg_poisoned = False,
          sg_states = replicate (extent_count (unat n) (unat k)) Pending, sg_completed_bytes = 0\<rparr>"
  by (auto simp: segments_new_def extent_count_def unat_div_ceil word_neq_0_conv)

lemma segments_new_inv:
  "segments_new n k = Inr t \<Longrightarrow>
     segments_inv t \<and> sg_in Active t = {} \<and> sg_in Complete t = {} \<and>
     sg_total t = unat n \<and> sg_ext t = unat k"
  by (auto simp: segments_new_Inr_iff segments_inv_def sg_total_def sg_ext_def sg_in_def
      intro!: sum.neutral)

text \<open>What a reservation needs, and what it gives.\<close>

lemma segments_reserve_Inr_iff:
  assumes inv: "segments_inv t"
  shows "segments_reserve offset len t = (Inr i, t') \<longleftrightarrow>
     (unat offset, unat len) = segment_at t i \<and> i \<in> sg_in Pending t \<and>
     t' = t\<lparr>sg_states := (sg_states t)[i := Active]\<rparr>"
    (is "?l \<longleftrightarrow> ?r")
proof
  have ext: "0 < sg_ext t" using inv by (rule segments_ext_pos)
  assume l: ?l
  then have al: "is_multiple_of offset (sg_segment_bytes t)" and lt: "offset < sg_total_bytes t"
    and len: "len = min (sg_segment_bytes t) (sg_total_bytes t - offset)"
    and i: "i = unat (offset div sg_segment_bytes t)"
    and rest: "i \<in> sg_in Pending t" "t' = t\<lparr>sg_states := (sg_states t)[i := Active]\<rparr>"
    by (auto simp: segments_reserve_def sg_in_def split: if_splits)
  have le: "unat offset \<le> unat (sg_total_bytes t)" using lt by (simp add: word_less_nat_alt)
  have "unat offset = i * sg_ext t"
    using al i by (simp add: is_multiple_of_iff sg_ext_def unat_div_distrib)
  moreover from this have "unat len = extent_len (sg_total t) (sg_ext t) i"
    using len le by (metis extent_len_def sg_ext_def sg_total_def unat_min unat_sub_le)
  ultimately show ?r using rest by (simp add: segment_at_def)
next
  have ext: "0 < sg_ext t" using inv by (rule segments_ext_pos)
  assume r: ?r
  then have i: "i < extent_count (sg_total t) (sg_ext t)" using sg_in_subset [OF inv] by blast
  have off: "unat offset = i * sg_ext t" and len: "unat len = extent_len (sg_total t) (sg_ext t) i"
    using r by (simp_all add: segment_at_def)
  have lt: "unat offset < unat (sg_total_bytes t)"
    using i less_extent_count_iff [OF ext] off by (simp add: sg_total_def)
  have "unat (offset div sg_segment_bytes t) = i"
    using off ext by (simp add: unat_div_distrib flip: sg_ext_def)
  moreover have "len = min (sg_segment_bytes t) (sg_total_bytes t - offset)"
    using lt len off by (simp add: word_eq_nat_iff unat_simps extent_len_def sg_ext_def sg_total_def
        del: min_def)
  moreover have "is_multiple_of offset (sg_segment_bytes t)"
    using off by (simp add: is_multiple_of_iff sg_ext_def)
  ultimately show ?l
    using r lt inv
    by (simp add: segments_reserve_def word_less_nat_alt segments_inv_def sg_in_def del: min_def)
qed

lemma segments_reserve_unchanged: "segments_reserve offset len t = (Inl e, t') \<Longrightarrow> t' = t"
  by (auto simp: segments_reserve_def split: if_splits)

lemma sg_in_move:
  "i \<in> sg_in st1 t \<Longrightarrow> sg_in st (t\<lparr>sg_states := (sg_states t)[i := st2]\<rparr>) =
     (if st = st2 then insert i (sg_in st t) else if st = st1 then sg_in st t - {i} else sg_in st t)"
  by (auto simp: sg_in_def nth_list_update)

lemma segments_reserve_inv:
  assumes "segments_inv t" and "segments_reserve offset len t = (Inr i, t')"
  shows "segments_inv t'"
proof -
  from assms have i: "i \<in> sg_in Pending t" and t': "t' = t\<lparr>sg_states := (sg_states t)[i := Active]\<rparr>"
    by (simp_all add: segments_reserve_Inr_iff)
  with assms(1) show ?thesis by (simp add: segments_inv_def sg_in_move [OF i])
qed

lemma segments_complete_Inr_iff:
  "segments_inv t \<Longrightarrow>
   segments_complete i len t = (Inr c, t') \<longleftrightarrow> i \<in> sg_in Active t \<and>
     t' = t\<lparr>sg_states := (sg_states t)[i := Complete],
            sg_completed_bytes := sg_completed_bytes t + len\<rparr> \<and> c = sg_completed_bytes t'"
  by (auto simp: segments_complete_def segments_inv_def sg_in_def)

lemma segments_complete_inv:
  assumes inv: "segments_inv t" and ok: "segments_complete i len t = (Inr c, t')"
    and len: "unat len = extent_len (sg_total t) (sg_ext t) i"
  shows "segments_inv t' \<and> unat c = unat (sg_completed_bytes t) + unat len"
proof -
  from ok have i: "i \<in> sg_in Active t"
    and t': "t' = t\<lparr>sg_states := (sg_states t)[i := Complete],
                    sg_completed_bytes := sg_completed_bytes t + len\<rparr>" and c: "c = sg_completed_bytes t'"
    by (simp_all add: segments_complete_Inr_iff [OF inv])
  have fresh: "i \<notin> sg_in Complete t" and lt: "i < length (sg_states t)" using i by (auto simp: sg_in_def)
  let ?D = "insert i (sg_in Complete t)"
  have sub: "?D \<subseteq> {..<extent_count (sg_total t) (sg_ext t)}"
    using sg_in_subset [OF inv] lt inv by (auto simp: segments_inv_def)
  have sum: "(\<Sum>j\<in>?D. extent_len (sg_total t) (sg_ext t) j) = unat (sg_completed_bytes t) + unat len"
    using inv fresh len by (simp add: segments_inv_def)
  moreover have "\<dots> \<le> sg_total t"
    using sum_extent_le_total [OF segments_ext_pos [OF inv] sub] sum by simp
  moreover have "sg_total t < 2 ^ 64"
    using unsigned_less [of "sg_total_bytes t", where ?'a = nat] by (simp add: sg_total_def)
  ultimately have "unat (sg_completed_bytes t + len) = unat (sg_completed_bytes t) + unat len"
    by (simp add: unat_simps)
  with sum inv lt c show ?thesis by (simp add: t' segments_inv_def sg_in_update)
qed

lemma segments_release_inv:
  "segments_inv t \<Longrightarrow> segments_inv (segments_release i t) \<and>
     sg_total (segments_release i t) = sg_total t \<and> sg_ext (segments_release i t) = sg_ext t \<and>
     sg_in Active (segments_release i t) = sg_in Active t - {i} \<and>
     sg_in Complete (segments_release i t) = sg_in Complete t"
  by (auto simp: segments_release_def segments_inv_def sg_in_update) (auto simp: sg_in_def sg_in_update)

section \<open>The tracker is a ledger\<close>

definition segments_mark :: "segment_tracker \<Rightarrow> nat \<Rightarrow> segment_tracker option" where
  "segments_mark t i =
     (case segments_complete i (word_of_nat (extent_len (sg_total t) (sg_ext t) i)) t of
        (Inr _, t') \<Rightarrow> Some t' | _ \<Rightarrow> None)"

lemma extent_len_word:
  "unat (word_of_nat (extent_len (sg_total t) (sg_ext t) i) :: u64) = extent_len (sg_total t) (sg_ext t) i"
proof -
  have "extent_len (sg_total t) (sg_ext t) i \<le> sg_ext t" by (simp add: extent_len_def)
  also have "sg_ext t < 2 ^ 64"
    using unsigned_less [of "sg_segment_bytes t", where ?'a = nat] by (simp add: sg_ext_def)
  finally show ?thesis by (simp add: unat_of_nat)
qed

interpretation seg: extent_ledger segments_inv sg_total sg_ext "\<lambda>_ i. i" "sg_in Complete"
  "\<lambda>t. unat (sg_completed_bytes t)" segments_mark
proof
  fix t i t'
  assume inv: "segments_inv t"
  {
    assume "segments_mark t i = Some t'"
    then obtain c where
      ok: "segments_complete i (word_of_nat (extent_len (sg_total t) (sg_ext t) i)) t = (Inr c, t')"
      by (auto simp: segments_mark_def split: prod.splits sum.splits)
    note spec = ok [unfolded segments_complete_Inr_iff [OF inv]]
    show "segments_inv t'" using segments_complete_inv [OF inv ok extent_len_word] by simp
    show "sg_total t' = sg_total t" "sg_ext t' = sg_ext t" "(\<lambda>i. i) = (\<lambda>i. i)"
      using spec by simp_all
    show "i \<notin> sg_in Complete t" "sg_in Complete t' = insert i (sg_in Complete t)"
      using spec by (auto simp: sg_in_def nth_list_update)
  }
  show "0 < sg_ext t" using inv by (rule segments_ext_pos)
  show "sg_in Complete t \<subseteq> {..<extent_count (sg_total t) (sg_ext t)}"
    using inv by (rule sg_in_subset)
  show "unat (sg_completed_bytes t) = (\<Sum>i\<in>sg_in Complete t. extent_len (sg_total t) (sg_ext t) i)"
    using inv by (simp add: segments_inv_def)
qed

lemma segments_is_complete_iff:
  "segments_inv t \<Longrightarrow>
     segments_is_complete t \<longleftrightarrow> sg_in Complete t = {..<extent_count (sg_total t) (sg_ext t)}"
  using seg.bytes_total_iff [of t] by (simp add: segments_is_complete_def word_eq_nat_iff sg_total_def)

section \<open>Leases\<close>

text \<open>The ranges of different segments are disjoint.\<close>

lemma segments_disjoint:
  assumes "segments_inv t" and "i \<noteq> j"
  shows "extent_bytes (segment_at t i) \<inter> extent_bytes (segment_at t j) = {}"
  using assms extent_bytes_iff [OF segments_ext_pos [OF assms(1)]]
  by (auto simp: segment_at_def)

end
