(* ===== verification/Bounded_Resource.thy ===== *)
theory Bounded_Resource
  imports Prelude
begin

text \<open>
  The contract of everything in the program that hands out a bounded number of permits per key:
  semaphores, the per-address connection tracker, the buffer pool.  A client that gives back
  only what it holds never holds more than the capacity, and is refused only when it holds all
  of it.  Semaphores of the runtime are modelled here, since several components use them.
\<close>

section \<open>The contract\<close>

datatype 'k permit_op = Take 'k | Give 'k

locale bounded_resource =
  fixes invar :: "'s \<Rightarrow> bool"
    and capacity :: "'s \<Rightarrow> 'k \<Rightarrow> nat"
    and held :: "'s \<Rightarrow> 'k \<Rightarrow> nat"
    and acquire :: "'k \<Rightarrow> 's \<Rightarrow> 's option"
    and release :: "'k \<Rightarrow> 's \<Rightarrow> 's"
  assumes acquire_Some: "invar s \<Longrightarrow> acquire k s = Some s' \<Longrightarrow>
        invar s' \<and> held s' = (held s)(k := Suc (held s k)) \<and> capacity s' = capacity s"
    and acquire_None_iff: "invar s \<Longrightarrow> acquire k s = None \<longleftrightarrow> capacity s k \<le> held s k"
    and release_spec: "invar s \<Longrightarrow> 0 < held s k \<Longrightarrow>
        invar (release k s) \<and> held (release k s) = (held s)(k := held s k - 1) \<and>
        capacity (release k s) = capacity s"
begin

text \<open>A client run: a refused acquisition leaves the state alone, a release needs a held permit.\<close>

fun permit_step :: "'s \<Rightarrow> 'k permit_op \<Rightarrow> 's" where
  "permit_step s (Take k) = (case acquire k s of None \<Rightarrow> s | Some s' \<Rightarrow> s')"
| "permit_step s (Give k) = (if 0 < held s k then release k s else s)"

definition within :: "'s \<Rightarrow> bool" where
  "within s \<longleftrightarrow> (\<forall>k. held s k \<le> capacity s k)"

lemma permit_step_spec:
  assumes "invar s" and "within s"
  shows "invar (permit_step s p) \<and> within (permit_step s p) \<and>
         capacity (permit_step s p) = capacity s"
proof (cases p)
  case (Take k)
  show ?thesis
  proof (cases "acquire k s")
    case (Some s')
    then have "\<not> capacity s k \<le> held s k" using acquire_None_iff [OF assms(1), of k] by simp
    with Some Take acquire_Some [OF assms(1) Some] assms(2) show ?thesis
      by (auto simp: within_def)
  qed (use Take assms in simp)
next
  case (Give k)
  with release_spec [OF assms(1), of k] assms show ?thesis
    by (auto simp: within_def intro: le_trans diff_le_self)
qed

lemma permit_run_within:
  "invar s \<Longrightarrow> within s \<Longrightarrow>
     invar (foldl permit_step s ps) \<and> within (foldl permit_step s ps) \<and>
     capacity (foldl permit_step s ps) = capacity s"
proof (induction ps arbitrary: s)
  case (Cons p ps)
  with permit_step_spec [OF Cons.prems, of p] show ?case by simp
qed simp

lemma refused_iff_full:
  "invar s \<Longrightarrow> within s \<Longrightarrow> acquire k s = None \<longleftrightarrow> held s k = capacity s k"
  by (auto simp: acquire_None_iff within_def intro: antisym)

lemma release_frees:
  assumes "invar s" and "within s" and "0 < held s k"
  shows "acquire k (release k s) \<noteq> None"
proof -
  from assms(2) have "held s k \<le> capacity s k" by (simp add: within_def)
  with release_spec [OF assms(1,3)] assms(3) acquire_None_iff [of "release k s" k]
  show ?thesis by simp
qed

end

section \<open>Semaphores\<close>

text \<open>
  The tokio semaphore as the program uses it: permits are taken without waiting, one or many at
  a time, and come back when their guard is dropped.  The state is the number of permits and how
  many are out.
\<close>

record semaphore =
  sem_permits :: nat
  sem_taken :: nat

definition semaphore_new :: "nat \<Rightarrow> semaphore" where
  "semaphore_new n = \<lparr>sem_permits = n, sem_taken = 0\<rparr>"

definition try_acquire_many :: "nat \<Rightarrow> semaphore \<Rightarrow> semaphore option" where
  "try_acquire_many n s =
     (if sem_taken s + n \<le> sem_permits s then Some (s\<lparr>sem_taken := sem_taken s + n\<rparr>) else None)"

definition try_acquire :: "semaphore \<Rightarrow> semaphore option" where
  "try_acquire s = try_acquire_many 1 s"

definition release_many :: "nat \<Rightarrow> semaphore \<Rightarrow> semaphore" where
  "release_many n s = s\<lparr>sem_taken := sem_taken s - n\<rparr>"

interpretation sem: bounded_resource "\<lambda>_. True" "\<lambda>s _. sem_permits s" "\<lambda>s _. sem_taken s"
  "\<lambda>_::unit. try_acquire" "\<lambda>_. release_many 1"
  by unfold_locales
     (auto simp: try_acquire_def try_acquire_many_def release_many_def fun_eq_iff split: if_splits)

lemma try_acquire_many_all:
  "try_acquire_many (sem_permits s) s \<noteq> None \<longleftrightarrow> sem_taken s = 0"
  by (auto simp: try_acquire_many_def)

end
