(* ===== verification/Buffer_Pool.thy ===== *)
theory Buffer_Pool
  imports Bounded_Resource
begin

text \<open>
  The pool of reusable I/O buffers, crates/winrisef-core/src/buffer_pool.rs.  The mutex of the
  pool is its poison flag; \<open>drop\<close> of a buffer is the explicit operation that gives it back.
  A program state is the pool with the buffers that are out.

  The lemmas show that buffers are conserved: what is allocated is in the pool or out, never
  more than the configured count, all of the block size.
\<close>

section \<open>Model\<close>

datatype buffer_pool_error =
    EmptyPool
  | EmptyBuffer
  | Exhausted
  | PoolPoisoned
  | LengthOutOfRange nat nat

record buffer_pool =
  bp_block_size :: nat
  bp_buffer_count :: nat
  bp_poisoned :: bool
  bp_allocated :: nat
  bp_available :: "bytes list"

record pooled_buffer =
  pb_block_size :: nat
  pb_bytes :: "bytes option"
  pb_logical_len :: nat

definition validate_shape :: "nat \<Rightarrow> nat \<Rightarrow> buffer_pool_error + unit" where
  "validate_shape buffer_count block_size =
     (if buffer_count = 0 then Inl EmptyPool
      else if block_size = 0 then Inl EmptyBuffer
      else Inr ())"

definition pool_new :: "nat \<Rightarrow> nat \<Rightarrow> buffer_pool_error + buffer_pool" where
  "pool_new buffer_count block_size =
     and_then (validate_shape buffer_count block_size) (\<lambda>_.
       Inr \<lparr>bp_block_size = block_size, bp_buffer_count = buffer_count, bp_poisoned = False,
            bp_allocated = buffer_count,
            bp_available = replicate buffer_count (replicate block_size 0)\<rparr>)"

definition pool_new_lazy :: "nat \<Rightarrow> nat \<Rightarrow> buffer_pool_error + buffer_pool" where
  "pool_new_lazy buffer_count block_size =
     and_then (validate_shape buffer_count block_size) (\<lambda>_.
       Inr \<lparr>bp_block_size = block_size, bp_buffer_count = buffer_count, bp_poisoned = False,
            bp_allocated = 0, bp_available = []\<rparr>)"

text \<open>The vector of free buffers is a stack: \<open>pop\<close> takes its last element, \<open>push\<close> appends.\<close>

definition pool_acquire :: "buffer_pool \<Rightarrow> (buffer_pool_error + pooled_buffer) \<times> buffer_pool" where
  "pool_acquire p =
     (if bp_poisoned p then (Inl PoolPoisoned, p)
      else if bp_available p \<noteq> [] then
        (Inr \<lparr>pb_block_size = bp_block_size p, pb_bytes = Some (last (bp_available p)),
              pb_logical_len = 0\<rparr>,
         p\<lparr>bp_available := butlast (bp_available p)\<rparr>)
      else if bp_allocated p < bp_buffer_count p then
        (Inr \<lparr>pb_block_size = bp_block_size p, pb_bytes = Some (replicate (bp_block_size p) 0),
              pb_logical_len = 0\<rparr>,
         p\<lparr>bp_allocated := bp_allocated p + 1\<rparr>)
      else (Inl Exhausted, p))"

definition pool_available_count :: "buffer_pool \<Rightarrow> buffer_pool_error + nat" where
  "pool_available_count p = (if bp_poisoned p then Inl PoolPoisoned else Inr (length (bp_available p)))"

definition pool_allocated_count :: "buffer_pool \<Rightarrow> buffer_pool_error + nat" where
  "pool_allocated_count p = (if bp_poisoned p then Inl PoolPoisoned else Inr (bp_allocated p))"

definition buffer_set_len ::
  "pooled_buffer \<Rightarrow> nat \<Rightarrow> (buffer_pool_error + unit) \<times> pooled_buffer" where
  "buffer_set_len b logical_len =
     (if pb_block_size b < logical_len
      then (Inl (LengthOutOfRange logical_len (pb_block_size b)), b)
      else (Inr (), b\<lparr>pb_logical_len := logical_len\<rparr>))"

definition buffer_len :: "pooled_buffer \<Rightarrow> nat" where
  "buffer_len b = pb_logical_len b"

definition buffer_is_empty :: "pooled_buffer \<Rightarrow> bool" where
  "buffer_is_empty b \<longleftrightarrow> pb_logical_len b = 0"

text \<open>
  Writing through \<open>full_mut\<close> at \<open>start\<close>, and reading through \<open>deref\<close>.  Both panic on a
  buffer that was dropped; the slice of \<open>deref\<close> panics past the end of the block.
\<close>

definition buffer_write :: "pooled_buffer \<Rightarrow> nat \<Rightarrow> bytes \<Rightarrow> pooled_buffer option" where
  "buffer_write b start src =
     (case pb_bytes b of
        None \<Rightarrow> None
      | Some bs \<Rightarrow>
          if start + length src \<le> length bs
          then Some (b\<lparr>pb_bytes := Some (take start bs @ src @ drop (start + length src) bs)\<rparr>)
          else None)"

definition buffer_deref :: "pooled_buffer \<Rightarrow> bytes option" where
  "buffer_deref b =
     (case pb_bytes b of
        None \<Rightarrow> None
      | Some bs \<Rightarrow> if pb_logical_len b \<le> length bs then Some (take (pb_logical_len b) bs) else None)"

definition buffer_drop :: "pooled_buffer \<Rightarrow> buffer_pool \<Rightarrow> buffer_pool" where
  "buffer_drop b p =
     (case pb_bytes b of
        None \<Rightarrow> p
      | Some bs \<Rightarrow> if bp_poisoned p then p else p\<lparr>bp_available := bp_available p @ [bs]\<rparr>)"

section \<open>Conservation\<close>

record pool_state =
  ps_pool :: buffer_pool
  ps_out :: "pooled_buffer list"

definition buffer_wf :: "buffer_pool \<Rightarrow> pooled_buffer \<Rightarrow> bool" where
  "buffer_wf p b \<longleftrightarrow> pb_block_size b = bp_block_size p \<and> pb_logical_len b \<le> bp_block_size p \<and>
     (\<exists>bs. pb_bytes b = Some bs \<and> length bs = bp_block_size p)"

definition pool_inv :: "pool_state \<Rightarrow> bool" where
  "pool_inv s \<longleftrightarrow>
     \<not> bp_poisoned (ps_pool s) \<and> 0 < bp_block_size (ps_pool s) \<and>
     bp_allocated (ps_pool s) = length (bp_available (ps_pool s)) + length (ps_out s) \<and>
     bp_allocated (ps_pool s) \<le> bp_buffer_count (ps_pool s) \<and>
     (\<forall>bs \<in> set (bp_available (ps_pool s)). length bs = bp_block_size (ps_pool s)) \<and>
     (\<forall>b \<in> set (ps_out s). buffer_wf (ps_pool s) b)"

definition state_acquire :: "pool_state \<Rightarrow> pool_state option" where
  "state_acquire s =
     (case pool_acquire (ps_pool s) of
        (Inr b, p) \<Rightarrow> Some \<lparr>ps_pool = p, ps_out = b # ps_out s\<rparr>
      | (Inl _, _) \<Rightarrow> None)"

definition state_drop :: "nat \<Rightarrow> pool_state \<Rightarrow> pool_state" where
  "state_drop i s =
     (if i < length (ps_out s)
      then \<lparr>ps_pool = buffer_drop (ps_out s ! i) (ps_pool s),
            ps_out = take i (ps_out s) @ drop (Suc i) (ps_out s)\<rparr>
      else s)"

lemma pool_new_inv:
  "pool_new n k = Inr p \<or> pool_new_lazy n k = Inr p \<Longrightarrow> pool_inv \<lparr>ps_pool = p, ps_out = []\<rparr>"
  by (auto simp: pool_new_def pool_new_lazy_def validate_shape_def pool_inv_def split: if_splits)

lemma pool_acquire_cases:
  assumes "pool_inv s"
  shows "(\<exists>b p. pool_acquire (ps_pool s) = (Inr b, p) \<and>
            length (ps_out s) < bp_buffer_count (ps_pool s) \<and>
            pool_inv \<lparr>ps_pool = p, ps_out = b # ps_out s\<rparr> \<and>
            bp_buffer_count p = bp_buffer_count (ps_pool s)) \<or>
         (pool_acquire (ps_pool s) = (Inl Exhausted, ps_pool s) \<and>
            length (ps_out s) = bp_buffer_count (ps_pool s))"
proof (cases "bp_available (ps_pool s) = []")
  case True
  with assms show ?thesis by (auto simp: pool_acquire_def pool_inv_def buffer_wf_def)
next
  case False
  then obtain xs x where snoc: "bp_available (ps_pool s) = xs @ [x]"
    by (metis append_butlast_last_id)
  with assms show ?thesis by (auto simp: pool_acquire_def pool_inv_def buffer_wf_def)
qed

lemma state_acquire_inv:
  assumes "pool_inv s" and "state_acquire s = Some s'"
  shows "pool_inv s' \<and> length (ps_out s') = Suc (length (ps_out s)) \<and>
         bp_buffer_count (ps_pool s') = bp_buffer_count (ps_pool s)"
  using pool_acquire_cases [OF assms(1)] assms(2) by (auto simp: state_acquire_def)

lemma state_acquire_None:
  "pool_inv s \<Longrightarrow> state_acquire s = None \<longleftrightarrow> bp_buffer_count (ps_pool s) \<le> length (ps_out s)"
  using pool_acquire_cases [of s] by (auto simp: state_acquire_def)

lemma state_drop_inv:
  assumes inv: "pool_inv s" and i: "i < length (ps_out s)"
  shows "pool_inv (state_drop i s) \<and> length (ps_out (state_drop i s)) = length (ps_out s) - 1 \<and>
         bp_buffer_count (ps_pool (state_drop i s)) = bp_buffer_count (ps_pool s)"
proof -
  have "ps_out s ! i \<in> set (ps_out s)" using i by simp
  with inv obtain bs where bs: "pb_bytes (ps_out s ! i) = Some bs"
    "length bs = bp_block_size (ps_pool s)"
    by (auto simp: pool_inv_def buffer_wf_def)
  have "set (take i (ps_out s) @ drop (Suc i) (ps_out s)) \<subseteq> set (ps_out s)"
    by (auto dest: in_set_takeD in_set_dropD)
  with inv i bs show ?thesis
    by (auto simp: state_drop_def buffer_drop_def pool_inv_def buffer_wf_def)
qed

lemma buffer_ops_wf:
  "buffer_wf p b \<Longrightarrow> buffer_wf p (snd (buffer_set_len b n))"
  "buffer_wf p b \<Longrightarrow> buffer_write b start src = Some b' \<Longrightarrow> buffer_wf p b'"
  by (auto simp: buffer_wf_def buffer_set_len_def buffer_write_def split: if_splits)

lemma buffer_deref_len: "buffer_wf p b \<Longrightarrow> \<exists>bs. buffer_deref b = Some bs \<and> length bs = buffer_len b"
  by (auto simp: buffer_wf_def buffer_deref_def buffer_len_def)

interpretation pool: bounded_resource pool_inv "\<lambda>s _. bp_buffer_count (ps_pool s)"
  "\<lambda>s _. length (ps_out s)" "\<lambda>_::unit. state_acquire" "\<lambda>_. state_drop 0"
proof
  fix s :: pool_state and k :: unit and s'
  assume inv: "pool_inv s"
  show "pool_inv s' \<and> (\<lambda>_. length (ps_out s')) = (\<lambda>_. length (ps_out s))(k := Suc (length (ps_out s))) \<and>
      (\<lambda>_. bp_buffer_count (ps_pool s')) = (\<lambda>_. bp_buffer_count (ps_pool s))"
    if "state_acquire s = Some s'"
    using state_acquire_inv [OF inv that] by (simp add: fun_eq_iff)
  show "state_acquire s = None \<longleftrightarrow> bp_buffer_count (ps_pool s) \<le> length (ps_out s)"
    using inv by (rule state_acquire_None)
  show "pool_inv (state_drop 0 s) \<and>
      (\<lambda>_. length (ps_out (state_drop 0 s))) = (\<lambda>_. length (ps_out s))(k := length (ps_out s) - 1) \<and>
      (\<lambda>_. bp_buffer_count (ps_pool (state_drop 0 s))) = (\<lambda>_. bp_buffer_count (ps_pool s))"
    if "0 < length (ps_out s)"
    using state_drop_inv [OF inv that] by (simp add: fun_eq_iff)
qed

section \<open>Runs of the pool\<close>

text \<open>What the holders of a pool can do, in any order: positions name the buffers that are out.\<close>

datatype pool_op =
    AcquireBuffer
  | SetLen nat nat
  | WriteBuffer nat nat bytes
  | DropBuffer nat

fun pool_step :: "pool_state \<Rightarrow> pool_op \<Rightarrow> pool_state" where
  "pool_step s AcquireBuffer = (case state_acquire s of None \<Rightarrow> s | Some s' \<Rightarrow> s')"
| "pool_step s (SetLen i n) =
     (if i < length (ps_out s)
      then s\<lparr>ps_out := (ps_out s)[i := snd (buffer_set_len (ps_out s ! i) n)]\<rparr> else s)"
| "pool_step s (WriteBuffer i start src) =
     (if i < length (ps_out s)
      then (case buffer_write (ps_out s ! i) start src of
              None \<Rightarrow> s
            | Some b \<Rightarrow> s\<lparr>ps_out := (ps_out s)[i := b]\<rparr>)
      else s)"
| "pool_step s (DropBuffer i) = state_drop i s"

lemma pool_inv_update:
  assumes "pool_inv s" and "i < length (ps_out s)"
    and "buffer_wf (ps_pool s) (ps_out s ! i) \<Longrightarrow> buffer_wf (ps_pool s) b"
  shows "pool_inv (s\<lparr>ps_out := (ps_out s)[i := b]\<rparr>)"
  using assms by (auto simp: pool_inv_def dest!: set_update_subset_insert [THEN subsetD])

lemma pool_step_inv:
  assumes "pool_inv s"
  shows "pool_inv (pool_step s p) \<and>
         bp_buffer_count (ps_pool (pool_step s p)) = bp_buffer_count (ps_pool s) \<and>
         bp_block_size (ps_pool (pool_step s p)) = bp_block_size (ps_pool s)"
proof -
  have block: "bp_block_size (ps_pool (pool_step s p)) = bp_block_size (ps_pool s)"
    by (cases p) (auto simp: state_acquire_def pool_acquire_def state_drop_def buffer_drop_def
        split: option.splits sum.splits prod.splits if_splits)
  show ?thesis
  proof (cases p)
    case AcquireBuffer
    with state_acquire_inv [OF assms] assms block show ?thesis by (auto split: option.splits)
  next
    case (DropBuffer i)
    with state_drop_inv [OF assms] assms block show ?thesis
      by (cases "i < length (ps_out s)") (auto simp: state_drop_def)
  next
    case (SetLen i n)
    with assms block show ?thesis by (auto intro!: pool_inv_update buffer_ops_wf)
  next
    case (WriteBuffer i start src)
    with assms block show ?thesis
      by (auto intro!: pool_inv_update elim: buffer_ops_wf(2) split: option.splits)
  qed
qed

lemma pool_run_inv:
  "pool_inv s \<Longrightarrow> pool_inv (foldl pool_step s ops) \<and>
     bp_buffer_count (ps_pool (foldl pool_step s ops)) = bp_buffer_count (ps_pool s) \<and>
     bp_block_size (ps_pool (foldl pool_step s ops)) = bp_block_size (ps_pool s)"
proof (induction ops arbitrary: s)
  case (Cons p ops)
  with pool_step_inv [OF Cons.prems, of p] show ?case by simp
qed simp

section \<open>Properties\<close>

text \<open>C24. Buffers are conserved: whatever the holders of a new pool do, eager or lazy, every allocated
  buffer is in the pool or out, there are never more than the configured number, each has the
  block size and a logical length within it, and \<open>acquire\<close> is refused exactly when all are out.\<close>

theorem pool_conserves_buffers:
  assumes "pool_new n k = Inr p \<or> pool_new_lazy n k = Inr p"
    and "s = foldl pool_step \<lparr>ps_pool = p, ps_out = []\<rparr> ops"
  shows "bp_allocated (ps_pool s) = length (bp_available (ps_pool s)) + length (ps_out s) \<and>
         bp_allocated (ps_pool s) \<le> n \<and>
         (\<forall>bs \<in> set (bp_available (ps_pool s)). length bs = k) \<and>
         (\<forall>b \<in> set (ps_out s). pb_logical_len b \<le> k) \<and>
         (fst (pool_acquire (ps_pool s)) = Inl Exhausted \<longleftrightarrow> length (ps_out s) = n)"
proof -
  have init: "pool_inv \<lparr>ps_pool = p, ps_out = []\<rparr>" using assms(1) by (rule pool_new_inv)
  have shape: "bp_buffer_count p = n" "bp_block_size p = k"
    using assms(1) by (auto simp: pool_new_def pool_new_lazy_def result_simps)
  have inv: "pool_inv s" and count: "bp_buffer_count (ps_pool s) = n"
    and block: "bp_block_size (ps_pool s) = k"
    using pool_run_inv [OF init, of ops] shape unfolding assms(2) by simp_all
  have "fst (pool_acquire (ps_pool s)) = Inl Exhausted \<longleftrightarrow> length (ps_out s) = n"
    using pool_acquire_cases [OF inv] count by (metis Inl_Inr_False fst_conv less_irrefl)
  then show ?thesis
    using inv by (simp add: pool_inv_def buffer_wf_def count block)
qed

theorem pool_conserves_buffers_witness:
  "\<exists>p s. pool_new_lazy 1 16 = Inr p \<and>
     s = foldl pool_step \<lparr>ps_pool = p, ps_out = []\<rparr> [AcquireBuffer, SetLen 0 8, AcquireBuffer] \<and>
     (fst (pool_acquire (ps_pool s)) = Inl Exhausted \<longleftrightarrow> length (ps_out s) = 1)"
proof -
  obtain p where p: "pool_new_lazy 1 16 = Inr p"
    by (simp add: pool_new_lazy_def validate_shape_def)
  show ?thesis
    using pool_conserves_buffers [OF disjI2 [OF p] refl, of "[AcquireBuffer, SetLen 0 8, AcquireBuffer]"] p
    by blast
qed

end
