(* ===== verification/File_Transfer.thy ===== *)
theory File_Transfer
  imports Segment_Tracker Buffer_Pool One_Time "HOL-Library.AList"
begin

text \<open>
  The native file transfer manager, \<open>FileTransferManager\<close> and \<open>ActiveTransfer\<close> of
  crates/winrisef-agent/src/file_transfer.rs.

  A world holds the manager's registries, the transfers it ever installed and the part of the
  file system the manager touches.  A transfer is shared by the leases and connections that
  refer to it, so it lives in a store and is named by its address; taking it out of the active
  slot does not end its references.  Every call takes the environment's answers as arguments:
  clock readings, random bytes, the paths the user picked, and whether a system call succeeds.
  Each call is one step, except that the save dialog separates the two halves of
  \<open>prepare_receive_transfer\<close>.
\<close>

section \<open>Constants and data\<close>

definition FILE_IO_BLOCK_BYTES :: nat where "FILE_IO_BLOCK_BYTES = 4 * 1024 * 1024"
definition FILE_HTTP_SEGMENT_BYTES :: u64 where "FILE_HTTP_SEGMENT_BYTES = 30 * 1024 * 1024"
definition FILE_HTTP_PARALLELISM :: nat where "FILE_HTTP_PARALLELISM = 6"
definition FILE_WEBTRANSPORT_CONNECTIONS :: nat where "FILE_WEBTRANSPORT_CONNECTIONS = 6"
definition FILE_WEBTRANSPORT_LANES_PER_CONNECTION :: nat where
  "FILE_WEBTRANSPORT_LANES_PER_CONNECTION = 4"
definition FILE_WEBTRANSPORT_EXTENT_BYTES :: u64 where
  "FILE_WEBTRANSPORT_EXTENT_BYTES = 64 * 1024 * 1024"
definition MAX_SELECTED_SOURCES :: nat where "MAX_SELECTED_SOURCES = 32"
definition TRANSFER_HARD_TTL_MS :: u64 where "TRANSFER_HARD_TTL_MS = 12 * 60 * 60 * 1000"
definition TRANSFER_IDLE_TTL_MS :: u64 where "TRANSFER_IDLE_TTL_MS = 120 * 1000"
definition PROGRESS_INTERVAL_BYTES :: u64 where "PROGRESS_INTERVAL_BYTES = 32 * 1024 * 1024"
definition PROGRESS_INTERVAL_MS :: u64 where "PROGRESS_INTERVAL_MS = 250"

lemmas transfer_constants = FILE_IO_BLOCK_BYTES_def FILE_HTTP_SEGMENT_BYTES_def
  FILE_HTTP_PARALLELISM_def FILE_WEBTRANSPORT_CONNECTIONS_def
  FILE_WEBTRANSPORT_LANES_PER_CONNECTION_def FILE_WEBTRANSPORT_EXTENT_BYTES_def
  MAX_SELECTED_SOURCES_def TRANSFER_HARD_TTL_MS_def TRANSFER_IDLE_TTL_MS_def
  PROGRESS_INTERVAL_BYTES_def PROGRESS_INTERVAL_MS_def

text \<open>A path is the list of its components, a file handle the number of its inode.\<close>

type_synonym path = "string list"
type_synonym inode = nat

datatype native_data_plane = LnaHttp | WebTransport
datatype native_file_direction = AgentToBrowser | BrowserToAgent

record file_metadata =
  md_source_id :: string
  md_name :: string
  md_mime :: string
  md_size :: u64
  md_last_modified :: u64

record selected_source =
  ss_metadata :: file_metadata
  ss_file :: inode

datatype transfer_authorization = AuthLnaHttp string | AuthWebTransport "string list"

record transfer_grant =
  gr_transfer_id :: string
  gr_attachment_id :: string
  gr_owner_device_id :: string
  gr_authorization :: transfer_authorization

text \<open>Events carry the transfer and the attachment identifier.\<close>

datatype transfer_event =
    ProgressEvent string string u64
  | ConfirmingEvent string string u64
  | CompleteEvent string string
  | FailedEvent string string string
  | CancelledEvent string string

datatype transfer_resource =
    SendResource string inode
  | ReceiveResource inode path path

record active_transfer =
  at_transfer_id :: string
  at_attachment_id :: string
  at_peer_device_id :: string
  at_direction :: native_file_direction
  at_data_plane :: native_data_plane
  at_total_bytes :: u64
  at_hard_expires_at :: u64
  at_lna_token :: "bytes option"
  at_webtransport_tokens :: "bytes list"
  at_consumed_poisoned :: bool
  at_webtransport_consumed :: "bool list"
  at_segments :: segment_tracker
  at_buffers :: buffer_pool
  at_resource :: transfer_resource
  at_last_activity_ms :: u64
  at_last_progress_ms :: u64
  at_last_progress_bytes :: u64
  at_cancelled :: bool

record transfer_spec =
  sp_attachment_id :: string
  sp_owner_device_id :: string
  sp_peer_device_id :: string
  sp_direction :: native_file_direction
  sp_data_plane :: native_data_plane
  sp_total_bytes :: u64
  sp_resource :: transfer_resource

record segment_lease =
  ls_transfer :: nat
  ls_index :: nat
  ls_offset :: u64
  ls_len :: u64

record wt_connection =
  cn_transfer :: nat
  cn_index :: nat

record world =
  w_selected :: "(string \<times> selected_source) list"
  w_selected_poisoned :: bool
  w_active :: "nat option"
  w_active_poisoned :: bool
  w_transfers :: "active_transfer list"
  w_events :: "transfer_event list"
  w_dir :: "path \<Rightarrow> inode option"
  w_next_inode :: inode

datatype transfer_error =
    SelectedUnavailable
  | ActiveUnavailable
  | AnotherTransferActive
  | TransferNotActive
  | TransferIdMismatch
  | SourceGone
  | TooManySelected
  | OpenSelectedFailed
  | NotANonEmptyFile
  | SizeNotPositive
  | CredentialsUnavailable
  | NoParentDirectory
  | CreatePartFailed
  | ReserveLengthFailed
  | WrongDataPlane
  | WrongDirection
  | WrongPeer
  | TransferCancelled
  | TokenUnavailable
  | TokenInvalid
  | ConnectionIndexInvalid
  | ConsumedUnavailable
  | TokenAlreadyConsumed
  | AuthorizationExpired
  | AuthorizationIdle
  | LaneIndexInvalid
  | WrongLane
  | OnlyConnectionZero
  | CoverageIncomplete
  | NoWritableDestination
  | FlushFailed
  | ReplaceFailed
  | NotASendTransfer
  | TransferClock clock_error
  | TransferSegment segment_error
  | TransferBuffer buffer_pool_error

definition manager_new :: world where
  "manager_new = \<lparr>w_selected = [], w_selected_poisoned = False, w_active = None,
     w_active_poisoned = False, w_transfers = [], w_events = [], w_dir = (\<lambda>_. None), w_next_inode = 0\<rparr>"

section \<open>Authorisation of a transfer\<close>

definition transfer_now :: "int \<Rightarrow> transfer_error + u64" where
  "transfer_now t = (case now_ms t of Inl e \<Rightarrow> Inl (TransferClock e) | Inr now \<Rightarrow> Inr now)"

definition validate_time :: "int \<Rightarrow> active_transfer \<Rightarrow> transfer_error + unit" where
  "validate_time t x =
     and_then (transfer_now t) (\<lambda>now.
     and_then (ensure (now \<le> at_hard_expires_at x) AuthorizationExpired) (\<lambda>_.
     ensure (saturating_sub now (at_last_activity_ms x) \<le> TRANSFER_IDLE_TTL_MS) AuthorizationIdle))"

definition validate_lna ::
  "int \<Rightarrow> bytes \<Rightarrow> native_file_direction \<Rightarrow> active_transfer \<Rightarrow> transfer_error + unit" where
  "validate_lna t token direction x =
     and_then (ensure (at_data_plane x = LnaHttp) WrongDataPlane) (\<lambda>_.
     and_then (ensure (at_direction x = direction) WrongDirection) (\<lambda>_.
     and_then (ensure (\<not> at_cancelled x) TransferCancelled) (\<lambda>_.
     and_then (ok_or (at_lna_token x) TokenUnavailable) (\<lambda>expected.
     and_then (ensure (constant_time_equal expected token) TokenInvalid) (\<lambda>_.
     validate_time t x)))))"

definition consume_webtransport_token ::
  "int \<Rightarrow> bytes \<Rightarrow> nat \<Rightarrow> native_file_direction \<Rightarrow> string \<Rightarrow> active_transfer \<Rightarrow>
     (transfer_error + unit) \<times> active_transfer" where
  "consume_webtransport_token t token connection_index direction peer_device_id x =
     (let checks =
        and_then (ensure (at_data_plane x = WebTransport) WrongDataPlane) (\<lambda>_.
        and_then (ensure (at_direction x = direction) WrongDirection) (\<lambda>_.
        and_then (ensure (at_peer_device_id x = peer_device_id) WrongPeer) (\<lambda>_.
        and_then (ensure (\<not> at_cancelled x) TransferCancelled) (\<lambda>_.
        and_then (ensure (connection_index < length (at_webtransport_tokens x)) ConnectionIndexInvalid) (\<lambda>_.
        and_then (ensure (constant_time_equal (at_webtransport_tokens x ! connection_index) token)
                    TokenInvalid) (\<lambda>_.
        and_then (validate_time t x) (\<lambda>_.
        and_then (ensure (\<not> at_consumed_poisoned x) ConsumedUnavailable) (\<lambda>_.
        and_then (ensure (connection_index < length (at_webtransport_consumed x))
                    ConnectionIndexInvalid) (\<lambda>_.
        ensure (\<not> at_webtransport_consumed x ! connection_index) TokenAlreadyConsumed)))))))))
      in (checks,
          if is_ok checks
          then x\<lparr>at_webtransport_consumed := (at_webtransport_consumed x)[connection_index := True]\<rparr>
          else x))"

definition transfer_touch :: "int \<Rightarrow> active_transfer \<Rightarrow> (transfer_error + unit) \<times> active_transfer" where
  "transfer_touch t x =
     (case transfer_now t of
        Inl e \<Rightarrow> (Inl e, x)
      | Inr now \<Rightarrow> (Inr (), x\<lparr>at_last_activity_ms := now\<rparr>))"

section \<open>The registries\<close>

definition put_transfer :: "nat \<Rightarrow> active_transfer \<Rightarrow> world \<Rightarrow> world" where
  "put_transfer a x w = w\<lparr>w_transfers := (w_transfers w)[a := x]\<rparr>"

definition publish :: "transfer_event \<Rightarrow> world \<Rightarrow> world" where
  "publish e w = w\<lparr>w_events := w_events w @ [e]\<rparr>"

definition ensure_idle :: "world \<Rightarrow> transfer_error + unit" where
  "ensure_idle w =
     (if w_active_poisoned w then Inl ActiveUnavailable
      else ensure (w_active w = None) AnotherTransferActive)"

definition active_transfer_of :: "string \<Rightarrow> world \<Rightarrow> transfer_error + nat" where
  "active_transfer_of transfer_id w =
     (if w_active_poisoned w then Inl ActiveUnavailable
      else (case w_active w of
        None \<Rightarrow> Inl TransferNotActive
      | Some a \<Rightarrow>
          if at_transfer_id (w_transfers w ! a) = transfer_id then Inr a else Inl TransferIdMismatch))"

definition take_active :: "string \<Rightarrow> world \<Rightarrow> (transfer_error + nat) \<times> world" where
  "take_active transfer_id w =
     (case active_transfer_of transfer_id w of
        Inl e \<Rightarrow> (Inl e, w)
      | Inr a \<Rightarrow> (Inr a, w\<lparr>w_active := None\<rparr>))"

definition release_source :: "string \<Rightarrow> world \<Rightarrow> (transfer_error + unit) \<times> world" where
  "release_source source_id w =
     (if w_selected_poisoned w then (Inl SelectedUnavailable, w)
      else (Inr (), w\<lparr>w_selected := AList.delete source_id (w_selected w)\<rparr>))"

definition cleanup_resource :: "bool \<Rightarrow> transfer_resource \<Rightarrow> world \<Rightarrow> world" where
  "cleanup_resource remove_ok r w =
     (case r of
        SendResource _ _ \<Rightarrow> w
      | ReceiveResource _ part_path _ \<Rightarrow>
          if remove_ok then w\<lparr>w_dir := (w_dir w)(part_path := None)\<rparr> else w)"

section \<open>Installing a transfer\<close>

text \<open>The tokens of six connections are drawn one after the other; a failing draw stops.\<close>

fun draw_tokens :: "nat \<Rightarrow> nat \<Rightarrow> (nat \<Rightarrow> bytes option) \<Rightarrow> transfer_error + bytes list" where
  "draw_tokens 0 i random = Inr []"
| "draw_tokens (Suc n) i random =
     and_then (ok_or (random i) CredentialsUnavailable) (\<lambda>token.
     and_then (draw_tokens n (Suc i) random) (\<lambda>tokens. Inr (token # tokens)))"

definition transfer_credentials ::
  "native_data_plane \<Rightarrow> (nat \<Rightarrow> bytes option) \<Rightarrow>
     transfer_error + bytes option \<times> bytes list \<times> transfer_authorization" where
  "transfer_credentials plane random =
     (case plane of
        LnaHttp \<Rightarrow>
          and_then (ok_or (random 0) CredentialsUnavailable) (\<lambda>token.
            Inr (Some token, [], AuthLnaHttp (format_hex token)))
      | WebTransport \<Rightarrow>
          and_then (draw_tokens FILE_WEBTRANSPORT_CONNECTIONS 0 random) (\<lambda>tokens.
            Inr (None, tokens, AuthWebTransport (map format_hex tokens))))"

definition segment_bytes_of :: "native_data_plane \<Rightarrow> u64" where
  "segment_bytes_of plane =
     (case plane of LnaHttp \<Rightarrow> FILE_HTTP_SEGMENT_BYTES | WebTransport \<Rightarrow> FILE_WEBTRANSPORT_EXTENT_BYTES)"

definition buffers_of :: "native_data_plane \<Rightarrow> nat" where
  "buffers_of plane =
     (case plane of
        LnaHttp \<Rightarrow> FILE_HTTP_PARALLELISM * 2
      | WebTransport \<Rightarrow> FILE_WEBTRANSPORT_CONNECTIONS * FILE_WEBTRANSPORT_LANES_PER_CONNECTION)"

definition lift_err :: "('e \<Rightarrow> 'f) \<Rightarrow> 'e + 'a \<Rightarrow> 'f + 'a" where
  "lift_err f r = (case r of Inl e \<Rightarrow> Inl (f e) | Inr x \<Rightarrow> Inr x)"

definition new_transfer ::
  "int \<Rightarrow> (nat \<Rightarrow> bytes option) \<Rightarrow> string \<Rightarrow> transfer_spec \<Rightarrow>
     transfer_error + active_transfer \<times> transfer_authorization" where
  "new_transfer t random transfer_id spec =
     and_then (ensure (0 < sp_total_bytes spec) SizeNotPositive) (\<lambda>_.
     and_then (transfer_now t) (\<lambda>now.
     and_then (transfer_credentials (sp_data_plane spec) random) (\<lambda>(lna_token, tokens, authorization).
     and_then (lift_err TransferSegment
       (segments_new (sp_total_bytes spec) (segment_bytes_of (sp_data_plane spec)))) (\<lambda>segments.
     and_then (lift_err TransferBuffer
       (pool_new_lazy (buffers_of (sp_data_plane spec)) FILE_IO_BLOCK_BYTES)) (\<lambda>buffers.
     Inr (\<lparr>at_transfer_id = transfer_id,
           at_attachment_id = sp_attachment_id spec,
           at_peer_device_id = sp_peer_device_id spec,
           at_direction = sp_direction spec,
           at_data_plane = sp_data_plane spec,
           at_total_bytes = sp_total_bytes spec,
           at_hard_expires_at = saturating_add now TRANSFER_HARD_TTL_MS,
           at_lna_token = lna_token,
           at_webtransport_tokens = tokens,
           at_consumed_poisoned = False,
           at_webtransport_consumed = replicate FILE_WEBTRANSPORT_CONNECTIONS False,
           at_segments = segments,
           at_buffers = buffers,
           at_resource = sp_resource spec,
           at_last_activity_ms = now,
           at_last_progress_ms = now,
           at_last_progress_bytes = 0,
           at_cancelled = False\<rparr>, authorization))))))"

definition install_transfer_with_id ::
  "int \<Rightarrow> (nat \<Rightarrow> bytes option) \<Rightarrow> string \<Rightarrow> transfer_spec \<Rightarrow> world \<Rightarrow>
     (transfer_error + transfer_grant) \<times> world" where
  "install_transfer_with_id t random transfer_id spec w =
     (case new_transfer t random transfer_id spec of
        Inl e \<Rightarrow> (Inl e, w)
      | Inr (x, authorization) \<Rightarrow>
          if w_active_poisoned w then (Inl ActiveUnavailable, w)
          else if w_active w \<noteq> None then (Inl AnotherTransferActive, w)
          else (Inr \<lparr>gr_transfer_id = transfer_id, gr_attachment_id = sp_attachment_id spec,
                     gr_owner_device_id = sp_owner_device_id spec,
                     gr_authorization = authorization\<rparr>,
                w\<lparr>w_active := Some (length (w_transfers w)), w_transfers := w_transfers w @ [x]\<rparr>))"

text \<open>\<open>random 0\<close> is the identifier, the later draws are the tokens.\<close>

definition install_transfer ::
  "int \<Rightarrow> (nat \<Rightarrow> bytes option) \<Rightarrow> transfer_spec \<Rightarrow> world \<Rightarrow>
     (transfer_error + transfer_grant) \<times> world" where
  "install_transfer t random spec w =
     (case random 0 of
        None \<Rightarrow> (Inl CredentialsUnavailable, w)
      | Some r \<Rightarrow> install_transfer_with_id t (\<lambda>i. random (Suc i)) (format_hex r) spec w)"

section \<open>Selecting, sending, receiving\<close>

text \<open>What the system tells about a picked path; the MIME type comes from a library table.\<close>

record picked_file =
  pk_file :: "inode option"
  pk_readable_metadata :: bool
  pk_is_file :: bool
  pk_len :: u64
  pk_name :: "string option"
  pk_modified :: "int option"
  pk_mime :: string

definition saturating_ms :: "int \<Rightarrow> u64" where
  "saturating_ms t = (if t < 2 ^ 64 then word_of_int t else - 1)"

definition open_selected_source :: "bytes option \<Rightarrow> picked_file \<Rightarrow> transfer_error + selected_source" where
  "open_selected_source random p =
     and_then (ok_or (pk_file p) OpenSelectedFailed) (\<lambda>file.
     and_then (ensure (pk_readable_metadata p) OpenSelectedFailed) (\<lambda>_.
     and_then (ensure (pk_is_file p \<and> 0 < pk_len p) NotANonEmptyFile) (\<lambda>_.
     and_then (ok_or random CredentialsUnavailable) (\<lambda>id.
     Inr \<lparr>ss_metadata =
            \<lparr>md_source_id = format_hex id,
             md_name = (case pk_name p of None \<Rightarrow> ''selected-file'' | Some n \<Rightarrow> n),
             md_mime = pk_mime p,
             md_size = pk_len p,
             md_last_modified =
               (case pk_modified p of
                  None \<Rightarrow> 0
                | Some m \<Rightarrow> if m < 0 then 0 else saturating_ms m)\<rparr>,
          ss_file = file\<rparr>))))"

fun open_all ::
  "(nat \<Rightarrow> bytes option) \<Rightarrow> nat \<Rightarrow> picked_file list \<Rightarrow> transfer_error + selected_source list" where
  "open_all random i [] = Inr []"
| "open_all random i (p # ps) =
     and_then (open_selected_source (random i) p) (\<lambda>s.
     and_then (open_all random (Suc i) ps) (\<lambda>ss. Inr (s # ss)))"

definition select_files ::
  "(nat \<Rightarrow> bytes option) \<Rightarrow> picked_file list \<Rightarrow> world \<Rightarrow>
     (transfer_error + file_metadata list) \<times> world" where
  "select_files random picked w =
     (case open_all random 0 picked of
        Inl e \<Rightarrow> (Inl e, w)
      | Inr selected \<Rightarrow>
          if w_selected_poisoned w then (Inl SelectedUnavailable, w)
          else if \<not> usize_saturating_add (length (w_selected w)) (length selected) \<le> MAX_SELECTED_SOURCES
          then (Inl TooManySelected, w)
          else (Inr (map ss_metadata selected),
                w\<lparr>w_selected :=
                    foldl (\<lambda>m s. AList.update (md_source_id (ss_metadata s)) s m)
                      (w_selected w) selected\<rparr>))"

definition create_send_transfer ::
  "int \<Rightarrow> (nat \<Rightarrow> bytes option) \<Rightarrow> string \<Rightarrow> string \<Rightarrow> string \<Rightarrow> string \<Rightarrow> native_data_plane \<Rightarrow>
     world \<Rightarrow> (transfer_error + transfer_grant) \<times> world" where
  "create_send_transfer t random source_id attachment_id owner_device_id peer_device_id data_plane w =
     (case ensure_idle w of
        Inl e \<Rightarrow> (Inl e, w)
      | Inr _ \<Rightarrow>
          if w_selected_poisoned w then (Inl SelectedUnavailable, w)
          else (case map_of (w_selected w) source_id of
            None \<Rightarrow> (Inl SourceGone, w)
          | Some source \<Rightarrow>
              install_transfer t random
                \<lparr>sp_attachment_id = attachment_id, sp_owner_device_id = owner_device_id,
                 sp_peer_device_id = peer_device_id, sp_direction = AgentToBrowser,
                 sp_data_plane = data_plane, sp_total_bytes = md_size (ss_metadata source),
                 sp_resource = SendResource source_id (ss_file source)\<rparr> w))"

definition path_parent :: "path \<Rightarrow> path option" where
  "path_parent p = (if p = [] then None else Some (butlast p))"

definition path_file_name :: "path \<Rightarrow> string option" where
  "path_file_name p = (if p = [] \<or> last p = ''..'' then None else Some (last p))"

definition temporary_path :: "path \<Rightarrow> string \<Rightarrow> transfer_error + path" where
  "temporary_path final_path transfer_id =
     and_then (ok_or (path_parent final_path) NoParentDirectory) (\<lambda>parent.
       let name = (case path_file_name final_path of None \<Rightarrow> ''received-file'' | Some n \<Rightarrow> n)
       in Inr (parent @ [''.'' @ name @ ''.winrisef-'' @ transfer_id @ ''.part'']))"

text \<open>Before the dialog, and after it: \<open>destination\<close> is the user's answer.\<close>

definition prepare_receive_check :: "u64 \<Rightarrow> world \<Rightarrow> transfer_error + unit" where
  "prepare_receive_check total_bytes w =
     and_then (ensure_idle w) (\<lambda>_. ensure (0 < total_bytes) SizeNotPositive)"

definition prepare_receive_open ::
  "int \<Rightarrow> (nat \<Rightarrow> bytes option) \<Rightarrow> bool \<Rightarrow> bool \<Rightarrow> path option \<Rightarrow> string \<Rightarrow> string \<Rightarrow> string \<Rightarrow> u64 \<Rightarrow>
     native_data_plane \<Rightarrow> world \<Rightarrow> (transfer_error + transfer_grant option) \<times> world" where
  "prepare_receive_open t random create_ok set_len_ok destination attachment_id owner_device_id
     peer_device_id total_bytes data_plane w =
     (case destination of
        None \<Rightarrow> (Inr None, w)
      | Some final_path \<Rightarrow> (
          case random 0 of
            None \<Rightarrow> (Inl CredentialsUnavailable, w)
          | Some r \<Rightarrow> (
              case temporary_path final_path (format_hex r) of
                Inl e \<Rightarrow> (Inl e, w)
              | Inr part_path \<Rightarrow>
                  if \<not> create_ok \<or> w_dir w part_path \<noteq> None then (Inl CreatePartFailed, w)
                  else
                    let file = w_next_inode w;
                        w1 = w\<lparr>w_dir := (w_dir w)(part_path \<mapsto> file), w_next_inode := Suc file\<rparr>
                    in if \<not> set_len_ok
                       then (Inl ReserveLengthFailed, w1\<lparr>w_dir := (w_dir w1)(part_path := None)\<rparr>)
                       else (case install_transfer_with_id t (\<lambda>i. random (Suc i)) (format_hex r)
                              \<lparr>sp_attachment_id = attachment_id, sp_owner_device_id = owner_device_id,
                               sp_peer_device_id = peer_device_id, sp_direction = BrowserToAgent,
                               sp_data_plane = data_plane, sp_total_bytes = total_bytes,
                               sp_resource = ReceiveResource file part_path final_path\<rparr> w1 of
                           (Inl e, w2) \<Rightarrow> (Inl e, w2)
                         | (Inr g, w2) \<Rightarrow> (Inr (Some g), w2)))))"

section \<open>Segments\<close>

text \<open>\<open>t1\<close> is the clock at the check, \<open>t2\<close> at the touch.  A failing touch leaves the reservation.\<close>

definition reserve_lease ::
  "int \<Rightarrow> nat \<Rightarrow> u64 \<Rightarrow> u64 \<Rightarrow> world \<Rightarrow> (transfer_error + segment_lease) \<times> world" where
  "reserve_lease t2 a offset len w =
     (let x = w_transfers w ! a in
      case segments_reserve offset len (at_segments x) of
        (Inl e, _) \<Rightarrow> (Inl (TransferSegment e), w)
      | (Inr index, segments) \<Rightarrow> (
          case transfer_touch t2 (x\<lparr>at_segments := segments\<rparr>) of
            (Inl e, x') \<Rightarrow> (Inl e, put_transfer a x' w)
          | (Inr _, x') \<Rightarrow>
              (Inr \<lparr>ls_transfer = a, ls_index = index, ls_offset = offset, ls_len = len\<rparr>,
               put_transfer a x' w)))"

definition begin_lna_segment ::
  "int \<Rightarrow> int \<Rightarrow> string \<Rightarrow> bytes \<Rightarrow> native_file_direction \<Rightarrow> u64 \<Rightarrow> u64 \<Rightarrow> world \<Rightarrow>
     (transfer_error + segment_lease) \<times> world" where
  "begin_lna_segment t1 t2 transfer_id token direction offset len w =
     (case and_then (active_transfer_of transfer_id w) (\<lambda>a.
             and_then (validate_lna t1 token direction (w_transfers w ! a)) (\<lambda>_. Inr a)) of
        Inl e \<Rightarrow> (Inl e, w)
      | Inr a \<Rightarrow> reserve_lease t2 a offset len w)"

definition begin_webtransport_connection ::
  "int \<Rightarrow> int \<Rightarrow> string \<Rightarrow> bytes \<Rightarrow> nat \<Rightarrow> native_file_direction \<Rightarrow> string \<Rightarrow> world \<Rightarrow>
     (transfer_error + wt_connection) \<times> world" where
  "begin_webtransport_connection t1 t2 transfer_id token connection_index direction peer_device_id w =
     (case active_transfer_of transfer_id w of
        Inl e \<Rightarrow> (Inl e, w)
      | Inr a \<Rightarrow> (
          case consume_webtransport_token t1 token connection_index direction peer_device_id
                 (w_transfers w ! a) of
            (Inl e, x) \<Rightarrow> (Inl e, put_transfer a x w)
          | (Inr _, x) \<Rightarrow> (
              case transfer_touch t2 x of
                (Inl e, x') \<Rightarrow> (Inl e, put_transfer a x' w)
              | (Inr _, x') \<Rightarrow>
                  (Inr \<lparr>cn_transfer = a, cn_index = connection_index\<rparr>, put_transfer a x' w))))"

definition begin_webtransport_extent ::
  "int \<Rightarrow> wt_connection \<Rightarrow> nat \<Rightarrow> u64 \<Rightarrow> u64 \<Rightarrow> world \<Rightarrow> (transfer_error + segment_lease) \<times> world" where
  "begin_webtransport_extent t2 c lane_index offset len w =
     (if \<not> lane_index < FILE_WEBTRANSPORT_LANES_PER_CONNECTION then (Inl LaneIndexInvalid, w)
      else
        let extent_index = offset div FILE_WEBTRANSPORT_EXTENT_BYTES;
            expected_lane = cn_index c * FILE_WEBTRANSPORT_LANES_PER_CONNECTION + lane_index
        in if extent_index mod
                word_of_nat (FILE_WEBTRANSPORT_CONNECTIONS * FILE_WEBTRANSPORT_LANES_PER_CONNECTION)
              \<noteq> word_of_nat expected_lane
           then (Inl WrongLane, w)
           else reserve_lease t2 (cn_transfer c) offset len w)"

definition lease_drop :: "segment_lease \<Rightarrow> world \<Rightarrow> world" where
  "lease_drop l w =
     (let x = w_transfers w ! ls_transfer l
      in put_transfer (ls_transfer l)
           (x\<lparr>at_segments := segments_release (ls_index l) (at_segments x)\<rparr>) w)"

text \<open>The lease is consumed; it releases its segment unless the tracker took the commit.\<close>

definition commit_segment ::
  "int \<Rightarrow> segment_lease \<Rightarrow> world \<Rightarrow> (transfer_error + u64) \<times> world" where
  "commit_segment t l w =
     (let a = ls_transfer l; x = w_transfers w ! a in
      case segments_complete (ls_index l) (ls_len l) (at_segments x) of
        (Inl e, _) \<Rightarrow> (Inl (TransferSegment e), lease_drop l w)
      | (Inr completed, segments) \<Rightarrow> (
          let x1 = x\<lparr>at_segments := segments\<rparr> in
          case transfer_now t of
            Inl e \<Rightarrow> (Inl e, put_transfer a x1 w)
          | Inr now \<Rightarrow>
              if completed = at_total_bytes x
                 \<or> PROGRESS_INTERVAL_BYTES \<le> saturating_sub completed (at_last_progress_bytes x)
                 \<or> PROGRESS_INTERVAL_MS \<le> saturating_sub now (at_last_progress_ms x)
              then (Inr completed,
                    publish (ProgressEvent (at_transfer_id x) (at_attachment_id x) completed)
                      (put_transfer a
                        (x1\<lparr>at_last_progress_bytes := completed, at_last_progress_ms := now\<rparr>) w))
              else (Inr completed, put_transfer a x1 w)))"

text \<open>\<open>touch\<close> of a lease, and its buffer.\<close>

definition lease_touch :: "int \<Rightarrow> segment_lease \<Rightarrow> world \<Rightarrow> (transfer_error + unit) \<times> world" where
  "lease_touch t l w =
     (let a = ls_transfer l; x = w_transfers w ! a in
      if at_cancelled x then (Inl TransferCancelled, w)
      else (case transfer_touch t x of (r, x') \<Rightarrow> (r, put_transfer a x' w)))"

definition acquire_buffer :: "segment_lease \<Rightarrow> world \<Rightarrow> (transfer_error + pooled_buffer) \<times> world" where
  "acquire_buffer l w =
     (let a = ls_transfer l; x = w_transfers w ! a in
      case pool_acquire (at_buffers x) of
        (Inl e, _) \<Rightarrow> (Inl (TransferBuffer e), w)
      | (Inr b, p) \<Rightarrow> (Inr b, put_transfer a (x\<lparr>at_buffers := p\<rparr>) w))"

section \<open>Ending a transfer\<close>

definition atomic_replace :: "path \<Rightarrow> path \<Rightarrow> bool \<Rightarrow> world \<Rightarrow> (unit + unit) \<times> world" where
  "atomic_replace source destination replace_ok w =
     (case w_dir w source of
        None \<Rightarrow> (Inl (), w)
      | Some file \<Rightarrow>
          if \<not> replace_ok then (Inl (), w)
          else (Inr (), w\<lparr>w_dir := ((w_dir w)(source := None))(destination \<mapsto> file)\<rparr>))"

definition complete_receive_transfer ::
  "bool \<Rightarrow> bool \<Rightarrow> nat \<Rightarrow> world \<Rightarrow> (transfer_error + unit) \<times> world" where
  "complete_receive_transfer sync_ok replace_ok a w =
     (let x = w_transfers w ! a in
      if \<not> segments_is_complete (at_segments x) then (Inl CoverageIncomplete, w)
      else (case at_resource x of
        SendResource _ _ \<Rightarrow> (Inl NoWritableDestination, w)
      | ReceiveResource file part_path final_path \<Rightarrow> (
          let w1 = publish
                (ConfirmingEvent (at_transfer_id x) (at_attachment_id x) (at_total_bytes x)) w in
          if \<not> sync_ok then (Inl FlushFailed, w1)
          else (case atomic_replace part_path final_path replace_ok w1 of
            (Inl _, w2) \<Rightarrow> (Inl ReplaceFailed, w2)
          | (Inr _, w2) \<Rightarrow> (
              case take_active (at_transfer_id x) w2 of
                (Inl e, w3) \<Rightarrow> (Inl e, w3)
              | (Inr _, w3) \<Rightarrow>
                  (Inr (), publish (CompleteEvent (at_transfer_id x) (at_attachment_id x)) w3))))))"

definition complete_receive ::
  "int \<Rightarrow> bool \<Rightarrow> bool \<Rightarrow> string \<Rightarrow> bytes \<Rightarrow> world \<Rightarrow> (transfer_error + unit) \<times> world" where
  "complete_receive t sync_ok replace_ok transfer_id token w =
     (case and_then (active_transfer_of transfer_id w) (\<lambda>a.
             and_then (validate_lna t token BrowserToAgent (w_transfers w ! a)) (\<lambda>_. Inr a)) of
        Inl e \<Rightarrow> (Inl e, w)
      | Inr a \<Rightarrow> complete_receive_transfer sync_ok replace_ok a w)"

definition complete_webtransport_receive ::
  "int \<Rightarrow> bool \<Rightarrow> bool \<Rightarrow> wt_connection \<Rightarrow> world \<Rightarrow> (transfer_error + unit) \<times> world" where
  "complete_webtransport_receive t sync_ok replace_ok c w =
     (let x = w_transfers w ! cn_transfer c in
      if \<not> (cn_index c = 0 \<and> at_direction x = BrowserToAgent) then (Inl OnlyConnectionZero, w)
      else (case validate_time t x of
        Inl e \<Rightarrow> (Inl e, w)
      | Inr _ \<Rightarrow> complete_receive_transfer sync_ok replace_ok (cn_transfer c) w))"

definition finish_send_transfer :: "string \<Rightarrow> world \<Rightarrow> (transfer_error + unit) \<times> world" where
  "finish_send_transfer transfer_id w =
     (case take_active transfer_id w of
        (Inl e, w1) \<Rightarrow> (Inl e, w1)
      | (Inr a, w1) \<Rightarrow> (
          case at_resource (w_transfers w1 ! a) of
            ReceiveResource _ _ _ \<Rightarrow> (Inl NotASendTransfer, w1)
          | SendResource source_id _ \<Rightarrow> release_source source_id w1))"

text \<open>Cancelling marks the transfer, removes the partial file and forgets the source.\<close>

definition stop_transfer :: "bool \<Rightarrow> nat \<Rightarrow> world \<Rightarrow> world" where
  "stop_transfer remove_ok a w =
     (let x = w_transfers w ! a
      in cleanup_resource remove_ok (at_resource x) (put_transfer a (x\<lparr>at_cancelled := True\<rparr>) w))"

definition cancel_transfer :: "bool \<Rightarrow> string \<Rightarrow> world \<Rightarrow> (transfer_error + unit) \<times> world" where
  "cancel_transfer remove_ok transfer_id w =
     (case take_active transfer_id w of
        (Inl e, w1) \<Rightarrow> (Inl e, w1)
      | (Inr a, w1) \<Rightarrow> (
          let x = w_transfers w1 ! a;
              w2 = stop_transfer remove_ok a w1;
              announce = publish (CancelledEvent (at_transfer_id x) (at_attachment_id x))
          in case at_resource x of
            ReceiveResource _ _ _ \<Rightarrow> (Inr (), announce w2)
          | SendResource source_id _ \<Rightarrow> (
              case release_source source_id w2 of
                (Inl e, w3) \<Rightarrow> (Inl e, w3)
              | (Inr _, w3) \<Rightarrow> (Inr (), announce w3))))"

definition fail_transfer :: "bool \<Rightarrow> string \<Rightarrow> string \<Rightarrow> world \<Rightarrow> world" where
  "fail_transfer remove_ok transfer_id error w =
     (case take_active transfer_id w of
        (Inl _, w1) \<Rightarrow> w1
      | (Inr a, w1) \<Rightarrow> (
          let x = w_transfers w1 ! a;
              w2 = stop_transfer remove_ok a w1;
              w3 = (case at_resource x of
                      ReceiveResource _ _ _ \<Rightarrow> w2
                    | SendResource source_id _ \<Rightarrow> snd (release_source source_id w2))
          in publish (FailedEvent (at_transfer_id x) (at_attachment_id x) error) w3))"

definition cancel_all :: "bool \<Rightarrow> world \<Rightarrow> world" where
  "cancel_all remove_ok w =
     (let w1 = (if w_active_poisoned w then w
                else (case w_active w of
                  None \<Rightarrow> w
                | Some a \<Rightarrow> stop_transfer remove_ok a (w\<lparr>w_active := None\<rparr>)))
      in if w_selected_poisoned w1 then w1 else w1\<lparr>w_selected := []\<rparr>)"

end
