(* ===== verification/Transfer_Runs.thy ===== *)
theory Transfer_Runs
  imports File_Transfer
begin

text \<open>
  The runs of the transfer manager of File_Transfer: a step relation over the manager's world,
  the leases and the connections that are out, in any interleaving, with its invariant.

  The lemmas show that leases never overlap, that a file is published only when every one of its
  segments was committed, that nothing but a completion touches a path that is not a partial
  file, and that the credentials of a transfer are checked before it is touched.
\<close>

section \<open>Steps\<close>

record system =
  y_world :: world
  y_leases :: "segment_lease list"
  y_connections :: "wt_connection list"

definition system_new :: system where
  "system_new = \<lparr>y_world = manager_new, y_leases = [], y_connections = []\<rparr>"

definition without :: "nat \<Rightarrow> 'a list \<Rightarrow> 'a list" where
  "without i xs = take i xs @ drop (Suc i) xs"

inductive transfer_step :: "system \<Rightarrow> system \<Rightarrow> bool" where
  Select: "select_files random picked (y_world s) = (r, w) \<Longrightarrow> transfer_step s (s\<lparr>y_world := w\<rparr>)"
| CreateSend: "create_send_transfer t random source att owner peer plane (y_world s) = (r, w) \<Longrightarrow>
    transfer_step s (s\<lparr>y_world := w\<rparr>)"
| PrepareReceive: "prepare_receive_open t random create_ok set_len_ok destination att owner peer n
      plane (y_world s) = (r, w) \<Longrightarrow> transfer_step s (s\<lparr>y_world := w\<rparr>)"
| BeginLna: "begin_lna_segment t1 t2 tid token direction offset len (y_world s) = (Inr l, w) \<Longrightarrow>
    transfer_step s (s\<lparr>y_world := w, y_leases := l # y_leases s\<rparr>)"
| BeginLnaFails: "begin_lna_segment t1 t2 tid token direction offset len (y_world s) = (Inl e, w) \<Longrightarrow>
    transfer_step s (s\<lparr>y_world := w\<rparr>)"
| Connect: "begin_webtransport_connection t1 t2 tid token i direction peer (y_world s) = (Inr c, w) \<Longrightarrow>
    transfer_step s (s\<lparr>y_world := w, y_connections := c # y_connections s\<rparr>)"
| ConnectFails: "begin_webtransport_connection t1 t2 tid token i direction peer (y_world s) = (Inl e, w) \<Longrightarrow>
    transfer_step s (s\<lparr>y_world := w\<rparr>)"
| BeginExtent: "c \<in> set (y_connections s) \<Longrightarrow>
    begin_webtransport_extent t2 c lane offset len (y_world s) = (Inr l, w) \<Longrightarrow>
    transfer_step s (s\<lparr>y_world := w, y_leases := l # y_leases s\<rparr>)"
| BeginExtentFails: "c \<in> set (y_connections s) \<Longrightarrow>
    begin_webtransport_extent t2 c lane offset len (y_world s) = (Inl e, w) \<Longrightarrow>
    transfer_step s (s\<lparr>y_world := w\<rparr>)"
| Commit: "i < length (y_leases s) \<Longrightarrow> commit_segment t (y_leases s ! i) (y_world s) = (r, w) \<Longrightarrow>
    transfer_step s (s\<lparr>y_world := w, y_leases := without i (y_leases s)\<rparr>)"
| Drop: "i < length (y_leases s) \<Longrightarrow>
    transfer_step s (s\<lparr>y_world := lease_drop (y_leases s ! i) (y_world s),
                       y_leases := without i (y_leases s)\<rparr>)"
| Touch: "l \<in> set (y_leases s) \<Longrightarrow> lease_touch t l (y_world s) = (r, w) \<Longrightarrow>
    transfer_step s (s\<lparr>y_world := w\<rparr>)"
| Buffer: "l \<in> set (y_leases s) \<Longrightarrow> acquire_buffer l (y_world s) = (r, w) \<Longrightarrow>
    transfer_step s (s\<lparr>y_world := w\<rparr>)"
| CompleteLna: "complete_receive t sync_ok replace_ok tid token (y_world s) = (r, w) \<Longrightarrow>
    transfer_step s (s\<lparr>y_world := w\<rparr>)"
| CompleteWt: "c \<in> set (y_connections s) \<Longrightarrow>
    complete_webtransport_receive t sync_ok replace_ok c (y_world s) = (r, w) \<Longrightarrow>
    transfer_step s (s\<lparr>y_world := w\<rparr>)"
| FinishSend: "finish_send_transfer tid (y_world s) = (r, w) \<Longrightarrow> transfer_step s (s\<lparr>y_world := w\<rparr>)"
| Cancel: "cancel_transfer remove_ok tid (y_world s) = (r, w) \<Longrightarrow> transfer_step s (s\<lparr>y_world := w\<rparr>)"
| Fail: "transfer_step s (s\<lparr>y_world := fail_transfer remove_ok tid error (y_world s)\<rparr>)"
| Release: "release_source source (y_world s) = (r, w) \<Longrightarrow> transfer_step s (s\<lparr>y_world := w\<rparr>)"
| CancelAll: "transfer_step s (s\<lparr>y_world := cancel_all remove_ok (y_world s)\<rparr>)"

definition reachable_system :: "system \<Rightarrow> bool" where
  "reachable_system s \<longleftrightarrow> transfer_step\<^sup>*\<^sup>* system_new s"

section \<open>Invariant\<close>

text \<open>Partial files have names of their own form.\<close>

definition is_part_path :: "path \<Rightarrow> bool" where
  "is_part_path p \<longleftrightarrow> p \<noteq> [] \<and> (\<exists>name tid. last p = ''.'' @ name @ ''.winrisef-'' @ tid @ ''.part'')"

definition resource_wf :: "transfer_resource \<Rightarrow> bool" where
  "resource_wf r = (case r of SendResource _ _ \<Rightarrow> True | ReceiveResource _ part _ \<Rightarrow> is_part_path part)"

text \<open>What the invariant says of a transfer depends on these fields only.\<close>

definition core :: "active_transfer \<Rightarrow> segment_tracker \<times> u64 \<times> native_data_plane \<times> transfer_resource" where
  "core x = (at_segments x, at_total_bytes x, at_data_plane x, at_resource x)"

definition core_wf :: "segment_tracker \<times> u64 \<times> native_data_plane \<times> transfer_resource \<Rightarrow> bool" where
  "core_wf c = (case c of (segments, total_bytes, plane, resource) \<Rightarrow>
     segments_inv segments \<and> sg_total_bytes segments = total_bytes \<and>
     sg_segment_bytes segments = segment_bytes_of plane \<and> resource_wf resource)"

definition cores :: "world \<Rightarrow> (segment_tracker \<times> u64 \<times> native_data_plane \<times> transfer_resource) list" where
  "cores w = map core (w_transfers w)"

definition world_inv :: "world \<Rightarrow> bool" where
  "world_inv w \<longleftrightarrow> list_all core_wf (cores w) \<and>
     (\<forall>a. w_active w = Some a \<longrightarrow> a < length (cores w))"

definition lease_ok :: "world \<Rightarrow> segment_lease \<Rightarrow> bool" where
  "lease_ok w l \<longleftrightarrow> ls_transfer l < length (cores w) \<and>
     ls_index l \<in> sg_in Active (fst (cores w ! ls_transfer l)) \<and>
     (unat (ls_offset l), unat (ls_len l)) = segment_at (fst (cores w ! ls_transfer l)) (ls_index l)"

definition lease_key :: "segment_lease \<Rightarrow> nat \<times> nat" where
  "lease_key l = (ls_transfer l, ls_index l)"

definition system_inv :: "system \<Rightarrow> bool" where
  "system_inv s \<longleftrightarrow> world_inv (y_world s) \<and>
     (\<forall>l \<in> set (y_leases s). lease_ok (y_world s) l) \<and>
     distinct (map lease_key (y_leases s)) \<and>
     (\<forall>c \<in> set (y_connections s). cn_transfer c < length (cores (y_world s)))"

section \<open>Frames\<close>

named_theorems frame_simps \<open>what an operation leaves of the world\<close>

lemma length_cores [simp]: "length (cores w) = length (w_transfers w)"
  by (simp add: cores_def)

lemma nth_cores [simp]: "a < length (w_transfers w) \<Longrightarrow> cores w ! a = core (w_transfers w ! a)"
  by (simp add: cores_def)

lemma cores_put: "cores (put_transfer a x w) = (cores w)[a := core x]"
  by (simp add: cores_def put_transfer_def map_update)

lemma cores_put_same:
  "core x = core (w_transfers w ! a) \<Longrightarrow> cores (put_transfer a x w) = cores w"
  by (cases "a < length (w_transfers w)")
     (simp_all add: cores_def put_transfer_def map_update list_update_same_conv list_update_beyond)

lemma put_frame [frame_simps]:
  "w_active (put_transfer a x w) = w_active w" "w_dir (put_transfer a x w) = w_dir w"
  "w_active (publish e w) = w_active w" "w_dir (publish e w) = w_dir w"
  "cores (publish e w) = cores w" "w_transfers (publish e w) = w_transfers w"
  "cores (w\<lparr>w_active := v\<rparr>) = cores w" "cores (w\<lparr>w_selected := m\<rparr>) = cores w"
  "cores (w\<lparr>w_dir := d\<rparr>) = cores w" "cores (w\<lparr>w_next_inode := n\<rparr>) = cores w"
  by (simp_all add: put_transfer_def publish_def cores_def)

lemma core_frame [simp]:
  "core (x\<lparr>at_last_activity_ms := n\<rparr>) = core x"
  "core (x\<lparr>at_cancelled := b\<rparr>) = core x"
  "core (x\<lparr>at_buffers := p\<rparr>) = core x"
  "core (x\<lparr>at_webtransport_consumed := cs\<rparr>) = core x"
  "core (x\<lparr>at_last_progress_bytes := n, at_last_progress_ms := n'\<rparr>) = core x"
  "core (x\<lparr>at_segments := g\<rparr>) = (g, at_total_bytes x, at_data_plane x, at_resource x)"
  "fst (core x) = at_segments x"
  by (simp_all add: core_def)

lemma transfer_touch_core: "transfer_touch t x = (r, x') \<Longrightarrow> core x' = core x"
  by (auto simp: transfer_touch_def split: sum.splits)

lemma consume_token_core:
  "consume_webtransport_token t token i direction peer x = (r, x') \<Longrightarrow> core x' = core x"
  by (auto simp: consume_webtransport_token_def Let_def)

text \<open>Most operations leave every core alone and may only clear the active slot.\<close>

definition calm :: "world \<Rightarrow> world \<Rightarrow> bool" where
  "calm w w' \<longleftrightarrow> cores w' = cores w \<and> (w_active w' = w_active w \<or> w_active w' = None)"

lemma calm_refl [simp]: "calm w w"
  by (simp add: calm_def)

lemma calm_trans: "calm w w' \<Longrightarrow> calm w' w'' \<Longrightarrow> calm w w''"
  by (auto simp: calm_def)

lemma calm_lease: "calm w w' \<Longrightarrow> lease_ok w' = lease_ok w"
  by (simp add: calm_def lease_ok_def fun_eq_iff flip: length_cores)

lemma calm_inv: "calm w w' \<Longrightarrow> world_inv w \<Longrightarrow> world_inv w'"
  by (auto simp: calm_def world_inv_def simp flip: length_cores)

lemma calm_system:
  assumes "calm (y_world s) w" and "system_inv s"
  shows "system_inv (s\<lparr>y_world := w\<rparr>)"
proof -
  have "length (w_transfers w) = length (w_transfers (y_world s))"
    using assms(1) by (simp add: calm_def flip: length_cores)
  with assms show ?thesis
    by (simp add: system_inv_def calm_lease calm_inv)
qed

lemma publish_calm: "calm w v \<Longrightarrow> calm w (publish e v)"
  by (simp add: calm_def frame_simps)

lemma fields_calm:
  "calm w v \<Longrightarrow> calm w (v\<lparr>w_active := None\<rparr>)"
  "calm w v \<Longrightarrow> calm w (v\<lparr>w_selected := m\<rparr>)"
  "calm w v \<Longrightarrow> calm w (v\<lparr>w_dir := d\<rparr>)"
  by (simp_all add: calm_def frame_simps)

lemma take_active_calm: "take_active tid v = (r, u) \<Longrightarrow> calm w v \<Longrightarrow> calm w u"
  by (auto simp: take_active_def intro: fields_calm split: sum.splits)

lemma release_source_calm: "release_source source v = (r, u) \<Longrightarrow> calm w v \<Longrightarrow> calm w u"
  by (auto simp: release_source_def intro: fields_calm split: if_splits)

lemma atomic_replace_calm: "atomic_replace p q ok v = (r, u) \<Longrightarrow> calm w v \<Longrightarrow> calm w u"
  by (auto simp: atomic_replace_def intro: fields_calm split: option.splits if_splits)

lemma stop_transfer_calm: "calm w v \<Longrightarrow> calm w (stop_transfer remove_ok a v)"
  by (auto simp: stop_transfer_def cleanup_resource_def Let_def calm_def frame_simps cores_put_same
      split: transfer_resource.splits)

lemmas calm_intros = publish_calm stop_transfer_calm fields_calm

lemma complete_receive_transfer_calm:
  "complete_receive_transfer sync_ok replace_ok a w = (r, w') \<Longrightarrow> calm w w'"
  by (auto simp: complete_receive_transfer_def Let_def
      split: if_splits transfer_resource.splits prod.splits sum.splits
      dest!: atomic_replace_calm [of _ _ _ _ _ _ w] take_active_calm [of _ _ _ _ w]
      intro!: publish_calm)

lemma complete_receive_calm:
  "complete_receive t sync_ok replace_ok tid token w = (r, w') \<Longrightarrow> calm w w'"
  by (auto simp: complete_receive_def intro: complete_receive_transfer_calm split: sum.splits)

lemma complete_webtransport_receive_calm:
  "complete_webtransport_receive t sync_ok replace_ok c w = (r, w') \<Longrightarrow> calm w w'"
  by (auto simp: complete_webtransport_receive_def Let_def intro: complete_receive_transfer_calm
      split: sum.splits if_splits)

lemma finish_send_calm: "finish_send_transfer tid w = (r, w') \<Longrightarrow> calm w w'"
  by (auto simp: finish_send_transfer_def split: prod.splits sum.splits transfer_resource.splits
      dest!: take_active_calm [of _ _ _ _ w] release_source_calm [of _ _ _ _ w])

lemma select_files_calm: "select_files random picked w = (r, w') \<Longrightarrow> calm w w'"
  by (auto simp: select_files_def intro: fields_calm split: sum.splits if_splits)

lemma cancel_calm: "cancel_transfer remove_ok tid w = (r, w') \<Longrightarrow> calm w w'"
  by (auto simp: cancel_transfer_def Let_def split: prod.splits sum.splits transfer_resource.splits
      dest!: take_active_calm [of _ _ _ _ w] release_source_calm [of _ _ _ _ w]
      intro!: calm_intros)

lemma fail_calm: "calm w (fail_transfer remove_ok tid error w)"
proof -
  have "calm w (snd (release_source source v))" if "calm w v" for source v
    using release_source_calm [OF surjective_pairing that] .
  then show ?thesis
    by (auto simp: fail_transfer_def Let_def split: prod.splits sum.splits transfer_resource.splits
        dest!: take_active_calm [of _ _ _ _ w] intro!: calm_intros)
qed

lemma cancel_all_calm: "calm w (cancel_all remove_ok w)"
  by (auto simp: cancel_all_def Let_def split: option.splits intro!: calm_intros)

lemma put_same_calm: "core x = core (w_transfers w ! a) \<Longrightarrow> calm w (put_transfer a x w)"
  by (simp add: calm_def frame_simps cores_put_same)

lemma connection_calm:
  "begin_webtransport_connection t1 t2 tid token i direction peer w = (r, w') \<Longrightarrow> calm w w'"
  by (auto simp: begin_webtransport_connection_def split: sum.splits prod.splits
      dest!: consume_token_core transfer_touch_core intro!: put_same_calm)

lemma touch_calm: "lease_touch t l w = (r, w') \<Longrightarrow> calm w w'"
  by (auto simp: lease_touch_def Let_def split: prod.splits if_splits
      dest!: transfer_touch_core intro!: put_same_calm)

lemma buffer_calm: "acquire_buffer l w = (r, w') \<Longrightarrow> calm w w'"
  by (auto simp: acquire_buffer_def Let_def split: prod.splits sum.splits intro!: put_same_calm)

text \<open>An installation appends a well-formed transfer and makes it the active one.\<close>

definition grows :: "world \<Rightarrow> world \<Rightarrow> bool" where
  "grows w w' \<longleftrightarrow> (\<exists>c. cores w' = cores w @ [c] \<and> core_wf c) \<and> w_active w' = Some (length (cores w))"

lemma new_transfer_wf:
  assumes "new_transfer t random tid spec = Inr (x, auth)" and "resource_wf (sp_resource spec)"
  shows "core_wf (core x)"
proof -
  from assms(1) have
    new: "segments_new (sp_total_bytes spec) (segment_bytes_of (sp_data_plane spec)) = Inr (at_segments x)"
    and fields: "at_total_bytes x = sp_total_bytes spec" "at_data_plane x = sp_data_plane spec"
      "at_resource x = sp_resource spec"
    by (auto simp: new_transfer_def result_simps lift_err_def split: sum.splits)
  from segments_new_inv [OF new] new fields assms(2) show ?thesis
    by (simp add: core_wf_def core_def segments_new_Inr_iff)
qed

lemma install_grows:
  "core_wf (core x) \<Longrightarrow>
     grows w (w\<lparr>w_active := Some (length (w_transfers w)), w_transfers := w_transfers w @ [x]\<rparr>)"
  unfolding grows_def by (intro conjI exI [of _ "core x"]) (simp_all add: cores_def)

lemma install_with_id_cases:
  assumes "install_transfer_with_id t random tid spec w = (r, w')" and "resource_wf (sp_resource spec)"
  shows "calm w w' \<or> grows w w'"
  using assms new_transfer_wf [of t random tid spec]
  by (auto simp: install_transfer_with_id_def install_grows split: sum.splits if_splits)

lemma install_cases:
  assumes "install_transfer t random spec w = (r, w')" and "resource_wf (sp_resource spec)"
  shows "calm w w' \<or> grows w w'"
  using assms install_with_id_cases [of _ _ _ spec w r w']
  by (auto simp: install_transfer_def split: option.splits)

lemma create_send_cases:
  "create_send_transfer t random source att owner peer plane w = (r, w') \<Longrightarrow> calm w w' \<or> grows w w'"
  by (auto simp: create_send_transfer_def resource_wf_def
      split: sum.splits if_splits option.splits dest!: install_cases)

lemma temporary_path_part: "temporary_path p tid = Inr q \<Longrightarrow> is_part_path q"
  unfolding temporary_path_def is_part_path_def Let_def result_simps by auto blast

lemma calm_dir_grows:
  "grows (w\<lparr>w_dir := d, w_next_inode := n\<rparr>) w' \<Longrightarrow> grows w w'"
  "calm (w\<lparr>w_dir := d, w_next_inode := n\<rparr>) w' \<Longrightarrow> calm w w'"
  by (auto simp: grows_def calm_def cores_def)

lemma prepare_receive_cases:
  assumes "prepare_receive_open t random create_ok set_len_ok destination att owner peer n plane w = (r, w')"
  shows "calm w w' \<or> grows w w'"
proof (cases "destination")
  case None
  with assms show ?thesis by (simp add: prepare_receive_open_def)
next
  case (Some p)
  have calm_len: "calm w (w\<lparr>w_dir := d, w_next_inode := k\<rparr>)" for d k
    by (simp add: calm_def frame_simps)
  show ?thesis
    using assms Some calm_len temporary_path_part
    by (auto simp: prepare_receive_open_def Let_def resource_wf_def calm_def frame_simps
        split: option.splits sum.splits if_splits prod.splits
        dest!: install_with_id_cases calm_dir_grows)
qed

lemma grows_system:
  assumes g: "grows (y_world s) w" and inv: "system_inv s"
  shows "system_inv (s\<lparr>y_world := w\<rparr>)"
proof -
  from g obtain c where c: "cores w = cores (y_world s) @ [c]" "core_wf c"
    and act: "w_active w = Some (length (cores (y_world s)))"
    by (auto simp: grows_def)
  have len: "length (w_transfers w) = Suc (length (w_transfers (y_world s)))"
    using arg_cong [OF c(1), of length] by simp
  have "lease_ok w l" if "lease_ok (y_world s) l" for l
    using that len by (simp add: lease_ok_def c(1) nth_append del: nth_cores)
  then show ?thesis
    using inv c act len by (auto simp: system_inv_def world_inv_def)
qed

section \<open>Leases\<close>

text \<open>Changing the tracker of one transfer keeps the leases whose segment stays active.\<close>

lemma lease_ok_update:
  assumes "cores w' = (cores w)[a := (g, c)]" and "segment_at g = segment_at (fst (cores w ! a))"
    and "lease_ok w l" and "ls_transfer l = a \<Longrightarrow> ls_index l \<in> sg_in Active g"
  shows "lease_ok w' l"
proof -
  have "length (w_transfers w') = length (w_transfers w)"
    using arg_cong [OF assms(1), of length] by simp
  then show ?thesis
    using assms by (cases "ls_transfer l = a") (simp_all add: lease_ok_def del: nth_cores)
qed

lemma world_inv_update:
  assumes "cores w' = (cores w)[a := c]" and "w_active w' = w_active w" and "core_wf c" and "world_inv w"
  shows "world_inv w'"
proof -
  have "length (w_transfers w') = length (w_transfers w)"
    using arg_cong [OF assms(1), of length] by simp
  moreover have "set ((cores w)[a := c]) \<subseteq> insert c (set (cores w))" by (rule set_update_subset_insert)
  ultimately show ?thesis using assms by (auto simp: world_inv_def list_all_iff)
qed

lemma world_inv_nth:
  assumes "world_inv w" and "a < length (w_transfers w)"
  shows "core_wf (core (w_transfers w ! a))"
  using assms by (simp add: world_inv_def list_all_length)

lemma core_wf_segments:
  "core_wf (core x) \<Longrightarrow> segments_inv g \<Longrightarrow>
   sg_total_bytes g = sg_total_bytes (at_segments x) \<Longrightarrow> sg_segment_bytes g = sg_segment_bytes (at_segments x) \<Longrightarrow>
   core_wf (g, at_total_bytes x, at_data_plane x, at_resource x)"
  by (simp add: core_wf_def core_def)

lemma core_wf_inv: "core_wf (core x) \<Longrightarrow> segments_inv (at_segments x)"
  by (simp add: core_wf_def core_def)

lemma reserve_cases:
  assumes inv: "world_inv w" and a: "a < length (w_transfers w)"
    and eq: "reserve_lease t a offset len w = (r, w')"
  shows "(\<exists>e. r = Inl e \<and> w' = w) \<or>
    (\<exists>i g. segments_reserve offset len (at_segments (w_transfers w ! a)) = (Inr i, g) \<and>
       cores w' = (cores w)[a := (g, snd (core (w_transfers w ! a)))] \<and> w_active w' = w_active w \<and>
       w_dir w' = w_dir w \<and>
       (\<forall>l. r = Inr l \<longrightarrow> l = \<lparr>ls_transfer = a, ls_index = i, ls_offset = offset, ls_len = len\<rparr>))"
proof (cases "segments_reserve offset len (at_segments (w_transfers w ! a))")
  case (Pair q g)
  show ?thesis
  proof (cases q)
    case (Inl e)
    with Pair eq show ?thesis by (auto simp: reserve_lease_def Let_def)
  next
    case (Inr i)
    obtain r2 x' where touch: "transfer_touch t ((w_transfers w ! a)\<lparr>at_segments := g\<rparr>) = (r2, x')"
      by fastforce
    then have "core x' = (g, snd (core (w_transfers w ! a)))"
      using transfer_touch_core by (fastforce simp: core_def)
    with touch Pair Inr eq show ?thesis
      by (auto simp: reserve_lease_def Let_def cores_put frame_simps split: sum.splits)
  qed
qed

lemma reserve_system:
  assumes inv: "system_inv s" and a: "a < length (w_transfers (y_world s))"
    and eq: "reserve_lease t a offset len (y_world s) = (r, w)"
  shows "system_inv (s\<lparr>y_world := w\<rparr>)"
    and "r = Inr l \<Longrightarrow> system_inv (s\<lparr>y_world := w, y_leases := l # y_leases s\<rparr>)"
proof -
  let ?x = "w_transfers (y_world s) ! a"
  have winv: "world_inv (y_world s)" using inv by (simp add: system_inv_def)
  note wf = world_inv_nth [OF winv a]
  note cases = reserve_cases [OF winv a eq]
  {
    fix i g
    assume g: "segments_reserve offset len (at_segments ?x) = (Inr i, g)"
      and cores: "cores w = (cores (y_world s))[a := (g, snd (core ?x))]"
      and act: "w_active w = w_active (y_world s)"
    note spec = g [unfolded segments_reserve_Inr_iff [OF core_wf_inv [OF wf]]]
    have ginv: "segments_inv g" using core_wf_inv [OF wf] g by (rule segments_reserve_inv)
    have cwf: "core_wf (g, snd (core ?x))"
      using core_wf_segments [OF wf ginv] spec by (simp add: core_def)
    have at: "segment_at g = segment_at (fst (cores (y_world s) ! a))" using spec a by simp
    have active: "sg_in Active g = insert i (sg_in Active (at_segments ?x))"
      using spec by (simp add: sg_in_move [of i Pending])
    have len: "length (w_transfers w) = length (w_transfers (y_world s))"
      using arg_cong [OF cores, of length] by simp
    have old: "lease_ok w l" if "l \<in> set (y_leases s)" for l
      using that inv a active
      by (intro lease_ok_update [OF cores at]) (auto simp: system_inv_def lease_ok_def)
    have sys: "system_inv (s\<lparr>y_world := w\<rparr>)"
      using inv old len world_inv_update [OF cores act cwf winv] by (simp add: system_inv_def)
    have new: "lease_ok w \<lparr>ls_transfer = a, ls_index = i, ls_offset = offset, ls_len = len'\<rparr>"
      if "(unat offset, unat len') = segment_at (at_segments ?x) i" for len'
      using that a active at by (simp add: lease_ok_def cores len del: nth_cores) (simp add: a)
    have "(a, i) \<notin> lease_key ` set (y_leases s)"
      using inv spec a by (auto simp: system_inv_def lease_ok_def lease_key_def sg_in_def)
    note sys this new [OF conjunct1 [OF spec]]
  }
  note main = this
  from cases show "system_inv (s\<lparr>y_world := w\<rparr>)"
    using inv main(1) by auto
  assume r: "r = Inr l"
  from cases show "system_inv (s\<lparr>y_world := w, y_leases := l # y_leases s\<rparr>)"
  proof (elim disjE exE conjE)
    fix i g
    assume g: "segments_reserve offset len (at_segments ?x) = (Inr i, g)"
      and rest: "cores w = (cores (y_world s))[a := (g, snd (core ?x))]" "w_active w = w_active (y_world s)"
        "\<forall>l. r = Inr l \<longrightarrow> l = \<lparr>ls_transfer = a, ls_index = i, ls_offset = offset, ls_len = len\<rparr>"
    from main [OF g rest(1,2)] rest(3) r show ?thesis
      by (simp add: system_inv_def lease_key_def)
  qed (use r in simp)
qed

lemma without_mset: "i < length xs \<Longrightarrow> mset xs = add_mset (xs ! i) (mset (without i xs))"
proof -
  assume "i < length xs"
  then have "mset xs = mset (take i xs @ xs ! i # drop (Suc i) xs)"
    by (simp only: id_take_nth_drop [symmetric])
  then show ?thesis by (simp add: without_def)
qed

lemma without_distinct:
  assumes "i < length xs" and "distinct (map f xs)"
  shows "distinct (map f (without i xs))" and "f (xs ! i) \<notin> f ` set (without i xs)"
    and "set (without i xs) \<subseteq> set xs"
proof -
  have eq: "mset (map f xs) = mset (f (xs ! i) # map f (without i xs))"
    using without_mset [OF assms(1)] by simp
  have "distinct (f (xs ! i) # map f (without i xs))"
    using assms(2) mset_eq_imp_distinct_iff [OF eq] by blast
  then show "distinct (map f (without i xs))" "f (xs ! i) \<notin> f ` set (without i xs)" by simp_all
  show "set (without i xs) \<subseteq> set xs" by (auto simp: without_def dest: in_set_takeD in_set_dropD)
qed

text \<open>Giving a lease back, with or without its segment: the others keep theirs.\<close>

lemma return_lease:
  assumes inv: "system_inv s" and i: "i < length (y_leases s)"
    and l: "l = y_leases s ! i"
    and cores: "cores w = (cores (y_world s))[ls_transfer l := (g, snd (core (w_transfers (y_world s) ! ls_transfer l)))]"
    and act: "w_active w = w_active (y_world s)"
    and ginv: "segments_inv g"
    and shape: "sg_total_bytes g = sg_total_bytes (at_segments (w_transfers (y_world s) ! ls_transfer l))"
      "sg_segment_bytes g = sg_segment_bytes (at_segments (w_transfers (y_world s) ! ls_transfer l))"
    and active: "sg_in Active g = sg_in Active (at_segments (w_transfers (y_world s) ! ls_transfer l)) - {ls_index l}"
  shows "system_inv (s\<lparr>y_world := w, y_leases := without i (y_leases s)\<rparr>)"
proof -
  let ?x = "w_transfers (y_world s) ! ls_transfer l"
  have lok: "lease_ok (y_world s) l" and winv: "world_inv (y_world s)"
    and dist: "distinct (map lease_key (y_leases s))"
    using inv i l by (simp_all add: system_inv_def)
  have a: "ls_transfer l < length (w_transfers (y_world s))" using lok by (simp add: lease_ok_def)
  have cwf: "core_wf (g, snd (core ?x))"
    using core_wf_segments [OF world_inv_nth [OF winv a] ginv] shape by (simp add: core_def)
  have at: "segment_at g = segment_at (fst (cores (y_world s) ! ls_transfer l))"
    using shape a by (simp add: segment_at_def sg_total_def sg_ext_def fun_eq_iff)
  note wo = without_distinct [OF i dist]
  have "lease_ok w k" if k: "k \<in> set (without i (y_leases s))" for k
  proof (rule lease_ok_update [OF cores at])
    show k_ok: "lease_ok (y_world s) k" using inv wo(3) k by (auto simp: system_inv_def)
    assume same: "ls_transfer k = ls_transfer l"
    moreover have "lease_key k \<noteq> lease_key l" using wo(2) k l by (metis imageI)
    ultimately show "ls_index k \<in> sg_in Active g"
      using k_ok a active by (auto simp: lease_key_def lease_ok_def)
  qed
  moreover have "length (w_transfers w) = length (w_transfers (y_world s))"
    using arg_cong [OF cores, of length] by simp
  ultimately show ?thesis
    using inv wo(1) world_inv_update [OF cores act cwf winv] by (simp add: system_inv_def)
qed

lemma lease_drop_system:
  assumes "system_inv s" and "i < length (y_leases s)"
  shows "system_inv (s\<lparr>y_world := lease_drop (y_leases s ! i) (y_world s),
                       y_leases := without i (y_leases s)\<rparr>)"
proof -
  let ?l = "y_leases s ! i"
  let ?x = "w_transfers (y_world s) ! ls_transfer ?l"
  have "lease_ok (y_world s) ?l" "world_inv (y_world s)" using assms by (simp_all add: system_inv_def)
  then have "segments_inv (at_segments ?x)"
    using world_inv_nth core_wf_inv by (auto simp: lease_ok_def)
  note rel = segments_release_inv [OF this, of "ls_index ?l"]
  show ?thesis
    by (rule return_lease [OF assms refl, where g = "segments_release (ls_index ?l) (at_segments ?x)"])
       (use rel in \<open>simp_all add: lease_drop_def Let_def cores_put frame_simps core_def segments_release_def\<close>)
qed

text \<open>A commit by a valid lease always reaches the tracker.\<close>

lemma commit_cases:
  assumes inv: "system_inv s" and i: "i < length (y_leases s)" and l: "l = y_leases s ! i"
    and eq: "commit_segment t l (y_world s) = (r, w)"
  obtains g c where
    "segments_complete (ls_index l) (ls_len l) (at_segments (w_transfers (y_world s) ! ls_transfer l)) = (Inr c, g)"
    "cores w = (cores (y_world s))[ls_transfer l := (g, snd (core (w_transfers (y_world s) ! ls_transfer l)))]"
    "w_active w = w_active (y_world s)" "w_dir w = w_dir (y_world s)"
    "\<And>n. r = Inr n \<Longrightarrow> n = c"
proof -
  let ?x = "w_transfers (y_world s) ! ls_transfer l"
  have lok: "lease_ok (y_world s) l" and winv: "world_inv (y_world s)"
    using inv i l by (simp_all add: system_inv_def)
  then have sinv: "segments_inv (at_segments ?x)" and act: "ls_index l \<in> sg_in Active (at_segments ?x)"
    using world_inv_nth core_wf_inv by (auto simp: lease_ok_def)
  obtain c g where g: "segments_complete (ls_index l) (ls_len l) (at_segments ?x) = (Inr c, g)"
    using act by (auto simp: segments_complete_Inr_iff [OF sinv])
  have "w_active w = w_active (y_world s)" "w_dir w = w_dir (y_world s)"
    "cores w = (cores (y_world s))[ls_transfer l := (g, snd (core ?x))]" "r = Inr n \<Longrightarrow> n = c" for n
    using eq g by (auto simp: commit_segment_def Let_def cores_put frame_simps core_def
        split: sum.splits if_splits)
  with g that show thesis by blast
qed

lemma commit_system:
  assumes inv: "system_inv s" and i: "i < length (y_leases s)"
    and eq: "commit_segment t (y_leases s ! i) (y_world s) = (r, w)"
  shows "system_inv (s\<lparr>y_world := w, y_leases := without i (y_leases s)\<rparr>)"
proof -
  let ?l = "y_leases s ! i"
  let ?x = "w_transfers (y_world s) ! ls_transfer ?l"
  have lok: "lease_ok (y_world s) ?l" and winv: "world_inv (y_world s)"
    using inv i by (simp_all add: system_inv_def)
  then have sinv: "segments_inv (at_segments ?x)"
    using world_inv_nth core_wf_inv by (auto simp: lease_ok_def)
  obtain g c where g: "segments_complete (ls_index ?l) (ls_len ?l) (at_segments ?x) = (Inr c, g)"
    and cores: "cores w = (cores (y_world s))[ls_transfer ?l := (g, snd (core ?x))]"
    and act: "w_active w = w_active (y_world s)"
    by (rule commit_cases [OF inv i refl eq])
  note spec = g [unfolded segments_complete_Inr_iff [OF sinv]]
  have "unat (ls_len ?l) = extent_len (sg_total (at_segments ?x)) (sg_ext (at_segments ?x)) (ls_index ?l)"
    using lok by (simp add: lease_ok_def segment_at_def)
  from segments_complete_inv [OF sinv g this] have ginv: "segments_inv g" by simp
  show ?thesis
    by (rule return_lease [OF inv i refl cores act ginv])
       (use spec in \<open>auto simp: sg_in_move [of _ Active]\<close>)
qed

section \<open>The invariant holds in every run\<close>

lemma active_transfer_bound:
  "world_inv w \<Longrightarrow> active_transfer_of tid w = Inr a \<Longrightarrow> a < length (w_transfers w)"
  by (auto simp: active_transfer_of_def world_inv_def split: if_splits option.splits)

lemma begin_lna_cases:
  assumes "begin_lna_segment t1 t2 tid token direction offset len w = (r, w')"
  shows "(\<exists>e. r = Inl e \<and> w' = w) \<or>
    (\<exists>a. active_transfer_of tid w = Inr a \<and>
       validate_lna t1 token direction (w_transfers w ! a) = Inr () \<and>
       reserve_lease t2 a offset len w = (r, w'))"
  using assms by (auto simp: begin_lna_segment_def result_simps split: sum.splits)

lemma begin_extent_cases:
  assumes "begin_webtransport_extent t2 c lane offset len w = (r, w')"
  shows "(\<exists>e. r = Inl e \<and> w' = w) \<or> reserve_lease t2 (cn_transfer c) offset len w = (r, w')"
  using assms by (auto simp: begin_webtransport_extent_def Let_def split: if_splits)

lemma connect_transfer:
  assumes "begin_webtransport_connection t1 t2 tid token i direction peer w = (Inr c, w')"
  shows "active_transfer_of tid w = Inr (cn_transfer c) \<and> cn_index c = i"
  using assms by (auto simp: begin_webtransport_connection_def split: sum.splits prod.splits)

lemma transfer_step_inv:
  assumes "transfer_step s s'" and "system_inv s"
  shows "system_inv s'"
  using assms
proof (induction rule: transfer_step.induct)
  case (Connect t1 t2 tid token i direction peer s c w)
  have "world_inv (y_world s)" using Connect by (simp add: system_inv_def)
  then have "cn_transfer c < length (w_transfers (y_world s))"
    using connect_transfer [OF Connect(1)] active_transfer_bound by blast
  moreover have "length (w_transfers w) = length (w_transfers (y_world s))"
    using connection_calm [OF Connect(1)] by (simp add: calm_def flip: length_cores)
  ultimately show ?case
    using calm_system [OF connection_calm [OF Connect(1)] Connect(2)] by (simp add: system_inv_def)
next
  case (BeginLna t1 t2 tid token direction offset len s l w)
  then have "world_inv (y_world s)" by (simp add: system_inv_def)
  with begin_lna_cases [OF BeginLna(1)] obtain a where "a < length (w_transfers (y_world s))"
    "reserve_lease t2 a offset len (y_world s) = (Inr l, w)"
    using active_transfer_bound by blast
  then show ?case using reserve_system(2) [OF BeginLna(2)] by blast
next
  case (BeginLnaFails t1 t2 tid token direction offset len s e w)
  then have "world_inv (y_world s)" by (simp add: system_inv_def)
  with begin_lna_cases [OF BeginLnaFails(1)] consider "w = y_world s"
    | a where "a < length (w_transfers (y_world s))"
        "reserve_lease t2 a offset len (y_world s) = (Inl e, w)"
    using active_transfer_bound by blast
  then show ?case using reserve_system(1) [OF BeginLnaFails(2)] BeginLnaFails(2) by cases auto
next
  case (BeginExtent c s t2 lane offset len l w)
  then have "cn_transfer c < length (w_transfers (y_world s))" by (simp add: system_inv_def)
  then show ?case
    using begin_extent_cases [OF BeginExtent(2)] reserve_system(2) [OF BeginExtent(3)] by blast
next
  case (BeginExtentFails c s t2 lane offset len e w)
  then have "cn_transfer c < length (w_transfers (y_world s))" by (simp add: system_inv_def)
  then show ?case
    using begin_extent_cases [OF BeginExtentFails(2)] reserve_system(1) [OF BeginExtentFails(3)]
      BeginExtentFails(3) by auto
qed (auto intro: calm_system grows_system commit_system lease_drop_system
      complete_receive_calm complete_webtransport_receive_calm finish_send_calm cancel_calm fail_calm
      cancel_all_calm touch_calm buffer_calm select_files_calm connection_calm
      release_source_calm [OF _ calm_refl]
      dest!: create_send_cases prepare_receive_cases)

lemma system_new_inv: "system_inv system_new"
  by (simp add: system_inv_def system_new_def world_inv_def manager_new_def cores_def)

lemma reachable_system_inv: "reachable_system s \<Longrightarrow> system_inv s"
  unfolding reachable_system_def
  by (induction rule: rtranclp_induct) (auto intro: system_new_inv transfer_step_inv)

section \<open>Connection tokens are one-time\<close>

datatype connection_attempt = Attempt int bytes nat native_file_direction string

fun attempt_result ::
  "active_transfer \<Rightarrow> connection_attempt \<Rightarrow> (transfer_error + unit) \<times> active_transfer" where
  "attempt_result x (Attempt t token i direction peer) =
     consume_webtransport_token t token i direction peer x"

fun attempt_accepts :: "active_transfer \<Rightarrow> connection_attempt \<Rightarrow> nat \<Rightarrow> nat" where
  "attempt_accepts x (Attempt t token i direction peer) j =
     (if is_ok (fst (consume_webtransport_token t token i direction peer x)) \<and> i = j then 1 else 0)"

fun accepted_connections :: "active_transfer \<Rightarrow> connection_attempt list \<Rightarrow> nat \<Rightarrow> nat" where
  "accepted_connections x [] j = 0"
| "accepted_connections x (p # ps) j =
     attempt_accepts x p j + accepted_connections (snd (attempt_result x p)) ps j"

definition connection_credits :: "active_transfer \<Rightarrow> nat \<Rightarrow> nat" where
  "connection_credits x j =
     (if j < length (at_webtransport_consumed x) \<and> \<not> at_webtransport_consumed x ! j then 1 else 0)"

interpretation connections: one_time_store "\<lambda>_. True" connection_credits
  "\<lambda>x p. snd (attempt_result x p)" "\<lambda>_ _ _. 0" attempt_accepts
proof
  fix x p j
  obtain t token i direction peer where p: "p = Attempt t token i direction peer" by (cases p)
  show "connection_credits (snd (attempt_result x p)) j + attempt_accepts x p j \<le> connection_credits x j + 0"
    by (auto simp: p connection_credits_def consume_webtransport_token_def Let_def is_ok_iff
        result_simps nth_list_update)
qed simp

lemma accepted_connections_eq: "accepted_connections x ps j = connections.redemptions x ps j"
  by (induction ps arbitrary: x) simp_all

section \<open>Paths\<close>

text \<open>Everything but a completion leaves the paths alone that are not partial files.\<close>

lemma keeps_dir [frame_simps]:
  "w_dir (w\<lparr>w_active := v\<rparr>) = w_dir w" "w_dir (w\<lparr>w_selected := m\<rparr>) = w_dir w"
  "w_dir (w\<lparr>w_active := v, w_transfers := ts\<rparr>) = w_dir w"
  by simp_all

lemma take_active_dir: "take_active tid w = (r, w') \<Longrightarrow> w_dir w' = w_dir w \<and> w_transfers w' = w_transfers w"
  by (auto simp: take_active_def split: sum.splits)

lemma take_active_transfer:
  "world_inv w \<Longrightarrow> take_active tid w = (Inr a, w') \<Longrightarrow>
     a < length (w_transfers w) \<and> w_active w' = None \<and> w_active w = Some a \<and>
     at_transfer_id (w_transfers w ! a) = tid"
  by (auto simp: take_active_def active_transfer_of_def world_inv_def
      split: sum.splits if_splits option.splits)

lemma release_source_dir: "release_source source w = (r, w') \<Longrightarrow> w_dir w' = w_dir w"
  by (auto simp: release_source_def split: if_splits)

lemma resource_wf_nth:
  "world_inv w \<Longrightarrow> a < length (w_transfers w) \<Longrightarrow>
     at_resource (w_transfers w ! a) = ReceiveResource file part final \<Longrightarrow> is_part_path part"
  using world_inv_nth [of w a] by (auto simp: core_wf_def core_def resource_wf_def)

lemma stop_transfer_dir:
  assumes "world_inv w" and "a < length (w_transfers w)" and "w_transfers v = w_transfers w" and "\<not> is_part_path p"
  shows "w_dir (stop_transfer remove_ok a v) p = w_dir v p"
proof (cases "at_resource (w_transfers w ! a)")
  case (ReceiveResource inode part final)
  with resource_wf_nth [OF assms(1,2)] assms(4) have "p \<noteq> part" by auto
  with ReceiveResource assms(3) show ?thesis
    by (simp add: stop_transfer_def cleanup_resource_def Let_def put_transfer_def)
qed (simp add: assms(3) stop_transfer_def cleanup_resource_def Let_def put_transfer_def)

lemma cancel_dir:
  assumes inv: "world_inv w" and "cancel_transfer remove_ok tid w = (r, w')" and p: "\<not> is_part_path p"
  shows "w_dir w' p = w_dir w p"
proof (cases "take_active tid w")
  case (Pair q w1)
  show ?thesis
  proof (cases q)
    case (Inr a)
    have "w_dir (stop_transfer remove_ok a w1) p = w_dir w1 p"
      using take_active_transfer [OF inv, of tid a w1] take_active_dir [OF Pair] Pair Inr inv p
      by (intro stop_transfer_dir [OF inv]) simp_all
    then show ?thesis
      using assms(2) Pair Inr take_active_dir [OF Pair]
      by (auto simp: cancel_transfer_def Let_def frame_simps dest!: release_source_dir
          split: prod.splits sum.splits transfer_resource.splits)
  qed (use assms(2) Pair take_active_dir [OF Pair] in \<open>auto simp: cancel_transfer_def\<close>)
qed

lemma fail_dir:
  assumes inv: "world_inv w" and p: "\<not> is_part_path p"
  shows "w_dir (fail_transfer remove_ok tid error w) p = w_dir w p"
proof (cases "take_active tid w")
  case (Pair q w1)
  show ?thesis
  proof (cases q)
    case (Inr a)
    have "w_dir (stop_transfer remove_ok a w1) p = w_dir w1 p"
      using take_active_transfer [OF inv, of tid a w1] take_active_dir [OF Pair] Pair Inr inv p
      by (intro stop_transfer_dir [OF inv]) simp_all
    moreover have "w_dir (snd (release_source source v)) = w_dir v" for source v
      using release_source_dir surjective_pairing by metis
    ultimately show ?thesis
      using Pair Inr take_active_dir [OF Pair]
      by (auto simp: fail_transfer_def Let_def frame_simps
          split: prod.splits sum.splits transfer_resource.splits)
  qed (use Pair take_active_dir [OF Pair] in \<open>auto simp: fail_transfer_def\<close>)
qed

lemma cancel_all_dir:
  assumes "world_inv w" and "\<not> is_part_path p"
  shows "w_dir (cancel_all remove_ok w) p = w_dir w p"
  using assms stop_transfer_dir [OF assms(1), of _ "w\<lparr>w_active := None\<rparr>" p]
  by (auto simp: cancel_all_def Let_def world_inv_def split: option.splits)

lemma install_dir: "install_transfer_with_id t random tid spec w = (r, w') \<Longrightarrow> w_dir w' = w_dir w"
  by (auto simp: install_transfer_with_id_def split: sum.splits if_splits)

lemma create_send_dir:
  "create_send_transfer t random source att owner peer plane w = (r, w') \<Longrightarrow> w_dir w' = w_dir w"
  by (auto simp: create_send_transfer_def install_transfer_def dest!: install_dir
      split: sum.splits if_splits option.splits)

lemma prepare_receive_dir:
  assumes "prepare_receive_open t random create_ok set_len_ok destination att owner peer n plane w = (r, w')"
    and "\<not> is_part_path p"
  shows "w_dir w' p = w_dir w p"
  using assms temporary_path_part
  by (auto simp: prepare_receive_open_def Let_def dest!: install_dir
      split: option.splits sum.splits if_splits prod.splits)

lemma reserve_dir: "reserve_lease t a offset len w = (r, w') \<Longrightarrow> w_dir w' = w_dir w"
  by (auto simp: reserve_lease_def Let_def put_transfer_def split: prod.splits sum.splits)

lemma begin_lna_dir: "begin_lna_segment t1 t2 tid token direction offset len w = (r, w') \<Longrightarrow> w_dir w' = w_dir w"
  using begin_lna_cases [of t1 t2 tid token direction offset len w r w'] reserve_dir by blast

lemma begin_extent_dir: "begin_webtransport_extent t c lane offset len w = (r, w') \<Longrightarrow> w_dir w' = w_dir w"
  using begin_extent_cases [of t c lane offset len w r w'] reserve_dir by blast

lemma connect_dir:
  "begin_webtransport_connection t1 t2 tid token i direction peer w = (r, w') \<Longrightarrow> w_dir w' = w_dir w"
  by (auto simp: begin_webtransport_connection_def put_transfer_def split: sum.splits prod.splits)

lemma commit_dir: "commit_segment t l w = (r, w') \<Longrightarrow> w_dir w' = w_dir w"
  by (auto simp: commit_segment_def lease_drop_def Let_def put_transfer_def publish_def
      split: sum.splits prod.splits if_splits)

lemma small_dir:
  "w_dir (lease_drop l w) = w_dir w"
  "lease_touch t l w = (r1, w1) \<Longrightarrow> w_dir w1 = w_dir w"
  "acquire_buffer l w = (r2, w2) \<Longrightarrow> w_dir w2 = w_dir w"
  "finish_send_transfer tid w = (r3, w3) \<Longrightarrow> w_dir w3 = w_dir w"
  "select_files random picked w = (r4, w4) \<Longrightarrow> w_dir w4 = w_dir w"
  by (auto simp: lease_drop_def lease_touch_def acquire_buffer_def finish_send_transfer_def
      select_files_def Let_def put_transfer_def dest!: take_active_dir release_source_dir
      split: prod.splits sum.splits if_splits transfer_resource.splits)

text \<open>A completion that changes the directory has complete coverage.\<close>

lemma complete_dir:
  assumes "complete_receive_transfer sync_ok replace_ok a w = (r, w')" and "w_dir w' p \<noteq> w_dir w p"
  shows "\<exists>file part final. at_resource (w_transfers w ! a) = ReceiveResource file part final \<and>
    segments_is_complete (at_segments (w_transfers w ! a)) \<and> (p = part \<or> p = final) \<and>
    w_dir w' = ((w_dir w)(part := None))(final := w_dir w part)"
  using assms
  by (auto simp: complete_receive_transfer_def Let_def publish_def atomic_replace_def
      dest!: take_active_dir split: if_splits transfer_resource.splits prod.splits sum.splits option.splits)

lemma complete_leases:
  assumes inv: "system_inv s" and a: "a < length (w_transfers (y_world s))"
    and complete: "segments_is_complete (at_segments (w_transfers (y_world s) ! a))"
  shows "sg_in Complete (at_segments (w_transfers (y_world s) ! a)) =
           {..<length (sg_states (at_segments (w_transfers (y_world s) ! a)))}"
    and "l \<in> set (y_leases s) \<Longrightarrow> ls_transfer l \<noteq> a"
proof -
  let ?g = "at_segments (w_transfers (y_world s) ! a)"
  have ginv: "segments_inv ?g"
    using inv a world_inv_nth core_wf_inv by (simp add: system_inv_def)
  have "sg_in Complete ?g = {..<extent_count (sg_total ?g) (sg_ext ?g)}"
    using complete segments_is_complete_iff [OF ginv] by simp
  also have "extent_count (sg_total ?g) (sg_ext ?g) = length (sg_states ?g)"
    using ginv by (simp add: segments_inv_def)
  finally show all: "sg_in Complete ?g = {..<length (sg_states ?g)}" .
  assume l: "l \<in> set (y_leases s)"
  show "ls_transfer l \<noteq> a"
  proof
    assume "ls_transfer l = a"
    then have "ls_index l \<in> sg_in Active ?g"
      using inv l a by (auto simp: system_inv_def lease_ok_def)
    then have "ls_index l < length (sg_states ?g)" "sg_states ?g ! ls_index l = Active"
      by (simp_all add: sg_in_def)
    moreover from this(1) have "ls_index l \<in> sg_in Complete ?g" by (simp add: all)
    ultimately show False by (simp add: sg_in_def)
  qed
qed

end
