(* ===== verification/Network_Endpoints.thy ===== *)
theory Network_Endpoints
  imports Text_Codec "HOL-Library.Product_Lexorder"
begin

text \<open>
  The published network endpoints, crates/winrisef-agent/src/network_endpoints.rs: the address
  classes, the selection of publishable addresses, the endpoint texts and the policy for public
  IPv6.  Enumerating the adapters is a Windows call and its result an argument; the hash behind
  the network epoch is an argument too, since the standard library leaves it unspecified.

  An address is its bits in network order, so the order of addresses is that of the source: IPv4
  before IPv6, then by octets.
\<close>

unbundle bit_operations_syntax

section \<open>Addresses\<close>

datatype ip_addr = V4 u32 | V6 "128 word"

instantiation ip_addr :: linorder
begin

fun less_eq_ip_addr :: "ip_addr \<Rightarrow> ip_addr \<Rightarrow> bool" where
  "less_eq_ip_addr (V4 a) (V4 b) = (a \<le> b)"
| "less_eq_ip_addr (V4 a) (V6 b) = True"
| "less_eq_ip_addr (V6 a) (V4 b) = False"
| "less_eq_ip_addr (V6 a) (V6 b) = (a \<le> b)"

definition less_ip_addr :: "ip_addr \<Rightarrow> ip_addr \<Rightarrow> bool" where
  "less_ip_addr a b \<longleftrightarrow> a \<le> b \<and> \<not> b \<le> a"

instance
proof
  fix a b c :: ip_addr
  show "a < b \<longleftrightarrow> a \<le> b \<and> \<not> b \<le> a" by (rule less_ip_addr_def)
  show "a \<le> a" by (cases a) simp_all
  show "a \<le> b \<Longrightarrow> b \<le> c \<Longrightarrow> a \<le> c" by (cases a; cases b; cases c) simp_all
  show "a \<le> b \<Longrightarrow> b \<le> a \<Longrightarrow> a = b" by (cases a; cases b) simp_all
  show "a \<le> b \<or> b \<le> a" by (cases a; cases b) auto
qed

end

definition octet :: "nat \<Rightarrow> u32 \<Rightarrow> u8" where
  "octet i a = ucast (drop_bit (8 * (3 - i)) a)"

definition segment_of :: "nat \<Rightarrow> 128 word \<Rightarrow> u16" where
  "segment_of i a = ucast (drop_bit (16 * (7 - i)) a)"

text \<open>\<open>is_private\<close> and \<open>to_ipv4_mapped\<close> of the standard library.\<close>

definition is_private :: "u32 \<Rightarrow> bool" where
  "is_private a \<longleftrightarrow> octet 0 a = 10 \<or> (octet 0 a = 172 \<and> 16 \<le> octet 1 a \<and> octet 1 a \<le> 31) \<or>
     (octet 0 a = 192 \<and> octet 1 a = 168)"

definition to_ipv4_mapped :: "128 word \<Rightarrow> u32 option" where
  "to_ipv4_mapped a =
     (if segment_of 0 a = 0 \<and> segment_of 1 a = 0 \<and> segment_of 2 a = 0 \<and> segment_of 3 a = 0 \<and>
         segment_of 4 a = 0 \<and> segment_of 5 a = 0xffff
      then Some (ucast a) else None)"

definition is_cgnat :: "u32 \<Rightarrow> bool" where
  "is_cgnat a \<longleftrightarrow> octet 0 a = 100 \<and> 64 \<le> octet 1 a \<and> octet 1 a \<le> 127"

definition is_ula :: "128 word \<Rightarrow> bool" where
  "is_ula a \<longleftrightarrow> segment_of 0 a AND 0xfe00 = 0xfc00"

definition is_gua :: "128 word \<Rightarrow> bool" where
  "is_gua a \<longleftrightarrow> segment_of 0 a AND 0xe000 = 0x2000 \<and>
     \<not> (segment_of 0 a = 0x2001 \<and> segment_of 1 a = 0x0db8) \<and> to_ipv4_mapped a = None"

fun is_private_http_address :: "ip_addr \<Rightarrow> bool" where
  "is_private_http_address (V4 a) = (is_private a \<or> is_cgnat a)"
| "is_private_http_address (V6 a) = is_ula a"

fun is_public_ipv6 :: "ip_addr \<Rightarrow> bool" where
  "is_public_ipv6 (V4 a) = False"
| "is_public_ipv6 (V6 a) = is_gua a"

definition is_webtransport_address :: "ip_addr \<Rightarrow> bool" where
  "is_webtransport_address a \<longleftrightarrow> is_private_http_address a \<or> is_public_ipv6 a"

section \<open>Endpoint texts\<close>

definition show_ipv4 :: "u32 \<Rightarrow> string" where
  "show_ipv4 a = show_nat (unat (octet 0 a)) @ ''.'' @ show_nat (unat (octet 1 a)) @ ''.'' @
     show_nat (unat (octet 2 a)) @ ''.'' @ show_nat (unat (octet 3 a))"

text \<open>The display of IPv6: the first longest run of at least two zero segments is compressed.\<close>

fun show_hex :: "nat \<Rightarrow> string" where
  "show_hex n = (if n < 16 then [hex_char n] else show_hex (n div 16) @ [hex_char (n mod 16)])"

declare show_hex.simps [simp del]

fun join_segments :: "u16 list \<Rightarrow> string" where
  "join_segments [] = []"
| "join_segments [s] = show_hex (unat s)"
| "join_segments (s # t # ss) = show_hex (unat s) @ '':'' @ join_segments (t # ss)"

fun zero_runs :: "nat \<Rightarrow> u16 list \<Rightarrow> (nat \<times> nat) list" where
  "zero_runs i [] = []"
| "zero_runs i (s # ss) =
     (let run = length (takeWhile (\<lambda>x. x = 0) (s # ss))
      in if run = 0 then zero_runs (Suc i) ss else (i, run) # zero_runs (Suc i) ss)"

definition longest_run :: "u16 list \<Rightarrow> nat \<times> nat" where
  "longest_run ss = foldl (\<lambda>best r. if snd best < snd r then r else best) (0, 0) (zero_runs 0 ss)"

definition show_ipv6 :: "128 word \<Rightarrow> string" where
  "show_ipv6 a =
     (case to_ipv4_mapped a of
        Some b \<Rightarrow> ''::ffff:'' @ show_ipv4 b
      | None \<Rightarrow>
          let ss = map (\<lambda>i. segment_of i a) [0, 1, 2, 3, 4, 5, 6, 7];
              (start, run) = longest_run ss
          in if 1 < run then join_segments (take start ss) @ ''::'' @ join_segments (drop (start + run) ss)
             else join_segments ss)"

fun host_text :: "ip_addr \<Rightarrow> string" where
  "host_text (V4 a) = show_ipv4 a"
| "host_text (V6 a) = ''['' @ show_ipv6 a @ '']''"

definition http_endpoint :: "ip_addr \<Rightarrow> u16 \<Rightarrow> string \<Rightarrow> string" where
  "http_endpoint ip port path = ''http://'' @ host_text ip @ '':'' @ show_nat (unat port) @ path"

definition https_endpoint :: "ip_addr \<Rightarrow> u16 \<Rightarrow> string \<Rightarrow> string" where
  "https_endpoint ip port path = ''https://'' @ host_text ip @ '':'' @ show_nat (unat port) @ path"

section \<open>Publishing\<close>

datatype public_ipv6_state = NotPresent | Authorizing | Available | Unavailable

fun public_ipv6_text :: "public_ipv6_state \<Rightarrow> string" where
  "public_ipv6_text NotPresent = ''not-present''"
| "public_ipv6_text Authorizing = ''authorizing''"
| "public_ipv6_text Available = ''available''"
| "public_ipv6_text Unavailable = ''unavailable''"

record network_endpoints =
  ne_http_ips :: "ip_addr list"
  ne_webtransport_ips :: "ip_addr list"
  ne_network_epoch :: u64

record published_endpoints =
  pe_network_epoch :: string
  pe_benchmark_endpoints :: "string list"
  pe_lna_http_endpoints :: "string list"
  pe_file_http_endpoints :: "string list"
  pe_file_web_transport_endpoints :: "string list"
  pe_public_ipv6_state :: public_ipv6_state

definition endpoints_from_ips :: "(ip_addr list list \<Rightarrow> u64) \<Rightarrow> ip_addr list \<Rightarrow> network_endpoints" where
  "endpoints_from_ips hash ips =
     (let unique = remdups_adj (sort ips);
          webtransport_ips = filter is_webtransport_address unique
      in \<lparr>ne_http_ips = filter is_private_http_address unique, ne_webtransport_ips = webtransport_ips,
          ne_network_epoch = hash [webtransport_ips]\<rparr>)"

definition has_public_ipv6 :: "network_endpoints \<Rightarrow> bool" where
  "has_public_ipv6 e = list_ex is_public_ipv6 (ne_webtransport_ips e)"

text \<open>The epoch in 16 hexadecimal digits.\<close>

definition epoch_text :: "u64 \<Rightarrow> string" where
  "epoch_text n = (let digits = show_hex (unat n) in replicate (16 - length digits) (CHR ''0'') @ digits)"

definition webtransport_allowed :: "public_ipv6_state \<Rightarrow> ip_addr \<Rightarrow> bool" where
  "webtransport_allowed st ip \<longleftrightarrow> st = Available \<or> \<not> is_public_ipv6 ip"

text \<open>The paths are the constants of the endpoints they name.\<close>

definition published ::
  "(ip_addr list list \<Rightarrow> u64) \<Rightarrow> string \<times> string \<times> string \<times> string \<Rightarrow> u16 \<Rightarrow> public_ipv6_state \<Rightarrow>
     network_endpoints \<Rightarrow> published_endpoints" where
  "published hash paths port st e =
     (case paths of (benchmark_path, lna_path, file_path, file_wt_path) \<Rightarrow>
        let ips = filter (webtransport_allowed st) (ne_webtransport_ips e)
        in \<lparr>pe_network_epoch = epoch_text (hash [ne_http_ips e, ips]),
            pe_benchmark_endpoints = map (\<lambda>ip. https_endpoint ip port benchmark_path) ips,
            pe_lna_http_endpoints = map (\<lambda>ip. http_endpoint ip port lna_path) (ne_http_ips e),
            pe_file_http_endpoints = map (\<lambda>ip. http_endpoint ip port file_path) (ne_http_ips e),
            pe_file_web_transport_endpoints = map (\<lambda>ip. https_endpoint ip port file_wt_path) ips,
            pe_public_ipv6_state = st\<rparr>)"

section \<open>The policy\<close>

text \<open>The watch channel: its value, and how often it was replaced.\<close>

record endpoint_policy =
  ep_state :: public_ipv6_state
  ep_version :: nat

definition policy_new :: "public_ipv6_state \<Rightarrow> endpoint_policy" where
  "policy_new st = \<lparr>ep_state = st, ep_version = 0\<rparr>"

definition set_public_ipv6_state :: "public_ipv6_state \<Rightarrow> endpoint_policy \<Rightarrow> endpoint_policy" where
  "set_public_ipv6_state st p =
     (if ep_state p = st then p else p\<lparr>ep_state := st, ep_version := ep_version p + 1\<rparr>)"

text \<open>Addresses that a failed enumeration stands for are none.\<close>

definition discover :: "(ip_addr list list \<Rightarrow> u64) \<Rightarrow> unit + ip_addr list \<Rightarrow> network_endpoints" where
  "discover hash addresses =
     endpoints_from_ips hash (case addresses of Inl _ \<Rightarrow> [] | Inr ips \<Rightarrow> ips)"

section \<open>What is published\<close>

lemma sorted_remdups_adj_distinct: "sorted (xs :: ip_addr list) \<Longrightarrow> distinct (remdups_adj xs)"
  by (induction xs rule: remdups_adj.induct) auto

lemma remdups_adj_sort: "remdups_adj (sort xs) = sorted_list_of_set (set (xs :: ip_addr list))"
  by (rule sorted_distinct_set_unique) (simp_all add: sorted_remdups_adj_distinct)

lemma ula_not_gua: "is_ula a \<Longrightarrow> \<not> is_gua a"
proof
  assume ula: "is_ula a" and gua: "is_gua a"
  have "segment_of 0 a AND 0xe000 = (segment_of 0 a AND 0xfe00) AND 0xe000"
    by (simp add: and.assoc)
  also have "\<dots> = 0xe000" using ula by (simp add: is_ula_def)
  finally show False using gua by (simp add: is_gua_def)
qed

lemma private_not_public: "is_private_http_address ip \<Longrightarrow> \<not> is_public_ipv6 ip"
  by (cases ip) (simp_all add: ula_not_gua)

lemma webtransport_published:
  "is_webtransport_address ip \<and> webtransport_allowed st ip \<longleftrightarrow>
     is_private_http_address ip \<or> (is_public_ipv6 ip \<and> st = Available)"
  using private_not_public [of ip] by (auto simp: is_webtransport_address_def webtransport_allowed_def)

text \<open>Which addresses are published: over plain HTTP exactly the private ones (RFC 1918, carrier
  grade NAT, unique local), which are never public; over HTTPS these and, only while public IPv6 is
  available, the global unicast ones.\<close>
theorem published_exactly:
  "let pub = published hash (bench, lna, http, wt) port st (endpoints_from_ips hash ips);
       private = {ip \<in> set ips. is_private_http_address ip};
       public = {ip \<in> set ips. is_public_ipv6 ip \<and> st = Available}
   in set (pe_lna_http_endpoints pub) = (\<lambda>ip. http_endpoint ip port lna) ` private \<and>
      set (pe_file_http_endpoints pub) = (\<lambda>ip. http_endpoint ip port http) ` private \<and>
      set (pe_benchmark_endpoints pub) = (\<lambda>ip. https_endpoint ip port bench) ` (private \<union> public) \<and>
      set (pe_file_web_transport_endpoints pub) = (\<lambda>ip. https_endpoint ip port wt) ` (private \<union> public) \<and>
      private \<inter> {ip. is_public_ipv6 ip} = {}"
proof -
  let ?unique = "remdups_adj (sort ips)"
  have wt: "set (filter (webtransport_allowed st) (filter is_webtransport_address ?unique)) =
      {ip \<in> set ips. is_private_http_address ip} \<union> {ip \<in> set ips. is_public_ipv6 ip \<and> st = Available}"
    using webtransport_published [of _ st] by auto
  have http: "set (filter is_private_http_address ?unique) = {ip \<in> set ips. is_private_http_address ip}"
    by simp
  show ?thesis
    unfolding Let_def published_def endpoints_from_ips_def prod.case network_endpoints.simps
      published_endpoints.simps set_map wt http
    using private_not_public by blast
qed

text \<open>The endpoints and their epoch depend only on the set of addresses: neither the order of the
  adapters nor an address reported twice announces a network change.\<close>
theorem endpoints_order_independent:
  assumes "set ips = set ips'"
  shows "endpoints_from_ips hash ips = endpoints_from_ips hash ips' \<and>
         sorted_wrt (<) (ne_webtransport_ips (endpoints_from_ips hash ips)) \<and>
         set (ne_http_ips (endpoints_from_ips hash ips)) \<subseteq> set (ne_webtransport_ips (endpoints_from_ips hash ips))"
proof -
  have "sorted_wrt (<) (sorted_list_of_set (set ips))"
    by (rule strict_sorted_list_of_set)
  then have "sorted_wrt (<) (filter is_webtransport_address (sorted_list_of_set (set ips)))"
    by (rule sorted_wrt_filter)
  then show ?thesis
    unfolding endpoints_from_ips_def remdups_adj_sort Let_def network_endpoints.simps
    using assms by (auto simp: is_webtransport_address_def)
qed

lemma endpoints_order_independent_witness:
  "endpoints_from_ips hash [V4 0x0a000001, V6 0xfe800000000000000000000000000001, V4 0x0a000001] =
   endpoints_from_ips hash [V6 0xfe800000000000000000000000000001, V4 0x0a000001]"
  using endpoints_order_independent [of "[V4 0x0a000001, V6 0xfe800000000000000000000000000001, V4 0x0a000001]"
      "[V6 0xfe800000000000000000000000000001, V4 0x0a000001]" hash] by auto

text \<open>The addresses of the program's tests.\<close>

lemma address_classes:
  "is_private_http_address (V4 0x0a010203)" "is_private_http_address (V4 0x64400001)"
  "\<not> is_private_http_address (V4 0x08080808)" "\<not> is_webtransport_address (V4 0x7f000001)"
  "is_private_http_address (V6 0xfd000000000000000000000000000001)"
  "is_public_ipv6 (V6 0x24080000000000000000000000000001)"
  "\<not> is_webtransport_address (V6 0x20010db8000000000000000000000001)"
  "\<not> is_webtransport_address (V6 0xfe800000000000000000000000000001)"
  by code_simp+

end
