(* ===== verification/Server.thy ===== *)
theory Server
  imports Network_Endpoints File_Transfer
begin

text \<open>
  The QUIC/WebTransport server, crates/winrisef-agent/src/server.rs: the per-address connection
  tracker, the routes of a WebTransport request, the trusted origins, and the accept loop with the
  permits a connection holds.

  A connection is a task; its handshakes and its sessions end by events of the environment.  QUIC,
  TLS and HTTP/3 are libraries: what they deliver is an event.  The parser of the url crate is an
  argument.  The counts behind a poisoned mutex are a flag, as elsewhere.
\<close>

section \<open>The connection tracker\<close>

record ip_tracker =
  it_counts :: "ip_addr \<Rightarrow> usize option"
  it_limit :: usize
  it_poisoned :: bool

definition tracker_new :: "usize \<Rightarrow> ip_tracker" where
  "tracker_new limit = \<lparr>it_counts = (\<lambda>_. None), it_limit = limit, it_poisoned = False\<rparr>"

text \<open>\<open>or_default\<close> inserts the entry before the limit is looked at.\<close>

definition tracker_try_acquire :: "ip_addr \<Rightarrow> ip_tracker \<Rightarrow> bool \<times> ip_tracker" where
  "tracker_try_acquire ip t =
     (if it_poisoned t then (False, t)
      else
        let n = (case it_counts t ip of None \<Rightarrow> 0 | Some m \<Rightarrow> m);
            entered = t\<lparr>it_counts := (it_counts t)(ip \<mapsto> n)\<rparr>
        in if it_limit t \<le> n then (False, entered)
           else (True, t\<lparr>it_counts := (it_counts t)(ip \<mapsto> n + 1)\<rparr>))"

definition tracker_drop :: "ip_addr \<Rightarrow> ip_tracker \<Rightarrow> ip_tracker" where
  "tracker_drop ip t =
     (if it_poisoned t then t
      else case it_counts t ip of
        None \<Rightarrow> t
      | Some n \<Rightarrow>
          if n - 1 = 0 then t\<lparr>it_counts := (it_counts t)(ip := None)\<rparr>
          else t\<lparr>it_counts := (it_counts t)(ip \<mapsto> n - 1)\<rparr>)"

definition tracked :: "ip_tracker \<Rightarrow> ip_addr \<Rightarrow> nat" where
  "tracked t ip = (case it_counts t ip of None \<Rightarrow> 0 | Some n \<Rightarrow> n)"

text \<open>Only addresses with a connection have an entry, so the table does not grow with every
  address that was ever seen.\<close>

definition tracker_inv :: "ip_tracker \<Rightarrow> bool" where
  "tracker_inv t \<longleftrightarrow> \<not> it_poisoned t \<and> 0 < it_limit t \<and> (\<forall>ip. it_counts t ip \<noteq> Some 0)"

definition tracker_acquire :: "ip_addr \<Rightarrow> ip_tracker \<Rightarrow> ip_tracker option" where
  "tracker_acquire ip t = (case tracker_try_acquire ip t of (True, u) \<Rightarrow> Some u | (False, _) \<Rightarrow> None)"

lemma tracker_refused_same:
  "tracker_inv t \<Longrightarrow> tracker_try_acquire ip t = (False, u) \<Longrightarrow> u = t"
  by (auto simp: tracker_inv_def tracker_try_acquire_def Let_def fun_upd_idem split: if_splits option.splits)

lemma tracker_entry: "tracker_inv t \<Longrightarrow> it_counts t ip = Some n \<longleftrightarrow> 0 < n \<and> tracked t ip = n"
  by (cases n) (auto simp: tracker_inv_def tracked_def split: option.splits)

lemma tracker_acquired:
  "tracker_inv t \<Longrightarrow> tracker_acquire ip t = Some u \<Longrightarrow>
     tracker_inv u \<and> tracked u = (tracked t)(ip := Suc (tracked t ip)) \<and> it_limit u = it_limit t"
  by (auto simp: tracker_acquire_def tracker_try_acquire_def tracker_inv_def tracked_def Let_def fun_eq_iff
      split: if_splits option.splits)

lemma tracker_dropped:
  "tracker_inv t \<Longrightarrow> 0 < tracked t ip \<Longrightarrow>
     tracker_inv (tracker_drop ip t) \<and> tracked (tracker_drop ip t) = (tracked t)(ip := tracked t ip - 1) \<and>
     it_limit (tracker_drop ip t) = it_limit t"
  by (auto simp: tracker_drop_def tracker_inv_def tracked_def fun_eq_iff split: option.splits)

interpretation connections: bounded_resource tracker_inv "\<lambda>t _. it_limit t" tracked tracker_acquire tracker_drop
proof unfold_locales
  fix t u :: ip_tracker and k :: ip_addr
  assume inv: "tracker_inv t"
  show "tracker_acquire k t = Some u \<Longrightarrow>
      tracker_inv u \<and> tracked u = (tracked t)(k := Suc (tracked t k)) \<and> (\<lambda>_. it_limit u) = (\<lambda>_. it_limit t)"
    using tracker_acquired [OF inv] by simp
  show "tracker_acquire k t = None \<longleftrightarrow> it_limit t \<le> tracked t k"
    using inv by (auto simp: tracker_acquire_def tracker_try_acquire_def tracker_inv_def tracked_def Let_def
        split: option.splits)
  show "0 < tracked t k \<Longrightarrow> tracker_inv (tracker_drop k t) \<and>
      tracked (tracker_drop k t) = (tracked t)(k := tracked t k - 1) \<and>
      (\<lambda>_. it_limit (tracker_drop k t)) = (\<lambda>_. it_limit t)"
    using tracker_dropped [OF inv] by simp
qed

section \<open>Origins\<close>

text \<open>What the program reads of a parsed URL.\<close>

record url_view =
  url_scheme :: string
  url_username :: string
  url_password :: "string option"
  url_host_str :: "string option"
  url_path :: string
  url_origin :: string
  url_query_pairs :: "(string \<times> string) list"
  url_fragment :: "string option"

text \<open>The hosts both checks call loopback.\<close>

definition is_loopback_host :: "string option \<Rightarrow> bool" where
  "is_loopback_host host \<longleftrightarrow> host \<in> {Some ''localhost'', Some ''127.0.0.1'', Some ''::1''}"

definition valid_origin :: "(string \<Rightarrow> url_view option) \<Rightarrow> string \<Rightarrow> bool" where
  "valid_origin url_parse origin =
     (case url_parse origin of
        None \<Rightarrow> False
      | Some url \<Rightarrow>
          if url_origin url \<noteq> origin then False
          else url_scheme url = ''https'' \<or>
            (url_scheme url = ''http'' \<and> is_loopback_host (url_host_str url)))"

datatype server_error =
    NoOrigin
  | OriginsNotHttps
  | PathNotAbsolute
  | TransferSizeZero

definition validate_origin_list :: "(string \<Rightarrow> url_view option) \<Rightarrow> string list \<Rightarrow> server_error + unit" where
  "validate_origin_list url_parse origins =
     and_then (ensure (origins \<noteq> []) NoOrigin) (\<lambda>_.
     ensure (list_all (valid_origin url_parse) origins) OriginsNotHttps)"

section \<open>Routes\<close>

definition BRIDGE_PATH :: string where "BRIDGE_PATH = ''/winrisef/bridge/v3''"
definition BENCHMARK_PATH :: string where "BENCHMARK_PATH = ''/winrisef/benchmark/v3''"
definition FILE_WEBTRANSPORT_PATH :: string where "FILE_WEBTRANSPORT_PATH = ''/winrisef/file/v1''"

datatype server_mode = Manual string | Launched

record server_settings =
  se_allowed_origins :: "string list"
  se_mode :: server_mode
  se_max_transfer_size :: u64

datatype route = BridgeRoute | TransferRoute | NativeFileRoute

datatype route_rejection = MissingOrigin | InvalidOrigin | OriginNotAllowed | PathNotAllowed

text \<open>The origin header: absent, or the result of reading its value as text.\<close>

record connect_request =
  cr_origin :: "(unit + string) option"
  cr_path :: string

definition request_route :: "connect_request \<Rightarrow> server_settings \<Rightarrow> route_rejection + route" where
  "request_route request settings =
     and_then (ok_or (cr_origin request) MissingOrigin) (\<lambda>value.
     and_then (case value of Inl _ \<Rightarrow> Inl InvalidOrigin | Inr origin \<Rightarrow> Inr origin) (\<lambda>origin.
     if origin \<notin> set (se_allowed_origins settings) then Inl OriginNotAllowed
     else case se_mode settings of
       Manual path \<Rightarrow> if cr_path request = path then Inr TransferRoute else Inl PathNotAllowed
     | Launched \<Rightarrow>
         if cr_path request = BRIDGE_PATH then Inr BridgeRoute
         else if cr_path request = BENCHMARK_PATH then Inr TransferRoute
         else if cr_path request = FILE_WEBTRANSPORT_PATH then Inr NativeFileRoute
         else Inl PathNotAllowed))"

lemma routed_origin:
  assumes "request_route request settings = Inr route"
  shows "\<exists>origin \<in> set (se_allowed_origins settings). cr_origin request = Some (Inr origin)"
proof -
  obtain v where v: "cr_origin request = Some v"
    using assms by (auto simp: request_route_def ok_or_def split: option.splits)
  with assms obtain origin where "v = Inr origin"
    by (cases v) (auto simp: request_route_def)
  with v assms show ?thesis by (auto simp: request_route_def split: if_splits)
qed

text \<open>The settings of the two ways to start.\<close>

definition manual_settings ::
  "(string \<Rightarrow> url_view option) \<Rightarrow> string list \<Rightarrow> string \<Rightarrow> u64 \<Rightarrow> server_error + server_settings" where
  "manual_settings url_parse origins path max_transfer_size =
     and_then (validate_origin_list url_parse origins) (\<lambda>_.
     and_then (ensure (starts_with ''/'' path) PathNotAbsolute) (\<lambda>_.
     Inr \<lparr>se_allowed_origins = origins, se_mode = Manual path, se_max_transfer_size = max_transfer_size\<rparr>))"

definition launched_settings ::
  "(string \<Rightarrow> url_view option) \<Rightarrow> string \<Rightarrow> u64 \<Rightarrow> server_error + server_settings" where
  "launched_settings url_parse origin max_transfer_size =
     and_then (validate_origin_list url_parse [origin]) (\<lambda>_.
     Inr \<lparr>se_allowed_origins = [origin], se_mode = Launched, se_max_transfer_size = max_transfer_size\<rparr>)"

section \<open>The accept loop\<close>

text \<open>A connection holds its two admission permits for its whole life, and a route permit while its
  session runs.\<close>

record connection =
  co_remote :: ip_addr
  co_session :: "(connect_request \<times> route) option"

record server_state =
  sv_settings :: server_settings
  sv_transfer_sessions :: semaphore
  sv_bridge_sessions :: semaphore
  sv_file_sessions :: semaphore
  sv_pending_sessions :: semaphore
  sv_per_ip_sessions :: ip_tracker
  sv_connections :: "connection list"
  sv_shutdown :: bool

definition PER_IP_LIMIT :: usize where "PER_IP_LIMIT = 12"

definition pending_limit :: "usize \<Rightarrow> usize" where
  "pending_limit max_sessions = usize_saturating_add (min (max_sessions * 4) usize_max) 16"

definition run_server :: "server_settings \<Rightarrow> usize \<Rightarrow> server_error + server_state" where
  "run_server settings max_sessions =
     and_then (ensure (0 < se_max_transfer_size settings) TransferSizeZero) (\<lambda>_.
     Inr \<lparr>sv_settings = settings, sv_transfer_sessions = semaphore_new max_sessions,
          sv_bridge_sessions = semaphore_new 1,
          sv_file_sessions = semaphore_new FILE_WEBTRANSPORT_CONNECTIONS,
          sv_pending_sessions = semaphore_new (pending_limit max_sessions),
          sv_per_ip_sessions = tracker_new PER_IP_LIMIT, sv_connections = [], sv_shutdown = False\<rparr>)"

text \<open>An incoming connection whose address is not validated is answered with a retry; the permit of
  a connection refused for its address goes back at once.\<close>

definition accept_incoming :: "ip_addr \<Rightarrow> bool \<Rightarrow> server_state \<Rightarrow> server_state" where
  "accept_incoming remote address_validated s =
     (if sv_shutdown s then s
      else if \<not> address_validated then s
      else case try_acquire (sv_pending_sessions s) of
        None \<Rightarrow> s
      | Some pending \<Rightarrow> (
          case tracker_try_acquire remote (sv_per_ip_sessions s) of
            (False, per_ip) \<Rightarrow> s\<lparr>sv_per_ip_sessions := per_ip\<rparr>
          | (True, per_ip) \<Rightarrow>
              s\<lparr>sv_pending_sessions := pending, sv_per_ip_sessions := per_ip,
                sv_connections := sv_connections s @ [\<lparr>co_remote = remote, co_session = None\<rparr>]\<rparr>))"

fun route_permits :: "route \<Rightarrow> server_state \<Rightarrow> semaphore" where
  "route_permits BridgeRoute s = sv_bridge_sessions s"
| "route_permits TransferRoute s = sv_transfer_sessions s"
| "route_permits NativeFileRoute s = sv_file_sessions s"

fun set_route_permits :: "route \<Rightarrow> semaphore \<Rightarrow> server_state \<Rightarrow> server_state" where
  "set_route_permits BridgeRoute p s = s\<lparr>sv_bridge_sessions := p\<rparr>"
| "set_route_permits TransferRoute p s = s\<lparr>sv_transfer_sessions := p\<rparr>"
| "set_route_permits NativeFileRoute p s = s\<lparr>sv_file_sessions := p\<rparr>"

text \<open>The end of a task drops the permits it holds.\<close>

definition end_connection :: "nat \<Rightarrow> server_state \<Rightarrow> server_state" where
  "end_connection i s =
     (let c = sv_connections s ! i;
          s1 = s\<lparr>sv_pending_sessions := release_many 1 (sv_pending_sessions s),
                 sv_per_ip_sessions := tracker_drop (co_remote c) (sv_per_ip_sessions s),
                 sv_connections := take i (sv_connections s) @ drop (Suc i) (sv_connections s)\<rparr>
      in case co_session c of
           None \<Rightarrow> s1
         | Some (_, route) \<Rightarrow> set_route_permits route (release_many 1 (route_permits route s1)) s1)"

datatype connect_answer = Forbidden route_rejection | ServiceUnavailable | SessionAccepted route

text \<open>A connect request on a connection in its handshake; \<open>sent\<close> says whether the success response
  went out, otherwise the task ends with its permits.\<close>

definition connect_outcome :: "connect_request \<Rightarrow> server_state \<Rightarrow> connect_answer" where
  "connect_outcome request s =
     (case request_route request (sv_settings s) of
        Inl reason \<Rightarrow> Forbidden reason
      | Inr route \<Rightarrow>
          if try_acquire (route_permits route s) = None then ServiceUnavailable else SessionAccepted route)"

definition handle_request :: "nat \<Rightarrow> connect_request \<Rightarrow> bool \<Rightarrow> server_state \<Rightarrow> server_state" where
  "handle_request i request sent s =
     (case connect_outcome request s of
        SessionAccepted route \<Rightarrow> (
          case try_acquire (route_permits route s) of
            None \<Rightarrow> end_connection i s
          | Some permit \<Rightarrow>
              if sent
              then (set_route_permits route permit s)
                     \<lparr>sv_connections := (sv_connections s)[i := (sv_connections s ! i)\<lparr>co_session := Some (request, route)\<rparr>]\<rparr>
              else end_connection i s)
      | _ \<Rightarrow> end_connection i s)"

text \<open>When a bridge session ends after the launch token was consumed, the agent shuts down; so it does
  when nobody consumed the token in time.\<close>

definition session_ends :: "nat \<Rightarrow> bool \<Rightarrow> server_state \<Rightarrow> server_state" where
  "session_ends i launch_consumed s =
     (case co_session (sv_connections s ! i) of
        Some (_, BridgeRoute) \<Rightarrow>
          (end_connection i s)\<lparr>sv_shutdown := sv_shutdown s \<or> launch_consumed\<rparr>
      | _ \<Rightarrow> end_connection i s)"

datatype server_event =
    Incoming ip_addr bool
  | HandshakeFails nat
  | Connect nat connect_request bool
  | SessionEnds nat bool
  | LaunchTimeout bool
  | Shutdown

definition handshaking :: "nat \<Rightarrow> server_state \<Rightarrow> bool" where
  "handshaking i s \<longleftrightarrow> i < length (sv_connections s) \<and> co_session (sv_connections s ! i) = None"

fun server_step :: "server_event \<Rightarrow> server_state \<Rightarrow> server_state" where
  "server_step (Incoming remote validated) s = accept_incoming remote validated s"
| "server_step (HandshakeFails i) s = (if handshaking i s then end_connection i s else s)"
| "server_step (Connect i request sent) s = (if handshaking i s then handle_request i request sent s else s)"
| "server_step (SessionEnds i launch_consumed) s =
     (if i < length (sv_connections s) \<and> \<not> handshaking i s then session_ends i launch_consumed s else s)"
| "server_step (LaunchTimeout launch_consumed) s =
     (if se_mode (sv_settings s) = Launched then s\<lparr>sv_shutdown := sv_shutdown s \<or> \<not> launch_consumed\<rparr> else s)"
| "server_step Shutdown s = (if se_mode (sv_settings s) = Launched then s\<lparr>sv_shutdown := True\<rparr> else s)"

definition server_run :: "server_event list \<Rightarrow> server_state \<Rightarrow> server_state" where
  "server_run es s = foldl (\<lambda>t e. server_step e t) s es"

section \<open>Permits are exact\<close>

definition on_route :: "route \<Rightarrow> connection \<Rightarrow> bool" where
  "on_route r c \<longleftrightarrow> map_option snd (co_session c) = Some r"

definition occupancy :: "(connection \<Rightarrow> bool) \<Rightarrow> server_state \<Rightarrow> nat" where
  "occupancy P s = length (filter P (sv_connections s))"

fun route_limit :: "usize \<Rightarrow> route \<Rightarrow> nat" where
  "route_limit max_sessions BridgeRoute = 1"
| "route_limit max_sessions TransferRoute = max_sessions"
| "route_limit max_sessions NativeFileRoute = FILE_WEBTRANSPORT_CONNECTIONS"

definition session_routed :: "server_settings \<Rightarrow> connection \<Rightarrow> bool" where
  "session_routed settings c \<longleftrightarrow>
     (case co_session c of None \<Rightarrow> True | Some (request, route) \<Rightarrow> request_route request settings = Inr route)"

definition server_inv :: "server_settings \<Rightarrow> usize \<Rightarrow> server_state \<Rightarrow> bool" where
  "server_inv settings n s \<longleftrightarrow>
     sv_settings s = settings \<and> list_all (session_routed settings) (sv_connections s) \<and>
     sem_permits (sv_pending_sessions s) = pending_limit n \<and>
     sem_taken (sv_pending_sessions s) = length (sv_connections s) \<and>
     length (sv_connections s) \<le> pending_limit n \<and>
     (\<forall>r. sem_permits (route_permits r s) = route_limit n r \<and>
          sem_taken (route_permits r s) = occupancy (on_route r) s \<and>
          occupancy (on_route r) s \<le> route_limit n r) \<and>
     tracker_inv (sv_per_ip_sessions s) \<and> it_limit (sv_per_ip_sessions s) = PER_IP_LIMIT \<and>
     (\<forall>ip. tracked (sv_per_ip_sessions s) ip = occupancy (\<lambda>c. co_remote c = ip) s \<and>
           occupancy (\<lambda>c. co_remote c = ip) s \<le> PER_IP_LIMIT)"

lemma route_permits_set [simp]:
  "route_permits r (set_route_permits q p s) = (if r = q then p else route_permits r s)"
  by (cases q; cases r) simp_all

lemma route_permits_frame [simp]:
  "route_permits r (s\<lparr>sv_connections := cs\<rparr>) = route_permits r s"
  "route_permits r (s\<lparr>sv_pending_sessions := p\<rparr>) = route_permits r s"
  "route_permits r (s\<lparr>sv_per_ip_sessions := t\<rparr>) = route_permits r s"
  "route_permits r (s\<lparr>sv_shutdown := b\<rparr>) = route_permits r s"
  by (cases r; simp)+

lemma set_route_frame [simp]:
  "sv_settings (set_route_permits r p s) = sv_settings s"
  "sv_connections (set_route_permits r p s) = sv_connections s"
  "sv_pending_sessions (set_route_permits r p s) = sv_pending_sessions s"
  "sv_per_ip_sessions (set_route_permits r p s) = sv_per_ip_sessions s"
  by (cases r; simp)+

lemma occupancy_set_route [simp]: "occupancy P (set_route_permits r p s) = occupancy P s"
  by (simp add: occupancy_def)

lemma occupancy_conns: "sv_connections s = sv_connections t \<Longrightarrow> occupancy P s = occupancy P t"
  by (simp add: occupancy_def)

lemma filter_without:
  assumes "i < length cs"
  shows "length (filter P cs) = length (filter P (take i cs @ drop (Suc i) cs)) + (if P (cs ! i) then 1 else 0)"
  by (subst id_take_nth_drop [OF assms]) simp

lemma filter_replace:
  assumes "i < length cs"
  shows "length (filter P (cs[i := c])) + (if P (cs ! i) then 1 else 0) =
         length (filter P cs) + (if P c then 1 else 0)"
  using assms filter_without [OF assms, of P] by (simp add: upd_conv_take_nth_drop)

lemma occupancy_update:
  "i < length (sv_connections s) \<Longrightarrow> P ((sv_connections s) ! i) = P c \<Longrightarrow>
     occupancy P (s\<lparr>sv_connections := (sv_connections s)[i := c]\<rparr>) = occupancy P s"
  using filter_replace [of i "sv_connections s" P c] by (simp add: occupancy_def split: if_splits)

lemma occupancy_pos: "c \<in> set (sv_connections s) \<Longrightarrow> P c \<Longrightarrow> 0 < occupancy P s"
  by (auto simp: occupancy_def filter_empty_conv)

lemma server_start_inv: "run_server settings n = Inr s \<Longrightarrow> server_inv settings n s"
proof -
  assume "run_server settings n = Inr s"
  then have s: "s = \<lparr>sv_settings = settings, sv_transfer_sessions = semaphore_new n,
      sv_bridge_sessions = semaphore_new 1, sv_file_sessions = semaphore_new FILE_WEBTRANSPORT_CONNECTIONS,
      sv_pending_sessions = semaphore_new (pending_limit n), sv_per_ip_sessions = tracker_new PER_IP_LIMIT,
      sv_connections = [], sv_shutdown = False\<rparr>"
    by (auto simp: run_server_def result_simps)
  have routes: "sem_permits (route_permits r s) = route_limit n r \<and>
      sem_taken (route_permits r s) = occupancy (on_route r) s" for r
    by (cases r) (simp_all add: s semaphore_new_def occupancy_def)
  moreover have "occupancy P s = 0" for P by (simp add: s occupancy_def)
  ultimately show ?thesis
    by (simp add: server_inv_def) (simp add: s semaphore_new_def tracker_new_def tracker_inv_def tracked_def PER_IP_LIMIT_def)
qed

lemma acquired_tracker:
  "tracker_inv t \<Longrightarrow> tracker_try_acquire ip t = (True, u) \<Longrightarrow>
     tracker_inv u \<and> tracked u = (tracked t)(ip := Suc (tracked t ip)) \<and> it_limit u = it_limit t \<and>
     tracked t ip < it_limit t"
  using tracker_acquired [of t ip u] connections.acquire_None_iff [of t ip]
  by (simp add: tracker_acquire_def split: prod.splits bool.splits)

lemma accept_inv:
  assumes inv: "server_inv settings n s"
  shows "server_inv settings n (accept_incoming remote validated s)"
proof -
  obtain ok t where acq: "tracker_try_acquire remote (sv_per_ip_sessions s) = (ok, t)" by fastforce
  have tinv: "tracker_inv (sv_per_ip_sessions s)" using inv by (simp add: server_inv_def)
  show ?thesis
  proof (cases "sv_shutdown s \<or> \<not> validated \<or> try_acquire (sv_pending_sessions s) = None \<or> \<not> ok")
    case True
    then have "accept_incoming remote validated s = s"
      using tracker_refused_same [OF tinv, of remote t] acq
      by (auto simp: accept_incoming_def split: option.splits bool.splits)
    with inv show ?thesis by simp
  next
    case False
    then obtain p where p: "try_acquire (sv_pending_sessions s) = Some p" by auto
    define u where "u = s\<lparr>sv_pending_sessions := p, sv_per_ip_sessions := t,
        sv_connections := sv_connections s @ [\<lparr>co_remote = remote, co_session = None\<rparr>]\<rparr>"
    have u: "accept_incoming remote validated s = u"
      using False p acq by (simp add: accept_incoming_def u_def)
    note t = acquired_tracker [OF tinv, of remote t]
    have occ: "occupancy P u = occupancy P s + (if P \<lparr>co_remote = remote, co_session = None\<rparr> then 1 else 0)" for P
      by (simp add: occupancy_def u_def)
    have routes: "route_permits r u = route_permits r s" for r by (simp add: u_def)
    have "length (sv_connections s) < pending_limit n" and
      pp: "sem_permits p = pending_limit n" "sem_taken p = Suc (length (sv_connections s))"
      using p inv by (auto simp: try_acquire_def try_acquire_many_def server_inv_def split: if_splits)
    moreover have "list_all (session_routed settings) (sv_connections u)"
      using inv by (simp add: server_inv_def u_def session_routed_def)
    ultimately show ?thesis
      using inv t acq False unfolding u server_inv_def routes occ
      by (auto simp: on_route_def u_def)
  qed
qed

lemma occupancy_without:
  assumes "i < length (sv_connections s)" and "sv_connections t = take i (sv_connections s) @ drop (Suc i) (sv_connections s)"
  shows "occupancy P t = occupancy P s - (if P (sv_connections s ! i) then 1 else 0)"
  using filter_without [OF assms(1), of P] assms(2) by (simp add: occupancy_def split: if_splits)

lemma end_inv:
  assumes inv: "server_inv settings n s" and i: "i < length (sv_connections s)"
  shows "server_inv settings n (end_connection i s)"
proof -
  define c where "c = sv_connections s ! i"
  have c: "c \<in> set (sv_connections s)" using i by (simp add: c_def)
  define t where "t = end_connection i s"
  have conns: "sv_connections t = take i (sv_connections s) @ drop (Suc i) (sv_connections s)"
    and pend: "sv_pending_sessions t = release_many 1 (sv_pending_sessions s)"
    and perip: "sv_per_ip_sessions t = tracker_drop (co_remote c) (sv_per_ip_sessions s)"
    and sett: "sv_settings t = sv_settings s"
    by (simp_all add: t_def end_connection_def c_def Let_def split: option.splits)
  have occ: "occupancy P t = occupancy P s - (if P c then 1 else 0)" for P
    unfolding c_def by (rule occupancy_without [OF i conns])
  have routes: "route_permits r t = (if on_route r c then release_many 1 (route_permits r s) else route_permits r s)" for r
    by (auto simp: t_def end_connection_def c_def Let_def on_route_def split: option.splits)
  have r: "sem_permits (route_permits r t) = route_limit n r \<and>
      sem_taken (route_permits r t) = occupancy (on_route r) t \<and> occupancy (on_route r) t \<le> route_limit n r" for r
    using inv unfolding routes occ by (auto simp: server_inv_def release_many_def le_diff_conv intro: le_trans)
  have pos: "0 < tracked (sv_per_ip_sessions s) (co_remote c)"
    using inv occupancy_pos [OF c, of "\<lambda>d. co_remote d = co_remote c"] by (simp add: server_inv_def)
  have tinv: "tracker_inv (sv_per_ip_sessions s)" using inv by (simp add: server_inv_def)
  note drop = tracker_dropped [OF tinv pos]
  have "list_all (session_routed settings) (sv_connections t)"
    using inv unfolding conns by (auto simp: server_inv_def list_all_iff dest: in_set_takeD in_set_dropD)
  moreover have "length (sv_connections t) = length (sv_connections s) - 1" using i conns by simp
  moreover have "tracked (sv_per_ip_sessions t) ip = occupancy (\<lambda>d. co_remote d = ip) t \<and>
      occupancy (\<lambda>d. co_remote d = ip) t \<le> PER_IP_LIMIT" for ip
    using inv drop unfolding perip occ by (auto simp: server_inv_def le_diff_conv intro: le_trans)
  ultimately show ?thesis
    using inv r drop unfolding server_inv_def sett pend perip t_def [symmetric]
    by (auto simp: release_many_def)
qed

lemma serve_inv:
  assumes inv: "server_inv settings n s" and i: "handshaking i s"
    and routed: "request_route request settings = Inr route"
    and p: "try_acquire (route_permits route s) = Some p"
  shows "server_inv settings n ((set_route_permits route p s)
           \<lparr>sv_connections := (sv_connections s)[i := (sv_connections s ! i)\<lparr>co_session := Some (request, route)\<rparr>]\<rparr>)"
    (is "server_inv settings n ?t")
proof -
  have len: "i < length (sv_connections s)" and none: "co_session (sv_connections s ! i) = None"
    using i by (simp_all add: handshaking_def)
  have occ: "occupancy (on_route r) ?t = occupancy (on_route r) s + (if r = route then 1 else 0)" for r
    using filter_replace [OF len, of "on_route r" "(sv_connections s ! i)\<lparr>co_session := Some (request, route)\<rparr>"] none
    by (auto simp: occupancy_def on_route_def)
  have remote: "occupancy (\<lambda>c. co_remote c = ip) ?t = occupancy (\<lambda>c. co_remote c = ip) s" for ip
    using filter_replace [OF len, of "\<lambda>c. co_remote c = ip" "(sv_connections s ! i)\<lparr>co_session := Some (request, route)\<rparr>"]
    by (simp add: occupancy_def split: if_splits)
  have pp: "sem_permits p = route_limit n route" "sem_taken p = Suc (occupancy (on_route route) s)"
      "occupancy (on_route route) s < route_limit n route"
    using p inv by (auto simp: try_acquire_def try_acquire_many_def server_inv_def split: if_splits)
  have "list_all (session_routed settings) (sv_connections ?t)"
    using inv routed by (auto simp: server_inv_def list_all_iff session_routed_def dest!: set_update_subset_insert [THEN subsetD])
  with inv pp show ?thesis unfolding server_inv_def occ remote by auto
qed

lemma request_inv:
  assumes "server_inv settings n s" and "handshaking i s"
  shows "server_inv settings n (handle_request i request sent s)"
proof -
  have len: "i < length (sv_connections s)" using assms(2) by (simp add: handshaking_def)
  have sett: "sv_settings s = settings" using assms(1) by (simp add: server_inv_def)
  show ?thesis
    using end_inv [OF assms(1) len] serve_inv [OF assms]
    by (auto simp: handle_request_def connect_outcome_def sett split: sum.splits option.splits if_splits)
qed

lemma shutdown_inv [simp]: "server_inv settings n (s\<lparr>sv_shutdown := b\<rparr>) = server_inv settings n s"
  by (simp add: server_inv_def occupancy_def)

lemma step_inv: "server_inv settings n s \<Longrightarrow> server_inv settings n (server_step e s)"
  by (cases e)
     (auto simp: accept_inv end_inv request_inv session_ends_def handshaking_def split: option.splits prod.splits route.splits)

lemma run_inv: "server_inv settings n s \<Longrightarrow> server_inv settings n (server_run es s)"
  unfolding server_run_def by (induction es arbitrary: s) (simp_all add: step_inv)

text \<open>C21.  After any run of the accept loop, whatever order the handshakes, requests and ends of
  connections come in: at most 12 connections of one address, one bridge session, the configured
  number of benchmark sessions and six file connections are open, every open session presented an
  allowed origin and the path of its route, and each permit that is out belongs to an open
  connection, so that none leaks.\<close>
theorem server_limits:
  assumes "run_server settings n = Inr s0"
  shows "let s = server_run es s0; open_on = (\<lambda>P. length (filter P (sv_connections s)))
         in open_on (\<lambda>_. True) \<le> pending_limit n \<and>
            (\<forall>ip. open_on (\<lambda>c. co_remote c = ip) \<le> 12) \<and>
            open_on (on_route BridgeRoute) \<le> 1 \<and> open_on (on_route TransferRoute) \<le> n \<and>
            open_on (on_route NativeFileRoute) \<le> 6 \<and>
            (\<forall>c \<in> set (sv_connections s). \<forall>request route. co_session c = Some (request, route) \<longrightarrow>
               request_route request settings = Inr route) \<and>
            sem_taken (sv_pending_sessions s) = open_on (\<lambda>_. True) \<and>
            sem_taken (sv_bridge_sessions s) = open_on (on_route BridgeRoute) \<and>
            sem_taken (sv_transfer_sessions s) = open_on (on_route TransferRoute) \<and>
            sem_taken (sv_file_sessions s) = open_on (on_route NativeFileRoute) \<and>
            (\<forall>ip. tracked (sv_per_ip_sessions s) ip = open_on (\<lambda>c. co_remote c = ip))"
proof -
  let ?s = "server_run es s0"
  have inv: "server_inv settings n ?s" by (rule run_inv [OF server_start_inv [OF assms]])
  have routes: "sem_taken (route_permits r ?s) = length (filter (on_route r) (sv_connections ?s)) \<and>
      length (filter (on_route r) (sv_connections ?s)) \<le> route_limit n r" for r
    using inv by (simp add: server_inv_def occupancy_def)
  have "\<forall>c \<in> set (sv_connections ?s). \<forall>request route. co_session c = Some (request, route) \<longrightarrow>
      request_route request settings = Inr route"
    using inv by (auto simp: server_inv_def list_all_iff session_routed_def)
  moreover have "PER_IP_LIMIT = 12" "FILE_WEBTRANSPORT_CONNECTIONS = 6"
    by (simp_all add: PER_IP_LIMIT_def FILE_WEBTRANSPORT_CONNECTIONS_def)
  ultimately show ?thesis
    using inv routes [of BridgeRoute] routes [of TransferRoute] routes [of NativeFileRoute]
    by (simp add: server_inv_def occupancy_def)
qed

definition sample_settings :: server_settings where
  "sample_settings = \<lparr>se_allowed_origins = [''https://n.winrisef.top''], se_mode = Launched, se_max_transfer_size = 1\<rparr>"

lemma server_limits_witness:
  "\<exists>s0. run_server sample_settings 2 = Inr s0 \<and>
     sem_taken (sv_bridge_sessions (server_run
       [Incoming (V4 7) True, Incoming (V4 7) True,
        Connect 0 \<lparr>cr_origin = Some (Inr ''https://n.winrisef.top''), cr_path = BRIDGE_PATH\<rparr> True,
        Connect 1 \<lparr>cr_origin = Some (Inr ''https://n.winrisef.top''), cr_path = BRIDGE_PATH\<rparr> True] s0)) \<le> 1"
proof -
  have "0 < se_max_transfer_size sample_settings" by (simp add: sample_settings_def)
  then obtain s0 where s0: "run_server sample_settings 2 = Inr s0" by (simp add: run_server_def)
  show ?thesis using server_limits [OF s0] s0 by (auto simp: Let_def)
qed

text \<open>The url crate gives the host of an IPv6 URL in brackets, so the third loopback host of
  \<open>valid_origin\<close> never occurs and the development origin of IPv6 loopback is refused.\<close>
lemma ipv6_loopback_origin_refused:
  assumes "url_parse origin = Some url" and "url_scheme url = ''http''" and "url_host_str url = Some ''[::1]''"
  shows "validate_origin_list url_parse [origin] = Inl OriginsNotHttps"
  using assms by (simp add: validate_origin_list_def valid_origin_def is_loopback_host_def)

end
