(* ===== verification/Bridge.thy ===== *)
theory Bridge
  imports Frame_Reader Auth Transfer_Runs Server
begin

text \<open>
  The bridge session, crates/winrisef-agent/src/bridge.rs: the hello that redeems the launch token,
  the requests of the page and the session loop.

  A request acts on the ticket authority and on the transfer manager of Transfer_Runs, whose data
  planes go on while the save dialog of a receive is open.  The environment's answers are a record.
  A JSON value is a constructor of what it carries.

  The lemmas show that a session handles nothing before it is authenticated, and that each request
  is a run of the transfer manager, so that its invariants hold throughout.
\<close>

section \<open>Requests\<close>

definition BRIDGE_VERSION :: u16 where "BRIDGE_VERSION = 3"

datatype bridge_input =
    Hello u16 string
  | IssueBenchmarkTicket u32
  | GetNetworkEndpoints u32
  | SelectFiles u32
  | CreateSendTransfer u32 string string string string native_data_plane
  | PrepareReceiveTransfer u32 string string string string u64 native_data_plane
  | CancelTransfer u32 string
  | FinishSendTransfer u32 string
  | ReleaseSource u32 string

datatype bridge_value =
    TicketValue string u64 "string list" string
  | EndpointsValue published_endpoints
  | FilesValue "file_metadata list"
  | GrantValue transfer_grant published_endpoints
  | CancelledValue
  | FinishedValue
  | ReleasedValue

datatype bridge_error =
    HelloRequired
  | HelloRepeated
  | LaunchTokenInvalid
  | AuthenticationRejected
  | GrantNotAnObject
  | BridgeAuth auth_error
  | BridgeTransfer transfer_error
  | BridgeFrame frame_error
  | FrameResponseTooLarge

text \<open>The answers of the environment to one request.\<close>

record bridge_env =
  be_clock :: int
  be_random :: "bytes option"
  be_randoms :: "nat \<Rightarrow> bytes option"
  be_picked :: "picked_file list"
  be_destination :: "path option"
  be_create_ok :: bool
  be_set_len_ok :: bool
  be_remove_ok :: bool
  be_published :: published_endpoints

record bridge_state =
  br_authority :: ticket_authority
  br_system :: system

definition with_world :: "world \<Rightarrow> bridge_state \<Rightarrow> bridge_state" where
  "with_world w s = s\<lparr>br_system := (br_system s)\<lparr>y_world := w\<rparr>\<rparr>"

definition world_of :: "bridge_state \<Rightarrow> world" where
  "world_of s = y_world (br_system s)"

text \<open>\<open>encode_transfer_grant\<close> puts the endpoints into the object of the grant; a grant that is not
  there is not an object.\<close>

fun encode_transfer_grant :: "transfer_grant option \<Rightarrow> published_endpoints \<Rightarrow> bridge_error + bridge_value" where
  "encode_transfer_grant (Some grant) endpoints = Inr (GrantValue grant endpoints)"
| "encode_transfer_grant None endpoints = Inl GrantNotAnObject"

definition answer :: "('a \<Rightarrow> bridge_value) \<Rightarrow> transfer_error + 'a \<Rightarrow> bridge_error + bridge_value" where
  "answer f r = (case r of Inl e \<Rightarrow> Inl (BridgeTransfer e) | Inr v \<Rightarrow> Inr (f v))"

text \<open>Preparing a receive waits for the dialog; \<open>during\<close> is what the data planes do meanwhile.  The
  outer error ends the session, the inner one is answered.\<close>

definition prepare_receive ::
  "bridge_env \<Rightarrow> (system \<Rightarrow> system) \<Rightarrow> string \<Rightarrow> string \<Rightarrow> string \<Rightarrow> u64 \<Rightarrow> native_data_plane \<Rightarrow> bridge_state \<Rightarrow>
     (bridge_error + bridge_value) \<times> bridge_state" where
  "prepare_receive env during att owner peer total_bytes plane s =
     (case prepare_receive_check total_bytes (world_of s) of
        Inl e \<Rightarrow> (Inl (BridgeTransfer e), s)
      | Inr _ \<Rightarrow> (
          let s1 = s\<lparr>br_system := during (br_system s)\<rparr>
          in case prepare_receive_open (be_clock env) (be_randoms env) (be_create_ok env) (be_set_len_ok env)
                    (be_destination env) att owner peer total_bytes plane (world_of s1) of
               (Inl e, w) \<Rightarrow> (Inl (BridgeTransfer e), with_world w s1)
             | (Inr grant, w) \<Rightarrow> (encode_transfer_grant grant (be_published env), with_world w s1)))"

fun handle_input ::
  "bridge_env \<Rightarrow> (system \<Rightarrow> system) \<Rightarrow> bridge_input \<Rightarrow> bridge_state \<Rightarrow>
     (bridge_error + u32 \<times> (bridge_error + bridge_value)) \<times> bridge_state" where
  "handle_input env during (Hello version token) s = (Inl HelloRepeated, s)"
| "handle_input env during (IssueBenchmarkTicket request_id) s =
     (case issue_ticket (be_clock env) (be_random env) (br_authority s) of
        (Inl e, a) \<Rightarrow> (Inr (request_id, Inl (BridgeAuth e)), s\<lparr>br_authority := a\<rparr>)
      | (Inr ticket, a) \<Rightarrow>
          (Inr (request_id, Inr (TicketValue (format_hex (tk_token ticket)) (tk_expires_at_ms ticket)
                (pe_benchmark_endpoints (be_published env)) (pe_network_epoch (be_published env)))),
           s\<lparr>br_authority := a\<rparr>))"
| "handle_input env during (GetNetworkEndpoints request_id) s =
     (Inr (request_id, Inr (EndpointsValue (be_published env))), s)"
| "handle_input env during (SelectFiles request_id) s =
     (case select_files (be_randoms env) (be_picked env) (world_of s) of
        (r, w) \<Rightarrow> (Inr (request_id, answer FilesValue r), with_world w s))"
| "handle_input env during (CreateSendTransfer request_id source att owner peer plane) s =
     (case create_send_transfer (be_clock env) (be_randoms env) source att owner peer plane (world_of s) of
        (Inl e, w) \<Rightarrow> (Inr (request_id, Inl (BridgeTransfer e)), with_world w s)
      | (Inr grant, w) \<Rightarrow> (Inr (request_id, encode_transfer_grant (Some grant) (be_published env)), with_world w s))"
| "handle_input env during (PrepareReceiveTransfer request_id att owner peer name total_bytes plane) s =
     (case prepare_receive env during att owner peer total_bytes plane s of (r, s') \<Rightarrow> (Inr (request_id, r), s'))"
| "handle_input env during (CancelTransfer request_id tid) s =
     (case cancel_transfer (be_remove_ok env) tid (world_of s) of
        (r, w) \<Rightarrow> (Inr (request_id, answer (\<lambda>_. CancelledValue) r), with_world w s))"
| "handle_input env during (FinishSendTransfer request_id tid) s =
     (case finish_send_transfer tid (world_of s) of
        (r, w) \<Rightarrow> (Inr (request_id, answer (\<lambda>_. FinishedValue) r), with_world w s))"
| "handle_input env during (ReleaseSource request_id source) s =
     (case release_source source (world_of s) of
        (r, w) \<Rightarrow> (Inr (request_id, answer (\<lambda>_. ReleasedValue) r), with_world w s))"

section \<open>The session\<close>

datatype bridge_output =
    HelloAck bool
  | Response u32 "bridge_error + bridge_value"
  | FileEvent transfer_event
  | NetworkEndpointsChanged published_endpoints

text \<open>The hello: the token is redeemed only by a client of this version.\<close>

definition bridge_hello ::
  "int \<Rightarrow> bridge_input \<Rightarrow> ticket_authority \<Rightarrow> (bridge_error + unit) \<times> bridge_output list \<times> ticket_authority" where
  "bridge_hello t first a =
     (case first of
        Hello version launch_token \<Rightarrow> (
          case parse_hex 16 launch_token of
            Inl _ \<Rightarrow> (Inl LaunchTokenInvalid, [], a)
          | Inr token \<Rightarrow>
              if version \<noteq> BRIDGE_VERSION then (Inl AuthenticationRejected, [HelloAck False], a)
              else (case consume_launch_token t token a of
                  (Inl e, a') \<Rightarrow> (Inl (BridgeAuth e), [], a')
                | (Inr accepted, a') \<Rightarrow>
                    (if accepted then Inr () else Inl AuthenticationRejected, [HelloAck accepted], a')))
      | _ \<Rightarrow> (Inl HelloRequired, [HelloAck False], a))"

text \<open>A session is authenticated or over.  What ends it with an error leaves the transfers alone: the
  server stops them when it shuts down.\<close>

record bridge_session =
  bs_state :: bridge_state
  bs_snapshot :: published_endpoints
  bs_outputs :: "bridge_output list"
  bs_ended :: "(bridge_error + unit) option"

definition bridge_open ::
  "int \<Rightarrow> bridge_input \<Rightarrow> published_endpoints \<Rightarrow> ticket_authority \<Rightarrow> system \<Rightarrow> bridge_session" where
  "bridge_open t first snapshot authority sys =
     (case bridge_hello t first authority of
        (r, outputs, a) \<Rightarrow>
          \<lparr>bs_state = \<lparr>br_authority = a, br_system = sys\<rparr>, bs_snapshot = snapshot, bs_outputs = outputs,
           bs_ended = (case r of Inl e \<Rightarrow> Some (Inl e) | Inr _ \<Rightarrow> None)\<rparr>)"

text \<open>The branches of the loop, and the steps of the data planes beside it.  \<open>sent\<close> is whether the
  frame could be written.\<close>

datatype bridge_event =
    Input bridge_env "system \<Rightarrow> system" bridge_input bool
  | InputEnd bool
  | InputError frame_error
  | Notify transfer_event bool
  | Lagged
  | EventsClosed bool
  | EndpointsChanged published_endpoints bool
  | PolicyClosed bool
  | DataPlane "system \<Rightarrow> system" "auth_op list"

definition finish_session :: "bool \<Rightarrow> bridge_session \<Rightarrow> bridge_session" where
  "finish_session remove_ok b =
     b\<lparr>bs_state := with_world (cancel_all remove_ok (world_of (bs_state b))) (bs_state b), bs_ended := Some (Inr ())\<rparr>"

definition bridge_send :: "bridge_output \<Rightarrow> bool \<Rightarrow> bridge_session \<Rightarrow> bridge_session" where
  "bridge_send out sent b =
     (if sent then b\<lparr>bs_outputs := bs_outputs b @ [out]\<rparr> else b\<lparr>bs_ended := Some (Inl FrameResponseTooLarge)\<rparr>)"

fun bridge_branch :: "bridge_event \<Rightarrow> bridge_session \<Rightarrow> bridge_session" where
  "bridge_branch (Input env during input sent) b =
     (case handle_input env during input (bs_state b) of
        (Inl e, s) \<Rightarrow> b\<lparr>bs_state := s, bs_ended := Some (Inl e)\<rparr>
      | (Inr (request_id, r), s) \<Rightarrow> bridge_send (Response request_id r) sent (b\<lparr>bs_state := s\<rparr>))"
| "bridge_branch (InputEnd remove_ok) b = finish_session remove_ok b"
| "bridge_branch (InputError e) b = b\<lparr>bs_ended := Some (Inl (BridgeFrame e))\<rparr>"
| "bridge_branch (Notify event sent) b = bridge_send (FileEvent event) sent b"
| "bridge_branch Lagged b = b"
| "bridge_branch (EventsClosed remove_ok) b = finish_session remove_ok b"
| "bridge_branch (EndpointsChanged now sent) b =
     (if now = bs_snapshot b then b
      else bridge_send (NetworkEndpointsChanged now) sent (b\<lparr>bs_snapshot := now\<rparr>))"
| "bridge_branch (PolicyClosed remove_ok) b = finish_session remove_ok b"
| "bridge_branch (DataPlane during ops) b = b"

definition data_plane :: "(system \<Rightarrow> system) \<Rightarrow> auth_op list \<Rightarrow> bridge_session \<Rightarrow> bridge_session" where
  "data_plane during ops b =
     b\<lparr>bs_state := \<lparr>br_authority = foldl auth_step (br_authority (bs_state b)) ops,
                   br_system = during (br_system (bs_state b))\<rparr>\<rparr>"

fun bridge_step :: "bridge_event \<Rightarrow> bridge_session \<Rightarrow> bridge_session" where
  "bridge_step (DataPlane during ops) b = data_plane during ops b"
| "bridge_step e b = (if bs_ended b = None then bridge_branch e b else b)"

definition bridge_run :: "bridge_event list \<Rightarrow> bridge_session \<Rightarrow> bridge_session" where
  "bridge_run es b = foldl (\<lambda>c e. bridge_step e c) b es"

section \<open>Sessions are runs of the transfer manager\<close>

definition system_of :: "bridge_session \<Rightarrow> system" where
  "system_of b = br_system (bs_state b)"

definition is_run :: "(system \<Rightarrow> system) \<Rightarrow> bool" where
  "is_run during \<longleftrightarrow> (\<forall>s. transfer_step\<^sup>*\<^sup>* s (during s))"

fun event_ok :: "bridge_event \<Rightarrow> bool" where
  "event_ok (Input env during input sent) = is_run during"
| "event_ok (DataPlane during ops) = is_run during"
| "event_ok e = True"

lemma system_with_world [simp]: "br_system (with_world w s) = (br_system s)\<lparr>y_world := w\<rparr>"
  by (simp add: with_world_def)

lemma prepare_receive_run:
  assumes "is_run during"
  shows "transfer_step\<^sup>*\<^sup>* (br_system s)
           (br_system (snd (prepare_receive env during att owner peer total_bytes plane s)))"
proof (cases "prepare_receive_check total_bytes (world_of s)")
  case (Inr u)
  let ?s1 = "s\<lparr>br_system := during (br_system s)\<rparr>"
  obtain r w where opened: "prepare_receive_open (be_clock env) (be_randoms env) (be_create_ok env)
      (be_set_len_ok env) (be_destination env) att owner peer total_bytes plane (y_world (during (br_system s))) = (r, w)"
    by fastforce
  have "transfer_step\<^sup>*\<^sup>* (br_system s) (during (br_system s))" using assms by (simp add: is_run_def)
  also have "transfer_step (during (br_system s)) ((during (br_system s))\<lparr>y_world := w\<rparr>)"
    by (rule PrepareReceive [OF opened])
  finally show ?thesis using opened Inr by (cases r) (simp_all add: prepare_receive_def world_of_def Let_def)
qed (simp add: prepare_receive_def)

lemma handle_input_run:
  assumes "is_run during"
  shows "transfer_step\<^sup>*\<^sup>* (br_system s) (br_system (snd (handle_input env during input s)))"
proof (cases input)
  case (PrepareReceiveTransfer request_id att owner peer name total_bytes plane)
  with prepare_receive_run [OF assms, of s env att owner peer total_bytes plane] show ?thesis
    by (auto split: prod.splits)
qed (auto simp: world_of_def split: prod.splits sum.splits intro!: r_into_rtranclp intro: transfer_step.intros)

lemma finish_session_run: "transfer_step\<^sup>*\<^sup>* (system_of b) (system_of (finish_session remove_ok b))"
  by (auto simp: system_of_def finish_session_def world_of_def intro: r_into_rtranclp transfer_step.CancelAll)

lemma bridge_send_system [simp]: "system_of (bridge_send out sent b) = system_of b"
  by (simp add: bridge_send_def system_of_def)

lemma bridge_branch_run: "event_ok e \<Longrightarrow> transfer_step\<^sup>*\<^sup>* (system_of b) (system_of (bridge_branch e b))"
proof (cases e)
  case (Input env during input sent)
  moreover assume "event_ok e"
  ultimately have "transfer_step\<^sup>*\<^sup>* (system_of b) (br_system (snd (handle_input env during input (bs_state b))))"
    by (simp add: system_of_def handle_input_run)
  with Input show ?thesis by (auto simp: system_of_def bridge_send_def split: prod.splits sum.splits)
qed (simp_all add: finish_session_run, simp_all add: system_of_def bridge_send_def)

lemma bridge_step_run: "event_ok e \<Longrightarrow> transfer_step\<^sup>*\<^sup>* (system_of b) (system_of (bridge_step e b))"
  using bridge_branch_run [of e b]
  by (cases e) (simp_all add: data_plane_def system_of_def is_run_def)

lemma bridge_run_run:
  "list_all event_ok es \<Longrightarrow> transfer_step\<^sup>*\<^sup>* (system_of b) (system_of (bridge_run es b))"
proof (induction es arbitrary: b)
  case (Cons e es)
  have "transfer_step\<^sup>*\<^sup>* (system_of b) (system_of (bridge_step e b))"
    using Cons.prems by (intro bridge_step_run) simp
  also have "transfer_step\<^sup>*\<^sup>* (system_of (bridge_step e b)) (system_of (bridge_run es (bridge_step e b)))"
    using Cons by simp
  finally show ?case by (simp add: bridge_run_def)
qed (simp add: bridge_run_def)



section \<open>One authenticated session\<close>

definition authority_of :: "bridge_session \<Rightarrow> ticket_authority" where
  "authority_of b = br_authority (bs_state b)"

lemma used_issue: "ta_launch_used a \<Longrightarrow> ta_launch_used (snd (issue_ticket t random a))"
  by (simp add: issue_ticket_def Let_def split: sum.splits option.splits)

lemma used_step: "ta_launch_used a \<Longrightarrow> ta_launch_used (auth_step a p)"
  by (cases p) (auto simp: consume_launch_token_def issue_ticket_def consume_ticket_def Let_def
      split: sum.splits option.splits)

lemma used_steps: "ta_launch_used a \<Longrightarrow> ta_launch_used (foldl auth_step a ps)"
  by (induction ps arbitrary: a) (simp_all add: used_step)

lemma handle_input_used:
  "ta_launch_used (br_authority s) \<Longrightarrow> ta_launch_used (br_authority (snd (handle_input env during input s)))"
proof (cases input)
  case (IssueBenchmarkTicket request_id)
  moreover assume "ta_launch_used (br_authority s)"
  ultimately show ?thesis
    using used_issue [of "br_authority s" "be_clock env" "be_random env"]
    by (auto split: prod.splits sum.splits)
qed (auto simp: with_world_def prepare_receive_def Let_def split: prod.splits sum.splits)

lemma bridge_step_used: "ta_launch_used (authority_of b) \<Longrightarrow> ta_launch_used (authority_of (bridge_step e b))"
proof (cases e)
  case (Input env during input sent)
  moreover assume "ta_launch_used (authority_of b)"
  ultimately show ?thesis
    using handle_input_used [of "bs_state b" env during input]
    by (auto simp: authority_of_def bridge_send_def split: prod.splits sum.splits)
qed (auto simp: authority_of_def data_plane_def used_steps bridge_send_def finish_session_def with_world_def)

lemma bridge_run_used: "ta_launch_used (authority_of b) \<Longrightarrow> ta_launch_used (authority_of (bridge_run es b))"
  unfolding bridge_run_def by (induction es arbitrary: b) (simp_all add: bridge_step_used)

lemma bridge_ended_step: "bs_ended b \<noteq> None \<Longrightarrow> bs_outputs (bridge_step e b) = bs_outputs b \<and> bs_ended (bridge_step e b) \<noteq> None"
  by (cases e) (auto simp: data_plane_def)

lemma bridge_ended_run: "bs_ended b \<noteq> None \<Longrightarrow> bs_outputs (bridge_run es b) = bs_outputs b"
  unfolding bridge_run_def
proof (induction es arbitrary: b)
  case (Cons e es)
  with bridge_ended_step [OF Cons.prems, of e] show ?case by simp
qed simp

lemma hello_accepted:
  assumes "bridge_hello t first a = (Inr u, out, a')" and "length (ta_launch_token a) = 16"
  shows "(\<exists>token. first = Hello BRIDGE_VERSION token \<and> parse_hex 16 token = Inr (ta_launch_token a)) \<and>
         \<not> ta_launch_used a \<and> ta_launch_used a'"
proof -
  obtain version token bs where first: "first = Hello version token" "parse_hex 16 token = Inr bs"
    "version = BRIDGE_VERSION" "consume_launch_token t bs a = (Inr True, a')"
    using assms(1) by (auto simp: bridge_hello_def split: bridge_input.splits sum.splits prod.splits if_splits)
  moreover have "length bs = length (ta_launch_token a)"
    using parse_hex_length [OF first(2)] assms(2) by simp
  ultimately show ?thesis
    by (auto simp: consume_launch_token_def constant_time_equal_iff split: sum.splits if_splits)
qed

text \<open>C25.  A bridge session that goes on presented the launch token in the hello of this version, before
  anybody else redeemed it; afterwards no other session ever gets past its hello.  A session that is
  not authenticated is over: it answers nothing, whatever is sent.\<close>
theorem bridge_authenticated_once:
  assumes "length (ta_launch_token authority) = 16"
  shows "let b = bridge_open t first snapshot authority sys in
         (bs_ended b = None \<longrightarrow>
            (\<exists>token. first = Hello 3 token \<and> parse_hex 16 token = Inr (ta_launch_token authority)) \<and>
            \<not> ta_launch_used authority \<and>
            (\<forall>es t' first' snapshot' sys'.
               bs_ended (bridge_open t' first' snapshot' (authority_of (bridge_run es b)) sys') \<noteq> None)) \<and>
         (bs_ended b \<noteq> None \<longrightarrow>
            (\<forall>es. bs_outputs (bridge_run es b) \<in> {[], [HelloAck False]}))"
proof -
  obtain r out a' where hello: "bridge_hello t first authority = (r, out, a')" by (metis surj_pair)
  let ?b = "bridge_open t first snapshot authority sys"
  have auth: "authority_of ?b = a'" and outs: "bs_outputs ?b = out" and ended: "bs_ended ?b = None \<longleftrightarrow> is_ok r"
    using hello by (auto simp: bridge_open_def authority_of_def split: sum.splits)
  have second: "bs_ended (bridge_open t' first' snapshot' a'' sys') \<noteq> None" if "ta_launch_used a''"
    for t' first' snapshot' a'' sys'
    using that by (auto simp: bridge_open_def bridge_hello_def consume_launch_token_def
        split: bridge_input.splits sum.splits prod.splits)
  show ?thesis
  proof (cases r)
    case (Inl e)
    then have "out \<in> {[], [HelloAck False]}"
      using hello by (auto simp: bridge_hello_def split: bridge_input.splits sum.splits prod.splits if_splits)
    with Inl ended outs bridge_ended_run [of ?b] show ?thesis by (auto simp: Let_def)
  next
    case (Inr u)
    note acc = hello_accepted [OF hello [unfolded Inr] assms]
    have "ta_launch_used (authority_of (bridge_run es ?b))" for es
      using acc auth by (intro bridge_run_used) simp
    with second acc ended Inr show ?thesis by (simp add: Let_def BRIDGE_VERSION_def)
  qed
qed

lemma bridge_authenticated_once_witness:
  "\<forall>env snapshot. \<not> is_ok (fst (bridge_hello 5 (GetNetworkEndpoints 1) (authority_new (replicate 16 7) 100))) \<and>
   bs_outputs (bridge_run [Input env id (GetNetworkEndpoints 2) True]
     (bridge_open 5 (GetNetworkEndpoints 1) snapshot (authority_new (replicate 16 7) 100) system_new)) \<in> {[], [HelloAck False]}"
proof (intro allI)
  fix env snapshot
  let ?a = "authority_new (replicate 16 7) 100"
  have "length (ta_launch_token ?a) = 16" by (simp add: authority_new_def)
  moreover have "bs_ended (bridge_open 5 (GetNetworkEndpoints 1) snapshot ?a system_new) \<noteq> None"
    by (simp add: bridge_open_def bridge_hello_def)
  ultimately show "\<not> is_ok (fst (bridge_hello 5 (GetNetworkEndpoints 1) ?a)) \<and>
   bs_outputs (bridge_run [Input env id (GetNetworkEndpoints 2) True]
     (bridge_open 5 (GetNetworkEndpoints 1) snapshot ?a system_new)) \<in> {[], [HelloAck False]}"
    using bridge_authenticated_once [of ?a 5 "GetNetworkEndpoints 1" snapshot system_new]
    by (simp add: Let_def bridge_hello_def)
qed

text \<open>A save dialog that the user cancels is answered as a failure: the grant that is not there cannot
  be encoded.\<close>
lemma cancelled_dialog_is_an_error:
  assumes "prepare_receive_check total_bytes (world_of s) = Inr ()" and "be_destination env = None"
  shows "fst (handle_input env id (PrepareReceiveTransfer n att owner peer file_name total_bytes plane) s) =
           Inr (n, Inl GrantNotAnObject)"
  using assms by (simp add: prepare_receive_def prepare_receive_open_def Let_def world_of_def)

end
