(* ===== verification/File_Io.thy ===== *)
theory File_Io
  imports Prelude Protocol
begin

text \<open>
  The positional I/O loops of a segment lease, \<open>read_exact_at\<close> and \<open>write_all_at\<close> of
  crates/winrisef-agent/src/file_transfer.rs.  The operating system's positional read and write
  (positional_io.rs) are parameters: a call may move fewer bytes than asked for.  The loops
  terminate because an empty answer is an error.

  The lemmas show that against a conforming file the loops move exactly the bytes asked for,
  whatever short counts the system answers with.
\<close>

section \<open>Model\<close>

datatype file_io_error =
    ReadFailed
  | SourceEnded
  | WriteFailed
  | EmptyWrite

text \<open>\<open>pread offset n\<close> answers with at most \<open>n\<close> bytes, \<open>pwrite offset bs\<close> with the count it took.\<close>

function read_exact_at ::
  "(u64 \<Rightarrow> nat \<Rightarrow> unit + bytes) \<Rightarrow> nat \<Rightarrow> u64 \<Rightarrow> file_io_error + bytes" where
  "read_exact_at pread n offset =
     (if n = 0 then Inr []
      else (case pread offset n of
        Inl _ \<Rightarrow> Inl ReadFailed
      | Inr bs \<Rightarrow>
          if length bs = 0 then Inl SourceEnded
          else and_then
            (read_exact_at pread (n - length bs) (offset + word_of_nat (length bs)))
            (\<lambda>rest. Inr (bs @ rest))))"
  by auto
termination by (relation "measure (\<lambda>(pread, n, offset). n)") auto

declare read_exact_at.simps [simp del]

definition splice :: "nat \<Rightarrow> 'a list \<Rightarrow> 'a list \<Rightarrow> 'a list" where
  "splice at src dst = take at dst @ src @ drop (at + length src) dst"

text \<open>The content of the file after the accepted bytes is threaded through the loop.\<close>

function write_all_at ::
  "(u64 \<Rightarrow> bytes \<Rightarrow> unit + nat) \<Rightarrow> bytes \<Rightarrow> u64 \<Rightarrow> bytes \<Rightarrow> (file_io_error + unit) \<times> bytes" where
  "write_all_at pwrite buffer offset content =
     (if buffer = [] then (Inr (), content)
      else (case pwrite offset buffer of
        Inl _ \<Rightarrow> (Inl WriteFailed, content)
      | Inr written \<Rightarrow>
          if written = 0 then (Inl EmptyWrite, content)
          else write_all_at pwrite (drop written buffer) (offset + word_of_nat written)
                 (splice (unat offset) (take written buffer) content)))"
  by auto
termination by (relation "measure (\<lambda>(pwrite, buffer, offset, content). length buffer)") auto

declare write_all_at.simps [simp del]

section \<open>Conforming files\<close>

definition reads_from :: "bytes \<Rightarrow> (u64 \<Rightarrow> nat \<Rightarrow> unit + bytes) \<Rightarrow> bool" where
  "reads_from content pread \<longleftrightarrow>
     (\<forall>offset n. 0 < n \<longrightarrow> (\<exists>k. pread offset n = Inr (take k (drop (unat offset) content)) \<and>
        k \<le> n \<and> (unat offset < length content \<longrightarrow> 0 < k)))"

definition takes_some :: "(u64 \<Rightarrow> bytes \<Rightarrow> unit + nat) \<Rightarrow> bool" where
  "takes_some pwrite \<longleftrightarrow>
     (\<forall>offset bs. bs \<noteq> [] \<longrightarrow> (\<exists>k. pwrite offset bs = Inr k \<and> 0 < k \<and> k \<le> length bs))"

lemma splice_length: "at + length src \<le> length dst \<Longrightarrow> length (splice at src dst) = length dst"
  by (simp add: splice_def)

lemma splice_splice:
  assumes "at + length (xs @ ys) \<le> length dst"
  shows "splice (at + length xs) ys (splice at xs dst) = splice at (xs @ ys) dst"
  using assms by (simp add: splice_def ac_simps)

lemma nth_splice:
  assumes "at + length src \<le> length dst" and "i < length dst"
  shows "splice at src dst ! i = (if at \<le> i \<and> i < at + length src then src ! (i - at) else dst ! i)"
  using assms by (auto simp: splice_def nth_append min_def)

lemma unat_offset_add:
  assumes "unat offset + n < 2 ^ 64" and "k \<le> n"
  shows "unat (offset + word_of_nat k :: u64) = unat offset + k"
proof -
  have "unat (word_of_nat k :: u64) = k" using assms by (simp add: unat_of_nat)
  with assms show ?thesis by (subst unat_add_lt) simp_all
qed

lemma read_exact_at_content:
  assumes "reads_from content pread" and "unat offset + n < 2 ^ 64"
  shows "read_exact_at pread n offset =
    (if n = 0 \<or> unat offset + n \<le> length content
     then Inr (take n (drop (unat offset) content)) else Inl SourceEnded)"
  using assms(2)
proof (induction n arbitrary: offset rule: less_induct)
  case (less n)
  show ?case
  proof (cases "n = 0")
    case False
    then obtain k where k: "pread offset n = Inr (take k (drop (unat offset) content))" "k \<le> n"
      "unat offset < length content \<longrightarrow> 0 < k"
      using assms(1) by (auto simp: reads_from_def)
    show ?thesis
    proof (cases "unat offset < length content")
      case False
      with k \<open>n \<noteq> 0\<close> show ?thesis by (subst read_exact_at.simps) simp
    next
      case True
      define m where "m = min k (length content - unat offset)"
      define bs where "bs = take k (drop (unat offset) content)"
      have bs: "bs = take m (drop (unat offset) content)" "length bs = m"
        by (simp_all add: bs_def m_def min_def)
      have m: "0 < m" "m \<le> n" "unat offset + m \<le> length content"
        using True k by (auto simp: m_def)
      have off: "unat (offset + word_of_nat m) = unat offset + m"
        using less.prems m(2) by (rule unat_offset_add)
      have rest: "read_exact_at pread (n - m) (offset + word_of_nat m) =
          (if n - m = 0 \<or> unat offset + n \<le> length content
           then Inr (take (n - m) (drop (unat offset + m) content)) else Inl SourceEnded)"
        using less.IH [of "n - m" "offset + word_of_nat m"] less.prems m by (simp add: off)
      have join: "take n (drop (unat offset) content) = bs @ take (n - m) (drop (unat offset + m) content)"
        using m(2) bs(1) by (metis add.commute drop_drop le_add_diff_inverse take_add)
      have "n - m = 0 \<longrightarrow> unat offset + n \<le> length content" using m by auto
      then show ?thesis
        using False m(1) k(1) bs(2) rest join
        by (subst read_exact_at.simps) (simp flip: bs_def)
    qed
  qed (simp add: read_exact_at.simps)
qed

lemma write_all_at_content:
  assumes "takes_some pwrite" and "unat offset + length buffer < 2 ^ 64"
    and "unat offset + length buffer \<le> length content"
  shows "write_all_at pwrite buffer offset content = (Inr (), splice (unat offset) buffer content)"
  using assms(2,3)
proof (induction "length buffer" arbitrary: buffer offset content rule: less_induct)
  case less
  show ?case
  proof (cases "buffer = []")
    case True
    then show ?thesis by (simp add: write_all_at.simps splice_def)
  next
    case False
    then obtain k where k: "pwrite offset buffer = Inr k" "0 < k" "k \<le> length buffer"
      using assms(1) by (auto simp: takes_some_def)
    have off: "unat (offset + word_of_nat k) = unat offset + k"
      using less.prems(1) k(3) by (rule unat_offset_add)
    let ?c = "splice (unat offset) (take k buffer) content"
    have len: "length ?c = length content" using less.prems(2) k(3) by (simp add: splice_length)
    have "write_all_at pwrite (drop k buffer) (offset + word_of_nat k) ?c =
        (Inr (), splice (unat offset + k) (drop k buffer) ?c)"
      using less.hyps [of "drop k buffer" "offset + word_of_nat k" ?c] less.prems k len
      by (simp add: off)
    moreover have "splice (unat offset + k) (drop k buffer) ?c = splice (unat offset) buffer content"
      using splice_splice [of "unat offset" "take k buffer" "drop k buffer" content] less.prems(2) k(3)
      by simp
    ultimately show ?thesis using False k by (subst write_all_at.simps) simp
  qed
qed

section \<open>Properties\<close>

text \<open>However short the system's reads are, \<open>read_exact_at\<close> returns exactly the bytes of the file
  at its offset, or fails because the file ends inside the range; it always returns.\<close>

theorem read_exact_at_exact:
  assumes "reads_from content pread" and "unat offset + n < 2 ^ 64"
  shows "read_exact_at pread n offset =
    (if n = 0 \<or> unat offset + n \<le> length content
     then Inr (take n (drop (unat offset) content)) else Inl SourceEnded)"
  using assms by (rule read_exact_at_content)

definition one_byte_reader :: "bytes \<Rightarrow> u64 \<Rightarrow> nat \<Rightarrow> unit + bytes" where
  "one_byte_reader content offset n = Inr (take 1 (drop (unat offset) content))"

theorem read_exact_at_exact_witness:
  "read_exact_at (one_byte_reader [1, 2, 3, 4, 5]) 3 1 = Inr [2, 3, 4]"
proof -
  have "reads_from [1, 2, 3, 4, 5] (one_byte_reader [1, 2, 3, 4, 5])"
    by (auto simp: reads_from_def one_byte_reader_def intro!: exI [of _ 1])
  from read_exact_at_exact [OF this, of 1 3] show ?thesis by (simp add: numeral_3_eq_3)
qed

text \<open>However short the system's writes are, \<open>write_all_at\<close> replaces exactly the bytes of its
  range inside the reserved file and leaves every other byte as it was.\<close>

theorem write_all_at_exact:
  assumes "takes_some pwrite" and "unat offset + length buffer < 2 ^ 64"
    and "unat offset + length buffer \<le> length content"
  shows "\<exists>content'. write_all_at pwrite buffer offset content = (Inr (), content') \<and>
           length content' = length content \<and>
           (\<forall>i < length content. content' ! i =
              (if unat offset \<le> i \<and> i < unat offset + length buffer
               then buffer ! (i - unat offset) else content ! i))"
  using write_all_at_content [OF assms] assms(3) by (simp add: splice_length nth_splice)

theorem write_all_at_exact_witness:
  "\<exists>content'. write_all_at (\<lambda>offset bs. Inr 1) [7, 8] 1 [0, 0, 0, 0] = (Inr (), content') \<and>
     length content' = 4"
proof -
  have "takes_some (\<lambda>offset bs. Inr 1)"
    by (auto simp: takes_some_def Suc_le_eq)
  from write_all_at_exact [OF this, of 1 "[7, 8]" "[0, 0, 0, 0]"] show ?thesis
    by (auto simp del: write_all_at.simps)
qed

end
