(* ===== verification/File_Payload.thy ===== *)
theory File_Payload
  imports File_Transfer File_Io
begin

text \<open>
  The payload pipelines of the native file transfer: the reader and the writer worker of
  \<open>send_segment\<close> and \<open>receive_segment\<close> (crates/winrisef-agent/src/file_http.rs) and of \<open>send_extent\<close>
  and \<open>receive_extent\<close> (file_webtransport.rs).  Both transports run the same worker over a lease;
  they differ in how many buffers circulate and in where the bytes come from, which is the
  locale \<open>byte_source\<close>.

  A pipeline is run block by block: its worker and its consumer alternate, since a block is
  handed over through a bounded channel of recycled buffers.  After an error the connection is
  closed, so what the other side of the pipeline had fetched ahead is not observable.

  The lemmas show that a reception stores exactly the bytes of its range, that a sending emits
  exactly the bytes of its range, and that neither changes anything else of the world than the
  activity time and the buffers of the transfer.
\<close>

section \<open>Model\<close>

datatype payload_error =
    PayloadManager transfer_error
  | PayloadIo file_io_error
  | PayloadSourceFailed
  | PayloadLengthWrong

text \<open>The world, the bytes of the transferred file, and how many clock readings were taken.\<close>

record payload_state =
  pl_world :: world
  pl_content :: bytes
  pl_tick :: nat

definition return_buffer :: "segment_lease \<Rightarrow> pooled_buffer \<Rightarrow> world \<Rightarrow> world" where
  "return_buffer l b w =
     (let x = w_transfers w ! ls_transfer l
      in put_transfer (ls_transfer l) (x\<lparr>at_buffers := buffer_drop b (at_buffers x)\<rparr>) w)"

definition return_buffers :: "segment_lease \<Rightarrow> pooled_buffer list \<Rightarrow> world \<Rightarrow> world" where
  "return_buffers l bs w = fold (return_buffer l) bs w"

text \<open>The buffers put into the recycling channel; a failing acquisition drops the earlier ones.\<close>

fun acquire_buffers ::
  "nat \<Rightarrow> segment_lease \<Rightarrow> world \<Rightarrow> (transfer_error + pooled_buffer list) \<times> world" where
  "acquire_buffers 0 l w = (Inr [], w)"
| "acquire_buffers (Suc n) l w =
     (case acquire_buffer l w of
        (Inl e, w1) \<Rightarrow> (Inl e, w1)
      | (Inr b, w1) \<Rightarrow> (
          case acquire_buffers n l w1 of
            (Inl e, w2) \<Rightarrow> (Inl e, return_buffer l b w2)
          | (Inr bs, w2) \<Rightarrow> (Inr (b # bs), w2)))"

lemma block_taken:
  assumes "remaining \<noteq> 0" and "n = min (unat remaining) FILE_IO_BLOCK_BYTES"
  shows "unat (remaining - word_of_nat n :: u64) = unat remaining - n"
    and "0 < n" and "n \<le> unat remaining" and "unat (word_of_nat n :: u64) = n"
proof -
  show n: "0 < n" "n \<le> unat remaining" using assms by (simp_all add: unat_gt_0 FILE_IO_BLOCK_BYTES_def)
  then show w: "unat (word_of_nat n :: u64) = n" using unat_lt64 [of remaining] by (simp add: unat_of_nat)
  show "unat (remaining - word_of_nat n) = unat remaining - n" using n w by (simp add: unat_sub_le)
qed

text \<open>
  One block of the write worker, and the loop.  \<open>fetch n\<close> takes \<open>n\<close> bytes from the connection,
  \<open>clk\<close> gives the clock readings in order.
\<close>

definition store_block ::
  "(u64 \<Rightarrow> bytes \<Rightarrow> unit + nat) \<Rightarrow> (nat \<Rightarrow> int) \<Rightarrow> segment_lease \<Rightarrow> u64 \<Rightarrow> bytes \<Rightarrow> payload_state \<Rightarrow>
     (payload_error + unit) \<times> payload_state" where
  "store_block pwrite clk l position block s =
     (case write_all_at pwrite block position (pl_content s) of
        (Inl e, content) \<Rightarrow> (Inl (PayloadIo e), s\<lparr>pl_content := content\<rparr>)
      | (Inr _, content) \<Rightarrow> (
          case lease_touch (clk (pl_tick s)) l (pl_world s) of
            (r, w) \<Rightarrow> (lift_err PayloadManager r,
                       s\<lparr>pl_content := content, pl_world := w, pl_tick := Suc (pl_tick s)\<rparr>)))"

function receive_blocks ::
  "(nat \<Rightarrow> 'c \<Rightarrow> (unit + bytes) \<times> 'c) \<Rightarrow> (u64 \<Rightarrow> bytes \<Rightarrow> unit + nat) \<Rightarrow> (nat \<Rightarrow> int) \<Rightarrow> segment_lease \<Rightarrow>
     u64 \<Rightarrow> u64 \<Rightarrow> 'c \<Rightarrow> payload_state \<Rightarrow> (payload_error + u64) \<times> 'c \<times> payload_state" where
  "receive_blocks fetch pwrite clk l position remaining c s =
     (if remaining = 0 then (Inr position, c, s)
      else (let block_len = min (unat remaining) FILE_IO_BLOCK_BYTES in
        case fetch block_len c of
          (Inl _, c1) \<Rightarrow> (Inl PayloadSourceFailed, c1, s)
        | (Inr block, c1) \<Rightarrow> (
            case store_block pwrite clk l position block s of
              (Inl e, s1) \<Rightarrow> (Inl e, c1, s1)
            | (Inr _, s1) \<Rightarrow>
                receive_blocks fetch pwrite clk l (position + word_of_nat (length block))
                  (remaining - word_of_nat block_len) c1 s1)))"
  by auto
termination
  by (relation "measure (\<lambda>(fetch, pwrite, clk, l, position, remaining, c, s). unat remaining)")
     (auto simp: block_taken(1) unat_gt_0 FILE_IO_BLOCK_BYTES_def intro!: diff_less)

declare receive_blocks.simps [simp del]

text \<open>A reception: the lease comes back only if everything was stored, otherwise it is dropped.\<close>

definition receive_payload ::
  "nat \<Rightarrow> (nat \<Rightarrow> 'c \<Rightarrow> (unit + bytes) \<times> 'c) \<Rightarrow> (u64 \<Rightarrow> bytes \<Rightarrow> unit + nat) \<Rightarrow> (nat \<Rightarrow> int) \<Rightarrow>
     segment_lease \<Rightarrow> 'c \<Rightarrow> payload_state \<Rightarrow> (payload_error + unit) \<times> 'c \<times> payload_state" where
  "receive_payload buffers fetch pwrite clk l c s =
     (case acquire_buffers buffers l (pl_world s) of
        (Inl e, w) \<Rightarrow> (Inl (PayloadManager e), c, s\<lparr>pl_world := lease_drop l w\<rparr>)
      | (Inr bs, w) \<Rightarrow> (
          case receive_blocks fetch pwrite clk l (ls_offset l) (ls_len l) c (s\<lparr>pl_world := w\<rparr>) of
            (r, c1, s1) \<Rightarrow> (
              let result = and_then r (\<lambda>position.
                    ensure (position = ls_offset l + ls_len l) PayloadLengthWrong);
                  w1 = return_buffers l bs (pl_world s1)
              in (result, c1,
                  s1\<lparr>pl_world := (if is_ok result then w1 else lease_drop l w1)\<rparr>))))"

text \<open>One block of the read worker, and the loop; what was emitted so far is returned with an error.\<close>

definition load_block ::
  "(u64 \<Rightarrow> nat \<Rightarrow> unit + bytes) \<Rightarrow> (nat \<Rightarrow> int) \<Rightarrow> segment_lease \<Rightarrow> u64 \<Rightarrow> nat \<Rightarrow> payload_state \<Rightarrow>
     (payload_error + bytes) \<times> payload_state" where
  "load_block pread clk l position block_len s =
     (case read_exact_at pread block_len position of
        Inl e \<Rightarrow> (Inl (PayloadIo e), s)
      | Inr block \<Rightarrow> (
          case lease_touch (clk (pl_tick s)) l (pl_world s) of
            (r, w) \<Rightarrow> (and_then (lift_err PayloadManager r) (\<lambda>_. Inr block),
                       s\<lparr>pl_world := w, pl_tick := Suc (pl_tick s)\<rparr>)))"

function send_blocks ::
  "(u64 \<Rightarrow> nat \<Rightarrow> unit + bytes) \<Rightarrow> (nat \<Rightarrow> int) \<Rightarrow> segment_lease \<Rightarrow> u64 \<Rightarrow> u64 \<Rightarrow> payload_state \<Rightarrow>
     (payload_error + unit) \<times> bytes \<times> payload_state" where
  "send_blocks pread clk l position remaining s =
     (if remaining = 0 then (Inr (), [], s)
      else (let block_len = min (unat remaining) FILE_IO_BLOCK_BYTES in
        case load_block pread clk l position block_len s of
          (Inl e, s1) \<Rightarrow> (Inl e, [], s1)
        | (Inr block, s1) \<Rightarrow> (
            case send_blocks pread clk l (position + word_of_nat block_len)
                   (remaining - word_of_nat block_len) s1 of
              (r, out, s2) \<Rightarrow> (r, block @ out, s2))))"
  by auto
termination
  by (relation "measure (\<lambda>(pread, clk, l, position, remaining, s). unat remaining)")
     (auto simp: block_taken(1) unat_gt_0 FILE_IO_BLOCK_BYTES_def intro!: diff_less)

declare send_blocks.simps [simp del]

definition send_payload ::
  "nat \<Rightarrow> (u64 \<Rightarrow> nat \<Rightarrow> unit + bytes) \<Rightarrow> (nat \<Rightarrow> int) \<Rightarrow> segment_lease \<Rightarrow> payload_state \<Rightarrow>
     (payload_error + unit) \<times> bytes \<times> payload_state" where
  "send_payload buffers pread clk l s =
     (case acquire_buffers buffers l (pl_world s) of
        (Inl e, w) \<Rightarrow> (Inl (PayloadManager e), [], s\<lparr>pl_world := lease_drop l w\<rparr>)
      | (Inr bs, w) \<Rightarrow> (
          case send_blocks pread clk l (ls_offset l) (ls_len l) (s\<lparr>pl_world := w\<rparr>) of
            (r, out, s1) \<Rightarrow> (
              let w1 = return_buffers l bs (pl_world s1)
              in (r, out, s1\<lparr>pl_world := (if is_ok r then w1 else lease_drop l w1)\<rparr>))))"

section \<open>What the pipelines leave alone\<close>

definition only_io :: "nat \<Rightarrow> world \<Rightarrow> world \<Rightarrow> bool" where
  "only_io a w w' \<longleftrightarrow> a < length (w_transfers w) \<and>
     (\<exists>b t. w' = put_transfer a ((w_transfers w ! a)\<lparr>at_buffers := b, at_last_activity_ms := t\<rparr>) w)"

definition pool_room :: "nat \<Rightarrow> world \<Rightarrow> nat" where
  "pool_room a w =
     (let p = at_buffers (w_transfers w ! a)
      in if bp_poisoned p then 0
         else bp_buffer_count p - bp_allocated p + length (bp_available p))"

lemma put_transfer_simps [simp]:
  "a < length (w_transfers w) \<Longrightarrow> w_transfers (put_transfer a x w) ! a = x"
  "a \<noteq> b \<Longrightarrow> w_transfers (put_transfer a x w) ! b = w_transfers w ! b"
  "length (w_transfers (put_transfer a x w)) = length (w_transfers w)"
  "put_transfer a x (put_transfer a y w) = put_transfer a x w"
  "put_transfer a (w_transfers w ! a) w = w"
  "w_active (put_transfer a x w) = w_active w" "w_dir (put_transfer a x w) = w_dir w"
  "w_events (put_transfer a x w) = w_events w" "w_selected (put_transfer a x w) = w_selected w"
  "w_active_poisoned (put_transfer a x w) = w_active_poisoned w"
  by (simp_all add: put_transfer_def)

lemma only_io_refl: "a < length (w_transfers w) \<Longrightarrow> only_io a w w"
  unfolding only_io_def
  by (intro conjI exI [of _ "at_buffers (w_transfers w ! a)"] exI [of _ "at_last_activity_ms (w_transfers w ! a)"])
     simp_all

lemma only_io_trans: "only_io a w w' \<Longrightarrow> only_io a w' w'' \<Longrightarrow> only_io a w w''"
  by (auto simp: only_io_def) (intro exI, rule refl)

lemma only_io_frame:
  assumes "only_io a w w'"
  shows "a < length (w_transfers w')" "at_segments (w_transfers w' ! a) = at_segments (w_transfers w ! a)"
    "at_cancelled (w_transfers w' ! a) = at_cancelled (w_transfers w ! a)"
    "at_total_bytes (w_transfers w' ! a) = at_total_bytes (w_transfers w ! a)"
  using assms by (auto simp: only_io_def)

lemma acquire_buffer_ok:
  assumes a: "ls_transfer l < length (w_transfers w)" and room: "0 < pool_room (ls_transfer l) w"
  shows "\<exists>b w'. acquire_buffer l w = (Inr b, w') \<and> only_io (ls_transfer l) w w' \<and> pb_bytes b \<noteq> None \<and>
           Suc (pool_room (ls_transfer l) w') = pool_room (ls_transfer l) w"
proof -
  let ?a = "ls_transfer l" and ?x = "w_transfers w ! ls_transfer l"
  let ?p = "at_buffers ?x"
  have np: "\<not> bp_poisoned ?p" using room by (auto simp: pool_room_def Let_def split: if_splits)
  have "\<exists>b p'. pool_acquire ?p = (Inr b, p') \<and> pb_bytes b \<noteq> None \<and> \<not> bp_poisoned p' \<and>
      Suc (bp_buffer_count p' - bp_allocated p' + length (bp_available p')) =
        bp_buffer_count ?p - bp_allocated ?p + length (bp_available ?p)"
    using room np by (auto simp: pool_acquire_def pool_room_def)
  then obtain b p' where p': "pool_acquire ?p = (Inr b, p')" "pb_bytes b \<noteq> None" "\<not> bp_poisoned p'"
    "Suc (bp_buffer_count p' - bp_allocated p' + length (bp_available p')) =
        bp_buffer_count ?p - bp_allocated ?p + length (bp_available ?p)" by blast
  have "only_io ?a w (put_transfer ?a (?x\<lparr>at_buffers := p'\<rparr>) w)"
    unfolding only_io_def using a
    by (intro conjI exI [of _ p'] exI [of _ "at_last_activity_ms ?x"]) simp_all
  with p' a np show ?thesis
    by (auto simp: acquire_buffer_def Let_def pool_room_def)
qed

lemma return_buffer_ok:
  assumes a: "ls_transfer l < length (w_transfers w)" and "pb_bytes b \<noteq> None"
    and np: "\<not> bp_poisoned (at_buffers (w_transfers w ! ls_transfer l))"
  shows "only_io (ls_transfer l) w (return_buffer l b w)"
    and "pool_room (ls_transfer l) (return_buffer l b w) = Suc (pool_room (ls_transfer l) w)"
    and "\<not> bp_poisoned (at_buffers (w_transfers (return_buffer l b w) ! ls_transfer l))"
proof -
  let ?a = "ls_transfer l" and ?x = "w_transfers w ! ls_transfer l"
  show "only_io ?a w (return_buffer l b w)"
    unfolding only_io_def return_buffer_def using a
    by (intro conjI exI [of _ "buffer_drop b (at_buffers ?x)"] exI [of _ "at_last_activity_ms ?x"]) 
       (simp_all add: Let_def)
  show "pool_room ?a (return_buffer l b w) = Suc (pool_room ?a w)"
    "\<not> bp_poisoned (at_buffers (w_transfers (return_buffer l b w) ! ?a))"
    using assms by (auto simp: return_buffer_def Let_def pool_room_def buffer_drop_def)
qed

lemma return_buffers_ok:
  assumes "ls_transfer l < length (w_transfers w)" and "\<forall>b \<in> set bs. pb_bytes b \<noteq> None"
    and "\<not> bp_poisoned (at_buffers (w_transfers w ! ls_transfer l))"
  shows "only_io (ls_transfer l) w (return_buffers l bs w) \<and>
         pool_room (ls_transfer l) (return_buffers l bs w) = length bs + pool_room (ls_transfer l) w \<and>
         \<not> bp_poisoned (at_buffers (w_transfers (return_buffers l bs w) ! ls_transfer l))"
  using assms
proof (induction bs arbitrary: w)
  case Nil
  then show ?case by (simp add: return_buffers_def only_io_refl)
next
  case (Cons b bs)
  from Cons.prems have b: "pb_bytes b \<noteq> None" by simp
  note step = return_buffer_ok [OF Cons.prems(1) b Cons.prems(3)]
  with Cons.IH [of "return_buffer l b w"] Cons.prems only_io_frame(1) [OF step(1)] show ?case
    by (auto simp: return_buffers_def intro: only_io_trans)
qed

lemma acquire_buffers_ok:
  assumes "ls_transfer l < length (w_transfers w)" and "n \<le> pool_room (ls_transfer l) w"
    and "\<not> bp_poisoned (at_buffers (w_transfers w ! ls_transfer l))"
  shows "\<exists>bs w'. acquire_buffers n l w = (Inr bs, w') \<and> only_io (ls_transfer l) w w' \<and> length bs = n \<and>
           (\<forall>b \<in> set bs. pb_bytes b \<noteq> None) \<and>
           n + pool_room (ls_transfer l) w' = pool_room (ls_transfer l) w \<and>
           \<not> bp_poisoned (at_buffers (w_transfers w' ! ls_transfer l))"
  using assms
proof (induction n arbitrary: w)
  case 0
  then show ?case by (simp add: only_io_refl)
next
  case (Suc n)
  then have "0 < pool_room (ls_transfer l) w" by simp
  from acquire_buffer_ok [OF Suc.prems(1) this] obtain b w1 where
    b: "acquire_buffer l w = (Inr b, w1)" "only_io (ls_transfer l) w w1" "pb_bytes b \<noteq> None"
      "Suc (pool_room (ls_transfer l) w1) = pool_room (ls_transfer l) w" by blast
  have "\<not> bp_poisoned (at_buffers (w_transfers w1 ! ls_transfer l))"
    using b(1) Suc.prems(1,3)
    by (auto simp: acquire_buffer_def Let_def pool_acquire_def split: prod.splits sum.splits if_splits)
  with Suc.IH [of w1] only_io_frame(1) [OF b(2)] Suc.prems(2) b(4) obtain bs w' where
    "acquire_buffers n l w1 = (Inr bs, w')" "only_io (ls_transfer l) w1 w'" "length bs = n"
    "\<forall>b \<in> set bs. pb_bytes b \<noteq> None" "n + pool_room (ls_transfer l) w' = pool_room (ls_transfer l) w1"
    "\<not> bp_poisoned (at_buffers (w_transfers w' ! ls_transfer l))"
    by auto
  with b show ?case by (auto intro: only_io_trans)
qed

definition clock_runs :: "(nat \<Rightarrow> int) \<Rightarrow> bool" where
  "clock_runs clk \<longleftrightarrow> (\<forall>i. 0 \<le> clk i)"

lemma lease_touch_ok:
  assumes "clock_runs clk" and "ls_transfer l < length (w_transfers w)"
    and "\<not> at_cancelled (w_transfers w ! ls_transfer l)"
  shows "\<exists>w'. lease_touch (clk i) l w = (Inr (), w') \<and> only_io (ls_transfer l) w w' \<and>
           pool_room (ls_transfer l) w' = pool_room (ls_transfer l) w \<and>
           at_buffers (w_transfers w' ! ls_transfer l) = at_buffers (w_transfers w ! ls_transfer l)"
proof -
  have "\<exists>now. now_ms (clk i) = Inr now" using assms(1) by (simp add: clock_runs_def now_ms_def not_less)
  then obtain now where now: "now_ms (clk i) = Inr now" ..
  let ?a = "ls_transfer l" and ?x = "w_transfers w ! ls_transfer l"
  have "only_io ?a w (put_transfer ?a (?x\<lparr>at_last_activity_ms := now\<rparr>) w)"
    unfolding only_io_def using assms(2)
    by (intro conjI exI [of _ "at_buffers ?x"] exI [of _ now]) simp_all
  with assms now show ?thesis
    by (simp add: lease_touch_def transfer_touch_def transfer_now_def Let_def pool_room_def)
qed

definition payload_ready :: "nat \<Rightarrow> segment_lease \<Rightarrow> world \<Rightarrow> bool" where
  "payload_ready n l w \<longleftrightarrow> ls_transfer l < length (w_transfers w) \<and>
     \<not> at_cancelled (w_transfers w ! ls_transfer l) \<and> n \<le> pool_room (ls_transfer l) w \<and>
     \<not> bp_poisoned (at_buffers (w_transfers w ! ls_transfer l))"

section \<open>Receiving\<close>

lemma store_block_ok:
  assumes "takes_some pwrite" and "clock_runs clk" and "ls_transfer l < length (w_transfers (pl_world s))"
    and "\<not> at_cancelled (w_transfers (pl_world s) ! ls_transfer l)"
    and "unat position + length block < 2 ^ 64"
    and "unat position + length block \<le> length (pl_content s)"
  shows "\<exists>s'. store_block pwrite clk l position block s = (Inr (), s') \<and>
           pl_content s' = splice (unat position) block (pl_content s) \<and>
           only_io (ls_transfer l) (pl_world s) (pl_world s') \<and>
           at_buffers (w_transfers (pl_world s') ! ls_transfer l) =
             at_buffers (w_transfers (pl_world s) ! ls_transfer l)"
proof -
  obtain w' where "lease_touch (clk (pl_tick s)) l (pl_world s) = (Inr (), w')"
    "only_io (ls_transfer l) (pl_world s) w'"
    "at_buffers (w_transfers w' ! ls_transfer l) = at_buffers (w_transfers (pl_world s) ! ls_transfer l)"
    using lease_touch_ok [OF assms(2-4)] by blast
  then show ?thesis
    using write_all_at_content [OF assms(1,5,6)] by (simp add: store_block_def lift_err_def)
qed

locale byte_source =
  fixes fetch :: "nat \<Rightarrow> 'c \<Rightarrow> (unit + bytes) \<times> 'c"
    and avail :: "'c \<Rightarrow> bytes"
  assumes fetch_enough: "n \<le> length (avail c) \<Longrightarrow>
        \<exists>c'. fetch n c = (Inr (take n (avail c)), c') \<and> avail c' = drop n (avail c)"
    and fetch_short: "length (avail c) < n \<Longrightarrow> \<exists>c'. fetch n c = (Inl (), c')"
begin

lemma receive_blocks_stores:
  assumes io: "takes_some pwrite" and clk: "clock_runs clk"
    and "ls_transfer l < length (w_transfers (pl_world s))"
    and "\<not> at_cancelled (w_transfers (pl_world s) ! ls_transfer l)"
    and "unat position + unat remaining < 2 ^ 64"
    and "unat position + unat remaining \<le> length (pl_content s)"
    and "unat remaining \<le> length (avail c)"
  shows "\<exists>c' s'. receive_blocks fetch pwrite clk l position remaining c s = (Inr (position + remaining), c', s') \<and>
           avail c' = drop (unat remaining) (avail c) \<and>
           pl_content s' = splice (unat position) (take (unat remaining) (avail c)) (pl_content s) \<and>
           only_io (ls_transfer l) (pl_world s) (pl_world s') \<and>
           at_buffers (w_transfers (pl_world s') ! ls_transfer l) =
             at_buffers (w_transfers (pl_world s) ! ls_transfer l)"
  using assms(3-7)
proof (induction "unat remaining" arbitrary: position remaining c s rule: less_induct)
  case less
  show ?case
  proof (cases "remaining = 0")
    case True
    with less.prems show ?thesis by (simp add: receive_blocks.simps splice_def only_io_refl)
  next
    case False
    define n where "n = min (unat remaining) FILE_IO_BLOCK_BYTES"
    note n = block_taken [OF False n_def]
    define block where "block = take n (avail c)"
    have lenb: "length block = n" using n(3) less.prems(5) by (simp add: block_def)
    obtain c1 where c1: "fetch n c = (Inr block, c1)" "avail c1 = drop n (avail c)"
      using fetch_enough [of n c] n(3) less.prems(5) by (auto simp: block_def)
    obtain s1 where s1: "store_block pwrite clk l position block s = (Inr (), s1)"
      "pl_content s1 = splice (unat position) block (pl_content s)"
      "only_io (ls_transfer l) (pl_world s) (pl_world s1)"
      "at_buffers (w_transfers (pl_world s1) ! ls_transfer l) =
         at_buffers (w_transfers (pl_world s) ! ls_transfer l)"
      using store_block_ok [OF io clk less.prems(1,2), of position block] less.prems(3,4) n(3) lenb by auto
    have pos: "unat (position + word_of_nat n) = unat position + n"
      using less.prems(3) n(3) by (intro unat_offset_add) simp_all
    have sum: "unat position + n + (unat remaining - n) = unat position + unat remaining" using n(3) by simp
    have "\<exists>c' s'. receive_blocks fetch pwrite clk l (position + word_of_nat n) (remaining - word_of_nat n) c1 s1 =
            (Inr (position + word_of_nat n + (remaining - word_of_nat n)), c', s') \<and>
          avail c' = drop (unat remaining - n) (avail c1) \<and>
          pl_content s' = splice (unat position + n) (take (unat remaining - n) (avail c1)) (pl_content s1) \<and>
          only_io (ls_transfer l) (pl_world s1) (pl_world s') \<and>
          at_buffers (w_transfers (pl_world s') ! ls_transfer l) =
            at_buffers (w_transfers (pl_world s1) ! ls_transfer l)"
      using less.hyps [of "remaining - word_of_nat n" s1 "position + word_of_nat n" c1]
        less.prems n s1(2,3) only_io_frame [OF s1(3)] lenb c1(2)
      unfolding n(1) pos by (simp add: splice_length sum)
    then obtain c' s' where rec:
      "receive_blocks fetch pwrite clk l (position + word_of_nat n) (remaining - word_of_nat n) c1 s1 =
         (Inr (position + remaining), c', s')"
      "avail c' = drop (unat remaining) (avail c)"
      "pl_content s' = splice (unat position + n) (take (unat remaining - n) (drop n (avail c))) (pl_content s1)"
      "only_io (ls_transfer l) (pl_world s1) (pl_world s')"
      "at_buffers (w_transfers (pl_world s') ! ls_transfer l) =
         at_buffers (w_transfers (pl_world s1) ! ls_transfer l)"
      using c1(2) n(3) by (auto simp: algebra_simps)
    define rest where "rest = take (unat remaining - n) (drop n (avail c))"
    have whole: "take (unat remaining) (avail c) = block @ rest"
      unfolding block_def rest_def using n(3) by (metis le_add_diff_inverse take_add)
    have "length (block @ rest) = unat remaining"
      unfolding whole [symmetric] using less.prems(5) by simp
    then have "unat position + length (block @ rest) \<le> length (pl_content s)" using less.prems(4) by simp
    from splice_splice [OF this]
    have "pl_content s' = splice (unat position) (take (unat remaining) (avail c)) (pl_content s)"
      unfolding rec(3) s1(2) rest_def [symmetric] whole lenb .
    then show ?thesis
      using rec False c1(1) s1 lenb
      by (subst receive_blocks.simps) (auto simp: Let_def simp flip: n_def intro: only_io_trans)
  qed
qed

lemma receive_blocks_short:
  assumes "takes_some pwrite" and "clock_runs clk"
    and "ls_transfer l < length (w_transfers (pl_world s))"
    and "\<not> at_cancelled (w_transfers (pl_world s) ! ls_transfer l)"
    and "unat position + unat remaining < 2 ^ 64"
    and "unat position + unat remaining \<le> length (pl_content s)"
    and "length (avail c) < unat remaining"
  shows "\<exists>c' s'. receive_blocks fetch pwrite clk l position remaining c s = (Inl PayloadSourceFailed, c', s')"
  using assms(3-7)
proof (induction "unat remaining" arbitrary: position remaining c s rule: less_induct)
  case less
  then have False: "remaining \<noteq> 0" by auto
  define n where "n = min (unat remaining) FILE_IO_BLOCK_BYTES"
  note n = block_taken [OF False n_def]
  show ?case
  proof (cases "n \<le> length (avail c)")
    case False
    then obtain c1 where "fetch n c = (Inl (), c1)" using fetch_short [of c n] by auto
    with \<open>remaining \<noteq> 0\<close> show ?thesis
      by (subst receive_blocks.simps) (simp add: Let_def flip: n_def)
  next
    case True
    define block where "block = take n (avail c)"
    have lenb: "length block = n" using True by (simp add: block_def)
    obtain c1 where c1: "fetch n c = (Inr block, c1)" "avail c1 = drop n (avail c)"
      using fetch_enough [OF True] by (auto simp: block_def)
    obtain s1 where s1: "store_block pwrite clk l position block s = (Inr (), s1)"
      "pl_content s1 = splice (unat position) block (pl_content s)"
      "only_io (ls_transfer l) (pl_world s) (pl_world s1)"
      using store_block_ok [OF assms(1,2) less.prems(1,2), of position block] less.prems(3,4) n(3) lenb by auto
    have pos: "unat (position + word_of_nat n) = unat position + n"
      using less.prems(3) n(3) by (intro unat_offset_add) simp_all
    have "\<exists>c' s'. receive_blocks fetch pwrite clk l (position + word_of_nat n) (remaining - word_of_nat n) c1 s1 =
            (Inl PayloadSourceFailed, c', s')"
      using less.hyps [of "remaining - word_of_nat n" s1 "position + word_of_nat n" c1]
        less.prems n s1(2,3) only_io_frame [OF s1(3)] lenb c1(2) True
      unfolding n(1) pos by (simp add: splice_length)
    then show ?thesis
      using \<open>remaining \<noteq> 0\<close> c1(1) s1(1) lenb
      by (subst receive_blocks.simps) (simp add: Let_def flip: n_def)
  qed
qed

lemma receive_payload_stores:
  assumes io: "takes_some pwrite" and clk: "clock_runs clk" and ready: "payload_ready n l (pl_world s)"
    and "unat (ls_offset l) + unat (ls_len l) < 2 ^ 64"
    and "unat (ls_offset l) + unat (ls_len l) \<le> length (pl_content s)"
    and "unat (ls_len l) \<le> length (avail c)"
  shows "\<exists>c' s'. receive_payload n fetch pwrite clk l c s = (Inr (), c', s') \<and>
           avail c' = drop (unat (ls_len l)) (avail c) \<and>
           pl_content s' = splice (unat (ls_offset l)) (take (unat (ls_len l)) (avail c)) (pl_content s) \<and>
           only_io (ls_transfer l) (pl_world s) (pl_world s') \<and> payload_ready n l (pl_world s')"
proof -
  let ?a = "ls_transfer l"
  have a: "?a < length (w_transfers (pl_world s))" using ready by (simp add: payload_ready_def)
  obtain bs w1 where acq: "acquire_buffers n l (pl_world s) = (Inr bs, w1)" "only_io ?a (pl_world s) w1"
    "length bs = n" "\<forall>b \<in> set bs. pb_bytes b \<noteq> None" "n + pool_room ?a w1 = pool_room ?a (pl_world s)"
    "\<not> bp_poisoned (at_buffers (w_transfers w1 ! ?a))"
    using acquire_buffers_ok [OF a, of n] ready by (auto simp: payload_ready_def)
  note w1 = only_io_frame [OF acq(2)]
  have nc: "\<not> at_cancelled (w_transfers w1 ! ?a)" using w1 ready by (simp add: payload_ready_def)
  obtain c' s2 where blocks:
    "receive_blocks fetch pwrite clk l (ls_offset l) (ls_len l) c (s\<lparr>pl_world := w1\<rparr>) =
       (Inr (ls_offset l + ls_len l), c', s2)"
    "avail c' = drop (unat (ls_len l)) (avail c)"
    "pl_content s2 = splice (unat (ls_offset l)) (take (unat (ls_len l)) (avail c)) (pl_content s)"
    "only_io ?a w1 (pl_world s2)"
    "at_buffers (w_transfers (pl_world s2) ! ?a) = at_buffers (w_transfers w1 ! ?a)"
    using receive_blocks_stores [OF io clk, of l "s\<lparr>pl_world := w1\<rparr>" "ls_offset l" "ls_len l" c] w1 nc assms(4-6)
    by auto
  note s2 = only_io_frame [OF blocks(4)]
  have "pool_room ?a (pl_world s2) = pool_room ?a w1" using blocks(5) by (simp add: pool_room_def)
  with return_buffers_ok [OF s2(1) acq(4)] blocks(5) acq
  have ret: "only_io ?a (pl_world s2) (return_buffers l bs (pl_world s2))"
    "pool_room ?a (return_buffers l bs (pl_world s2)) = pool_room ?a (pl_world s)"
    "\<not> bp_poisoned (at_buffers (w_transfers (return_buffers l bs (pl_world s2)) ! ?a))"
    by simp_all
  have all: "only_io ?a (pl_world s) (return_buffers l bs (pl_world s2))"
    using acq(2) blocks(4) ret(1) by (blast intro: only_io_trans)
  have "payload_ready n l (return_buffers l bs (pl_world s2))"
    using ready ret only_io_frame [OF all] by (simp add: payload_ready_def)
  with acq(1) blocks all show ?thesis by (simp add: receive_payload_def Let_def)
qed

end

section \<open>Sending\<close>

lemma send_blocks_emits:
  assumes io: "reads_from content pread" and clk: "clock_runs clk"
    and "ls_transfer l < length (w_transfers (pl_world s))"
    and "\<not> at_cancelled (w_transfers (pl_world s) ! ls_transfer l)"
    and "unat position + unat remaining < 2 ^ 64"
    and "unat position + unat remaining \<le> length content"
  shows "\<exists>s'. send_blocks pread clk l position remaining s =
             (Inr (), take (unat remaining) (drop (unat position) content), s') \<and>
           pl_content s' = pl_content s \<and> only_io (ls_transfer l) (pl_world s) (pl_world s') \<and>
           at_buffers (w_transfers (pl_world s') ! ls_transfer l) =
             at_buffers (w_transfers (pl_world s) ! ls_transfer l)"
  using assms(3-6)
proof (induction "unat remaining" arbitrary: position remaining s rule: less_induct)
  case less
  show ?case
  proof (cases "remaining = 0")
    case True
    with less.prems show ?thesis by (simp add: send_blocks.simps only_io_refl)
  next
    case False
    define n where "n = min (unat remaining) FILE_IO_BLOCK_BYTES"
    note n = block_taken [OF False n_def]
    define block where "block = take n (drop (unat position) content)"
    have "read_exact_at pread n position = Inr block"
      using read_exact_at_content [OF io, of position n] less.prems(3,4) n(3) by (simp add: block_def)
    moreover obtain w1 where w1: "lease_touch (clk (pl_tick s)) l (pl_world s) = (Inr (), w1)"
      "only_io (ls_transfer l) (pl_world s) w1"
      "at_buffers (w_transfers w1 ! ls_transfer l) = at_buffers (w_transfers (pl_world s) ! ls_transfer l)"
      using lease_touch_ok [OF clk less.prems(1,2)] by blast
    ultimately have load: "load_block pread clk l position n s =
        (Inr block, s\<lparr>pl_world := w1, pl_tick := Suc (pl_tick s)\<rparr>)" (is "_ = (_, ?s1)")
      by (simp add: load_block_def lift_err_def)
    have pos: "unat (position + word_of_nat n) = unat position + n"
      using less.prems(3) n(3) by (intro unat_offset_add) simp_all
    obtain s' where rec:
      "send_blocks pread clk l (position + word_of_nat n) (remaining - word_of_nat n) ?s1 =
         (Inr (), take (unat remaining - n) (drop (unat position + n) content), s')"
      "pl_content s' = pl_content s" "only_io (ls_transfer l) w1 (pl_world s')"
      "at_buffers (w_transfers (pl_world s') ! ls_transfer l) = at_buffers (w_transfers w1 ! ls_transfer l)"
      using less.hyps [of "remaining - word_of_nat n" ?s1 "position + word_of_nat n"]
        less.prems n only_io_frame [OF w1(2)] unfolding n(1) pos by auto
    have "take (unat remaining) (drop (unat position) content) =
        block @ take (unat remaining - n) (drop (unat position + n) content)"
      using n(3) by (metis add.commute block_def drop_drop le_add_diff_inverse take_add)
    with rec False load w1(2,3) show ?thesis
      by (subst send_blocks.simps) (auto simp: Let_def simp flip: n_def intro: only_io_trans)
  qed
qed

lemma send_payload_emits:
  assumes io: "reads_from content pread" and clk: "clock_runs clk" and ready: "payload_ready n l (pl_world s)"
    and "unat (ls_offset l) + unat (ls_len l) < 2 ^ 64"
    and "unat (ls_offset l) + unat (ls_len l) \<le> length content"
  shows "\<exists>s'. send_payload n pread clk l s =
             (Inr (), take (unat (ls_len l)) (drop (unat (ls_offset l)) content), s') \<and>
           pl_content s' = pl_content s \<and> only_io (ls_transfer l) (pl_world s) (pl_world s') \<and>
           payload_ready n l (pl_world s')"
proof -
  let ?a = "ls_transfer l"
  have a: "?a < length (w_transfers (pl_world s))" using ready by (simp add: payload_ready_def)
  obtain bs w1 where acq: "acquire_buffers n l (pl_world s) = (Inr bs, w1)" "only_io ?a (pl_world s) w1"
    "length bs = n" "\<forall>b \<in> set bs. pb_bytes b \<noteq> None" "n + pool_room ?a w1 = pool_room ?a (pl_world s)"
    "\<not> bp_poisoned (at_buffers (w_transfers w1 ! ?a))"
    using acquire_buffers_ok [OF a, of n] ready by (auto simp: payload_ready_def)
  note w1 = only_io_frame [OF acq(2)]
  have nc: "\<not> at_cancelled (w_transfers w1 ! ?a)" using w1 ready by (simp add: payload_ready_def)
  obtain s2 where blocks:
    "send_blocks pread clk l (ls_offset l) (ls_len l) (s\<lparr>pl_world := w1\<rparr>) =
       (Inr (), take (unat (ls_len l)) (drop (unat (ls_offset l)) content), s2)"
    "pl_content s2 = pl_content s" "only_io ?a w1 (pl_world s2)"
    "at_buffers (w_transfers (pl_world s2) ! ?a) = at_buffers (w_transfers w1 ! ?a)"
    using send_blocks_emits [OF io clk, of l "s\<lparr>pl_world := w1\<rparr>" "ls_offset l" "ls_len l"] w1 nc assms(4,5)
    by auto
  note s2 = only_io_frame [OF blocks(3)]
  have "pool_room ?a (pl_world s2) = pool_room ?a w1" using blocks(4) by (simp add: pool_room_def)
  with return_buffers_ok [OF s2(1) acq(4)] blocks(4) acq
  have ret: "only_io ?a (pl_world s2) (return_buffers l bs (pl_world s2))"
    "pool_room ?a (return_buffers l bs (pl_world s2)) = pool_room ?a (pl_world s)"
    "\<not> bp_poisoned (at_buffers (w_transfers (return_buffers l bs (pl_world s2)) ! ?a))"
    by simp_all
  have all: "only_io ?a (pl_world s) (return_buffers l bs (pl_world s2))"
    using acq(2) blocks(3) ret(1) by (blast intro: only_io_trans)
  have "payload_ready n l (return_buffers l bs (pl_world s2))"
    using ready ret only_io_frame [OF all] by (simp add: payload_ready_def)
  with acq(1) blocks all show ?thesis by (simp add: send_payload_def Let_def)
qed

end
