(* ===== verification/Lane_Schedule.thy ===== *)
theory Lane_Schedule
  imports Extent_Grid
begin

text \<open>
  The contract of a lane assignment: a sender that deals the extents of a transfer out to its
  lanes round robin.  Lane \<open>l\<close> of \<open>lanes\<close> gets the slots that are \<open>l\<close> modulo \<open>lanes\<close>, in order.  The
  clients' fact is that the lanes together send every extent of the grid exactly once.
\<close>

definition lane_slots :: "nat \<Rightarrow> nat \<Rightarrow> nat \<Rightarrow> nat list" where
  "lane_slots lanes l slots = filter (\<lambda>i. i mod lanes = l) [0..<slots]"

lemma set_lane_slots: "set (lane_slots lanes l slots) = {i. i < slots \<and> i mod lanes = l}"
  by (auto simp: lane_slots_def)

lemma lanes_partition:
  assumes "0 < lanes"
  shows "mset (concat (map (\<lambda>l. lane_slots lanes l slots) [0..<lanes])) = mset [0..<slots]"
proof -
  have "distinct (concat (map (\<lambda>l. lane_slots lanes l slots) [0..<n]))" if "n \<le> lanes" for n
    using that
    by (induction n) (auto simp: lane_slots_def set_lane_slots)
  moreover have "set (concat (map (\<lambda>l. lane_slots lanes l slots) [0..<lanes])) = set [0..<slots]"
    using assms by (auto simp: set_lane_slots)
  ultimately show ?thesis by (metis distinct_upt le_refl set_eq_iff_mset_eq_distinct)
qed

text \<open>Dealing from slot \<open>l\<close> in steps of \<open>lanes\<close> visits the slots of lane \<open>l\<close>.\<close>

lemma lane_slots_from:
  assumes "l < lanes" and "i mod lanes = l"
  shows "filter (\<lambda>j. j mod lanes = l) [i..<slots] =
    (if i < slots then i # filter (\<lambda>j. j mod lanes = l) [i + lanes..<slots] else [])"
proof (cases "i < slots")
  case True
  have skip: "filter (\<lambda>j. j mod lanes = l) [Suc i..<min (i + lanes) slots] = []"
  proof (rule ccontr)
    assume "filter (\<lambda>j. j mod lanes = l) [Suc i..<min (i + lanes) slots] \<noteq> []"
    then obtain j where "Suc i \<le> j" "j < i + lanes" "j mod lanes = i mod lanes"
      using assms(2) by (auto simp: filter_empty_conv)
    moreover from this(1,3) have "lanes dvd j - i"
      by (metis Suc_leD mod_eq_dvd_iff_nat)
    ultimately show False
      using assms(1) by (metis Suc_le_eq diff_is_0_eq' add.commute dvd_imp_le le_add_diff_inverse less_diff_conv2
          less_imp_le_nat not_less zero_less_diff)
  qed
  have "[i..<slots] = i # [Suc i..<min (i + lanes) slots] @ [i + lanes..<slots]"
  proof (cases "i + lanes \<le> slots")
    case True
    then have "[Suc i..<slots] = [Suc i..<i + lanes] @ [i + lanes..<slots]"
      using assms(1) by (metis Suc_leI le_add_diff_inverse less_add_same_cancel1 less_nat_zero_code
          neq0_conv upt_add_eq_append)
    with \<open>i < slots\<close> True show ?thesis by (simp add: upt_conv_Cons)
  next
    case False
    with \<open>i < slots\<close> show ?thesis by (simp add: upt_conv_Cons)
  qed
  with skip True assms(2) show ?thesis by simp
qed simp

lemma lane_slots_start:
  assumes "l < lanes"
  shows "filter (\<lambda>n. n mod lanes = l) [l..<slots] = lane_slots lanes l slots"
proof (cases "l \<le> slots")
  case True
  have "filter (\<lambda>n. n mod lanes = l) [0..<l] = []" using assms by (auto simp: filter_empty_conv)
  with True show ?thesis
    by (metis append_Nil filter_append lane_slots_def le_add_diff_inverse upt_add_eq_append zero_le)
next
  case False
  then have "filter (\<lambda>n. n mod lanes = l) [0..<slots] = []" using assms by (auto simp: filter_empty_conv)
  with False show ?thesis by (simp add: lane_slots_def)
qed

locale lane_schedule =
  fixes lanes :: nat
    and ext :: nat
    and fits :: "nat \<Rightarrow> bool"
    and assigned :: "nat \<Rightarrow> nat \<Rightarrow> (nat \<times> nat) list"
  assumes lanes_pos: "0 < lanes"
    and ext_pos: "0 < ext"
    and assigned_spec: "l < lanes \<Longrightarrow> fits tot \<Longrightarrow>
          assigned tot l =
            map (\<lambda>i. (i * ext, extent_len tot ext i)) (lane_slots lanes l (extent_count tot ext))"
begin

lemma lanes_send_grid:
  assumes "fits tot"
  shows "mset (concat (map (assigned tot) [0..<lanes])) = mset (extent_grid tot ext)"
proof -
  let ?f = "\<lambda>i. (i * ext, extent_len tot ext i)"
  have "map (assigned tot) [0..<lanes] =
      map (map ?f) (map (\<lambda>l. lane_slots lanes l (extent_count tot ext)) [0..<lanes])"
    using assms by (auto simp: assigned_spec)
  then have "mset (concat (map (assigned tot) [0..<lanes])) =
      image_mset ?f (mset (concat (map (\<lambda>l. lane_slots lanes l (extent_count tot ext)) [0..<lanes])))"
    by (simp only: map_concat [symmetric] mset_map)
  then show ?thesis
    by (simp only: lanes_partition [OF lanes_pos] extent_grid_def mset_map)
qed

lemma assigned_lane:
  assumes "fits tot" and "l < lanes" and "e \<in> set (assigned tot l)"
  shows "fst e div ext mod lanes = l \<and> e \<in> set (extent_grid tot ext)"
  using assms ext_pos by (auto simp: assigned_spec set_lane_slots extent_grid_def)

end

end
