(* ===== verification/File_Webtransport.thy ===== *)
theory File_Webtransport
  imports File_Payload Framing Lane_Schedule
begin

text \<open>
  The native file transfer over WebTransport, crates/winrisef-agent/src/file_webtransport.rs: the
  control session of a connection, the assignment of extents to lanes, and the sender and
  receiver lanes over the transfer manager.

  A QUIC stream is the list of the bytes that will still arrive before it ends.  The lanes of a
  connection run one after the other here; the interleavings of their manager calls are those
  of Transfer_Runs.
\<close>

section \<open>Extents on the wire\<close>

definition NATIVE_FILE_VERSION :: u16 where "NATIVE_FILE_VERSION = 1"
definition EXTENT_HEADER_BYTES :: nat where "EXTENT_HEADER_BYTES = 16"
definition END_OFFSET :: u64 where "END_OFFSET = - 1"

definition extent_header :: "u64 \<Rightarrow> u64 \<Rightarrow> bytes" where
  "extent_header offset len = u64_to_be_bytes offset @ u64_to_be_bytes len"

definition quic_read_exact :: "nat \<Rightarrow> bytes \<Rightarrow> (unit + bytes) \<times> bytes" where
  "quic_read_exact n stream =
     (if n \<le> length stream then (Inr (take n stream), drop n stream) else (Inl (), []))"

definition read_extent_header :: "bytes \<Rightarrow> (unit + u64 \<times> u64) \<times> bytes" where
  "read_extent_header stream =
     (case quic_read_exact EXTENT_HEADER_BYTES stream of
        (Inl _, s) \<Rightarrow> (Inl (), s)
      | (Inr header, s) \<Rightarrow>
          (Inr (u64_from_be_bytes (take 8 header), u64_from_be_bytes (drop 8 header)), s))"

text \<open>
  The extents of one lane.  The iterator multiplies indices without a check, as the release build
  does; it does not end when no multiple reaches the total, which is \<open>None\<close>.
\<close>

partial_function (option) assigned_from :: "nat \<Rightarrow> u64 \<Rightarrow> (u64 \<times> u64) list option" where
  "assigned_from index total_bytes =
     (let offset = word_of_nat index * FILE_WEBTRANSPORT_EXTENT_BYTES in
      if offset < total_bytes
      then Option.bind
             (assigned_from
               (index + FILE_WEBTRANSPORT_CONNECTIONS * FILE_WEBTRANSPORT_LANES_PER_CONNECTION) total_bytes)
             (\<lambda>rest. Some ((offset, min FILE_WEBTRANSPORT_EXTENT_BYTES (total_bytes - offset)) # rest))
      else Some [])"

definition assigned_extents :: "nat \<Rightarrow> u64 \<Rightarrow> nat \<Rightarrow> (u64 \<times> u64) list option" where
  "assigned_extents connection_index total_bytes lane_index =
     assigned_from (connection_index * FILE_WEBTRANSPORT_LANES_PER_CONNECTION + lane_index) total_bytes"

section \<open>Lanes\<close>

datatype lane_error =
    LaneStreamEnded
  | LaneIndexWrong
  | TerminatorInvalid
  | LaneManager transfer_error
  | LanePayloadFailed payload_error

fun send_extents ::
  "(u64 \<Rightarrow> nat \<Rightarrow> unit + bytes) \<Rightarrow> (nat \<Rightarrow> int) \<Rightarrow> wt_connection \<Rightarrow> nat \<Rightarrow> (u64 \<times> u64) list \<Rightarrow>
     payload_state \<Rightarrow> (lane_error + unit) \<times> bytes \<times> payload_state" where
  "send_extents pread clk c lane_index [] s = (Inr (), [], s)"
| "send_extents pread clk c lane_index ((offset, len) # es) s =
     (case begin_webtransport_extent (clk (pl_tick s)) c lane_index offset len (pl_world s) of
        (Inl e, w) \<Rightarrow> (Inl (LaneManager e), extent_header offset len,
          s\<lparr>pl_world := w, pl_tick := Suc (pl_tick s)\<rparr>)
      | (Inr lease, w) \<Rightarrow> (
          case send_payload 1 pread clk lease (s\<lparr>pl_world := w, pl_tick := Suc (pl_tick s)\<rparr>) of
            (Inl e, out, s1) \<Rightarrow> (Inl (LanePayloadFailed e), extent_header offset len @ out, s1)
          | (Inr _, out, s1) \<Rightarrow> (
              case commit_segment (clk (pl_tick s1)) lease (pl_world s1) of
                (Inl e, w2) \<Rightarrow> (Inl (LaneManager e), extent_header offset len @ out,
                  s1\<lparr>pl_world := w2, pl_tick := Suc (pl_tick s1)\<rparr>)
              | (Inr _, w2) \<Rightarrow> (
                  case send_extents pread clk c lane_index es
                         (s1\<lparr>pl_world := w2, pl_tick := Suc (pl_tick s1)\<rparr>) of
                    (r, rest, s3) \<Rightarrow> (r, extent_header offset len @ out @ rest, s3)))))"

text \<open>A sender lane; \<open>None\<close> when its iterator does not end.\<close>

definition send_lane ::
  "(u64 \<Rightarrow> nat \<Rightarrow> unit + bytes) \<Rightarrow> (nat \<Rightarrow> int) \<Rightarrow> wt_connection \<Rightarrow> nat \<Rightarrow> payload_state \<Rightarrow>
     ((lane_error + unit) \<times> bytes \<times> payload_state) option" where
  "send_lane pread clk c lane_index s =
     map_option (\<lambda>es.
       case send_extents pread clk c lane_index es s of
         (r, out, s1) \<Rightarrow>
           (r, u16_to_be_bytes (word_of_nat lane_index) @ out @
               (if is_ok r then extent_header END_OFFSET 0 else []), s1))
       (assigned_extents (cn_index c) (at_total_bytes (w_transfers (pl_world s) ! cn_transfer c)) lane_index)"

lemma receive_blocks_measure:
  assumes fetch: "\<And>n c. m (snd (fetch n c)) \<le> (m c :: nat)"
  shows "m (fst (snd (receive_blocks fetch pwrite clk l position remaining c s))) \<le> m c"
proof (induction "unat remaining" arbitrary: position remaining c s rule: less_induct)
  case less
  show ?case
  proof (cases "remaining = 0")
    case False
    define n where "n = min (unat remaining) FILE_IO_BLOCK_BYTES"
    obtain r c1 where c1: "fetch n c = (r, c1)" by fastforce
    then have le: "m c1 \<le> m c" using fetch [of n c] by simp
    show ?thesis
    proof (cases r)
      case (Inl e)
      with False c1 le show ?thesis by (subst receive_blocks.simps) (simp add: Let_def flip: n_def)
    next
      case (Inr block)
      obtain r1 s1 where s1: "store_block pwrite clk l position block s = (r1, s1)" by fastforce
      have "unat (remaining - word_of_nat n) < unat remaining"
        using block_taken [OF False n_def] by simp
      from less [OF this, of "position + word_of_nat (length block)" c1 s1] le False c1 Inr s1
      show ?thesis
        by (subst receive_blocks.simps) (simp add: Let_def split: sum.split flip: n_def)
    qed
  qed (simp add: receive_blocks.simps)
qed

lemma receive_payload_stream_le:
  assumes "receive_payload n quic_read_exact pwrite clk l stream s = (r, stream', s')"
  shows "length stream' \<le> length stream"
proof (cases "acquire_buffers n l (pl_world s)")
  case (Pair q w)
  have le: "length (fst (snd (receive_blocks quic_read_exact pwrite clk l (ls_offset l) (ls_len l) stream
      (s\<lparr>pl_world := w\<rparr>)))) \<le> length stream"
    by (rule receive_blocks_measure) (simp add: quic_read_exact_def)
  show ?thesis
  proof (cases q)
    case (Inr bs)
    obtain r1 c1 s1 where
      blocks: "receive_blocks quic_read_exact pwrite clk l (ls_offset l) (ls_len l) stream (s\<lparr>pl_world := w\<rparr>) =
        (r1, c1, s1)" by (metis prod_cases3)
    with assms Pair Inr have "stream' = c1" by (simp add: receive_payload_def Let_def)
    with le blocks show ?thesis by simp
  qed (use assms Pair in \<open>simp add: receive_payload_def\<close>)
qed

lemma read_extent_header_less:
  "read_extent_header stream = (Inr h, rest) \<Longrightarrow> length rest < length stream"
  by (auto simp: read_extent_header_def quic_read_exact_def EXTENT_HEADER_BYTES_def
      split: if_splits sum.splits)

function receive_lane ::
  "(u64 \<Rightarrow> bytes \<Rightarrow> unit + nat) \<Rightarrow> (nat \<Rightarrow> int) \<Rightarrow> wt_connection \<Rightarrow> nat \<Rightarrow> bytes \<Rightarrow> payload_state \<Rightarrow>
     (lane_error + unit) \<times> payload_state" where
  "receive_lane pwrite clk c lane_index stream s =
     (case read_extent_header stream of
        (Inl _, _) \<Rightarrow> (Inl LaneStreamEnded, s)
      | (Inr (offset, len), rest) \<Rightarrow>
          if offset = END_OFFSET then (if len = 0 then Inr () else Inl TerminatorInvalid, s)
          else (case begin_webtransport_extent (clk (pl_tick s)) c lane_index offset len (pl_world s) of
            (Inl e, w) \<Rightarrow> (Inl (LaneManager e), s\<lparr>pl_world := w, pl_tick := Suc (pl_tick s)\<rparr>)
          | (Inr lease, w) \<Rightarrow> (
              case receive_payload 1 quic_read_exact pwrite clk lease rest
                     (s\<lparr>pl_world := w, pl_tick := Suc (pl_tick s)\<rparr>) of
                (Inl e, _, s1) \<Rightarrow> (Inl (LanePayloadFailed e), s1)
              | (Inr _, rest1, s1) \<Rightarrow> (
                  case commit_segment (clk (pl_tick s1)) lease (pl_world s1) of
                    (Inl e, w2) \<Rightarrow> (Inl (LaneManager e), s1\<lparr>pl_world := w2, pl_tick := Suc (pl_tick s1)\<rparr>)
                  | (Inr _, w2) \<Rightarrow>
                      receive_lane pwrite clk c lane_index rest1
                        (s1\<lparr>pl_world := w2, pl_tick := Suc (pl_tick s1)\<rparr>)))))"
  by auto
termination
  by (relation "measure (\<lambda>(pwrite, clk, c, lane_index, stream, s). length stream)")
     (auto dest!: read_extent_header_less [OF sym] receive_payload_stream_le [OF sym])

declare receive_lane.simps [simp del]

section \<open>Connections and the control session\<close>

text \<open>The lanes of a connection are accepted in the order of their streams, then joined.\<close>

fun accept_lanes :: "bytes list \<Rightarrow> bool list \<Rightarrow> lane_error + (nat \<times> bytes) list" where
  "accept_lanes [] seen = Inr []"
| "accept_lanes (stream # streams) seen =
     (case quic_read_exact 2 stream of
        (Inl _, _) \<Rightarrow> Inl LaneStreamEnded
      | (Inr prefix, rest) \<Rightarrow> (
          let lane_index = unat (u16_from_be_bytes prefix) in
          if lane_index < length seen \<and> \<not> seen ! lane_index
          then and_then (accept_lanes streams (seen[lane_index := True])) (\<lambda>lanes.
                 Inr ((lane_index, rest) # lanes))
          else Inl LaneIndexWrong))"

fun receive_lanes ::
  "(u64 \<Rightarrow> bytes \<Rightarrow> unit + nat) \<Rightarrow> (nat \<Rightarrow> int) \<Rightarrow> wt_connection \<Rightarrow> (nat \<times> bytes) list \<Rightarrow>
     payload_state \<Rightarrow> (lane_error + unit) \<times> payload_state" where
  "receive_lanes pwrite clk c [] s = (Inr (), s)"
| "receive_lanes pwrite clk c ((lane_index, stream) # lanes) s =
     (case receive_lane pwrite clk c lane_index stream s of
        (Inl e, s1) \<Rightarrow> (Inl e, s1)
      | (Inr _, s1) \<Rightarrow> receive_lanes pwrite clk c lanes s1)"

definition receive_connection ::
  "(u64 \<Rightarrow> bytes \<Rightarrow> unit + nat) \<Rightarrow> (nat \<Rightarrow> int) \<Rightarrow> wt_connection \<Rightarrow> bytes list \<Rightarrow> payload_state \<Rightarrow>
     (lane_error + unit) \<times> payload_state" where
  "receive_connection pwrite clk c streams s =
     (let n = FILE_WEBTRANSPORT_LANES_PER_CONNECTION in
      if length streams < n then (Inl LaneStreamEnded, s)
      else (case accept_lanes (take n streams) (replicate n False) of
        Inl e \<Rightarrow> (Inl e, s)
      | Inr lanes \<Rightarrow> receive_lanes pwrite clk c lanes s))"

fun send_lanes ::
  "(u64 \<Rightarrow> nat \<Rightarrow> unit + bytes) \<Rightarrow> (nat \<Rightarrow> int) \<Rightarrow> wt_connection \<Rightarrow> nat list \<Rightarrow> payload_state \<Rightarrow>
     ((lane_error + unit) \<times> bytes list \<times> payload_state) option" where
  "send_lanes pread clk c [] s = Some (Inr (), [], s)"
| "send_lanes pread clk c (lane_index # lanes) s =
     Option.bind (send_lane pread clk c lane_index s) (\<lambda>(r, out, s1).
       case r of
         Inl e \<Rightarrow> Some (Inl e, [out], s1)
       | Inr _ \<Rightarrow> map_option (\<lambda>(r2, outs, s2). (r2, out # outs, s2)) (send_lanes pread clk c lanes s1))"

definition send_connection ::
  "(u64 \<Rightarrow> nat \<Rightarrow> unit + bytes) \<Rightarrow> (nat \<Rightarrow> int) \<Rightarrow> wt_connection \<Rightarrow> payload_state \<Rightarrow>
     ((lane_error + unit) \<times> bytes list \<times> payload_state) option" where
  "send_connection pread clk c s = send_lanes pread clk c [0..<FILE_WEBTRANSPORT_LANES_PER_CONNECTION] s"

record file_hello =
  fh_version :: u16
  fh_transfer_id :: string
  fh_token :: string
  fh_connection_index :: nat
  fh_direction :: native_file_direction
  fh_peer_device_id :: string
  fh_lanes :: nat
  fh_block_bytes :: nat
  fh_extent_bytes :: u64
  fh_total_bytes :: u64

datatype file_control_input = FileHello file_hello | FileComplete

datatype file_control_output =
    FileHelloAck u16 bool nat "string option"
  | FilePayloadComplete nat
  | FileTransferComplete

datatype file_session_error =
    ControlEnded
  | HelloRequired
  | FileConfigurationInvalid
  | FileTokenInvalid hex_error
  | FileTotalMismatch
  | FileSessionManager transfer_error
  | FilePayloadFailed lane_error
  | FileCompletionInvalid

definition file_configuration_valid :: "file_hello \<Rightarrow> bool" where
  "file_configuration_valid h \<longleftrightarrow> fh_version h = NATIVE_FILE_VERSION \<and>
     fh_connection_index h < FILE_WEBTRANSPORT_CONNECTIONS \<and>
     fh_lanes h = FILE_WEBTRANSPORT_LANES_PER_CONNECTION \<and>
     fh_block_bytes h = FILE_IO_BLOCK_BYTES \<and> fh_extent_bytes h = FILE_WEBTRANSPORT_EXTENT_BYTES"

definition file_hello_ack :: "file_hello \<Rightarrow> string option \<Rightarrow> file_control_output" where
  "file_hello_ack h error =
     FileHelloAck NATIVE_FILE_VERSION (error = None) (fh_connection_index h) error"

text \<open>The opening: the parsed first frame (\<open>None\<close> when control ended), the frames written, the lease.\<close>

definition file_session_open ::
  "int \<Rightarrow> int \<Rightarrow> file_control_input option \<Rightarrow> world \<Rightarrow>
     (file_session_error + file_hello \<times> wt_connection) \<times> file_control_output list \<times> world" where
  "file_session_open t1 t2 input w =
     (case input of
        None \<Rightarrow> (Inl ControlEnded, [], w)
      | Some FileComplete \<Rightarrow> (Inl HelloRequired, [], w)
      | Some (FileHello h) \<Rightarrow>
          if \<not> file_configuration_valid h
          then (Inl FileConfigurationInvalid,
                [file_hello_ack h (Some ''Native File V1 configuration is invalid'')], w)
          else (case parse_hex 16 (fh_token h) of
            Inl e \<Rightarrow> (Inl (FileTokenInvalid e), [], w)
          | Inr token \<Rightarrow> (
              case begin_webtransport_connection t1 t2 (fh_transfer_id h) token (fh_connection_index h)
                     (fh_direction h) (fh_peer_device_id h) w of
                (Inl e, w1) \<Rightarrow> (Inl (FileSessionManager e),
                  [file_hello_ack h (Some ''Native File V1 authorization was rejected'')], w1)
              | (Inr c, w1) \<Rightarrow>
                  if at_total_bytes (w_transfers w1 ! cn_transfer c) = fh_total_bytes h
                  then (Inr (h, c), [file_hello_ack h None], w1)
                  else (Inl FileTotalMismatch,
                    [file_hello_ack h (Some ''Native File V1 total size does not match'')], w1))))"

text \<open>What follows the payload: failing the transfer, or reporting and completing it.\<close>

definition file_session_close ::
  "int \<Rightarrow> bool \<Rightarrow> bool \<Rightarrow> bool \<Rightarrow> file_hello \<Rightarrow> wt_connection \<Rightarrow> lane_error + unit \<Rightarrow>
     file_control_input option \<Rightarrow> world \<Rightarrow>
     (file_session_error + unit) \<times> file_control_output list \<times> world" where
  "file_session_close t sync_ok replace_ok remove_ok h c payload completion w =
     (case payload of
        Inl e \<Rightarrow> (Inl (FilePayloadFailed e), [],
          fail_transfer remove_ok (at_transfer_id (w_transfers w ! cn_transfer c))
            ''Native File V1 WebTransport payload failed'' w)
      | Inr _ \<Rightarrow> (
          let report = FilePayloadComplete (fh_connection_index h) in
          if fh_direction h = BrowserToAgent \<and> fh_connection_index h = 0
          then (case completion of
                  None \<Rightarrow> (Inl ControlEnded, [report], w)
                | Some (FileHello _) \<Rightarrow> (Inl FileCompletionInvalid, [report], w)
                | Some FileComplete \<Rightarrow> (
                    case complete_webtransport_receive t sync_ok replace_ok c w of
                      (Inl e, w1) \<Rightarrow> (Inl (FileSessionManager e), [report], w1)
                    | (Inr _, w1) \<Rightarrow> (Inr (), [report, FileTransferComplete], w1)))
          else (Inr (), [report], w)))"

section \<open>The wire format of extents\<close>

lemma extent_header_round_trip:
  "read_extent_header (extent_header offset len @ rest) = (Inr (offset, len), rest)"
  by (simp add: read_extent_header_def quic_read_exact_def extent_header_def EXTENT_HEADER_BYTES_def)

interpretation quic_source: byte_source quic_read_exact "\<lambda>stream. stream"
  by unfold_locales (auto simp: quic_read_exact_def)

section \<open>Extents of a lane\<close>

definition WT_LANES :: nat where "WT_LANES = 24"
definition WT_EXT :: nat where "WT_EXT = 67108864"

lemma wt_constants:
  "FILE_WEBTRANSPORT_CONNECTIONS * FILE_WEBTRANSPORT_LANES_PER_CONNECTION = WT_LANES"
  "unat FILE_WEBTRANSPORT_EXTENT_BYTES = WT_EXT" "0 < WT_EXT" "0 < WT_LANES"
  by (simp_all add: WT_LANES_def WT_EXT_def FILE_WEBTRANSPORT_CONNECTIONS_def
      FILE_WEBTRANSPORT_LANES_PER_CONNECTION_def FILE_WEBTRANSPORT_EXTENT_BYTES_def)

definition fits_wire :: "nat \<Rightarrow> bool" where
  "fits_wire n \<longleftrightarrow> n + WT_LANES * WT_EXT \<le> 2 ^ 64"

definition wire_extent :: "nat \<Rightarrow> nat \<Rightarrow> u64 \<times> u64" where
  "wire_extent tot i = (word_of_nat (i * WT_EXT), word_of_nat (extent_len tot WT_EXT i))"

definition wire_extents :: "nat \<Rightarrow> nat \<Rightarrow> (u64 \<times> u64) list" where
  "wire_extents tot l = map (wire_extent tot) (lane_slots WT_LANES l (extent_count tot WT_EXT))"

lemma assigned_from_slots:
  assumes fits: "fits_wire (unat t)" and "i * WT_EXT < unat t + WT_LANES * WT_EXT"
    and "i mod WT_LANES = l" and "l < WT_LANES"
  shows "assigned_from i t = Some (map (wire_extent (unat t))
           (filter (\<lambda>j. j mod WT_LANES = l) [i..<extent_count (unat t) WT_EXT]))"
  using assms(2,3)
proof (induction "extent_count (unat t) WT_EXT - i" arbitrary: i rule: less_induct)
  case less
  have lt: "i * WT_EXT < 2 ^ 64" using less.prems fits by (simp add: fits_wire_def)
  have "FILE_WEBTRANSPORT_EXTENT_BYTES = word_of_nat WT_EXT"
    by (simp add: FILE_WEBTRANSPORT_EXTENT_BYTES_def WT_EXT_def)
  then have off: "word_of_nat i * FILE_WEBTRANSPORT_EXTENT_BYTES = (word_of_nat (i * WT_EXT) :: u64)"
    by simp
  have uoff: "unat (word_of_nat (i * WT_EXT) :: u64) = i * WT_EXT"
    using lt by (simp add: unat_of_nat del: of_nat_mult)
  let ?c = "extent_count (unat t) WT_EXT"
  show ?case
  proof (cases "i < ?c")
    case False
    then have "\<not> word_of_nat (i * WT_EXT) < t"
      by (simp add: less_extent_count_iff wt_constants word_less_nat_alt uoff del: of_nat_mult)
    with False show ?thesis by (subst assigned_from.simps) (simp add: Let_def off del: of_nat_mult)
  next
    case True
    then have lt': "i * WT_EXT < unat t" by (simp add: less_extent_count_iff wt_constants)
    then have "word_of_nat (i * WT_EXT) < t" by (simp add: word_less_nat_alt uoff del: of_nat_mult)
    moreover have "min FILE_WEBTRANSPORT_EXTENT_BYTES (t - word_of_nat (i * WT_EXT)) =
        word_of_nat (extent_len (unat t) WT_EXT i)"
      using lt' unat_lt64 [of t]
      by (simp add: word_eq_nat_iff unat_simps uoff wt_constants extent_len_def unat_of_nat del: min_def of_nat_mult)
    moreover have "assigned_from (i + WT_LANES) t = Some (map (wire_extent (unat t))
        (filter (\<lambda>j. j mod WT_LANES = l) [i + WT_LANES..<?c]))"
      using less.prems True lt' wt_constants(4)
      by (intro less.hyps) (simp_all add: add_mult_distrib)
    ultimately show ?thesis
      using lane_slots_from [OF assms(4) less.prems(2), of ?c] True
      by (subst assigned_from.simps) (simp add: Let_def off wt_constants(1) wire_extent_def del: of_nat_mult)
  qed
qed

lemma assigned_extents_slots:
  assumes "fits_wire (unat t)" and "k < 6" and "j < 4"
  shows "assigned_extents k t j = Some (wire_extents (unat t) (k * 4 + j))"
proof -
  let ?l = "k * 4 + j"
  have l: "?l < WT_LANES" using assms by (simp add: WT_LANES_def)
  have "?l * WT_EXT < WT_LANES * WT_EXT" using l wt_constants(3) by (rule mult_strict_right_mono)
  then have "?l * WT_EXT < unat t + WT_LANES * WT_EXT" by linarith
  moreover have "?l mod WT_LANES = ?l" using l by simp
  ultimately have "assigned_from ?l t = Some (map (wire_extent (unat t))
      (filter (\<lambda>j. j mod WT_LANES = ?l) [?l..<extent_count (unat t) WT_EXT]))"
    using l by (rule assigned_from_slots [OF assms(1)])
  then show ?thesis
    unfolding lane_slots_start [OF l] assigned_extents_def wire_extents_def
      FILE_WEBTRANSPORT_LANES_PER_CONNECTION_def .
qed


text \<open>The 24 lanes deal the extents of a file out round robin.\<close>

definition lane_ranges :: "nat \<Rightarrow> nat \<Rightarrow> (nat \<times> nat) list" where
  "lane_ranges tot l =
     (case assigned_extents (l div 4) (word_of_nat tot) (l mod 4) of
        None \<Rightarrow> []
      | Some es \<Rightarrow> map (\<lambda>(offset, len). (unat offset, unat len)) es)"

lemma wire_extent_unat:
  assumes "tot < 2 ^ 64" and "i < extent_count tot WT_EXT"
  shows "(\<lambda>(offset, len). (unat offset, unat len)) (wire_extent tot i) = (i * WT_EXT, extent_len tot WT_EXT i)"
proof -
  have "i * WT_EXT < tot" using assms(2) by (simp add: less_extent_count_iff wt_constants)
  then have "i * WT_EXT < 2 ^ 64" "extent_len tot WT_EXT i < 2 ^ 64"
    using assms(1) by (simp_all add: extent_len_def)
  then show ?thesis by (simp add: wire_extent_def unat_of_nat del: of_nat_mult)
qed

interpretation file_lanes: lane_schedule WT_LANES WT_EXT fits_wire lane_ranges
proof
  fix l tot assume l: "l < WT_LANES" and fits: "fits_wire tot"
  have tot: "tot < 2 ^ 64" using fits wt_constants by (simp add: fits_wire_def WT_LANES_def WT_EXT_def)
  then have u: "unat (word_of_nat tot :: u64) = tot" by (simp add: unat_of_nat)
  have "l div 4 * 4 + l mod 4 = l" by simp
  moreover have "l div 4 < 6" using l by (simp add: WT_LANES_def less_mult_imp_div_less)
  ultimately have "assigned_extents (l div 4) (word_of_nat tot) (l mod 4) = Some (wire_extents tot l)"
    using assigned_extents_slots [of "word_of_nat tot" "l div 4" "l mod 4"] fits u by simp
  then show "lane_ranges tot l =
      map (\<lambda>i. (i * WT_EXT, extent_len tot WT_EXT i)) (lane_slots WT_LANES l (extent_count tot WT_EXT))"
    using wire_extent_unat [OF tot]
    by (simp add: lane_ranges_def wire_extents_def set_lane_slots)
qed (simp_all add: wt_constants)

lemma assigned_from_endless:
  assumes "assigned_from i (- 1) = Some es"
  shows False
proof -
  have never: "\<not> (- 1 :: u64) \<le> word_of_nat k * FILE_WEBTRANSPORT_EXTENT_BYTES" for k
  proof
    assume "(- 1 :: u64) \<le> word_of_nat k * FILE_WEBTRANSPORT_EXTENT_BYTES"
    then have "word_of_nat k * FILE_WEBTRANSPORT_EXTENT_BYTES = (- 1 :: u64)"
      by (simp add: word_order.extremum_unique)
    then have "bit (word_of_nat k * FILE_WEBTRANSPORT_EXTENT_BYTES :: u64) 0" by simp
    moreover have "even (word_of_nat k * FILE_WEBTRANSPORT_EXTENT_BYTES :: u64)"
      by (simp add: FILE_WEBTRANSPORT_EXTENT_BYTES_def)
    ultimately show False by (simp add: bit_0)
  qed
  have "t \<noteq> - 1" if "assigned_from i t = Some es" for i t es
  proof (rule assigned_from.raw_induct [where P = "\<lambda>i t es. t \<noteq> - 1", OF _ that])
    fix rec i t es
    assume IH: "\<And>i t es. rec i t = Some es \<Longrightarrow> t \<noteq> - 1"
      and run: "(let offset = word_of_nat i * FILE_WEBTRANSPORT_EXTENT_BYTES in
        if offset < t
        then Option.bind (rec (i + FILE_WEBTRANSPORT_CONNECTIONS * FILE_WEBTRANSPORT_LANES_PER_CONNECTION) t)
          (\<lambda>rest. Some ((offset, min FILE_WEBTRANSPORT_EXTENT_BYTES (t - offset)) # rest))
        else Some []) = Some es"
    show "t \<noteq> - 1"
    proof
      assume "t = - 1"
      then have "word_of_nat i * FILE_WEBTRANSPORT_EXTENT_BYTES < t" using never [of i] by (simp add: not_le)
      then obtain rest where
        "rec (i + FILE_WEBTRANSPORT_CONNECTIONS * FILE_WEBTRANSPORT_LANES_PER_CONNECTION) t = Some rest"
        using run by (auto simp: Let_def bind_eq_Some_conv)
      from IH [OF this] \<open>t = - 1\<close> show False by simp
    qed
  qed
  with assms show False by blast
qed

section \<open>Properties\<close>

text \<open>For every file that fits the wire (up to 2 to the 64 less 1.5 GiB) the iterators of all 24 lanes
  end, and the lanes together name each 64 MiB extent of the file exactly once, each lane only
  extents whose number is its own modulo 24; for the total 2 to the 64 less one no iterator
  ends, since its offsets wrap around.\<close>

theorem file_lanes_partition:
  "(fits_wire tot \<longrightarrow>
     (\<forall>l < 24. \<exists>es. assigned_extents (l div 4) (word_of_nat tot) (l mod 4) = Some es) \<and>
     mset (concat (map (lane_ranges tot) [0..<24])) = mset (extent_grid tot 67108864) \<and>
     (\<forall>l < 24. \<forall>e \<in> set (lane_ranges tot l). fst e div 67108864 mod 24 = l)) \<and>
   assigned_extents k (- 1) j = None"
proof (intro conjI impI)
  assume fits: "fits_wire tot"
  then have tot: "tot < 2 ^ 64" by (simp add: fits_wire_def WT_LANES_def WT_EXT_def)
  then have u: "unat (word_of_nat tot :: u64) = tot" by (simp add: unat_of_nat)
  show "\<forall>l < 24. \<exists>es. assigned_extents (l div 4) (word_of_nat tot) (l mod 4) = Some es"
    using assigned_extents_slots [of "word_of_nat tot"] fits u by (auto simp: less_mult_imp_div_less)
  show "mset (concat (map (lane_ranges tot) [0..<24])) = mset (extent_grid tot 67108864)"
    using file_lanes.lanes_send_grid [OF fits] by (simp only: WT_LANES_def WT_EXT_def)
  show "\<forall>l < 24. \<forall>e \<in> set (lane_ranges tot l). fst e div 67108864 mod 24 = l"
    using file_lanes.assigned_lane [OF fits] by (simp only: WT_LANES_def WT_EXT_def) blast
next
  show "assigned_extents k (- 1) j = None"
    by (cases "assigned_extents k (- 1) j") (auto simp: assigned_extents_def dest: assigned_from_endless)
qed

theorem file_lanes_partition_witness:
  "mset (concat (map (lane_ranges 70000000) [0..<24])) = mset [(0, 67108864), (67108864, 2891136)]"
proof -
  have "fits_wire 70000000" by (simp add: fits_wire_def WT_LANES_def WT_EXT_def)
  with file_lanes_partition [of 70000000 0 0]
  have "mset (concat (map (lane_ranges 70000000) [0..<24])) = mset (extent_grid 70000000 67108864)" by blast
  moreover have "extent_grid 70000000 67108864 = [(0, 67108864), (67108864, 2891136)]"
    by (simp add: extent_grid_def extent_count_def nat_div_ceil_def extent_len_def upt_rec)
  ultimately show ?thesis by simp
qed

text \<open>Opening a file connection is authorised: a lease is given only for a valid configuration, a token
  that parses and is the unused token of that connection index of the active transfer, with the
  transfer's direction, peer and size, before its expiry; the token is used up, and the
  acknowledgement is the single accepting one.\<close>

theorem file_session_authorised:
  assumes "file_session_open t1 t2 input w = (Inr (h, c), out, w')"
    and "\<forall>a. w_active w = Some a \<longrightarrow> a < length (w_transfers w)"
  shows "\<exists>token x. input = Some (FileHello h) \<and> file_configuration_valid h \<and>
     parse_hex 16 (fh_token h) = Inr token \<and>
     w_active w = Some (cn_transfer c) \<and> cn_index c = fh_connection_index h \<and> x = w_transfers w ! cn_transfer c \<and>
     at_transfer_id x = fh_transfer_id h \<and> at_direction x = fh_direction h \<and>
     at_peer_device_id x = fh_peer_device_id h \<and> at_total_bytes x = fh_total_bytes h \<and> \<not> at_cancelled x \<and>
     constant_time_equal (at_webtransport_tokens x ! cn_index c) token \<and>
     validate_time t1 x = Inr () \<and> \<not> at_webtransport_consumed x ! cn_index c \<and>
     at_webtransport_consumed (w_transfers w' ! cn_transfer c) ! cn_index c \<and>
     out = [FileHelloAck 1 True (fh_connection_index h) None]"
proof -
  from assms(1) obtain token where open1: "input = Some (FileHello h)" "file_configuration_valid h"
    "parse_hex 16 (fh_token h) = Inr token"
    "begin_webtransport_connection t1 t2 (fh_transfer_id h) token (fh_connection_index h)
       (fh_direction h) (fh_peer_device_id h) w = (Inr c, w')"
    "at_total_bytes (w_transfers w' ! cn_transfer c) = fh_total_bytes h" "out = [file_hello_ack h None]"
    by (auto simp: file_session_open_def split: option.splits file_control_input.splits if_splits
        sum.splits prod.splits)
  from open1(4) obtain a x x' where x: "active_transfer_of (fh_transfer_id h) w = Inr a"
    "consume_webtransport_token t1 token (fh_connection_index h) (fh_direction h) (fh_peer_device_id h)
       (w_transfers w ! a) = (Inr (), x)"
    "transfer_touch t2 x = (Inr (), x')" "c = \<lparr>cn_transfer = a, cn_index = fh_connection_index h\<rparr>"
    "w' = put_transfer a x' w"
    by (auto simp: begin_webtransport_connection_def split: sum.splits prod.splits)
  have a: "w_active w = Some a" "at_transfer_id (w_transfers w ! a) = fh_transfer_id h"
    using x(1) by (auto simp: active_transfer_of_def split: if_splits option.splits)
  then have lt: "a < length (w_transfers w)" using assms(2) by blast
  have x': "at_webtransport_consumed x' = at_webtransport_consumed x" "at_total_bytes x' = at_total_bytes x"
    using x(3) by (auto simp: transfer_touch_def split: sum.splits)
  have checks: "at_direction (w_transfers w ! a) = fh_direction h"
    "at_peer_device_id (w_transfers w ! a) = fh_peer_device_id h" "\<not> at_cancelled (w_transfers w ! a)"
    "constant_time_equal (at_webtransport_tokens (w_transfers w ! a) ! fh_connection_index h) token"
    "validate_time t1 (w_transfers w ! a) = Inr ()"
    "fh_connection_index h < length (at_webtransport_consumed (w_transfers w ! a))"
    "\<not> at_webtransport_consumed (w_transfers w ! a) ! fh_connection_index h"
    "x = (w_transfers w ! a)\<lparr>at_webtransport_consumed :=
       (at_webtransport_consumed (w_transfers w ! a))[fh_connection_index h := True]\<rparr>"
    using x(2) by (auto simp: consume_webtransport_token_def Let_def result_simps)
  have "w_transfers w' ! a = x'" using x(5) lt by (simp add: put_transfer_def)
  with open1 a x(4) x' checks show ?thesis
    by (intro exI [of _ token] exI [of _ "w_transfers w ! a"])
       (simp add: file_hello_ack_def NATIVE_FILE_VERSION_def)
qed


definition hello_sample :: file_hello where
  "hello_sample = \<lparr>fh_version = 1, fh_transfer_id = ''t'', fh_token = format_hex (replicate 16 0),
     fh_connection_index = 2, fh_direction = AgentToBrowser, fh_peer_device_id = ''p'', fh_lanes = 4,
     fh_block_bytes = FILE_IO_BLOCK_BYTES, fh_extent_bytes = FILE_WEBTRANSPORT_EXTENT_BYTES,
     fh_total_bytes = 1\<rparr>"

definition hello_world :: world where
  "hello_world = manager_new\<lparr>w_active := Some 0, w_transfers := [
     \<lparr>at_transfer_id = ''t'', at_attachment_id = ''a'', at_peer_device_id = ''p'',
      at_direction = AgentToBrowser, at_data_plane = WebTransport, at_total_bytes = 1,
      at_hard_expires_at = 1000, at_lna_token = None,
      at_webtransport_tokens = replicate 6 (replicate 16 0), at_consumed_poisoned = False,
      at_webtransport_consumed = replicate 6 False,
      at_segments = \<lparr>sg_total_bytes = 1, sg_segment_bytes = FILE_WEBTRANSPORT_EXTENT_BYTES,
        sg_poisoned = False, sg_states = [Pending], sg_completed_bytes = 0\<rparr>,
      at_buffers = \<lparr>bp_block_size = FILE_IO_BLOCK_BYTES, bp_buffer_count = 24, bp_poisoned = False,
        bp_allocated = 0, bp_available = []\<rparr>,
      at_resource = SendResource ''s'' 0, at_last_activity_ms = 0, at_last_progress_ms = 0,
      at_last_progress_bytes = 0, at_cancelled = False\<rparr>]\<rparr>"

theorem file_session_authorised_witness:
  "\<exists>c w'. file_session_open 5 5 (Some (FileHello hello_sample)) hello_world =
     (Inr (hello_sample, c), [FileHelloAck 1 True 2 None], w') \<and>
     at_webtransport_consumed (w_transfers w' ! cn_transfer c) ! 2"
proof -
  have token: "parse_hex 16 (format_hex (replicate 16 0)) = Inr (replicate 16 0)"
    using parse_hex_format [of "replicate 16 0"] by simp
  have same: "constant_time_equal x x" for x by (simp add: constant_time_equal_iff)
  have "\<exists>c out w'. file_session_open 5 5 (Some (FileHello hello_sample)) hello_world =
      (Inr (hello_sample, c), out, w')"
    using token same
    by (simp add: file_session_open_def hello_sample_def hello_world_def file_configuration_valid_def
        NATIVE_FILE_VERSION_def FILE_WEBTRANSPORT_CONNECTIONS_def FILE_WEBTRANSPORT_LANES_PER_CONNECTION_def
        begin_webtransport_connection_def active_transfer_of_def consume_webtransport_token_def Let_def
        validate_time_def transfer_now_def now_ms_def saturating_sub_def TRANSFER_IDLE_TTL_MS_def
        transfer_touch_def put_transfer_def manager_new_def)
  then obtain c out w' where run: "file_session_open 5 5 (Some (FileHello hello_sample)) hello_world =
      (Inr (hello_sample, c), out, w')" by blast
  from file_session_authorised [OF run] show ?thesis
    using run by (auto simp: hello_world_def hello_sample_def)
qed

end
