(* ===== verification/File_Copy.thy ===== *)
theory File_Copy
  imports File_Webtransport
begin

text \<open>
  The end-to-end correctness of the native file transfer over WebTransport: what the sender lanes
  of crates/winrisef-agent/src/file_webtransport.rs emit, and that receiving the 24 lanes of a
  file stores the file and completes the transfer.
\<close>

section \<open>What a lane changes\<close>

definition kept :: "nat \<Rightarrow> world \<Rightarrow> world \<Rightarrow> bool" where
  "kept a w w' \<longleftrightarrow> length (w_transfers w') = length (w_transfers w) \<and>
     w_active w' = w_active w \<and> w_active_poisoned w' = w_active_poisoned w \<and> w_dir w' = w_dir w \<and>
     (let x = w_transfers w ! a; x' = w_transfers w' ! a in
        at_transfer_id x' = at_transfer_id x \<and> at_attachment_id x' = at_attachment_id x \<and>
        at_direction x' = at_direction x \<and> at_total_bytes x' = at_total_bytes x \<and>
        at_resource x' = at_resource x \<and> at_hard_expires_at x' = at_hard_expires_at x)"

lemma kept_refl: "kept a w w"
  by (simp add: kept_def Let_def)

lemma kept_trans: "kept a w w' \<Longrightarrow> kept a w' w'' \<Longrightarrow> kept a w w''"
  by (simp add: kept_def Let_def)

lemma only_io_kept: "only_io a w w' \<Longrightarrow> kept a w w'"
  by (auto simp: only_io_def kept_def Let_def)

abbreviation segments_of :: "nat \<Rightarrow> world \<Rightarrow> segment_tracker" where
  "segments_of a w \<equiv> at_segments (w_transfers w ! a)"

definition lane_ready :: "nat \<Rightarrow> nat \<Rightarrow> world \<Rightarrow> bool" where
  "lane_ready tot a w \<longleftrightarrow> a < length (w_transfers w) \<and> \<not> at_cancelled (w_transfers w ! a) \<and>
     0 < pool_room a w \<and> \<not> bp_poisoned (at_buffers (w_transfers w ! a)) \<and>
     segments_inv (segments_of a w) \<and> sg_total (segments_of a w) = tot \<and>
     sg_ext (segments_of a w) = WT_EXT"

lemma lane_ready_payload: "lane_ready tot a w \<Longrightarrow> ls_transfer l = a \<Longrightarrow> payload_ready 1 l w"
  by (simp add: lane_ready_def payload_ready_def)

lemma payload_lane_ready:
  "lane_ready tot a w \<Longrightarrow> only_io a w w' \<Longrightarrow> ls_transfer l = a \<Longrightarrow> payload_ready 1 l w' \<Longrightarrow> lane_ready tot a w'"
  by (auto simp: lane_ready_def payload_ready_def only_io_frame)

definition lease_for :: "nat \<Rightarrow> nat \<Rightarrow> nat \<Rightarrow> segment_lease" where
  "lease_for tot a i = \<lparr>ls_transfer = a, ls_index = i, ls_offset = fst (wire_extent tot i),
     ls_len = snd (wire_extent tot i)\<rparr>"

lemma wire_extent_segment:
  assumes "segments_inv t" and "sg_ext t = WT_EXT" and "i \<in> sg_in st t"
  shows "(unat (fst (wire_extent (sg_total t) i)), unat (snd (wire_extent (sg_total t) i))) = segment_at t i"
    and "unat (fst (wire_extent (sg_total t) i)) + unat (snd (wire_extent (sg_total t) i)) \<le> sg_total t"
    and "unat (fst (wire_extent (sg_total t) i)) = i * WT_EXT"
    and "unat (snd (wire_extent (sg_total t) i)) = extent_len (sg_total t) WT_EXT i"
    and "i * WT_EXT < sg_total t"
proof -
  have "i < extent_count (sg_total t) WT_EXT" using assms sg_in_subset [of t st] by auto
  then show i: "i * WT_EXT < sg_total t" by (simp add: less_extent_count_iff wt_constants)
  have tot: "sg_total t < 2 ^ 64" using unat_lt64 [of "sg_total_bytes t"] by (simp add: sg_total_def)
  then show off: "unat (fst (wire_extent (sg_total t) i)) = i * WT_EXT"
    using i by (simp add: wire_extent_def unat_of_nat del: of_nat_mult)
  show len: "unat (snd (wire_extent (sg_total t) i)) = extent_len (sg_total t) WT_EXT i"
    using extent_len_word [of t i] by (simp add: wire_extent_def assms(2))
  show "(unat (fst (wire_extent (sg_total t) i)), unat (snd (wire_extent (sg_total t) i))) = segment_at t i"
    using off len assms(2) by (simp add: segment_at_def)
  show "unat (fst (wire_extent (sg_total t) i)) + unat (snd (wire_extent (sg_total t) i)) \<le> sg_total t"
    using off len i by (simp add: extent_len_def)
qed

lemma extent_begins:
  assumes ready: "lane_ready tot a w" and c: "cn_transfer c = a" "cn_index c < 6" and j: "j < 4"
    and i: "i \<in> sg_in Pending (segments_of a w)" "i mod WT_LANES = cn_index c * 4 + j" and t: "0 \<le> t"
  shows "\<exists>w'. begin_webtransport_extent t c j (fst (wire_extent tot i)) (snd (wire_extent tot i)) w =
             (Inr (lease_for tot a i), w') \<and>
           lane_ready tot a w' \<and> kept a w w' \<and> i \<in> sg_in Active (segments_of a w') \<and>
           sg_in Pending (segments_of a w') = sg_in Pending (segments_of a w) - {i} \<and>
           sg_in Complete (segments_of a w') = sg_in Complete (segments_of a w)"
proof -
  let ?x = "w_transfers w ! a" and ?s = "segments_of a w"
  let ?s' = "?s\<lparr>sg_states := (sg_states ?s)[i := Active]\<rparr>"
  have inv: "segments_inv ?s" and ext: "sg_ext ?s = WT_EXT" and tot: "sg_total ?s = tot"
    and a: "a < length (w_transfers w)" using ready by (simp_all add: lane_ready_def)
  note seg = wire_extent_segment [OF inv ext i(1), unfolded tot]
  have res: "segments_reserve (fst (wire_extent tot i)) (snd (wire_extent tot i)) ?s = (Inr i, ?s')"
    using segments_reserve_Inr_iff [OF inv] seg(1) i(1) by blast
  have "unat (fst (wire_extent tot i) div FILE_WEBTRANSPORT_EXTENT_BYTES) = i"
    using wt_constants(3) by (simp add: unat_div_distrib seg(3) wt_constants(2))
  then have "unat (fst (wire_extent tot i) div FILE_WEBTRANSPORT_EXTENT_BYTES mod word_of_nat WT_LANES) =
      i mod WT_LANES"
    by (simp add: unat_mod_distrib WT_LANES_def)
  moreover have "unat (word_of_nat (cn_index c * 4 + j) :: u64) = cn_index c * 4 + j"
    using c(2) j by (simp add: unat_of_nat del: of_nat_add of_nat_mult)
  ultimately have lane: "fst (wire_extent tot i) div FILE_WEBTRANSPORT_EXTENT_BYTES mod word_of_nat WT_LANES =
      word_of_nat (cn_index c * 4 + j)"
    using i(2) by (simp only: word_eq_nat_iff)
  have "\<exists>now. now_ms t = Inr now" using t by (simp add: now_ms_def)
  then obtain now where "now_ms t = Inr now" ..
  then have beg: "begin_webtransport_extent t c j (fst (wire_extent tot i)) (snd (wire_extent tot i)) w =
      (Inr (lease_for tot a i),
       put_transfer a (?x\<lparr>at_segments := ?s', at_last_activity_ms := now\<rparr>) w)"
    unfolding begin_webtransport_extent_def Let_def wt_constants(1)
    using lane j c(1) res
    by (simp add: FILE_WEBTRANSPORT_LANES_PER_CONNECTION_def reserve_lease_def transfer_touch_def
        transfer_now_def lease_for_def Let_def del: of_nat_add of_nat_mult)
  have "segments_inv ?s'" by (rule segments_reserve_inv [OF inv res])
  then show ?thesis
    unfolding beg using ready a i(1)
    by (auto simp: lane_ready_def kept_def Let_def pool_room_def sg_in_move [OF i(1)])
qed

lemma extent_commits:
  assumes ready: "lane_ready tot a w" and i: "i \<in> sg_in Active (segments_of a w)" and t: "0 \<le> t"
  shows "\<exists>r w'. commit_segment t (lease_for tot a i) w = (Inr r, w') \<and>
           lane_ready tot a w' \<and> kept a w w' \<and>
           sg_in Pending (segments_of a w') = sg_in Pending (segments_of a w) \<and>
           sg_in Complete (segments_of a w') = insert i (sg_in Complete (segments_of a w))"
proof -
  let ?x = "w_transfers w ! a" and ?s = "segments_of a w"
  let ?len = "snd (wire_extent tot i)"
  let ?s' = "?s\<lparr>sg_states := (sg_states ?s)[i := Complete], sg_completed_bytes := sg_completed_bytes ?s + ?len\<rparr>"
  have inv: "segments_inv ?s" and ext: "sg_ext ?s = WT_EXT" and tot: "sg_total ?s = tot"
    and a: "a < length (w_transfers w)" using ready by (simp_all add: lane_ready_def)
  have com: "segments_complete i ?len ?s = (Inr (sg_completed_bytes ?s + ?len), ?s')"
    using i by (subst segments_complete_Inr_iff [OF inv]) simp
  have inv': "segments_inv ?s'"
    using segments_complete_inv [OF inv com] wire_extent_segment(4) [OF inv ext i] tot ext by simp
  have sets: "sg_in Pending ?s' = sg_in Pending ?s" "sg_in Complete ?s' = insert i (sg_in Complete ?s)"
    using i by (simp_all add: sg_in_move [OF i])
  have "\<exists>now. now_ms t = Inr now" using t by (simp add: now_ms_def)
  then obtain now where now: "now_ms t = Inr now" ..
  define quiet where "quiet = put_transfer a (?x\<lparr>at_segments := ?s'\<rparr>) w"
  define loud where "loud = publish (ProgressEvent (at_transfer_id ?x) (at_attachment_id ?x) (sg_completed_bytes ?s + ?len))
      (put_transfer a (?x\<lparr>at_segments := ?s', at_last_progress_bytes := sg_completed_bytes ?s + ?len,
         at_last_progress_ms := now\<rparr>) w)"
  have "commit_segment t (lease_for tot a i) w \<in>
      {(Inr (sg_completed_bytes ?s + ?len), quiet), (Inr (sg_completed_bytes ?s + ?len), loud)}"
    using com now by (simp add: commit_segment_def lease_for_def transfer_now_def Let_def quiet_def loud_def)
  moreover have "lane_ready tot a quiet \<and> kept a w quiet \<and> segments_of a quiet = ?s'"
    using ready a inv' by (auto simp: quiet_def lane_ready_def kept_def Let_def pool_room_def)
  moreover have "lane_ready tot a loud \<and> kept a w loud \<and> segments_of a loud = ?s'"
    using ready a inv' by (auto simp: loud_def lane_ready_def kept_def Let_def pool_room_def publish_def)
  ultimately show ?thesis using sets by auto
qed


section \<open>One extent, one lane\<close>

text \<open>The bytes of a lane, as the peer writes them.\<close>

definition extent_wire :: "bytes \<Rightarrow> nat \<Rightarrow> bytes" where
  "extent_wire source i =
     (let e = wire_extent (length source) i
      in extent_header (fst e) (snd e) @ take (unat (snd e)) (drop (unat (fst e)) source))"

definition lane_wire :: "bytes \<Rightarrow> nat list \<Rightarrow> bytes" where
  "lane_wire source slots = concat (map (extent_wire source) slots)"

text \<open>The slots the lane has copied into the file.\<close>

definition copied :: "bytes \<Rightarrow> nat set \<Rightarrow> bytes \<Rightarrow> bytes \<Rightarrow> bool" where
  "copied source slots old new \<longleftrightarrow> length old = length source \<and> length new = length source \<and>
     (\<forall>k < length source. new ! k = (if k div WT_EXT \<in> slots then source ! k else old ! k))"

lemma copied_trans: "copied src I x y \<Longrightarrow> copied src J y z \<Longrightarrow> copied src (I \<union> J) x z"
  by (auto simp: copied_def)

lemma copied_empty: "length x = length src \<Longrightarrow> copied src {} x x"
  by (simp add: copied_def)

lemma splice_copied:
  assumes "i * WT_EXT < length source" and "length old = length source"
  shows "copied source {i} old
    (splice (i * WT_EXT) (take (extent_len (length source) WT_EXT i) (drop (i * WT_EXT) source)) old)"
proof -
  let ?n = "extent_len (length source) WT_EXT i"
  let ?b = "take ?n (drop (i * WT_EXT) source)"
  have n: "length ?b = ?n" "i * WT_EXT + ?n \<le> length source"
    using assms by (auto simp: extent_len_def)
  have "splice (i * WT_EXT) ?b old ! k = (if k div WT_EXT = i then source ! k else old ! k)"
    if k: "k < length source" for k
  proof -
    have "k div WT_EXT = i \<longleftrightarrow> i * WT_EXT \<le> k \<and> k < i * WT_EXT + ?n"
      using extent_bytes_iff [OF wt_constants(3), of k i "length source"] k by (auto simp: extent_bytes_def)
    moreover have "?b ! (k - i * WT_EXT) = source ! k" if "i * WT_EXT \<le> k" "k < i * WT_EXT + ?n"
      using that n by simp
    moreover have "splice (i * WT_EXT) ?b old ! k =
        (if i * WT_EXT \<le> k \<and> k < i * WT_EXT + ?n then ?b ! (k - i * WT_EXT) else old ! k)"
      using k n assms(2) by (subst nth_splice) simp_all
    ultimately show ?thesis by (metis (full_types))
  qed
  with n assms(2) show ?thesis by (simp add: copied_def splice_length)
qed

text \<open>The effect of a lane that handles the given slots.\<close>

definition lane_effect :: "nat \<Rightarrow> nat \<Rightarrow> nat set \<Rightarrow> world \<Rightarrow> world \<Rightarrow> bool" where
  "lane_effect tot a slots w w' \<longleftrightarrow> lane_ready tot a w' \<and> kept a w w' \<and>
     sg_in Pending (segments_of a w') = sg_in Pending (segments_of a w) - slots \<and>
     sg_in Complete (segments_of a w') = sg_in Complete (segments_of a w) \<union> slots"

lemma lane_effect_trans:
  "lane_effect tot a I w w' \<Longrightarrow> lane_effect tot a J w' w'' \<Longrightarrow> lane_effect tot a (I \<union> J) w w''"
  by (auto simp: lane_effect_def intro: kept_trans)

lemma lane_effect_empty: "lane_ready tot a w \<Longrightarrow> lane_effect tot a {} w w"
  by (simp add: lane_effect_def kept_refl)

text \<open>Beginning, an I/O phase that keeps the tracker, and the commit of one extent.\<close>

lemma extent_effect:
  assumes begun: "lane_ready tot a w1" "kept a w w1" "i \<in> sg_in Active (segments_of a w1)"
      "sg_in Pending (segments_of a w1) = sg_in Pending (segments_of a w) - {i}"
      "sg_in Complete (segments_of a w1) = sg_in Complete (segments_of a w)"
    and io: "only_io a w1 w2" "payload_ready 1 (lease_for tot a i) w2" and t: "0 \<le> t"
  shows "\<exists>r w3. commit_segment t (lease_for tot a i) w2 = (Inr r, w3) \<and> lane_effect tot a {i} w w3"
proof -
  have w2: "lane_ready tot a w2"
    using payload_lane_ready [OF begun(1) io(1) _ io(2)] by (simp add: lease_for_def)
  have seg: "segments_of a w2 = segments_of a w1" by (rule only_io_frame(2) [OF io(1)])
  with begun(3) have "i \<in> sg_in Active (segments_of a w2)" by simp
  from extent_commits [OF w2 this t] obtain r w3 where "commit_segment t (lease_for tot a i) w2 = (Inr r, w3)"
    "lane_ready tot a w3" "kept a w2 w3" "sg_in Pending (segments_of a w3) = sg_in Pending (segments_of a w2)"
    "sg_in Complete (segments_of a w3) = insert i (sg_in Complete (segments_of a w2))" by blast
  with begun seg only_io_kept [OF io(1)] show ?thesis
    by (auto simp: lane_effect_def intro: kept_trans)
qed

lemma receive_lane_end:
  "receive_lane pwrite clk c j (extent_header END_OFFSET 0) s = (Inr (), s)"
  using extent_header_round_trip [of END_OFFSET 0 "[]"] by (subst receive_lane.simps) simp

lemma receive_lane_copies:
  assumes io: "takes_some pwrite" and clk: "clock_runs clk"
    and c: "cn_transfer c = a" "cn_index c < 6" and j: "j < 4" and tot: "length source = tot"
    and "lane_ready tot a (pl_world s)" and "length (pl_content s) = tot"
    and "distinct slots" and "set slots \<subseteq> sg_in Pending (segments_of a (pl_world s))"
    and "\<forall>i \<in> set slots. i mod WT_LANES = cn_index c * 4 + j"
  shows "\<exists>s'. receive_lane pwrite clk c j (lane_wire source slots @ extent_header END_OFFSET 0) s = (Inr (), s') \<and>
           lane_effect tot a (set slots) (pl_world s) (pl_world s') \<and>
           copied source (set slots) (pl_content s) (pl_content s')"
  using assms(7-11)
proof (induction slots arbitrary: s)
  case Nil
  then show ?case using tot
    by (simp add: lane_wire_def receive_lane_end lane_effect_empty copied_empty)
next
  case (Cons i slots)
  let ?w = "pl_world s" and ?off = "fst (wire_extent tot i)" and ?len = "snd (wire_extent tot i)"
  have i: "i \<in> sg_in Pending (segments_of a ?w)" "i mod WT_LANES = cn_index c * 4 + j"
    using Cons.prems by simp_all
  have t: "0 \<le> clk n" for n using clk by (simp add: clock_runs_def)
  have inv: "segments_inv (segments_of a ?w)" "sg_ext (segments_of a ?w) = WT_EXT"
    "sg_total (segments_of a ?w) = tot" using Cons.prems(1) by (simp_all add: lane_ready_def)
  note seg = wire_extent_segment [OF inv(1,2) i(1), unfolded inv(3)]
  have tot64: "tot < 2 ^ 64" using inv(3) unat_lt64 [of "sg_total_bytes (segments_of a ?w)"]
    by (simp add: sg_total_def)
  have "unat ?off < 2 ^ 64 - 1" using seg(3,5) tot64 by linarith
  then have not_end: "?off \<noteq> END_OFFSET" 
    by (auto simp: END_OFFSET_def unsigned_minus_1_eq_mask mask_eq_exp_minus_1)
  obtain w1 where w1: "begin_webtransport_extent (clk (pl_tick s)) c j ?off ?len ?w = (Inr (lease_for tot a i), w1)"
    "lane_ready tot a w1" "kept a ?w w1" "i \<in> sg_in Active (segments_of a w1)"
    "sg_in Pending (segments_of a w1) = sg_in Pending (segments_of a ?w) - {i}"
    "sg_in Complete (segments_of a w1) = sg_in Complete (segments_of a ?w)"
    using extent_begins [OF Cons.prems(1) c j i t] by blast
  let ?s1 = "s\<lparr>pl_world := w1, pl_tick := Suc (pl_tick s)\<rparr>"
  let ?rest = "lane_wire source slots @ extent_header END_OFFSET 0"
  let ?body = "take (unat ?len) (drop (unat ?off) source) @ ?rest"
  have ready1: "payload_ready 1 (lease_for tot a i) (pl_world ?s1)"
    using lane_ready_payload [OF w1(2)] by (simp add: lease_for_def)
  have blen: "length (take (unat ?len) (drop (unat ?off) source)) = unat ?len"
    using seg(2) tot by simp
  obtain s2 where s2: "receive_payload 1 quic_read_exact pwrite clk (lease_for tot a i) ?body ?s1 = (Inr (), ?rest, s2)"
    "pl_content s2 = splice (unat ?off) (take (unat ?len) (drop (unat ?off) source)) (pl_content s)"
    "only_io a w1 (pl_world s2)" "payload_ready 1 (lease_for tot a i) (pl_world s2)"
    using quic_source.receive_payload_stores [OF io clk ready1, of ?body] seg(2) tot64 blen Cons.prems(2)
    by (auto simp: lease_for_def)
  obtain r w3 where w3: "commit_segment (clk (pl_tick s2)) (lease_for tot a i) (pl_world s2) = (Inr r, w3)"
    "lane_effect tot a {i} ?w w3"
    using extent_effect [OF w1(2-6) s2(3,4) t] by blast
  let ?s3 = "s2\<lparr>pl_world := w3, pl_tick := Suc (pl_tick s2)\<rparr>"
  have cop: "copied source {i} (pl_content s) (pl_content s2)"
    using splice_copied [of i source "pl_content s"] seg(3-5) Cons.prems(2) by (simp add: s2(2) tot)
  have "\<exists>s'. receive_lane pwrite clk c j ?rest ?s3 = (Inr (), s') \<and>
           lane_effect tot a (set slots) (pl_world ?s3) (pl_world s') \<and>
           copied source (set slots) (pl_content ?s3) (pl_content s')"
    using w3(2) cop Cons.prems(3-5) tot by (intro Cons.IH) (auto simp: lane_effect_def copied_def)
  then obtain s' where s': "receive_lane pwrite clk c j ?rest ?s3 = (Inr (), s')"
    "lane_effect tot a (set slots) w3 (pl_world s')" "copied source (set slots) (pl_content s2) (pl_content s')"
    by auto
  have head: "read_extent_header (lane_wire source (i # slots) @ extent_header END_OFFSET 0) =
      (Inr (?off, ?len), ?body)"
    using extent_header_round_trip by (simp add: lane_wire_def extent_wire_def Let_def tot)
  obtain off len where e: "wire_extent tot i = (off, len)" by fastforce
  have "receive_lane pwrite clk c j (lane_wire source (i # slots) @ extent_header END_OFFSET 0) s = (Inr (), s')"
    using head not_end w1(1) s2(1) w3(1) s'(1)
    by (subst receive_lane.simps) (simp add: e)
  moreover have "lane_effect tot a (set (i # slots)) ?w (pl_world s')"
    using lane_effect_trans [OF w3(2) s'(2)] by simp
  moreover have "copied source (set (i # slots)) (pl_content s) (pl_content s')"
    using copied_trans [OF cop s'(3)] by simp
  ultimately show ?case by blast
qed


lemma send_extents_emits:
  assumes io: "reads_from source pread" and clk: "clock_runs clk"
    and c: "cn_transfer c = a" "cn_index c < 6" and j: "j < 4" and tot: "length source = tot"
    and "lane_ready tot a (pl_world s)"
    and "distinct slots" and "set slots \<subseteq> sg_in Pending (segments_of a (pl_world s))"
    and "\<forall>i \<in> set slots. i mod WT_LANES = cn_index c * 4 + j"
  shows "\<exists>s'. send_extents pread clk c j (map (wire_extent tot) slots) s = (Inr (), lane_wire source slots, s') \<and>
           lane_effect tot a (set slots) (pl_world s) (pl_world s')"
  using assms(7-10)
proof (induction slots arbitrary: s)
  case Nil
  then show ?case by (simp add: lane_wire_def lane_effect_empty)
next
  case (Cons i slots)
  let ?w = "pl_world s" and ?off = "fst (wire_extent tot i)" and ?len = "snd (wire_extent tot i)"
  have i: "i \<in> sg_in Pending (segments_of a ?w)" "i mod WT_LANES = cn_index c * 4 + j"
    using Cons.prems by simp_all
  have t: "0 \<le> clk n" for n using clk by (simp add: clock_runs_def)
  have inv: "segments_inv (segments_of a ?w)" "sg_ext (segments_of a ?w) = WT_EXT"
    "sg_total (segments_of a ?w) = tot" using Cons.prems(1) by (simp_all add: lane_ready_def)
  note seg = wire_extent_segment [OF inv(1,2) i(1), unfolded inv(3)]
  have tot64: "tot < 2 ^ 64" using inv(3) unat_lt64 [of "sg_total_bytes (segments_of a ?w)"]
    by (simp add: sg_total_def)
  obtain w1 where w1: "begin_webtransport_extent (clk (pl_tick s)) c j ?off ?len ?w = (Inr (lease_for tot a i), w1)"
    "lane_ready tot a w1" "kept a ?w w1" "i \<in> sg_in Active (segments_of a w1)"
    "sg_in Pending (segments_of a w1) = sg_in Pending (segments_of a ?w) - {i}"
    "sg_in Complete (segments_of a w1) = sg_in Complete (segments_of a ?w)"
    using extent_begins [OF Cons.prems(1) c j i t] by blast
  let ?s1 = "s\<lparr>pl_world := w1, pl_tick := Suc (pl_tick s)\<rparr>"
  have ready1: "payload_ready 1 (lease_for tot a i) (pl_world ?s1)"
    using lane_ready_payload [OF w1(2)] by (simp add: lease_for_def)
  obtain s2 where s2: "send_payload 1 pread clk (lease_for tot a i) ?s1 =
      (Inr (), take (unat ?len) (drop (unat ?off) source), s2)"
    "only_io a w1 (pl_world s2)" "payload_ready 1 (lease_for tot a i) (pl_world s2)"
    using send_payload_emits [OF io clk ready1] seg(2) tot64 tot by (auto simp: lease_for_def)
  obtain r w3 where w3: "commit_segment (clk (pl_tick s2)) (lease_for tot a i) (pl_world s2) = (Inr r, w3)"
    "lane_effect tot a {i} ?w w3"
    using extent_effect [OF w1(2-6) s2(2,3) t] by blast
  let ?s3 = "s2\<lparr>pl_world := w3, pl_tick := Suc (pl_tick s2)\<rparr>"
  have "\<exists>s'. send_extents pread clk c j (map (wire_extent tot) slots) ?s3 = (Inr (), lane_wire source slots, s') \<and>
           lane_effect tot a (set slots) (pl_world ?s3) (pl_world s')"
    using w3(2) Cons.prems(2-4) by (intro Cons.IH) (auto simp: lane_effect_def)
  then obtain s' where s': "send_extents pread clk c j (map (wire_extent tot) slots) ?s3 =
      (Inr (), lane_wire source slots, s')" "lane_effect tot a (set slots) w3 (pl_world s')" by auto
  obtain off len where e: "wire_extent tot i = (off, len)" by fastforce
  have "send_extents pread clk c j (map (wire_extent tot) (i # slots)) s =
      (Inr (), lane_wire source (i # slots), s')"
    using w1(1) s2(1) w3(1) s'(1)
    by (simp add: lane_wire_def extent_wire_def Let_def tot e)
  then show ?case using lane_effect_trans [OF w3(2) s'(2)] by auto
qed


section \<open>Connections\<close>

definition slots_of :: "nat \<Rightarrow> nat \<Rightarrow> nat \<Rightarrow> nat list" where
  "slots_of tot k j = lane_slots WT_LANES (k * 4 + j) (extent_count tot WT_EXT)"

definition peer_stream :: "bytes \<Rightarrow> nat \<Rightarrow> nat \<Rightarrow> bytes" where
  "peer_stream source k j =
     u16_to_be_bytes (word_of_nat j) @ lane_wire source (slots_of (length source) k j) @
     extent_header END_OFFSET 0"

lemma accept_peer_streams:
  assumes "distinct js" and "\<forall>j \<in> set js. j < length seen \<and> \<not> seen ! j" and "length seen \<le> 4"
  shows "accept_lanes (map (peer_stream source k) js) seen =
    Inr (map (\<lambda>j. (j, lane_wire source (slots_of (length source) k j) @ extent_header END_OFFSET 0)) js)"
  using assms
proof (induction js arbitrary: seen)
  case (Cons j js)
  let ?rest = "lane_wire source (slots_of (length source) k j) @ extent_header END_OFFSET 0"
  have "quic_read_exact 2 (peer_stream source k j) = (Inr (u16_to_be_bytes (word_of_nat j)), ?rest)"
    by (simp add: quic_read_exact_def peer_stream_def)
  moreover have "j < 4" using Cons.prems by auto
  then have "unat (word_of_nat j :: u16) = j" by (simp add: unat_of_nat)
  moreover have "accept_lanes (map (peer_stream source k) js) (seen[j := True]) =
    Inr (map (\<lambda>j. (j, lane_wire source (slots_of (length source) k j) @ extent_header END_OFFSET 0)) js)"
    using Cons.prems by (intro Cons.IH) (auto simp: nth_list_update)
  ultimately show ?case using Cons.prems by (simp add: Let_def)
qed simp

lemma slots_of_props:
  assumes "k < 6" and "j < 4"
  shows "distinct (slots_of tot k j)" and "\<forall>i \<in> set (slots_of tot k j). i mod WT_LANES = k * 4 + j"
    and "set (slots_of tot k j) \<subseteq> {..<extent_count tot WT_EXT}"
  by (auto simp: slots_of_def set_lane_slots lane_slots_def)

lemma receive_lanes_copies:
  assumes io: "takes_some pwrite" and clk: "clock_runs clk"
    and c: "cn_transfer c = a" "cn_index c < 6" and tot: "length source = tot"
    and "lane_ready tot a (pl_world s)" and "length (pl_content s) = tot"
    and "distinct js" and "set js \<subseteq> {..<4}"
    and "\<forall>j \<in> set js. set (slots_of tot (cn_index c) j) \<subseteq> sg_in Pending (segments_of a (pl_world s))"
  shows "\<exists>s'. receive_lanes pwrite clk c
             (map (\<lambda>j. (j, lane_wire source (slots_of tot (cn_index c) j) @ extent_header END_OFFSET 0)) js) s =
             (Inr (), s') \<and>
           lane_effect tot a (\<Union>j \<in> set js. set (slots_of tot (cn_index c) j)) (pl_world s) (pl_world s') \<and>
           copied source (\<Union>j \<in> set js. set (slots_of tot (cn_index c) j)) (pl_content s) (pl_content s')"
  using assms(6-10)
proof (induction js arbitrary: s)
  case Nil
  then show ?case using tot by (simp add: lane_effect_empty copied_empty)
next
  case (Cons j js)
  then have j: "j < 4" by simp
  note slots = slots_of_props [OF c(2) j, of tot]
  have "set (slots_of tot (cn_index c) j) \<subseteq> sg_in Pending (segments_of a (pl_world s))"
    using Cons.prems(5) by simp
  from receive_lane_copies [OF io clk c j tot Cons.prems(1,2) slots(1) this slots(2)] obtain s1 where s1:
    "receive_lane pwrite clk c j (lane_wire source (slots_of tot (cn_index c) j) @ extent_header END_OFFSET 0) s =
       (Inr (), s1)"
    "lane_effect tot a (set (slots_of tot (cn_index c) j)) (pl_world s) (pl_world s1)"
    "copied source (set (slots_of tot (cn_index c) j)) (pl_content s) (pl_content s1)" by blast
  have "set (slots_of tot (cn_index c) j') \<inter> set (slots_of tot (cn_index c) j) = {}" if "j' \<in> set js" for j'
    using that Cons.prems(3) by (auto simp: slots_of_def set_lane_slots)
  then have "\<forall>j' \<in> set js. set (slots_of tot (cn_index c) j') \<subseteq> sg_in Pending (segments_of a (pl_world s1))"
    using s1(2) Cons.prems(5) unfolding lane_effect_def by auto
  then obtain s' where s': "receive_lanes pwrite clk c
             (map (\<lambda>j. (j, lane_wire source (slots_of tot (cn_index c) j) @ extent_header END_OFFSET 0)) js) s1 =
             (Inr (), s')"
    "lane_effect tot a (\<Union>j \<in> set js. set (slots_of tot (cn_index c) j)) (pl_world s1) (pl_world s')"
    "copied source (\<Union>j \<in> set js. set (slots_of tot (cn_index c) j)) (pl_content s1) (pl_content s')"
    using Cons.IH [of s1] s1(2,3) Cons.prems(3,4) tot by (auto simp: lane_effect_def copied_def)
  show ?case
    using s1(1) s'(1) lane_effect_trans [OF s1(2) s'(2)] copied_trans [OF s1(3) s'(3)] by simp
qed

definition connection_slots :: "nat \<Rightarrow> nat \<Rightarrow> nat set" where
  "connection_slots tot k = {i. i < extent_count tot WT_EXT \<and> i mod WT_LANES div 4 = k}"

lemma connection_slots_union:
  assumes "k < 6"
  shows "(\<Union>j \<in> {..<4}. set (slots_of tot k j)) = connection_slots tot k"
proof (intro set_eqI iffI)
  fix i assume "i \<in> connection_slots tot k"
  then have "i < extent_count tot WT_EXT" "i mod WT_LANES = k * 4 + (i mod WT_LANES) mod 4"
    using div_mult_mod_eq [of "i mod WT_LANES" 4] by (simp_all add: connection_slots_def)
  moreover have "(i mod WT_LANES) mod 4 < 4" by simp
  ultimately show "i \<in> (\<Union>j \<in> {..<4}. set (slots_of tot k j))"
    unfolding slots_of_def set_lane_slots by blast
next
  fix i assume "i \<in> (\<Union>j \<in> {..<4}. set (slots_of tot k j))"
  then show "i \<in> connection_slots tot k" by (auto simp: slots_of_def set_lane_slots connection_slots_def)
qed

lemma receive_connection_copies:
  assumes io: "takes_some pwrite" and clk: "clock_runs clk"
    and c: "cn_transfer c = a" "cn_index c < 6" and tot: "length source = tot"
    and s: "lane_ready tot a (pl_world s)" "length (pl_content s) = tot"
    and js: "distinct js" "set js = {..<4}"
    and pend: "connection_slots tot (cn_index c) \<subseteq> sg_in Pending (segments_of a (pl_world s))"
  shows "\<exists>s'. receive_connection pwrite clk c (map (peer_stream source (cn_index c)) js) s = (Inr (), s') \<and>
           lane_effect tot a (connection_slots tot (cn_index c)) (pl_world s) (pl_world s') \<and>
           copied source (connection_slots tot (cn_index c)) (pl_content s) (pl_content s')"
proof -
  have len: "length js = 4" using js distinct_card [of js] by simp
  have acc: "accept_lanes (map (peer_stream source (cn_index c)) js) (replicate 4 False) =
      Inr (map (\<lambda>j. (j, lane_wire source (slots_of tot (cn_index c) j) @ extent_header END_OFFSET 0)) js)"
    using accept_peer_streams [OF js(1), of "replicate 4 False" source "cn_index c"] js(2)
    by (simp add: tot)
  have "\<forall>j \<in> set js. set (slots_of tot (cn_index c) j) \<subseteq> sg_in Pending (segments_of a (pl_world s))"
    using pend unfolding connection_slots_union [OF c(2), symmetric] js(2) by blast
  from receive_lanes_copies [OF io clk c tot s js(1) _ this] js(2) connection_slots_union [OF c(2)]
  show ?thesis
    using acc len
    by (simp add: receive_connection_def FILE_WEBTRANSPORT_LANES_PER_CONNECTION_def Let_def)
qed


fun receive_connections ::
  "(u64 \<Rightarrow> bytes \<Rightarrow> unit + nat) \<Rightarrow> (nat \<Rightarrow> int) \<Rightarrow> (wt_connection \<times> bytes list) list \<Rightarrow>
     payload_state \<Rightarrow> (lane_error + unit) \<times> payload_state" where
  "receive_connections pwrite clk [] s = (Inr (), s)"
| "receive_connections pwrite clk ((c, streams) # rest) s =
     (case receive_connection pwrite clk c streams s of
        (Inl e, s1) \<Rightarrow> (Inl e, s1)
      | (Inr _, s1) \<Rightarrow> receive_connections pwrite clk rest s1)"

lemma receive_connections_copy:
  assumes io: "takes_some pwrite" and clk: "clock_runs clk" and tot: "length source = tot"
    and js: "\<And>c. c \<in> set cs \<Longrightarrow> distinct (js c) \<and> set (js c) = {..<4}"
    and cs: "\<forall>c \<in> set cs. cn_transfer c = a \<and> cn_index c < 6" "distinct (map cn_index cs)"
    and s: "lane_ready tot a (pl_world s)" "length (pl_content s) = tot"
    and pend: "\<forall>c \<in> set cs. connection_slots tot (cn_index c) \<subseteq> sg_in Pending (segments_of a (pl_world s))"
  shows "\<exists>s'. receive_connections pwrite clk
             (map (\<lambda>c. (c, map (peer_stream source (cn_index c)) (js c))) cs) s = (Inr (), s') \<and>
           lane_effect tot a (\<Union>c \<in> set cs. connection_slots tot (cn_index c)) (pl_world s) (pl_world s') \<and>
           copied source (\<Union>c \<in> set cs. connection_slots tot (cn_index c)) (pl_content s) (pl_content s')"
  using js cs s pend
proof (induction cs arbitrary: s)
  case Nil
  then show ?case using tot by (simp add: lane_effect_empty copied_empty)
next
  case (Cons c cs)
  have c: "cn_transfer c = a" "cn_index c < 6" "distinct (js c)" "set (js c) = {..<4}"
    "connection_slots tot (cn_index c) \<subseteq> sg_in Pending (segments_of a (pl_world s))"
    using Cons.prems(1) [of c] Cons.prems(2,6) by simp_all
  from receive_connection_copies [OF io clk c(1,2) tot Cons.prems(4,5) c(3-5)] obtain s1 where s1:
    "receive_connection pwrite clk c (map (peer_stream source (cn_index c)) (js c)) s = (Inr (), s1)"
    "lane_effect tot a (connection_slots tot (cn_index c)) (pl_world s) (pl_world s1)"
    "copied source (connection_slots tot (cn_index c)) (pl_content s) (pl_content s1)" by blast
  have "connection_slots tot (cn_index d) \<inter> connection_slots tot (cn_index c) = {}" if "d \<in> set cs" for d
    using that Cons.prems(3) by (auto simp: connection_slots_def)
  then have "\<forall>d \<in> set cs. connection_slots tot (cn_index d) \<subseteq> sg_in Pending (segments_of a (pl_world s1))"
    using s1(2) Cons.prems(6) unfolding lane_effect_def by auto
  then obtain s' where s': "receive_connections pwrite clk
      (map (\<lambda>c. (c, map (peer_stream source (cn_index c)) (js c))) cs) s1 = (Inr (), s')"
    "lane_effect tot a (\<Union>c \<in> set cs. connection_slots tot (cn_index c)) (pl_world s1) (pl_world s')"
    "copied source (\<Union>c \<in> set cs. connection_slots tot (cn_index c)) (pl_content s1) (pl_content s')"
    using Cons.IH [of s1] s1(2,3) Cons.prems(1-3) tot by (auto simp: lane_effect_def copied_def)
  show ?case
    using s1(1) s'(1) lane_effect_trans [OF s1(2) s'(2)] copied_trans [OF s1(3) s'(3)] by simp
qed

lemma send_lane_emits:
  assumes io: "reads_from source pread" and clk: "clock_runs clk" and c: "cn_transfer c = a" "cn_index c < 6"
    and j: "j < 4" and tot: "length source = tot" and s: "lane_ready tot a (pl_world s)"
    and whole: "at_total_bytes (w_transfers (pl_world s) ! a) = word_of_nat tot" and fits: "fits_wire tot"
    and pend: "set (slots_of tot (cn_index c) j) \<subseteq> sg_in Pending (segments_of a (pl_world s))"
  shows "\<exists>s'. send_lane pread clk c j s = Some (Inr (), peer_stream source (cn_index c) j, s') \<and>
           lane_effect tot a (set (slots_of tot (cn_index c) j)) (pl_world s) (pl_world s')"
proof -
  have "tot < 2 ^ 64" using fits wt_constants by (simp add: fits_wire_def WT_LANES_def WT_EXT_def)
  then have "unat (word_of_nat tot :: u64) = tot" by (simp add: unat_of_nat)
  then have ext: "assigned_extents (cn_index c) (at_total_bytes (w_transfers (pl_world s) ! cn_transfer c)) j =
      Some (map (wire_extent tot) (slots_of tot (cn_index c) j))"
    using assigned_extents_slots [OF _ c(2) j, of "word_of_nat tot"] fits
    by (simp add: c(1) whole wire_extents_def slots_of_def)
  note slots = slots_of_props [OF c(2) j, of tot]
  from send_extents_emits [OF io clk c j tot s slots(1) pend slots(2)] ext show ?thesis
    by (auto simp: send_lane_def peer_stream_def tot)
qed

lemma send_lanes_emit:
  assumes io: "reads_from source pread" and clk: "clock_runs clk" and c: "cn_transfer c = a" "cn_index c < 6"
    and tot: "length source = tot" and fits: "fits_wire tot"
    and "lane_ready tot a (pl_world s)"
    and "at_total_bytes (w_transfers (pl_world s) ! a) = word_of_nat tot"
    and "distinct js" and "set js \<subseteq> {..<4}"
    and "\<forall>j \<in> set js. set (slots_of tot (cn_index c) j) \<subseteq> sg_in Pending (segments_of a (pl_world s))"
  shows "\<exists>s'. send_lanes pread clk c js s = Some (Inr (), map (peer_stream source (cn_index c)) js, s') \<and>
           lane_effect tot a (\<Union>j \<in> set js. set (slots_of tot (cn_index c) j)) (pl_world s) (pl_world s')"
  using assms(7-11)
proof (induction js arbitrary: s)
  case Nil
  then show ?case by (simp add: lane_effect_empty)
next
  case (Cons j js)
  then have j: "j < 4" "set (slots_of tot (cn_index c) j) \<subseteq> sg_in Pending (segments_of a (pl_world s))"
    by simp_all
  from send_lane_emits [OF io clk c j(1) tot Cons.prems(1,2) fits j(2)] obtain s1 where s1:
    "send_lane pread clk c j s = Some (Inr (), peer_stream source (cn_index c) j, s1)"
    "lane_effect tot a (set (slots_of tot (cn_index c) j)) (pl_world s) (pl_world s1)" by blast
  have "set (slots_of tot (cn_index c) j') \<inter> set (slots_of tot (cn_index c) j) = {}" if "j' \<in> set js" for j'
    using that Cons.prems(3) by (auto simp: slots_of_def set_lane_slots)
  then have "\<forall>j' \<in> set js. set (slots_of tot (cn_index c) j') \<subseteq> sg_in Pending (segments_of a (pl_world s1))"
    using s1(2) Cons.prems(5) unfolding lane_effect_def by auto
  then obtain s' where s': "send_lanes pread clk c js s1 = Some (Inr (), map (peer_stream source (cn_index c)) js, s')"
    "lane_effect tot a (\<Union>j \<in> set js. set (slots_of tot (cn_index c) j)) (pl_world s1) (pl_world s')"
    using Cons.IH [of s1] s1(2) Cons.prems(2-4) by (auto simp: lane_effect_def kept_def Let_def)
  show ?case using s1(1) s'(1) lane_effect_trans [OF s1(2) s'(2)] by simp
qed

lemma all_connection_slots: "(\<Union>k \<in> {..<6}. connection_slots tot k) = {..<extent_count tot WT_EXT}"
proof (intro set_eqI iffI)
  fix i assume i: "i \<in> {..<extent_count tot WT_EXT}"
  have "i mod WT_LANES div 4 < 6" by (simp add: WT_LANES_def less_mult_imp_div_less)
  with i show "i \<in> (\<Union>k \<in> {..<6}. connection_slots tot k)" by (auto simp: connection_slots_def)
qed (auto simp: connection_slots_def)

lemma copied_all:
  assumes "copied source {..<extent_count (length source) WT_EXT} old new"
  shows "new = source"
proof (rule nth_equalityI)
  show "length new = length source" using assms by (simp add: copied_def)
  fix k assume "k < length new"
  then have k: "k < length source" using assms by (simp add: copied_def)
  then have "k div WT_EXT < extent_count (length source) WT_EXT"
    unfolding less_extent_count_iff [OF wt_constants(3)]
    by (meson div_times_less_eq_dividend le_less_trans)
  with k assms show "new ! k = source ! k" by (simp add: copied_def)
qed


section \<open>A small transfer\<close>

text \<open>A one-byte file, for evaluation.\<close>

definition one_byte_transfer :: "native_file_direction \<Rightarrow> transfer_resource \<Rightarrow> active_transfer" where
  "one_byte_transfer d r =
     \<lparr>at_transfer_id = ''t'', at_attachment_id = ''a'', at_peer_device_id = ''p'', at_direction = d,
      at_data_plane = WebTransport, at_total_bytes = 1, at_hard_expires_at = 1000, at_lna_token = None,
      at_webtransport_tokens = [], at_consumed_poisoned = False,
      at_webtransport_consumed = replicate 6 True,
      at_segments = \<lparr>sg_total_bytes = 1, sg_segment_bytes = FILE_WEBTRANSPORT_EXTENT_BYTES,
        sg_poisoned = False, sg_states = [Pending], sg_completed_bytes = 0\<rparr>,
      at_buffers = \<lparr>bp_block_size = FILE_IO_BLOCK_BYTES, bp_buffer_count = 24, bp_poisoned = False,
        bp_allocated = 0, bp_available = []\<rparr>,
      at_resource = r, at_last_activity_ms = 0, at_last_progress_ms = 0, at_last_progress_bytes = 0,
      at_cancelled = False\<rparr>"

definition one_byte_world :: "native_file_direction \<Rightarrow> transfer_resource \<Rightarrow> world" where
  "one_byte_world d r = manager_new\<lparr>w_active := Some 0, w_transfers := [one_byte_transfer d r]\<rparr>"

lemma extent_count_one: "extent_count 1 WT_EXT = 1"
  by (simp add: extent_count_def nat_div_ceil_def WT_EXT_def)

lemma one_byte_ready: "lane_ready 1 0 (one_byte_world d r)"
proof -
  have "FILE_WEBTRANSPORT_EXTENT_BYTES \<noteq> 0" using wt_constants(2,3) by (simp add: word_pos_iff)
  then show ?thesis
    using extent_count_one wt_constants(2)
    by (auto simp: lane_ready_def one_byte_world_def one_byte_transfer_def manager_new_def pool_room_def Let_def
        segments_inv_def sg_total_def sg_ext_def sg_in_def)
qed

lemma one_byte_pending: "sg_in Pending (segments_of 0 (one_byte_world d r)) = {..<extent_count 1 WT_EXT}"
  unfolding extent_count_one by (auto simp: one_byte_world_def one_byte_transfer_def sg_in_def)

section \<open>Properties\<close>

text \<open>C3. A file received over WebTransport arrives intact: when the peer sends the lanes of a file over
  its six connections, in any order of connections and any order of lanes, then every lane is
  accepted, the stored bytes are the file's, and the transfer's coverage is complete, whatever
  short counts the system's writes have.\<close>

theorem webtransport_copies_file:
  assumes "takes_some pwrite" and "clock_runs clk"
    and "\<forall>c \<in> set cs. cn_transfer c = a" and "distinct (map cn_index cs)" and "cn_index ` set cs = {..<6}"
    and "\<forall>c \<in> set cs. distinct (js c) \<and> set (js c) = {..<4}"
    and "lane_ready (length source) a (pl_world s)" and "length (pl_content s) = length source"
    and "sg_in Pending (segments_of a (pl_world s)) = {..<extent_count (length source) WT_EXT}"
  shows "\<exists>s'. receive_connections pwrite clk
             (map (\<lambda>c. (c, map (peer_stream source (cn_index c)) (js c))) cs) s = (Inr (), s') \<and>
           pl_content s' = source \<and> segments_is_complete (segments_of a (pl_world s')) \<and>
           kept a (pl_world s) (pl_world s')"
proof -
  have idx: "\<forall>c \<in> set cs. cn_transfer c = a \<and> cn_index c < 6" using assms(3,5) by auto
  have "(\<Union>c \<in> set cs. connection_slots (length source) (cn_index c)) =
      (\<Union>k \<in> cn_index ` set cs. connection_slots (length source) k)" by simp
  then have slots: "(\<Union>c \<in> set cs. connection_slots (length source) (cn_index c)) =
      {..<extent_count (length source) WT_EXT}"
    by (simp only: assms(5) all_connection_slots)
  have pend: "\<forall>c \<in> set cs. connection_slots (length source) (cn_index c) \<subseteq> sg_in Pending (segments_of a (pl_world s))"
    using slots assms(9) by blast
  obtain s' where s': "receive_connections pwrite clk
      (map (\<lambda>c. (c, map (peer_stream source (cn_index c)) (js c))) cs) s = (Inr (), s')"
    "lane_effect (length source) a {..<extent_count (length source) WT_EXT} (pl_world s) (pl_world s')"
    "copied source {..<extent_count (length source) WT_EXT} (pl_content s) (pl_content s')"
    using receive_connections_copy [OF assms(1,2) refl _ idx assms(4,7,8) pend, of js] assms(6)
    unfolding slots by blast
  have inv: "segments_inv (segments_of a (pl_world s'))" "sg_total (segments_of a (pl_world s')) = length source"
    "sg_ext (segments_of a (pl_world s')) = WT_EXT" using s'(2) by (simp_all add: lane_effect_def lane_ready_def)
  moreover have "sg_in Complete (segments_of a (pl_world s')) = {..<extent_count (length source) WT_EXT}"
    using s'(2) inv sg_in_subset [OF inv(1), of Complete] by (auto simp: lane_effect_def)
  ultimately have "segments_is_complete (segments_of a (pl_world s'))"
    by (simp add: segments_is_complete_iff)
  with s'(1,2) copied_all [OF s'(3)] show ?thesis by (auto simp: lane_effect_def)
qed

theorem webtransport_copies_file_witness:
  "\<exists>s'. receive_connections (\<lambda>offset bs. Inr 1) (\<lambda>_. 7)
       (map (\<lambda>c. (c, map (peer_stream [9] (cn_index c)) [3, 2, 1, 0]))
         (map (\<lambda>k. \<lparr>cn_transfer = 0, cn_index = k\<rparr>) [0, 1, 2, 3, 4, 5]))
       \<lparr>pl_world = one_byte_world BrowserToAgent (ReceiveResource 0 [''p''] [''f'']), pl_content = [0], pl_tick = 0\<rparr> =
       (Inr (), s') \<and> pl_content s' = [9]"
proof -
  have io: "takes_some (\<lambda>offset bs. Inr 1)" by (auto simp: takes_some_def Suc_le_eq)
  have clk: "clock_runs (\<lambda>_. 7)" by (simp add: clock_runs_def)
  have cs: "\<forall>c \<in> set (map (\<lambda>k. \<lparr>cn_transfer = 0, cn_index = k\<rparr>) [0, 1, 2, 3, 4, 5]). cn_transfer c = 0"
    "distinct (map cn_index (map (\<lambda>k. \<lparr>cn_transfer = 0, cn_index = k\<rparr>) [0, 1, 2, 3, 4, 5]))"
    "cn_index ` set (map (\<lambda>k. \<lparr>cn_transfer = 0, cn_index = k\<rparr>) [0, 1, 2, 3, 4, 5]) = {..<6}"
    by auto
  have js: "\<forall>c \<in> set (map (\<lambda>k. \<lparr>cn_transfer = 0, cn_index = k\<rparr>) [0, 1, 2, 3, 4, 5]).
      distinct [3, 2, 1, 0 :: nat] \<and> set [3, 2, 1, 0 :: nat] = {..<4}"
    by auto
  from webtransport_copies_file [OF io clk cs js, of "[9]"
      "\<lparr>pl_world = one_byte_world BrowserToAgent (ReceiveResource 0 [''p''] [''f'']), pl_content = [0], pl_tick = 0\<rparr>"]
  show ?thesis using one_byte_ready one_byte_pending by auto
qed

text \<open>A file is sent over WebTransport as the peer expects it: a connection of the Agent writes the
  four lane streams of the peer's format, in lane order, with exactly the bytes of the file,
  whatever short counts the system's reads have; its iterators end.\<close>

theorem webtransport_sends_file:
  assumes "reads_from source pread" and "clock_runs clk" and "cn_transfer c = a" and "cn_index c < 6"
    and "fits_wire (length source)" and "lane_ready (length source) a (pl_world s)"
    and "at_total_bytes (w_transfers (pl_world s) ! a) = word_of_nat (length source)"
    and "connection_slots (length source) (cn_index c) \<subseteq> sg_in Pending (segments_of a (pl_world s))"
  shows "\<exists>s'. send_connection pread clk c s =
             Some (Inr (), map (peer_stream source (cn_index c)) [0, 1, 2, 3], s') \<and>
           sg_in Complete (segments_of a (pl_world s')) =
             sg_in Complete (segments_of a (pl_world s)) \<union> connection_slots (length source) (cn_index c)"
proof -
  have js: "[0..<4] = [0, 1, 2, 3 :: nat]" by (simp add: upt_rec)
  have set4: "set [0, 1, 2, 3 :: nat] = {..<4}" by auto
  have pend: "\<forall>j \<in> set [0, 1, 2, 3]. set (slots_of (length source) (cn_index c) j) \<subseteq>
      sg_in Pending (segments_of a (pl_world s))"
    using assms(8) unfolding connection_slots_union [OF assms(4), symmetric] set4 by blast
  have "distinct [0, 1, 2, 3 :: nat]" by simp
  from send_lanes_emit [OF assms(1-4) refl assms(5-7) this _ pend] connection_slots_union [OF assms(4)]
  show ?thesis
    unfolding send_connection_def FILE_WEBTRANSPORT_LANES_PER_CONNECTION_def js set4
    by (auto simp: lane_effect_def)
qed

theorem webtransport_sends_file_witness:
  "\<exists>s'. send_connection (one_byte_reader [9]) (\<lambda>_. 7) \<lparr>cn_transfer = 0, cn_index = 0\<rparr>
       \<lparr>pl_world = one_byte_world AgentToBrowser (SendResource ''s'' 0), pl_content = [], pl_tick = 0\<rparr> =
     Some (Inr (), map (peer_stream [9] 0) [0, 1, 2, 3], s')"
proof -
  have io: "reads_from [9] (one_byte_reader [9])"
    by (auto simp: reads_from_def one_byte_reader_def intro!: exI [of _ 1])
  have clk: "clock_runs (\<lambda>_. 7)" by (simp add: clock_runs_def)
  have fits: "fits_wire (length [9 :: u8])" by (simp add: fits_wire_def WT_LANES_def WT_EXT_def)
  have whole: "at_total_bytes (w_transfers (one_byte_world d r) ! 0) = 1" for d r
    by (simp add: one_byte_world_def one_byte_transfer_def)
  from webtransport_sends_file [OF io clk _ _ fits, of "\<lparr>cn_transfer = 0, cn_index = 0\<rparr>" 0
      "\<lparr>pl_world = one_byte_world AgentToBrowser (SendResource ''s'' 0), pl_content = [], pl_tick = 0\<rparr>"]
  show ?thesis using one_byte_ready [of AgentToBrowser] one_byte_pending [of AgentToBrowser] whole
    by (auto simp: connection_slots_def)
qed

end
