(* ===== verification/Text_Utf8.thy ===== *)
theory Text_Utf8
  imports Text_Codec
begin

text \<open>
  Text as UTF-8 bytes: what the program uses of \<open>str::from_utf8\<close>, its error positions,
  \<open>String::from_utf8_lossy\<close>, \<open>trim\<close> and \<open>split\<close>.  A \<open>str\<close> is a list of characters, one per
  UTF-8 byte.
\<close>

section \<open>Text and bytes\<close>

definition chars_of :: "bytes \<Rightarrow> string" where
  "chars_of bs = map (\<lambda>b. char_of (unat b)) bs"

definition bytes_of :: "string \<Rightarrow> bytes" where
  "bytes_of s = map (\<lambda>c. word_of_nat (of_char c)) s"

lemma bytes_of_chars_of [simp]: "bytes_of (chars_of bs) = bs"
proof -
  have "word_of_nat (of_char (char_of (unat b) :: char)) = b" for b :: u8
    using u8_lt [of b] by (simp add: word_eq_nat_iff unat_of_nat)
  then show ?thesis by (simp add: bytes_of_def chars_of_def comp_def)
qed

lemma bytes_of_simps [simp]:
  "bytes_of [] = []" "bytes_of (c # s) = word_of_nat (of_char c) # bytes_of s"
  "bytes_of (s @ r) = bytes_of s @ bytes_of r" "length (bytes_of s) = length s"
  by (simp_all add: bytes_of_def)

lemma byte_of_char_inj: "(word_of_nat (of_char c) :: u8) = word_of_nat (of_char d) \<longleftrightarrow> c = d"
proof -
  have "unat (word_of_nat (of_char x) :: u8) = of_char x" for x :: char
  proof -
    have "(of_char x :: nat) < 256" by (cases x) simp
    then show ?thesis by (simp add: unat_of_nat)
  qed
  then show ?thesis by (metis of_char_eq_iff)
qed

section \<open>UTF-8\<close>

text \<open>
  The first character of a byte sequence as the validation of the standard library finds it: a
  character with its width, an ill-formed sequence with its \<open>error_len\<close>, or the beginning of a
  character at the end of the input.
\<close>

datatype utf8_head = Utf8Char nat | Utf8Bad nat | Utf8Truncated

definition utf8_continuation :: "u8 \<Rightarrow> bool" where
  "utf8_continuation b \<longleftrightarrow> 128 \<le> b \<and> b < 192"

definition utf8_second :: "u8 \<Rightarrow> u8 \<Rightarrow> bool" where
  "utf8_second a b \<longleftrightarrow>
     (if a = 224 then 160 \<le> b \<and> b < 192
      else if a = 237 then 128 \<le> b \<and> b < 160
      else if a = 240 then 144 \<le> b \<and> b < 192
      else if a = 244 then 128 \<le> b \<and> b < 144
      else utf8_continuation b)"

definition utf8_next :: "bytes \<Rightarrow> utf8_head" where
  "utf8_next bs =
     (case bs of
        [] \<Rightarrow> Utf8Truncated
      | a # r1 \<Rightarrow>
          if a < 128 then Utf8Char 1
          else if a < 194 \<or> 245 \<le> a then Utf8Bad 1
          else (case r1 of
            [] \<Rightarrow> Utf8Truncated
          | b # r2 \<Rightarrow>
              if \<not> utf8_second a b then Utf8Bad 1
              else if a < 224 then Utf8Char 2
              else (case r2 of
                [] \<Rightarrow> Utf8Truncated
              | c # r3 \<Rightarrow>
                  if \<not> utf8_continuation c then Utf8Bad 2
                  else if a < 240 then Utf8Char 3
                  else (case r3 of
                    [] \<Rightarrow> Utf8Truncated
                  | d # r4 \<Rightarrow> if \<not> utf8_continuation d then Utf8Bad 3 else Utf8Char 4))))"

lemma utf8_next_width:
  "utf8_next bs = Utf8Char n \<Longrightarrow> 0 < n \<and> n \<le> length bs"
  "utf8_next bs = Utf8Bad n \<Longrightarrow> 0 < n \<and> n \<le> length bs"
  by (auto simp: utf8_next_def split: list.splits if_splits)

lemma utf8_next_append:
  "utf8_next bs = Utf8Char n \<Longrightarrow> utf8_next (bs @ cs) = Utf8Char n"
  "utf8_next bs = Utf8Bad n \<Longrightarrow> utf8_next (bs @ cs) = Utf8Bad n"
  by (auto simp: utf8_next_def split: list.splits if_splits)

text \<open>The validation of a buffer: well formed, ill formed, or a truncated character is left over,
  which starts at \<open>valid_up_to\<close>.\<close>

datatype utf8_verdict = Utf8Valid | Utf8Invalid | Utf8Incomplete bytes

function utf8_check :: "bytes \<Rightarrow> utf8_verdict" where
  "utf8_check bs =
     (if bs = [] then Utf8Valid
      else (case utf8_next bs of
        Utf8Char n \<Rightarrow> utf8_check (drop n bs)
      | Utf8Bad _ \<Rightarrow> Utf8Invalid
      | Utf8Truncated \<Rightarrow> Utf8Incomplete bs))"
  by auto
termination by (relation "measure length") (auto dest: utf8_next_width(1))

declare utf8_check.simps [simp del]

definition valid_utf8 :: "bytes \<Rightarrow> bool" where
  "valid_utf8 bs \<longleftrightarrow> utf8_check bs = Utf8Valid"

lemma utf8_check_append:
  "utf8_check (bs @ cs) =
     (case utf8_check bs of
        Utf8Valid \<Rightarrow> utf8_check cs
      | Utf8Invalid \<Rightarrow> Utf8Invalid
      | Utf8Incomplete tail \<Rightarrow> utf8_check (tail @ cs))"
proof (induction bs rule: utf8_check.induct)
  case (1 bs)
  show ?case
  proof (cases "bs = []")
    case False
    show ?thesis
    proof (cases "utf8_next bs")
      case (Utf8Char n)
      with utf8_next_width(1) [OF Utf8Char] "1.IH" [OF False Utf8Char] False show ?thesis
        by (subst utf8_check.simps, subst (2) utf8_check.simps) (simp add: utf8_next_append)
    next
      case (Utf8Bad n)
      with False show ?thesis
        by (subst utf8_check.simps, subst (2) utf8_check.simps) (simp add: utf8_next_append)
    qed (use False in \<open>simp add: utf8_check.simps [of bs]\<close>)
  qed (simp add: utf8_check.simps [of "[]"])
qed

lemma utf8_check_Incomplete: "utf8_check bs = Utf8Incomplete tail \<Longrightarrow> tail \<noteq> []"
  by (induction bs rule: utf8_check.induct, subst (asm) (2) utf8_check.simps)
     (auto split: if_splits utf8_head.splits)

text \<open>\<open>from_utf8_lossy\<close>: every ill-formed sequence becomes one replacement character.\<close>

definition replacement :: bytes where "replacement = [239, 191, 189]"

function from_utf8_lossy :: "bytes \<Rightarrow> bytes" where
  "from_utf8_lossy bs =
     (if bs = [] then []
      else (case utf8_next bs of
        Utf8Char n \<Rightarrow> take n bs @ from_utf8_lossy (drop n bs)
      | Utf8Bad n \<Rightarrow> replacement @ from_utf8_lossy (drop n bs)
      | Utf8Truncated \<Rightarrow> replacement))"
  by auto
termination by (relation "measure length") (auto dest: utf8_next_width)

declare from_utf8_lossy.simps [simp del]

lemma from_utf8_lossy_valid: "utf8_check bs = Utf8Valid \<Longrightarrow> from_utf8_lossy bs = bs"
proof (induction bs rule: utf8_check.induct)
  case (1 bs)
  then show ?case
    by (subst (asm) (2) utf8_check.simps, subst from_utf8_lossy.simps) (auto split: if_splits utf8_head.splits)
qed

lemma utf8_check_char:
  assumes "utf8_next bs = Utf8Char n" shows "utf8_check (take n bs @ cs) = utf8_check cs"
proof -
  note w = utf8_next_width(1) [OF assms]
  have "utf8_next (take n bs) = Utf8Char n"
    using assms by (auto simp: utf8_next_def take_Cons' split: list.splits if_splits)
  then have "utf8_check (take n bs) = Utf8Valid"
    using w by (subst utf8_check.simps) (auto simp: utf8_check.simps)
  then show ?thesis by (simp add: utf8_check_append)
qed

lemma from_utf8_lossy_is_valid: "utf8_check (from_utf8_lossy bs) = Utf8Valid"
proof (induction bs rule: from_utf8_lossy.induct)
  case (1 bs)
  have r: "utf8_check (replacement @ cs) = utf8_check cs" for cs
    using utf8_check_char [of replacement 3]
    by (simp add: replacement_def utf8_next_def utf8_second_def utf8_continuation_def)
  have nil: "utf8_check [] = Utf8Valid" by (simp add: utf8_check.simps)
  show ?case
  proof (cases "bs = []")
    case False
    then show ?thesis
      using 1 r [of "[]"] by (subst from_utf8_lossy.simps) (auto simp: r nil utf8_check_char split: utf8_head.split)
  qed (simp add: from_utf8_lossy.simps nil)
qed

definition from_utf8 :: "bytes \<Rightarrow> string option" where
  "from_utf8 bs = (if valid_utf8 bs then Some (chars_of bs) else None)"

text \<open>\<open>trim\<close> removes Unicode white space: the encodings of its characters, as byte sequences.\<close>

definition white_space :: "string list" where
  "white_space =
     map (\<lambda>c. [c]) [CHR 0x09, CHR 0x0A, CHR 0x0B, CHR 0x0C, CHR 0x0D, CHR 0x20] @
     [[CHR 0xC2, CHR 0x85], [CHR 0xC2, CHR 0xA0], [CHR 0xE1, CHR 0x9A, CHR 0x80]] @
     map (\<lambda>c. [CHR 0xE2, CHR 0x80, c])
       [CHR 0x80, CHR 0x81, CHR 0x82, CHR 0x83, CHR 0x84, CHR 0x85, CHR 0x86, CHR 0x87, CHR 0x88,
        CHR 0x89, CHR 0x8A, CHR 0xA8, CHR 0xA9, CHR 0xAF] @
     [[CHR 0xE2, CHR 0x81, CHR 0x9F], [CHR 0xE3, CHR 0x80, CHR 0x80]]"

fun strip_one :: "string list \<Rightarrow> string \<Rightarrow> string option" where
  "strip_one [] s = None"
| "strip_one (w # ws) s = (case strip_prefix w s of Some r \<Rightarrow> Some r | None \<Rightarrow> strip_one ws s)"

lemma strip_one_less: "strip_one ws s = Some r \<Longrightarrow> [] \<notin> set ws \<Longrightarrow> length r < length s"
  by (induction ws) (auto simp: strip_prefix_Some_iff split: option.splits)

function strip_all :: "string list \<Rightarrow> string \<Rightarrow> string" where
  "strip_all ws s =
     (if [] \<in> set ws then s
      else (case strip_one ws s of None \<Rightarrow> s | Some r \<Rightarrow> strip_all ws r))"
  by auto
termination by (relation "measure (\<lambda>(ws, s). length s)") (auto dest: strip_one_less)

declare strip_all.simps [simp del]

definition trim :: "string \<Rightarrow> string" where
  "trim s = rev (strip_all (map rev white_space) (rev (strip_all white_space s)))"

text \<open>\<open>split\<close> by a string.\<close>

function split_str :: "'a list \<Rightarrow> 'a list \<Rightarrow> 'a list list" where
  "split_str sep s =
     (if sep = [] then [s]
      else (case split_once sep s of None \<Rightarrow> [s] | Some (a, b) \<Rightarrow> a # split_str sep b))"
  by auto
termination
  by (relation "measure (\<lambda>(sep, s). length s)") (auto dest!: split_once_Some)

declare split_str.simps [simp del]

text \<open>\<open>replace\<close> with a non-empty pattern.\<close>

fun join_with :: "'a list \<Rightarrow> 'a list list \<Rightarrow> 'a list" where
  "join_with sep [] = []"
| "join_with sep [x] = x"
| "join_with sep (x # y # ys) = x @ sep @ join_with sep (y # ys)"

definition replace_all :: "'a list \<Rightarrow> 'a list \<Rightarrow> 'a list \<Rightarrow> 'a list" where
  "replace_all pattern by_what s = join_with by_what (split_str pattern s)"

end
