(* ===== verification/Git_Diff.thy ===== *)
theory Git_Diff
  imports Text_Utf8 "HOL-Library.AList" "HOL-Library.List_Lexorder"
begin

text \<open>
  The Git differences of crates/winrisef-version-control: the data of src/models.rs and, of
  src/repository/diff.rs, the choice of the comparison, the records made of its deltas, the
  conflict and stash views, the session and the texts of a preview.

  libgit2 is a library and the working tree is a file system: \<open>git_env\<close> holds what they answer.
  A path is the text of its lossy conversion.  The lemmas show that a session is well formed, that
  the streamed text check is the check of the whole file, and that what a session lists as text
  can be previewed.
\<close>

section \<open>Data\<close>

definition PREVIEW_SIDE_LIMIT :: usize where "PREVIEW_SIDE_LIMIT = 2 * 1024 * 1024"
definition EXPORT_SIDE_LIMIT :: usize where "EXPORT_SIDE_LIMIT = 32 * 1024 * 1024"

datatype revision_ref = RevEmpty | RevCommit string | RevStash string | RevWorkingTree | RevIndex

datatype working_tree_group = GroupAll | GroupStaged | GroupUnstaged | GroupUntracked | GroupConflicted

datatype conflict_perspective = BaseToOurs | BaseToTheirs | OursToTheirs | HeadToWorking

datatype vcs_error =
    GitError
  | VcsIo
  | InvalidRevision
  | MissingDiffFile
  | BinaryFile
  | FileTooLarge
  | InvalidText
  | NoFilesSelected
  | UnsupportedExportFile
  | SerializationError

record diff_summary =
  su_files_changed :: usize
  su_files_added :: usize
  su_files_modified :: usize
  su_files_deleted :: usize
  su_files_renamed :: usize
  su_files_conflicted :: usize
  su_insertions :: usize
  su_deletions :: usize

record diff_file =
  df_file_id :: u32
  df_path :: string
  df_old_path :: "string option"
  df_status :: string
  df_groups :: "working_tree_group list"
  df_additions :: usize
  df_deletions :: usize
  df_is_binary :: bool
  df_is_submodule :: bool
  df_preview_too_large :: bool
  df_export_too_large :: bool
  df_has_conflict_views :: bool

record preview_content =
  pc_original :: string
  pc_modified :: string
  pc_perspective :: conflict_perspective

type_synonym oid = bytes

datatype content_source = SourceEmpty | Blob oid | Workdir string | Gitlink oid

record conflict_sources =
  cs_base :: content_source
  cs_ours :: content_source
  cs_theirs :: content_source
  cs_head :: content_source
  cs_working :: content_source

record diff_record =
  dr_public :: diff_file
  dr_original :: content_source
  dr_modified :: content_source
  dr_conflict :: "conflict_sources option"

record diff_session =
  ds_old_revision :: revision_ref
  ds_new_revision :: revision_ref
  ds_group :: working_tree_group
  ds_summary :: diff_summary
  ds_records :: "diff_record list"

definition diff_session_len :: "diff_session \<Rightarrow> usize" where
  "diff_session_len s = length (ds_records s)"

definition diff_session_files :: "diff_session \<Rightarrow> diff_file list" where
  "diff_session_files s = map dr_public (ds_records s)"

section \<open>libgit2 and the working tree\<close>

datatype file_mode = ModeCommit | ModeOther

datatype delta_kind =
    DeltaUnmodified
  | DeltaAdded
  | DeltaDeleted
  | DeltaModified
  | DeltaRenamed
  | DeltaCopied
  | DeltaIgnored
  | DeltaUntracked
  | DeltaTypechange
  | DeltaUnreadable
  | DeltaConflicted

record git_delta =
  gd_status :: delta_kind
  gd_old_path :: "string option"
  gd_new_path :: "string option"
  gd_old_id :: oid
  gd_new_id :: oid
  gd_old_mode :: file_mode
  gd_new_mode :: file_mode

text \<open>The callbacks of \<open>foreach\<close>: a delta with the path it names, or the origin of a line.\<close>

datatype diff_event = DeltaEvent "string option" | LineEvent char

datatype status_flag =
    IndexNew | IndexModified | IndexDeleted | IndexRenamed | IndexTypechange
  | WtNew | WtModified | WtDeleted | WtRenamed | WtTypechange | StatusConflicted

text \<open>A regular file with what its reads deliver, a symbolic link with its target, a directory, whose
  content cannot be read.\<close>

datatype workdir_entry = Regular "bytes list" | Symlink string | Directory usize

text \<open>A comparison libgit2 is asked for; a tree is its revision.\<close>

datatype diff_request =
    IndexToWorkdir
  | TreeToIndex "oid option"
  | TreeToWorkdirWithIndex "oid option"
  | TreeToTree "oid option" "oid option"

record index_conflict =
  ix_our :: "(string \<times> oid) option"
  ix_their :: "(string \<times> oid) option"
  ix_ancestor :: "(string \<times> oid) option"

record git_env =
  ge_oid_from_str :: "string \<Rightarrow> oid option"
  ge_commit_tree :: "oid \<Rightarrow> oid option"
  ge_diff :: "diff_request \<Rightarrow> (git_delta list \<times> diff_event list) option"
  ge_statuses :: "(string \<times> status_flag set) list option"
  ge_blob :: "oid \<Rightarrow> (bytes \<times> bool) option"
  ge_has_workdir :: bool
  ge_file :: "string \<Rightarrow> workdir_entry option"
  ge_conflicts :: "index_conflict list option"
  ge_head_blob :: "string \<Rightarrow> oid option"
  ge_parents :: "oid \<Rightarrow> oid list option"

definition is_zero_oid :: "oid \<Rightarrow> bool" where
  "is_zero_oid oid \<longleftrightarrow> list_all (\<lambda>b. b = 0) oid"

section \<open>The comparison\<close>

datatype new_side = SideTree | SideIndex | SideWorkdir

definition revision_tree :: "git_env \<Rightarrow> revision_ref \<Rightarrow> vcs_error + oid option" where
  "revision_tree g revision =
     (let commit = (\<lambda>text. and_then (ok_or (ge_oid_from_str g text) InvalidRevision) (\<lambda>oid.
                      and_then (ok_or (ge_commit_tree g oid) GitError) (\<lambda>tree. Inr (Some tree))))
      in case revision of
           RevEmpty \<Rightarrow> Inr None
         | RevCommit text \<Rightarrow> commit text
         | RevStash text \<Rightarrow> commit text
         | RevWorkingTree \<Rightarrow> Inl InvalidRevision
         | RevIndex \<Rightarrow> Inl InvalidRevision)"

definition run_diff :: "git_env \<Rightarrow> diff_request \<Rightarrow> new_side \<Rightarrow> vcs_error + (git_delta list \<times> diff_event list) \<times> new_side" where
  "run_diff g request side = and_then (ok_or (ge_diff g request) GitError) (\<lambda>d. Inr (d, side))"

definition build_diff ::
  "git_env \<Rightarrow> revision_ref \<Rightarrow> revision_ref \<Rightarrow> working_tree_group \<Rightarrow>
     vcs_error + (git_delta list \<times> diff_event list) \<times> new_side" where
  "build_diff g old new grp =
     (if new = RevWorkingTree then
        (if grp = GroupUnstaged \<or> grp = GroupUntracked then run_diff g IndexToWorkdir SideWorkdir
         else and_then (revision_tree g old) (\<lambda>tree.
           if grp = GroupStaged then run_diff g (TreeToIndex tree) SideIndex
           else run_diff g (TreeToWorkdirWithIndex tree) SideWorkdir))
      else if new = RevIndex then
        and_then (revision_tree g old) (\<lambda>tree. run_diff g (TreeToIndex tree) SideIndex)
      else and_then (revision_tree g old) (\<lambda>old_tree. and_then (revision_tree g new) (\<lambda>new_tree.
        run_diff g (TreeToTree old_tree new_tree) SideTree)))"

section \<open>Sources\<close>

definition tree_source :: "oid \<Rightarrow> file_mode \<Rightarrow> content_source" where
  "tree_source oid mode =
     (if is_zero_oid oid then SourceEmpty else if mode = ModeCommit then Gitlink oid else Blob oid)"

definition index_entry_source :: "(string \<times> oid) option \<Rightarrow> content_source" where
  "index_entry_source entry =
     (case entry of None \<Rightarrow> SourceEmpty | Some (_, oid) \<Rightarrow> if is_zero_oid oid then SourceEmpty else Blob oid)"

definition head_source :: "git_env \<Rightarrow> string \<Rightarrow> content_source" where
  "head_source g path = (case ge_head_blob g path of None \<Rightarrow> SourceEmpty | Some oid \<Rightarrow> Blob oid)"

definition binary_sample :: "bytes \<Rightarrow> bool" where
  "binary_sample bs \<longleftrightarrow> 0 \<in> set bs"

text \<open>The reads of the check, each non-empty, and what is left of a character between them.\<close>

fun invalid_workdir_text :: "bytes \<Rightarrow> bytes list \<Rightarrow> bool" where
  "invalid_workdir_text pending [] = (pending \<noteq> [])"
| "invalid_workdir_text pending (chunk # chunks) =
     (if binary_sample chunk then True
      else case utf8_check (pending @ chunk) of
        Utf8Valid \<Rightarrow> invalid_workdir_text [] chunks
      | Utf8Invalid \<Rightarrow> True
      | Utf8Incomplete tail \<Rightarrow> invalid_workdir_text tail chunks)"

text \<open>Above the limit only the first read is sampled.\<close>

definition source_info :: "git_env \<Rightarrow> content_source \<Rightarrow> vcs_error + usize \<times> bool" where
  "source_info g source =
     (case source of
        SourceEmpty \<Rightarrow> Inr (0, False)
      | Gitlink _ \<Rightarrow> Inr (40, False)
      | Blob oid \<Rightarrow> and_then (ok_or (ge_blob g oid) GitError) (\<lambda>(content, flagged).
          Inr (length content, flagged \<or> (length content \<le> EXPORT_SIDE_LIMIT \<and> \<not> valid_utf8 content)))
      | Workdir path \<Rightarrow>
          if \<not> ge_has_workdir g then Inl InvalidRevision
          else (case ge_file g path of
            None \<Rightarrow> Inl VcsIo
          | Some (Symlink target) \<Rightarrow> Inr (length target, False)
          | Some (Directory _) \<Rightarrow> Inl VcsIo
          | Some (Regular reads) \<Rightarrow>
              let read_size = length (concat reads)
              in Inr (read_size, if read_size \<le> EXPORT_SIDE_LIMIT then invalid_workdir_text [] reads
                            else (case reads of [] \<Rightarrow> False | sample # _ \<Rightarrow> binary_sample sample))))"

definition crlf :: string where "crlf = [CHR 0x0D, CHR 0x0A]"

definition load_bytes :: "git_env \<Rightarrow> content_source \<Rightarrow> usize \<Rightarrow> vcs_error + bytes" where
  "load_bytes g source limit =
     (case source of
        SourceEmpty \<Rightarrow> Inr []
      | Gitlink oid \<Rightarrow> Inr (bytes_of (''Subproject commit '' @ format_hex oid @ [CHR 0x0A]))
      | Blob oid \<Rightarrow> and_then (ok_or (ge_blob g oid) GitError) (\<lambda>(content, flagged).
          if limit < length content then Inl FileTooLarge
          else if flagged then Inl BinaryFile
          else Inr content)
      | Workdir path \<Rightarrow>
          if \<not> ge_has_workdir g then Inl InvalidRevision
          else (case ge_file g path of
            None \<Rightarrow> Inl VcsIo
          | Some (Symlink target) \<Rightarrow> if limit < length target then Inl FileTooLarge else Inr (bytes_of target)
          | Some (Directory metadata_len) \<Rightarrow> if limit < metadata_len then Inl FileTooLarge else Inl VcsIo
          | Some (Regular reads) \<Rightarrow>
              if limit < length (concat reads) then Inl FileTooLarge else Inr (concat reads)))"

definition load_text :: "git_env \<Rightarrow> content_source \<Rightarrow> usize \<Rightarrow> vcs_error + string" where
  "load_text g source limit =
     and_then (load_bytes g source limit) (\<lambda>bs.
     and_then (ensure (length bs \<le> limit) FileTooLarge) (\<lambda>_.
     and_then (ensure (\<not> binary_sample bs) BinaryFile) (\<lambda>_.
     and_then (ok_or (from_utf8 bs) InvalidText) (\<lambda>decoded.
     Inr (replace_all crlf [CHR 0x0A] decoded)))))"

section \<open>Records\<close>

definition is_index_status :: "status_flag set \<Rightarrow> bool" where
  "is_index_status st \<longleftrightarrow> IndexNew \<in> st \<or> IndexModified \<in> st \<or> IndexDeleted \<in> st \<or> IndexRenamed \<in> st \<or>
     IndexTypechange \<in> st"

definition is_worktree_status :: "status_flag set \<Rightarrow> bool" where
  "is_worktree_status st \<longleftrightarrow> WtModified \<in> st \<or> WtDeleted \<in> st \<or> WtRenamed \<in> st \<or> WtTypechange \<in> st"

definition worktree_groups :: "status_flag set \<Rightarrow> delta_kind \<Rightarrow> working_tree_group list" where
  "worktree_groups st kind =
     (if is_index_status st then [GroupStaged] else []) @
     (if WtNew \<in> st \<or> kind = DeltaUntracked then [GroupUntracked]
      else if is_worktree_status st then [GroupUnstaged] else []) @
     (if StatusConflicted \<in> st then [GroupConflicted] else [])"

fun delta_status :: "delta_kind \<Rightarrow> string" where
  "delta_status DeltaAdded = ''Added''"
| "delta_status DeltaUntracked = ''Added''"
| "delta_status DeltaDeleted = ''Deleted''"
| "delta_status DeltaRenamed = ''Renamed''"
| "delta_status _ = ''Modified''"

text \<open>Line counts by path; lines of a delta without a path are counted for nobody.\<close>

fun collect_line_stats ::
  "string \<Rightarrow> (string \<times> nat \<times> nat) list \<Rightarrow> diff_event list \<Rightarrow> (string \<times> nat \<times> nat) list" where
  "collect_line_stats current stats [] = stats"
| "collect_line_stats current stats (DeltaEvent None # es) = collect_line_stats [] stats es"
| "collect_line_stats current stats (DeltaEvent (Some path) # es) =
     collect_line_stats path (if map_of stats path = None then AList.update path (0, 0) stats else stats) es"
| "collect_line_stats current stats (LineEvent origin # es) =
     collect_line_stats current
       (case map_of stats current of
          None \<Rightarrow> stats
        | Some (additions, deletions) \<Rightarrow>
            if origin = CHR ''+'' then AList.update current (additions + 1, deletions) stats
            else if origin = CHR ''-'' then AList.update current (additions, deletions + 1) stats
            else stats) es"

definition delta_path :: "git_delta \<Rightarrow> string option" where
  "delta_path d = (case gd_new_path d of Some p \<Rightarrow> Some p | None \<Rightarrow> gd_old_path d)"

definition record_of_delta ::
  "git_env \<Rightarrow> new_side \<Rightarrow> (string \<times> nat \<times> nat) list \<Rightarrow> (string \<times> status_flag set) list \<Rightarrow> git_delta \<Rightarrow>
     vcs_error + diff_record" where
  "record_of_delta g side stats statuses d =
     and_then (ok_or (delta_path d) MissingDiffFile) (\<lambda>path.
       let original = tree_source (gd_old_id d) (gd_old_mode d);
           modified = (if side = SideWorkdir \<and> gd_status d \<noteq> DeltaDeleted then Workdir path
                       else tree_source (gd_new_id d) (gd_new_mode d))
       in and_then (source_info g original) (\<lambda>(old_size, old_binary).
          and_then (source_info g modified) (\<lambda>(new_size, new_binary).
            let st = (case map_of statuses path of None \<Rightarrow> {} | Some st \<Rightarrow> st);
                (additions, deletions) = (case map_of stats path of None \<Rightarrow> (0, 0) | Some s \<Rightarrow> s)
            in Inr \<lparr>dr_public =
                 \<lparr>df_file_id = 0, df_path = path,
                  df_old_path = (if gd_status d = DeltaRenamed then gd_old_path d else None),
                  df_status = delta_status (gd_status d), df_groups = worktree_groups st (gd_status d),
                  df_additions = additions, df_deletions = deletions,
                  df_is_binary = old_binary \<or> new_binary,
                  df_is_submodule = gd_old_mode d = ModeCommit \<or> gd_new_mode d = ModeCommit,
                  df_preview_too_large = PREVIEW_SIDE_LIMIT < old_size \<or> PREVIEW_SIDE_LIMIT < new_size,
                  df_export_too_large = EXPORT_SIDE_LIMIT < old_size \<or> EXPORT_SIDE_LIMIT < new_size,
                  df_has_conflict_views = False\<rparr>,
                dr_original = original, dr_modified = modified, dr_conflict = None\<rparr>)))"

fun all_results :: "('e + 'a) list \<Rightarrow> 'e + 'a list" where
  "all_results [] = Inr []"
| "all_results (r # rs) = and_then r (\<lambda>x. and_then (all_results rs) (\<lambda>xs. Inr (x # xs)))"

definition records_from_diff ::
  "git_env \<Rightarrow> git_delta list \<times> diff_event list \<Rightarrow> new_side \<Rightarrow> vcs_error + diff_record list" where
  "records_from_diff g d side =
     (let stats = collect_line_stats [] [] (snd d)
      in and_then (if side = SideTree then Inr [] else ok_or (ge_statuses g) GitError) (\<lambda>statuses.
         all_results (map (record_of_delta g side stats statuses) (fst d))))"

section \<open>Sessions\<close>

fun number_records :: "nat \<Rightarrow> diff_record list \<Rightarrow> diff_record list" where
  "number_records i [] = []"
| "number_records i (r # rs) =
     r\<lparr>dr_public := (dr_public r)\<lparr>df_file_id := word_of_nat i\<rparr>\<rparr> # number_records (Suc i) rs"

definition summary_zero :: diff_summary where
  "summary_zero = \<lparr>su_files_changed = 0, su_files_added = 0, su_files_modified = 0, su_files_deleted = 0,
     su_files_renamed = 0, su_files_conflicted = 0, su_insertions = 0, su_deletions = 0\<rparr>"

definition summary_add :: "diff_summary \<Rightarrow> diff_file \<Rightarrow> diff_summary" where
  "summary_add s f =
     (let counted = s\<lparr>su_insertions := su_insertions s + df_additions f, su_deletions := su_deletions s + df_deletions f\<rparr>
      in if df_status f = ''Added'' then counted\<lparr>su_files_added := su_files_added s + 1\<rparr>
         else if df_status f = ''Deleted'' then counted\<lparr>su_files_deleted := su_files_deleted s + 1\<rparr>
         else if df_status f = ''Renamed'' then counted\<lparr>su_files_renamed := su_files_renamed s + 1\<rparr>
         else if df_status f = ''Conflicted'' then counted\<lparr>su_files_conflicted := su_files_conflicted s + 1\<rparr>
         else counted\<lparr>su_files_modified := su_files_modified s + 1\<rparr>)"

definition record_path :: "diff_record \<Rightarrow> string" where
  "record_path r = df_path (dr_public r)"

definition finish_session ::
  "revision_ref \<Rightarrow> revision_ref \<Rightarrow> working_tree_group \<Rightarrow> diff_record list \<Rightarrow> diff_session" where
  "finish_session old new grp records =
     (let numbered = number_records 0 (sort_key record_path records);
          summary = foldl (\<lambda>s r. summary_add s (dr_public r)) summary_zero numbered
      in \<lparr>ds_old_revision = old, ds_new_revision = new, ds_group = grp,
          ds_summary = summary\<lparr>su_files_changed := length numbered\<rparr>, ds_records = numbered\<rparr>)"

definition conflict_record :: "git_env \<Rightarrow> index_conflict \<Rightarrow> vcs_error + diff_record" where
  "conflict_record g c =
     and_then (ok_or (case ix_our c of Some (p, _) \<Rightarrow> Some p | None \<Rightarrow>
                 (case ix_their c of Some (p, _) \<Rightarrow> Some p | None \<Rightarrow> map_option fst (ix_ancestor c))) MissingDiffFile) (\<lambda>path.
       let base = index_entry_source (ix_ancestor c); ours = index_entry_source (ix_our c);
           theirs = index_entry_source (ix_their c); head = head_source g path; working = Workdir path
       in and_then (all_results (map (source_info g) [base, ours, theirs, head, working])) (\<lambda>infos.
          Inr \<lparr>dr_public =
               \<lparr>df_file_id = 0, df_path = path, df_old_path = None, df_status = ''Conflicted'',
                df_groups = [GroupConflicted], df_additions = 0, df_deletions = 0,
                df_is_binary = list_ex snd infos, df_is_submodule = False,
                df_preview_too_large = list_ex (\<lambda>i. PREVIEW_SIDE_LIMIT < fst i) infos,
                df_export_too_large = list_ex (\<lambda>i. EXPORT_SIDE_LIMIT < fst i) infos,
                df_has_conflict_views = True\<rparr>,
              dr_original = head, dr_modified = working,
              dr_conflict = Some \<lparr>cs_base = base, cs_ours = ours, cs_theirs = theirs, cs_head = head, cs_working = working\<rparr>\<rparr>))"

definition conflict_diff :: "git_env \<Rightarrow> revision_ref \<Rightarrow> revision_ref \<Rightarrow> vcs_error + diff_session" where
  "conflict_diff g old new =
     and_then (ok_or (ge_conflicts g) GitError) (\<lambda>conflicts.
     and_then (all_results (map (conflict_record g) conflicts)) (\<lambda>records.
     Inr (finish_session old new GroupConflicted records)))"

text \<open>The comparison of two trees that the stash view uses, which neither filters nor recurses.\<close>

definition retained :: "working_tree_group \<Rightarrow> diff_record list \<Rightarrow> diff_record list" where
  "retained grp records =
     (if grp \<in> {GroupUntracked, GroupStaged, GroupUnstaged}
      then filter (\<lambda>r. grp \<in> set (df_groups (dr_public r))) records else records)"

definition plain_diff ::
  "git_env \<Rightarrow> revision_ref \<Rightarrow> revision_ref \<Rightarrow> working_tree_group \<Rightarrow> vcs_error + diff_session" where
  "plain_diff g old new grp =
     and_then (build_diff g old new grp) (\<lambda>(d, side).
     and_then (records_from_diff g d side) (\<lambda>records.
     Inr (finish_session old new grp (retained grp records))))"

definition commit_ref :: "oid \<Rightarrow> revision_ref" where
  "commit_ref oid = RevCommit (format_hex oid)"

definition stash_diff :: "git_env \<Rightarrow> revision_ref \<Rightarrow> revision_ref \<Rightarrow> string \<Rightarrow> vcs_error + diff_session" where
  "stash_diff g old new stash_text =
     and_then (ok_or (ge_oid_from_str g stash_text) InvalidRevision) (\<lambda>stash.
     and_then (ok_or (ge_parents g stash) GitError) (\<lambda>parents.
     if parents = [] then Inl GitError
     else and_then (plain_diff g (commit_ref (hd parents)) (commit_ref stash) GroupAll) (\<lambda>tracked.
       and_then (if 2 < length parents
                 then and_then (plain_diff g RevEmpty (commit_ref (parents ! 2)) GroupAll) (\<lambda>untracked.
                   Inr (map snd (foldl (\<lambda>m r. AList.update (record_path r) r m) []
                                  (ds_records tracked @ ds_records untracked))))
                 else Inr (ds_records tracked)) (\<lambda>records.
       Inr (finish_session old new GroupAll records)))))"

definition create_diff ::
  "git_env \<Rightarrow> revision_ref \<Rightarrow> revision_ref \<Rightarrow> working_tree_group \<Rightarrow> vcs_error + diff_session" where
  "create_diff g old new grp =
     (if grp = GroupConflicted then conflict_diff g old new
      else case new of
        RevStash stash_text \<Rightarrow> stash_diff g old new stash_text
      | _ \<Rightarrow> plain_diff g old new grp)"

definition preview :: "git_env \<Rightarrow> diff_session \<Rightarrow> u32 \<Rightarrow> conflict_perspective \<Rightarrow> vcs_error + preview_content" where
  "preview g session file_id perspective =
     and_then (if unat file_id < length (ds_records session) \<and>
                  df_file_id (dr_public (ds_records session ! unat file_id)) = file_id
               then Inr (ds_records session ! unat file_id) else Inl MissingDiffFile) (\<lambda>r.
     and_then (ensure (\<not> df_is_binary (dr_public r)) BinaryFile) (\<lambda>_.
     and_then (ensure (\<not> df_preview_too_large (dr_public r)) FileTooLarge) (\<lambda>_.
       let (original, modified) =
             (case dr_conflict r of
                None \<Rightarrow> (dr_original r, dr_modified r)
              | Some c \<Rightarrow> (case perspective of
                  BaseToOurs \<Rightarrow> (cs_base c, cs_ours c)
                | BaseToTheirs \<Rightarrow> (cs_base c, cs_theirs c)
                | OursToTheirs \<Rightarrow> (cs_ours c, cs_theirs c)
                | HeadToWorking \<Rightarrow> (cs_head c, cs_working c)))
       in and_then (load_text g original PREVIEW_SIDE_LIMIT) (\<lambda>left.
          and_then (load_text g modified PREVIEW_SIDE_LIMIT) (\<lambda>right.
          Inr \<lparr>pc_original = left, pc_modified = right, pc_perspective = perspective\<rparr>)))))"

section \<open>The streamed check\<close>

lemma utf8_check_tail: "utf8_check bs = Utf8Incomplete tail \<Longrightarrow> utf8_check tail = Utf8Incomplete tail"
proof (induction bs rule: utf8_check.induct)
  case (1 bs)
  show ?case
  proof (cases "bs = [] \<or> utf8_next bs = Utf8Truncated")
    case True
    then have "tail = bs" using 1(2) by (auto simp: utf8_check.simps [of bs] split: if_splits)
    with 1(2) show ?thesis by simp
  next
    case False
    with 1(2) obtain n where n: "utf8_next bs = Utf8Char n" "utf8_check (drop n bs) = Utf8Incomplete tail"
      by (auto simp: utf8_check.simps [of bs] split: utf8_head.splits)
    with 1(1) [of n] False show ?thesis by simp
  qed
qed

lemma utf8_check_nil [simp]: "utf8_check [] = Utf8Valid"
  by (simp add: utf8_check.simps)

lemma invalid_text_pending:
  assumes "pending = [] \<or> utf8_check pending = Utf8Incomplete pending"
  shows "invalid_workdir_text pending reads \<longleftrightarrow>
           0 \<in> set (concat reads) \<or> utf8_check (pending @ concat reads) \<noteq> Utf8Valid"
  using assms
proof (induction reads arbitrary: pending)
  case (Cons chunk reads)
  have split: "utf8_check (pending @ concat (chunk # reads)) =
      (case utf8_check (pending @ chunk) of
         Utf8Valid \<Rightarrow> utf8_check (concat reads)
       | Utf8Invalid \<Rightarrow> Utf8Invalid
       | Utf8Incomplete tail \<Rightarrow> utf8_check (tail @ concat reads))"
    using utf8_check_append [of "pending @ chunk" "concat reads"] by simp
  show ?case
  proof (cases "binary_sample chunk")
    case False
    then show ?thesis
      unfolding split using Cons.IH [of "[]"] Cons.IH utf8_check_tail [of "pending @ chunk"]
      by (auto simp: binary_sample_def split: utf8_verdict.splits)
  qed (simp add: binary_sample_def)
qed auto

text \<open>However the reads cut the file, also inside a character, the streamed check of a working-tree
  file accepts it as text exactly when the whole file is valid UTF-8 without a zero byte.\<close>
theorem streamed_text_check:
  "\<not> invalid_workdir_text [] reads \<longleftrightarrow> valid_utf8 (concat reads) \<and> 0 \<notin> set (concat reads)"
  by (auto simp: invalid_text_pending valid_utf8_def)

section \<open>Well-formed sessions\<close>

lemma length_number_records [simp]: "length (number_records i rs) = length rs"
  by (induction rs arbitrary: i) simp_all

lemma nth_number_records:
  "j < length rs \<Longrightarrow> number_records i rs ! j = (rs ! j)\<lparr>dr_public := (dr_public (rs ! j))\<lparr>df_file_id := word_of_nat (i + j)\<rparr>\<rparr>"
proof (induction rs arbitrary: i j)
  case (Cons r rs)
  then show ?case by (cases j) simp_all
qed simp

lemma number_records_paths: "map record_path (number_records i rs) = map record_path rs"
  by (induction rs arbitrary: i) (simp_all add: record_path_def)

definition summary_total :: "diff_summary \<Rightarrow> nat" where
  "summary_total s = su_files_added s + su_files_modified s + su_files_deleted s + su_files_renamed s +
     su_files_conflicted s"

lemma summary_fold:
  "summary_total (foldl (\<lambda>s r. summary_add s (dr_public r)) s rs) = summary_total s + length rs \<and>
   su_insertions (foldl (\<lambda>s r. summary_add s (dr_public r)) s rs) =
     su_insertions s + sum_list (map (df_additions \<circ> dr_public) rs) \<and>
   su_deletions (foldl (\<lambda>s r. summary_add s (dr_public r)) s rs) =
     su_deletions s + sum_list (map (df_deletions \<circ> dr_public) rs)"
  by (induction rs arbitrary: s) (simp_all add: summary_add_def summary_total_def Let_def)

definition session_ok :: "diff_session \<Rightarrow> bool" where
  "session_ok s \<longleftrightarrow>
     sorted (map df_path (diff_session_files s)) \<and>
     (\<forall>i < diff_session_len s. df_file_id (diff_session_files s ! i) = word_of_nat i) \<and>
     su_files_changed (ds_summary s) = diff_session_len s \<and>
     summary_total (ds_summary s) = diff_session_len s \<and>
     su_insertions (ds_summary s) = sum_list (map df_additions (diff_session_files s)) \<and>
     su_deletions (ds_summary s) = sum_list (map df_deletions (diff_session_files s))"

lemma finish_session_ok: "session_ok (finish_session old new grp records)"
proof -
  let ?rs = "number_records 0 (sort_key record_path records)"
  have recs: "ds_records (finish_session old new grp records) = ?rs" by (simp add: finish_session_def Let_def)
  have "map df_path (map dr_public ?rs) = map record_path ?rs" by (simp add: record_path_def)
  also have "\<dots> = map record_path (sort_key record_path records)" by (rule number_records_paths)
  finally have "map df_path (map dr_public ?rs) = map record_path (sort_key record_path records)" .
  then have "sorted (map df_path (map dr_public ?rs))" by simp
  then show ?thesis
    using summary_fold [of summary_zero ?rs]
    by (simp add: session_ok_def diff_session_files_def diff_session_len_def recs nth_number_records)
       (simp add: finish_session_def Let_def summary_zero_def summary_total_def comp_def)
qed

lemma finish_session_records:
  "set (ds_records (finish_session old new grp records)) \<subseteq>
     {r\<lparr>dr_public := (dr_public r)\<lparr>df_file_id := i\<rparr>\<rparr> | r i. r \<in> set records}"
proof
  fix x
  assume "x \<in> set (ds_records (finish_session old new grp records))"
  then obtain j where j: "j < length (sort_key record_path records)"
    and x: "x = number_records 0 (sort_key record_path records) ! j"
    by (auto simp: finish_session_def Let_def in_set_conv_nth)
  have "sort_key record_path records ! j \<in> set records" using nth_mem [OF j] by simp
  with x nth_number_records [OF j] show "x \<in> {r\<lparr>dr_public := (dr_public r)\<lparr>df_file_id := i\<rparr>\<rparr> | r i. r \<in> set records}"
    by auto
qed

lemma create_diff_session:
  assumes "create_diff g old new grp = Inr s"
  shows "\<exists>old' new' grp' records. s = finish_session old' new' grp' records"
  using assms
  by (auto simp: create_diff_def conflict_diff_def stash_diff_def plain_diff_def result_simps
      split: if_splits revision_ref.splits prod.splits)

text \<open>C28.  Every session is well formed: its files are in the order of their paths, a file's identifier
  is its position, and the summary counts each file in one category and each line once; in the
  staged, unstaged and untracked views only files of that group are left.\<close>
theorem session_well_formed:
  assumes "create_diff g old new grp = Inr s"
  shows "session_ok s \<and>
         (grp \<in> {GroupStaged, GroupUnstaged, GroupUntracked} \<and> (\<forall>text. new \<noteq> RevStash text) \<longrightarrow>
            (\<forall>f \<in> set (diff_session_files s). grp \<in> set (df_groups f)))"
proof
  show "session_ok s" using create_diff_session [OF assms] finish_session_ok by blast
  show "grp \<in> {GroupStaged, GroupUnstaged, GroupUntracked} \<and> (\<forall>text. new \<noteq> RevStash text) \<longrightarrow>
      (\<forall>f \<in> set (diff_session_files s). grp \<in> set (df_groups f))"
  proof
    assume view: "grp \<in> {GroupStaged, GroupUnstaged, GroupUntracked} \<and> (\<forall>text. new \<noteq> RevStash text)"
    then have "plain_diff g old new grp = Inr s"
      using assms by (auto simp: create_diff_def split: revision_ref.splits)
    then obtain records where s: "s = finish_session old new grp (retained grp records)"
      by (auto simp: plain_diff_def result_simps split: prod.splits)
    have "grp \<in> set (df_groups (dr_public r))" if "r \<in> set (retained grp records)" for r
      using that view by (auto simp: retained_def)
    then show "\<forall>f \<in> set (diff_session_files s). grp \<in> set (df_groups f)"
      using finish_session_records [of old new grp "retained grp records"]
      by (fastforce simp: diff_session_files_def s)
  qed
qed

text \<open>A repository with one added file.\<close>

definition sample_delta :: "string \<Rightarrow> git_delta" where
  "sample_delta path = \<lparr>gd_status = DeltaAdded, gd_old_path = None, gd_new_path = Some path,
     gd_old_id = replicate 20 0, gd_new_id = replicate 20 1, gd_old_mode = ModeOther, gd_new_mode = ModeOther\<rparr>"

definition sample_git :: "bytes \<times> bool \<Rightarrow> git_env" where
  "sample_git blob =
     \<lparr>ge_oid_from_str = (\<lambda>_. None), ge_commit_tree = (\<lambda>_. None),
      ge_diff = (\<lambda>_. Some ([sample_delta ''a''], [DeltaEvent (Some ''a''), LineEvent CHR ''+''])),
      ge_statuses = Some [(''a'', {IndexNew})], ge_blob = (\<lambda>_. Some blob), ge_has_workdir = True,
      ge_file = (\<lambda>_. Some (Directory 0)), ge_conflicts = Some [], ge_head_blob = (\<lambda>_. None),
      ge_parents = (\<lambda>_. None)\<rparr>"

lemma sample_record:
  assumes "valid_utf8 (fst blob)" and "\<not> snd blob" and "length (fst blob) \<le> PREVIEW_SIDE_LIMIT"
  shows "\<exists>r. records_from_diff (sample_git blob) ([sample_delta ''a''], [DeltaEvent (Some ''a''), LineEvent CHR ''+'']) SideIndex = Inr [r] \<and>
    df_groups (dr_public r) = [GroupStaged] \<and> \<not> df_is_binary (dr_public r) \<and> \<not> df_preview_too_large (dr_public r) \<and> \<not> df_export_too_large (dr_public r) \<and>
    dr_original r = SourceEmpty \<and> dr_modified r = Blob (replicate 20 1) \<and> dr_conflict r = None"
proof -
  have "is_zero_oid (replicate 20 0)" "\<not> is_zero_oid (replicate 20 1)"
    by (simp_all add: is_zero_oid_def list_all_iff)
  moreover have "\<not> EXPORT_SIDE_LIMIT < length (fst blob)"
    using assms(3) by (simp add: PREVIEW_SIDE_LIMIT_def EXPORT_SIDE_LIMIT_def)
  ultimately show ?thesis
    using assms
    by (cases blob) (auto simp: is_worktree_status_def records_from_diff_def record_of_delta_def delta_path_def sample_delta_def sample_git_def
        source_info_def tree_source_def worktree_groups_def is_index_status_def Let_def)
qed

lemma sample_session:
  assumes "valid_utf8 (fst blob)" and "\<not> snd blob" and "length (fst blob) \<le> PREVIEW_SIDE_LIMIT"
  shows "\<exists>s r. create_diff (sample_git blob) RevEmpty RevIndex GroupStaged = Inr s \<and> ds_records s = [r] \<and>
    df_file_id (dr_public r) = 0 \<and> \<not> df_is_binary (dr_public r) \<and> \<not> df_preview_too_large (dr_public r) \<and> \<not> df_export_too_large (dr_public r) \<and>
    dr_original r = SourceEmpty \<and> dr_modified r = Blob (replicate 20 1) \<and> dr_conflict r = None"
proof -
  obtain r where r: "records_from_diff (sample_git blob) ([sample_delta ''a''], [DeltaEvent (Some ''a''), LineEvent CHR ''+'']) SideIndex = Inr [r]"
    "df_groups (dr_public r) = [GroupStaged]" "\<not> df_is_binary (dr_public r)" "\<not> df_preview_too_large (dr_public r)" "\<not> df_export_too_large (dr_public r)"
    "dr_original r = SourceEmpty" "dr_modified r = Blob (replicate 20 1)" "dr_conflict r = None"
    using sample_record [OF assms] by blast
  have "build_diff (sample_git blob) RevEmpty RevIndex GroupStaged =
      Inr (([sample_delta ''a''], [DeltaEvent (Some ''a''), LineEvent CHR ''+'']), SideIndex)"
    by (simp add: build_diff_def revision_tree_def run_diff_def sample_git_def)
  then have "create_diff (sample_git blob) RevEmpty RevIndex GroupStaged =
      Inr (finish_session RevEmpty RevIndex GroupStaged [r])"
    using r by (simp add: create_diff_def plain_diff_def retained_def)
  then show ?thesis using r by (auto simp: finish_session_def Let_def)
qed

lemma session_well_formed_witness:
  "\<exists>s. create_diff (sample_git ([65], False)) RevEmpty RevIndex GroupStaged = Inr s \<and> session_ok s"
proof -
  have "valid_utf8 [65]" by (simp add: valid_utf8_def utf8_check.simps utf8_next_def)
  then obtain s where s: "create_diff (sample_git ([65], False)) RevEmpty RevIndex GroupStaged = Inr s"
    using sample_session [of "([65], False)"] by (auto simp: PREVIEW_SIDE_LIMIT_def)
  from session_well_formed [OF s] s show ?thesis by blast
qed

section \<open>What is listed as text can be previewed\<close>

text \<open>The target of a link and the identifiers of a delta are what they are in the libraries.\<close>

definition env_ok :: "git_env \<Rightarrow> bool" where
  "env_ok g \<longleftrightarrow>
     (\<forall>path target. ge_file g path = Some (Symlink target) \<longrightarrow>
        valid_utf8 (bytes_of target) \<and> 0 \<notin> set (bytes_of target)) \<and>
     (\<forall>request deltas events. ge_diff g request = Some (deltas, events) \<longrightarrow>
        (\<forall>d \<in> set deltas. length (gd_old_id d) = 20 \<and> length (gd_new_id d) = 20))"

text \<open>libgit2 looks for a zero byte at the beginning of a blob only.\<close>

definition late_nul :: "git_env \<Rightarrow> bool" where
  "late_nul g \<longleftrightarrow> (\<exists>oid content. ge_blob g oid = Some (content, False) \<and> 0 \<in> set content)"

lemma ascii_valid: "\<forall>b \<in> set bs. b < 128 \<Longrightarrow> utf8_check bs = Utf8Valid"
  by (induction bs) (simp_all add: utf8_check.simps utf8_next_def)

lemma hex_char_byte: "n < 16 \<Longrightarrow> (word_of_nat (of_char (hex_char n)) :: u8) < 128 \<and> (word_of_nat (of_char (hex_char n)) :: u8) \<noteq> 0"
proof -
  assume "n < 16"
  then have "of_char (hex_char n) < (128 :: nat)" "0 < (of_char (hex_char n) :: nat)"
    by (auto simp: hex_char_def)
  then show ?thesis by (simp add: word_less_nat_alt word_eq_nat_iff unat_of_nat)
qed

lemma format_hex_bytes: "b \<in> set (bytes_of (format_hex bs)) \<Longrightarrow> b < 128 \<and> b \<noteq> 0"
proof (induction bs)
  case (Cons x xs)
  have "unat x div 16 < 16" "unat x mod 16 < 16" using u8_lt [of x] by auto
  with Cons hex_char_byte [of "unat x div 16"] hex_char_byte [of "unat x mod 16"] show ?case
    by (auto simp: format_hex_def)
qed (simp add: format_hex_def)

lemma gitlink_loads:
  assumes "length oid = 20" and "PREVIEW_SIDE_LIMIT \<le> limit"
  shows "\<exists>t. load_text g (Gitlink oid) limit = Inr t"
proof -
  let ?bs = "bytes_of (''Subproject commit '' @ format_hex oid @ [CHR 0x0A])"
  have "\<forall>b \<in> set ?bs. b < 128 \<and> b \<noteq> 0"
    using format_hex_bytes [of _ oid] by auto
  then have "utf8_check ?bs = Utf8Valid" "0 \<notin> set ?bs" using ascii_valid [of ?bs] by auto
  moreover have "length ?bs \<le> limit" using assms by (simp add: PREVIEW_SIDE_LIMIT_def)
  ultimately show ?thesis
    by (simp add: load_text_def load_bytes_def binary_sample_def from_utf8_def valid_utf8_def del: bytes_of_simps)
qed

definition source_ok :: "git_env \<Rightarrow> bool \<Rightarrow> bool \<Rightarrow> bool \<Rightarrow> content_source \<Rightarrow> bool" where
  "source_ok g binary preview_large export_large source \<longleftrightarrow>
     (\<exists>n b. source_info g source = Inr (n, b) \<and> (b \<longrightarrow> binary) \<and> (PREVIEW_SIDE_LIMIT < n \<longrightarrow> preview_large) \<and>
        (EXPORT_SIDE_LIMIT < n \<longrightarrow> export_large)) \<and>
     (\<forall>oid. source = Gitlink oid \<longrightarrow> length oid = 20)"

lemma source_loads:
  assumes "env_ok g" and "source_info g source = Inr (n, False)" and "n \<le> limit"
    and "PREVIEW_SIDE_LIMIT \<le> limit" and "limit \<le> EXPORT_SIDE_LIMIT"
    and "\<And>oid. source = Gitlink oid \<Longrightarrow> length oid = 20"
  shows "(\<exists>t. load_text g source limit = Inr t) \<or>
         (load_text g source limit = Inl BinaryFile \<and> late_nul g)"
proof -
  note info = assms(2,3)
  have export: "n \<le> EXPORT_SIDE_LIMIT" using assms(3,5) by simp
  show ?thesis
  proof (cases source)
    case SourceEmpty
    then show ?thesis
      by (simp add: load_text_def load_bytes_def binary_sample_def from_utf8_def valid_utf8_def)
  next
    case (Blob oid)
    with info export obtain content where blob: "ge_blob g oid = Some (content, False)" "valid_utf8 content"
      "length content \<le> limit"
      by (auto simp: source_info_def result_simps split: prod.splits)
    show ?thesis
    proof (cases "0 \<in> set content")
      case True
      with blob Blob have "load_text g source limit = Inl BinaryFile"
        by (simp add: load_text_def load_bytes_def binary_sample_def)
      with True blob(1) show ?thesis by (auto simp: late_nul_def)
    next
      case False
      with blob Blob show ?thesis by (simp add: load_text_def load_bytes_def binary_sample_def from_utf8_def)
    qed
  next
    case (Gitlink oid)
    with assms(4,6) gitlink_loads [of oid limit g] show ?thesis by auto
  next
    case (Workdir path)
    with info obtain entry where entry: "ge_has_workdir g" "ge_file g path = Some entry"
      by (auto simp: source_info_def split: if_splits option.splits)
    show ?thesis
    proof (cases entry)
      case (Regular reads)
      with info Workdir entry export have "\<not> invalid_workdir_text [] reads" "length (concat reads) \<le> limit"
        by (auto simp: source_info_def Let_def split: if_splits)
      moreover from this(1) have "0 \<notin> set (concat reads)" "valid_utf8 (concat reads)"
        by (auto simp: invalid_text_pending valid_utf8_def)
      ultimately show ?thesis
        using Workdir entry Regular by (simp add: load_text_def load_bytes_def binary_sample_def from_utf8_def)
    next
      case (Symlink target)
      with info Workdir entry assms(1) show ?thesis
        by (auto simp: source_info_def env_ok_def load_text_def load_bytes_def binary_sample_def from_utf8_def)
    next
      case (Directory size)
      with info Workdir entry show ?thesis by (simp add: source_info_def)
    qed
  qed
qed

text \<open>Within the preview limit, and within the limit of an export.\<close>

lemma ok_source_loads:
  assumes "env_ok g"
  shows "source_ok g False False export_large source \<Longrightarrow>
           (\<exists>t. load_text g source PREVIEW_SIDE_LIMIT = Inr t) \<or>
           (load_text g source PREVIEW_SIDE_LIMIT = Inl BinaryFile \<and> late_nul g)"
    and "source_ok g False preview_large False source \<Longrightarrow>
           (\<exists>t. load_text g source EXPORT_SIDE_LIMIT = Inr t) \<or>
           (load_text g source EXPORT_SIDE_LIMIT = Inl BinaryFile \<and> late_nul g)"
proof -
  have limits: "PREVIEW_SIDE_LIMIT \<le> EXPORT_SIDE_LIMIT" by (simp add: PREVIEW_SIDE_LIMIT_def EXPORT_SIDE_LIMIT_def)
  {
    assume "source_ok g False False export_large source"
    then obtain n where "source_info g source = Inr (n, False)" "n \<le> PREVIEW_SIDE_LIMIT"
      and "\<And>oid. source = Gitlink oid \<Longrightarrow> length oid = 20" by (auto simp: source_ok_def)
    from source_loads [OF assms this(1,2) order_refl limits this(3)]
    show "(\<exists>t. load_text g source PREVIEW_SIDE_LIMIT = Inr t) \<or>
           (load_text g source PREVIEW_SIDE_LIMIT = Inl BinaryFile \<and> late_nul g)" .
  next
    assume "source_ok g False preview_large False source"
    then obtain n where "source_info g source = Inr (n, False)" "n \<le> EXPORT_SIDE_LIMIT"
      and "\<And>oid. source = Gitlink oid \<Longrightarrow> length oid = 20" by (auto simp: source_ok_def)
    from source_loads [OF assms this(1,2) limits order_refl this(3)]
    show "(\<exists>t. load_text g source EXPORT_SIDE_LIMIT = Inr t) \<or>
           (load_text g source EXPORT_SIDE_LIMIT = Inl BinaryFile \<and> late_nul g)" .
  }
qed

fun used_sources :: "diff_record \<Rightarrow> content_source list" where
  "used_sources r = [dr_original r, dr_modified r] @
     (case dr_conflict r of
        None \<Rightarrow> []
      | Some c \<Rightarrow> [cs_base c, cs_ours c, cs_theirs c, cs_head c, cs_working c])"

definition record_ok :: "git_env \<Rightarrow> diff_record \<Rightarrow> bool" where
  "record_ok g r \<longleftrightarrow>
     list_all (source_ok g (df_is_binary (dr_public r)) (df_preview_too_large (dr_public r)) (df_export_too_large (dr_public r)))
       (used_sources r)"

lemma record_ok_numbered [simp]:
  "record_ok g (r\<lparr>dr_public := (dr_public r)\<lparr>df_file_id := i\<rparr>\<rparr>) = record_ok g r"
  by (simp add: record_ok_def split: option.split)

lemma all_results_spec: "all_results rs = Inr xs \<longleftrightarrow> rs = map Inr xs"
  by (induction rs arbitrary: xs) (auto simp: result_simps)

lemma tree_source_gitlink: "tree_source oid mode = Gitlink oid' \<Longrightarrow> oid' = oid"
  by (auto simp: tree_source_def split: if_splits)

lemma delta_record_ok:
  assumes "record_of_delta g side stats statuses d = Inr r" and "length (gd_old_id d) = 20" and "length (gd_new_id d) = 20"
  shows "record_ok g r"
proof -
  obtain path where path: "delta_path d = Some path" using assms(1) by (auto simp: record_of_delta_def result_simps)
  define original where "original = tree_source (gd_old_id d) (gd_old_mode d)"
  define modified where "modified = (if side = SideWorkdir \<and> gd_status d \<noteq> DeltaDeleted then Workdir path
      else tree_source (gd_new_id d) (gd_new_mode d))"
  obtain n b n' b' where info: "source_info g original = Inr (n, b)" "source_info g modified = Inr (n', b')"
    using assms(1) path unfolding record_of_delta_def Let_def original_def modified_def
    by (fastforce simp: result_simps)
  obtain additions deletions where st: "(case map_of stats path of None \<Rightarrow> (0, 0) | Some s \<Rightarrow> s) = (additions, deletions)"
    by fastforce
  have "dr_original r = original" "dr_modified r = modified" "dr_conflict r = None"
    "df_is_binary (dr_public r) = (b \<or> b')"
    "df_preview_too_large (dr_public r) = (PREVIEW_SIDE_LIMIT < n \<or> PREVIEW_SIDE_LIMIT < n')"
    "df_export_too_large (dr_public r) = (EXPORT_SIDE_LIMIT < n \<or> EXPORT_SIDE_LIMIT < n')"
    using assms(1) info unfolding record_of_delta_def Let_def path ok_or_simps and_then.simps
      original_def [symmetric] modified_def [symmetric] info prod.case st
    by auto
  moreover have "original = Gitlink oid \<Longrightarrow> length oid = 20" "modified = Gitlink oid \<Longrightarrow> length oid = 20" for oid
    using assms(2,3) by (auto simp: original_def modified_def dest: tree_source_gitlink split: if_splits)
  ultimately show ?thesis using info by (simp add: record_ok_def source_ok_def)
qed

lemma infos_of:
  "all_results (map (source_info g) sources) = Inr infos \<Longrightarrow> source \<in> set sources \<Longrightarrow>
     \<exists>i \<in> set infos. source_info g source = Inr i"
  by (induction sources arbitrary: infos) (auto simp: result_simps)

lemma conflict_record_ok:
  assumes "conflict_record g c = Inr r"
  shows "record_ok g r"
proof -
  obtain path infos where infos: "all_results (map (source_info g) [index_entry_source (ix_ancestor c),
      index_entry_source (ix_our c), index_entry_source (ix_their c), head_source g path, Workdir path]) = Inr infos"
    and r: "df_is_binary (dr_public r) = list_ex snd infos"
      "df_preview_too_large (dr_public r) = list_ex (\<lambda>i. PREVIEW_SIDE_LIMIT < fst i) infos"
      "df_export_too_large (dr_public r) = list_ex (\<lambda>i. EXPORT_SIDE_LIMIT < fst i) infos"
      "dr_conflict r = Some \<lparr>cs_base = index_entry_source (ix_ancestor c), cs_ours = index_entry_source (ix_our c),
         cs_theirs = index_entry_source (ix_their c), cs_head = head_source g path, cs_working = Workdir path\<rparr>"
      "dr_original r = head_source g path" "dr_modified r = Workdir path"
    using assms unfolding conflict_record_def Let_def and_then_Inr_iff by auto
  have no_link: "index_entry_source e \<noteq> Gitlink oid" "head_source g path \<noteq> Gitlink oid" for e oid path
    by (auto simp: index_entry_source_def head_source_def split: option.splits)
  have "source_ok g (list_ex snd infos) (list_ex (\<lambda>i. PREVIEW_SIDE_LIMIT < fst i) infos)
      (list_ex (\<lambda>i. EXPORT_SIDE_LIMIT < fst i) infos) source"
    if mem: "source \<in> set [index_entry_source (ix_ancestor c),
      index_entry_source (ix_our c), index_entry_source (ix_their c), head_source g path, Workdir path]" for source
  proof -
    obtain n b where i: "(n, b) \<in> set infos" "source_info g source = Inr (n, b)"
      using infos_of [OF infos mem] by auto
    have "b \<Longrightarrow> list_ex snd infos" "PREVIEW_SIDE_LIMIT < n \<Longrightarrow> list_ex (\<lambda>i. PREVIEW_SIDE_LIMIT < fst i) infos"
      "EXPORT_SIDE_LIMIT < n \<Longrightarrow> list_ex (\<lambda>i. EXPORT_SIDE_LIMIT < fst i) infos"
      using i(1) unfolding list_ex_iff by force+
    moreover have "source \<noteq> Gitlink oid" for oid using mem by (auto simp: no_link no_link [THEN not_sym])
    ultimately show ?thesis using i(2) by (auto simp: source_ok_def)
  qed
  then show ?thesis unfolding record_ok_def list_all_iff by (simp add: r)
qed

lemma plain_records_ok:
  assumes "env_ok g" and "plain_diff g old new grp = Inr s"
  shows "\<forall>r \<in> set (ds_records s). record_ok g r"
proof -
  obtain deltas events side records where d: "build_diff g old new grp = Inr ((deltas, events), side)"
    "records_from_diff g (deltas, events) side = Inr records" "s = finish_session old new grp (retained grp records)"
    using assms(2) by (auto simp: plain_diff_def result_simps split: prod.splits)
  have "\<exists>request. ge_diff g request = Some (deltas, events)"
    using d(1) by (auto simp: build_diff_def run_diff_def result_simps split: if_splits)
  then have ids: "\<forall>d \<in> set deltas. length (gd_old_id d) = 20 \<and> length (gd_new_id d) = 20"
    using assms(1) unfolding env_ok_def by blast
  have "\<forall>r \<in> set records. record_ok g r"
  proof
    fix r
    assume "r \<in> set records"
    with d(2) obtain stats statuses delta where
      "record_of_delta g side stats statuses delta = Inr r" "delta \<in> set deltas"
      by (auto simp: records_from_diff_def Let_def result_simps all_results_spec in_set_conv_nth)
         (metis length_map nth_map nth_mem)
    with delta_record_ok ids show "record_ok g r" by blast
  qed
  then have "\<forall>r \<in> set (retained grp records). record_ok g r" by (auto simp: retained_def)
  then show ?thesis using finish_session_records [of old new grp "retained grp records"] d(3) by fastforce
qed

lemma update_values: "set (map snd (AList.update k v m)) \<subseteq> insert v (set (map snd m))"
  by (induction m) auto

lemma fold_update_values:
  "set (map snd (foldl (\<lambda>m r. AList.update (record_path r) r m) m rs)) \<subseteq> set (map snd m) \<union> set rs"
proof (induction rs arbitrary: m)
  case (Cons r rs)
  have "set (map snd (foldl (\<lambda>m r. AList.update (record_path r) r m) m (r # rs))) \<subseteq>
      set (map snd (AList.update (record_path r) r m)) \<union> set rs"
    using Cons.IH [of "AList.update (record_path r) r m"] by simp
  also have "\<dots> \<subseteq> set (map snd m) \<union> set (r # rs)"
    using update_values [of "record_path r" r m] by auto
  finally show ?case .
qed simp

lemma create_diff_records_ok:
  assumes "env_ok g" and "create_diff g old new grp = Inr s"
  shows "\<forall>r \<in> set (ds_records s). record_ok g r"
proof (cases "grp = GroupConflicted")
  case True
  then obtain conflicts records where c: "all_results (map (conflict_record g) conflicts) = Inr records"
    "s = finish_session old new GroupConflicted records"
    using assms(2) by (auto simp: create_diff_def conflict_diff_def result_simps)
  then have "\<forall>r \<in> set records. record_ok g r"
    by (auto simp: all_results_spec in_set_conv_nth) (metis conflict_record_ok length_map nth_map)
  then show ?thesis using finish_session_records [of old new GroupConflicted records] c(2) by fastforce
next
  case False
  show ?thesis
  proof (cases "\<exists>txt. new = RevStash txt")
    case True
    with False assms(2) obtain stash_text where "stash_diff g old new stash_text = Inr s" by (auto simp: create_diff_def)
    then obtain stash parents where p: "(if parents = [] then Inl GitError
        else and_then (plain_diff g (commit_ref (hd parents)) (commit_ref stash) GroupAll) (\<lambda>tracked.
          and_then (if 2 < length parents
                    then and_then (plain_diff g RevEmpty (commit_ref (parents ! 2)) GroupAll) (\<lambda>untracked.
                      Inr (map snd (foldl (\<lambda>m r. AList.update (record_path r) r m) []
                                     (ds_records tracked @ ds_records untracked))))
                    else Inr (ds_records tracked)) (\<lambda>records.
          Inr (finish_session old new GroupAll records)))) = Inr s"
      unfolding stash_diff_def and_then_Inr_iff by blast
    then have "parents \<noteq> []" by (metis sum.distinct(1))
    note p = p [unfolded if_not_P [OF this] and_then_Inr_iff]
    from p obtain tracked records where t: "plain_diff g (commit_ref (hd parents)) (commit_ref stash) GroupAll = Inr tracked"
      and recs: "(if 2 < length parents
                 then and_then (plain_diff g RevEmpty (commit_ref (parents ! 2)) GroupAll) (\<lambda>untracked.
                   Inr (map snd (foldl (\<lambda>m r. AList.update (record_path r) r m) []
                                  (ds_records tracked @ ds_records untracked))))
                 else Inr (ds_records tracked)) = Inr records"
      and s: "s = finish_session old new GroupAll records"
      by blast
    have r: "records = ds_records tracked \<or> (\<exists>untracked c d. plain_diff g c d GroupAll = Inr untracked \<and>
          records = map snd (foldl (\<lambda>m r. AList.update (record_path r) r m) [] (ds_records tracked @ ds_records untracked)))"
      using recs by (cases "2 < length parents") (auto simp: and_then_Inr_iff simp del: foldl_append)
    have "\<forall>r \<in> set records. record_ok g r"
      using r
    proof
      assume "records = ds_records tracked"
      with plain_records_ok [OF assms(1) t] show ?thesis by simp
    next
      assume "\<exists>untracked c d. plain_diff g c d GroupAll = Inr untracked \<and>
          records = map snd (foldl (\<lambda>m r. AList.update (record_path r) r m) [] (ds_records tracked @ ds_records untracked))"
      then obtain untracked c d where u: "plain_diff g c d GroupAll = Inr untracked"
        "records = map snd (foldl (\<lambda>m r. AList.update (record_path r) r m) [] (ds_records tracked @ ds_records untracked))"
        by blast
      have "set records \<subseteq> set (ds_records tracked) \<union> set (ds_records untracked)"
        using fold_update_values [of "[]" "ds_records tracked @ ds_records untracked"] u(2) by simp
      with plain_records_ok [OF assms(1) t] plain_records_ok [OF assms(1) u(1)] show ?thesis by blast
    qed
    then show ?thesis using finish_session_records [of old new GroupAll records] s by fastforce
  next
    case False
    with \<open>grp \<noteq> GroupConflicted\<close> assms plain_records_ok [OF assms(1)] show ?thesis
      by (auto simp: create_diff_def split: revision_ref.splits)
  qed
qed

text \<open>C16.  What a session lists as text within the preview limit can be previewed, in every perspective,
  as long as the repository does not change: the only way it fails is a blob whose zero bytes come
  after the part that libgit2 looks at, which is listed as text and refused as binary.\<close>
theorem listed_text_previews:
  assumes "create_diff g old new grp = Inr s" and "env_ok g" and "unat file_id < diff_session_len s"
    and "diff_session_len s \<le> 2 ^ 32"
    and "\<not> df_is_binary (diff_session_files s ! unat file_id)"
    and "\<not> df_preview_too_large (diff_session_files s ! unat file_id)"
  shows "(\<exists>content. preview g s file_id perspective = Inr content \<and> pc_perspective content = perspective) \<or>
         (preview g s file_id perspective = Inl BinaryFile \<and> late_nul g)"
proof -
  define r where "r = ds_records s ! unat file_id"
  have i: "unat file_id < length (ds_records s)" using assms(3) by (simp add: diff_session_len_def)
  have "session_ok s" using create_diff_session [OF assms(1)] finish_session_ok by blast
  then have file_id: "df_file_id (dr_public r) = file_id"
    using i by (simp add: session_ok_def diff_session_files_def diff_session_len_def r_def)
  have flags: "\<not> df_is_binary (dr_public r)" "\<not> df_preview_too_large (dr_public r)"
    using assms(5,6) i by (simp_all add: r_def diff_session_files_def)
  have "record_ok g r" using create_diff_records_ok [OF assms(2,1)] i by (simp add: r_def)
  then have used: "\<And>source. source \<in> set (used_sources r) \<Longrightarrow>
      source_ok g False False (df_export_too_large (dr_public r)) source"
    using flags by (simp add: record_ok_def list_all_iff del: used_sources.simps)
  obtain left right where sides: "left \<in> set (used_sources r)" "right \<in> set (used_sources r)"
    and pre: "preview g s file_id perspective =
      and_then (load_text g left PREVIEW_SIDE_LIMIT) (\<lambda>l. and_then (load_text g right PREVIEW_SIDE_LIMIT) (\<lambda>rt.
        Inr \<lparr>pc_original = l, pc_modified = rt, pc_perspective = perspective\<rparr>))"
  proof (cases "dr_conflict r")
    case None
    then show ?thesis
      using i file_id flags by (intro that [of "dr_original r" "dr_modified r"]) (simp_all add: preview_def r_def)
  next
    case (Some c)
    then show ?thesis
      using i file_id flags
      by (cases perspective)
         (rule that [of "cs_base c" "cs_ours c"] that [of "cs_base c" "cs_theirs c"]
            that [of "cs_ours c" "cs_theirs c"] that [of "cs_head c" "cs_working c"];
          simp add: preview_def r_def)+
  qed
  from ok_source_loads(1) [OF assms(2) used [OF sides(1)]] ok_source_loads(1) [OF assms(2) used [OF sides(2)]] show ?thesis
    unfolding pre by auto
qed

lemma late_nul_sample:
  assumes "preview (sample_git ([65], False)) s 0 BaseToOurs = Inl BinaryFile \<and> late_nul (sample_git ([65], False))"
  shows False
  using assms by (simp add: late_nul_def sample_git_def)

lemma listed_text_previews_witness:
  "\<exists>s content. create_diff (sample_git ([65], False)) RevEmpty RevIndex GroupStaged = Inr s \<and>
     preview (sample_git ([65], False)) s 0 BaseToOurs = Inr content"
proof -
  let ?g = "sample_git ([65], False)"
  have "valid_utf8 [65]" by (simp add: valid_utf8_def utf8_check.simps utf8_next_def)
  then obtain s r where s: "create_diff ?g RevEmpty RevIndex GroupStaged = Inr s" "ds_records s = [r]"
    "\<not> df_is_binary (dr_public r)" "\<not> df_preview_too_large (dr_public r)"
    using sample_session [of "([65], False)"] by (auto simp: PREVIEW_SIDE_LIMIT_def)
  have "env_ok ?g" by (simp add: env_ok_def sample_git_def sample_delta_def)
  from listed_text_previews [OF s(1) this, of 0 BaseToOurs] s late_nul_sample [of s] show ?thesis
    by (auto simp: diff_session_len_def diff_session_files_def)
qed

section \<open>One entry that cannot be read\<close>

lemma all_results_fails: "Inl e \<in> set rs \<Longrightarrow> \<exists>e'. all_results rs = Inl e'"
  by (induction rs) (auto simp: result_simps, metis and_then.simps sum.exhaust)

text \<open>A working-tree comparison reads every changed path that is not deleted, so that one directory
  among them, which is how a changed submodule or an untracked nested repository appears, fails the
  whole comparison; in the same way one conflict whose file is missing from the working tree hides
  all conflicts.\<close>
theorem unreadable_entry_fails_all:
  "(build_diff g old new grp = Inr ((deltas, events), SideWorkdir) \<and> d \<in> set deltas \<and>
      gd_status d \<noteq> DeltaDeleted \<and> delta_path d = Some path \<and> ge_file g path = Some (Directory n) \<and>
      grp \<noteq> GroupConflicted \<and> (\<forall>text. new \<noteq> RevStash text) \<longrightarrow>
    (\<exists>e. create_diff g old new grp = Inl e)) \<and>
   (ge_conflicts g = Some conflicts \<and> c \<in> set conflicts \<and> ix_our c = Some (path, oid) \<and> ge_file g path = None \<longrightarrow>
    (\<exists>e. create_diff g old new GroupConflicted = Inl e))"
proof (intro conjI impI; elim conjE)
  assume d: "build_diff g old new grp = Inr ((deltas, events), SideWorkdir)" "d \<in> set deltas"
    "gd_status d \<noteq> DeltaDeleted" "delta_path d = Some path" "ge_file g path = Some (Directory n)"
    "grp \<noteq> GroupConflicted" "\<forall>text. new \<noteq> RevStash text"
  have "\<exists>e. source_info g (Workdir path) = Inl e" using d(5) by (simp add: source_info_def)
  then obtain e where e: "source_info g (Workdir path) = Inl e" ..
  have one: "\<exists>e. record_of_delta g SideWorkdir stats statuses d = Inl e" for stats statuses
    using d(3,4) e by (cases "source_info g (tree_source (gd_old_id d) (gd_old_mode d))")
      (auto simp: record_of_delta_def Let_def)
  have "\<exists>e. all_results (map (record_of_delta g SideWorkdir stats statuses) deltas) = Inl e" for stats statuses
    using one [of stats statuses] d(2) by (elim exE, intro all_results_fails) (auto intro: rev_image_eqI)
  then have "\<exists>e. records_from_diff g (deltas, events) SideWorkdir = Inl e"
    by (cases "ok_or (ge_statuses g) GitError") (auto simp: records_from_diff_def)
  then show "\<exists>e. create_diff g old new grp = Inl e"
    using d(1,6,7) by (auto simp: create_diff_def plain_diff_def split: revision_ref.splits)
next
  assume c: "ge_conflicts g = Some conflicts" "c \<in> set conflicts" "ix_our c = Some (path, oid)" "ge_file g path = None"
  have "\<exists>e. source_info g (Workdir path) = Inl e" using c(4) by (simp add: source_info_def)
  then obtain e where e: "source_info g (Workdir path) = Inl e" ..
  have "\<exists>e. conflict_record g c = Inl e"
  proof -
    have "\<exists>e. all_results (map (source_info g) [index_entry_source (ix_ancestor c), index_entry_source (ix_our c),
        index_entry_source (ix_their c), head_source g path, Workdir path]) = Inl e"
      by (rule all_results_fails [of e]) (simp add: e)
    with c(3) show ?thesis by (auto simp: conflict_record_def Let_def)
  qed
  then obtain e' where "conflict_record g c = Inl e'" ..
  then have "\<exists>e. all_results (map (conflict_record g) conflicts) = Inl e"
    using c(2) by (intro all_results_fails) (auto intro: rev_image_eqI)
  then show "\<exists>e. create_diff g old new GroupConflicted = Inl e"
    using c(1) by (auto simp: create_diff_def conflict_diff_def)
qed

lemma unreadable_entry_fails_all_witness:
  "\<exists>e. create_diff (sample_git ([65], False)) RevEmpty RevWorkingTree GroupUnstaged = Inl e"
proof -
  have "build_diff (sample_git ([65], False)) RevEmpty RevWorkingTree GroupUnstaged =
      Inr (([sample_delta ''a''], [DeltaEvent (Some ''a''), LineEvent CHR ''+'']), SideWorkdir)"
    by (simp add: build_diff_def run_diff_def sample_git_def)
  with unreadable_entry_fails_all [of "sample_git ([65], False)" RevEmpty RevWorkingTree GroupUnstaged "[sample_delta ''a'']"
      "[DeltaEvent (Some ''a''), LineEvent CHR ''+'']" "sample_delta ''a''" "''a''" 0]
  show ?thesis by (auto simp: delta_path_def sample_delta_def sample_git_def)
qed

end
