(* ===== verification/Git_Export.thy ===== *)
theory Git_Export
  imports Git_Diff
begin

text \<open>
  The export of a comparison, crates/winrisef-version-control/src/export.rs, with the native patches of
  src/repository/diff.rs: the four formats and three layouts, as the texts that are written in their
  order and the error that ends the export, if any.

  What similar, libgit2 and serde_json compute is a record of functions, \<open>export_tools\<close>.  A formatted
  write is one text here; the pieces of it that the writer sees do not change what is written.

  The lemmas show that the XML of an export can be read back, and that what a session lists as text
  within the export limit can be exported.
\<close>

section \<open>Options\<close>

datatype export_format = Markdown | Json | Xml | Txt

fun format_extension :: "export_format \<Rightarrow> string" where
  "format_extension Markdown = ''md''"
| "format_extension Json = ''json''"
| "format_extension Xml = ''xml''"
| "format_extension Txt = ''txt''"

datatype export_layout = Split | Unified | GitPatch

record export_options =
  eo_format :: export_format
  eo_layout :: export_layout
  eo_selected_file_ids :: "u32 list"

datatype export_content = SplitContent string string | DiffContent string

datatype change_tag = ChangeDelete | ChangeInsert | ChangeEqual

text \<open>One entry of the JSON export, the value handed to \<open>to_writer_pretty\<close>.\<close>

record json_entry =
  je_path :: string
  je_old_path :: "string option"
  je_status :: string
  je_layout :: string
  je_content :: export_content

type_synonym git_diff = "git_delta list \<times> diff_event list"

record export_tools =
  xt_changes :: "string \<Rightarrow> string \<Rightarrow> (change_tag \<times> string) list"
  xt_buffer_patch :: "string \<Rightarrow> string \<Rightarrow> string \<Rightarrow> string \<Rightarrow> bytes option"
  xt_native_patch :: "git_diff \<Rightarrow> nat \<Rightarrow> bytes option option"
  xt_json :: "json_entry \<Rightarrow> string option"

section \<open>Native patches\<close>

record native_patch_set =
  np_diffs :: "git_diff list"
  np_locations :: "(string \<times> nat \<times> nat) list"

definition or_insert :: "'k \<Rightarrow> 'v \<Rightarrow> ('k \<times> 'v) list \<Rightarrow> ('k \<times> 'v) list" where
  "or_insert k v m = (if map_of m k = None then AList.update k v m else m)"

text \<open>Every delta with a path, the first place of a path wins.\<close>

definition native_locations :: "git_diff list \<Rightarrow> (string \<times> nat \<times> nat) list" where
  "native_locations diffs =
     foldl (\<lambda>m (i, d).
       foldl (\<lambda>m (j, delta). case delta_path delta of None \<Rightarrow> m | Some path \<Rightarrow> or_insert path (i, j) m) m
         (enumerate 0 (fst d))) [] (enumerate 0 diffs)"

definition native_diffs :: "git_env \<Rightarrow> diff_session \<Rightarrow> vcs_error + git_diff list" where
  "native_diffs g session =
     (case ds_new_revision session of
        RevStash stash_text \<Rightarrow>
          and_then (ok_or (ge_oid_from_str g stash_text) InvalidRevision) (\<lambda>stash.
          and_then (ok_or (ge_parents g stash) GitError) (\<lambda>parents.
          and_then (if 2 < length parents
                    then and_then (build_diff g RevEmpty (commit_ref (parents ! 2)) GroupAll) (\<lambda>(d, _). Inr [d])
                    else Inr []) (\<lambda>untracked.
          and_then (ensure (parents \<noteq> []) GitError) (\<lambda>_.
          and_then (build_diff g (commit_ref (hd parents)) (commit_ref stash) GroupAll) (\<lambda>(d, _).
          Inr (untracked @ [d]))))))
      | _ \<Rightarrow>
          if ds_group session \<noteq> GroupConflicted
          then and_then (build_diff g (ds_old_revision session) (ds_new_revision session) (ds_group session))
                 (\<lambda>(d, _). Inr [d])
          else Inr [])"

definition native_patches :: "git_env \<Rightarrow> diff_session \<Rightarrow> vcs_error + native_patch_set" where
  "native_patches g session =
     and_then (native_diffs g session) (\<lambda>diffs.
     Inr \<lparr>np_diffs = diffs, np_locations = native_locations diffs\<rparr>)"

definition patch_for :: "export_tools \<Rightarrow> native_patch_set \<Rightarrow> diff_record \<Rightarrow> vcs_error + string option" where
  "patch_for tools patches r =
     (case map_of (np_locations patches) (record_path r) of
        None \<Rightarrow> Inr None
      | Some (i, j) \<Rightarrow> (
          case xt_native_patch tools (np_diffs patches ! i) j of
            None \<Rightarrow> Inl GitError
          | Some None \<Rightarrow> Inr None
          | Some (Some patch) \<Rightarrow> and_then (ok_or (from_utf8 patch) InvalidText) (\<lambda>decoded. Inr (Some decoded))))"

section \<open>Contents\<close>

definition load_export_sides :: "git_env \<Rightarrow> diff_record \<Rightarrow> vcs_error + string \<times> string" where
  "load_export_sides g r =
     and_then (load_text g (dr_original r) EXPORT_SIDE_LIMIT) (\<lambda>original.
     and_then (load_text g (dr_modified r) EXPORT_SIDE_LIMIT) (\<lambda>modified.
     Inr (original, modified)))"

fun change_sign :: "change_tag \<Rightarrow> char" where
  "change_sign ChangeDelete = CHR ''-''"
| "change_sign ChangeInsert = CHR ''+''"
| "change_sign ChangeEqual = CHR '' ''"

definition full_context_diff :: "export_tools \<Rightarrow> string \<Rightarrow> string \<Rightarrow> string" where
  "full_context_diff tools original modified =
     concat (map (\<lambda>(tag, v). change_sign tag # v) (xt_changes tools original modified))"

definition buffer_patch :: "export_tools \<Rightarrow> diff_record \<Rightarrow> string \<Rightarrow> string \<Rightarrow> vcs_error + string" where
  "buffer_patch tools r original modified =
     (let path = df_path (dr_public r);
          old_path = (case df_old_path (dr_public r) of None \<Rightarrow> path | Some p \<Rightarrow> p)
      in and_then (ok_or (xt_buffer_patch tools original old_path modified path) GitError) (\<lambda>patch.
         ok_or (from_utf8 patch) InvalidText))"

definition export_content ::
  "git_env \<Rightarrow> export_tools \<Rightarrow> diff_record \<Rightarrow> export_layout \<Rightarrow> native_patch_set option \<Rightarrow> vcs_error + export_content" where
  "export_content g tools r layout native =
     (case layout of
        Split \<Rightarrow> and_then (load_export_sides g r) (\<lambda>(original, modified). Inr (SplitContent original modified))
      | Unified \<Rightarrow>
          and_then (load_export_sides g r) (\<lambda>(original, modified).
          Inr (DiffContent (full_context_diff tools original modified)))
      | GitPatch \<Rightarrow>
          and_then (case native of None \<Rightarrow> Inr None | Some patches \<Rightarrow> patch_for tools patches r) (\<lambda>found.
          case found of
            Some patch \<Rightarrow> Inr (DiffContent patch)
          | None \<Rightarrow>
              and_then (load_export_sides g r) (\<lambda>(original, modified).
              and_then (buffer_patch tools r original modified) (\<lambda>patch. Inr (DiffContent patch)))))"

section \<open>Formats\<close>

definition newline :: string where "newline = [CHR 0x0A]"
definition quote :: string where "quote = [CHR 0x22]"

definition line :: "string \<Rightarrow> string" where
  "line s = s @ newline"

definition markdown_title :: "diff_file \<Rightarrow> string" where
  "markdown_title f =
     (case df_old_path f of None \<Rightarrow> df_path f | Some old \<Rightarrow> df_path f @ '' (from '' @ old @ '')'')"

text \<open>\<open>rsplit('.').next()\<close> always finds a piece.\<close>

definition language_of :: "string \<Rightarrow> string" where
  "language_of path = last (split_char CHR ''.'' path)"

definition code_block :: "string \<Rightarrow> string \<Rightarrow> string \<Rightarrow> string" where
  "code_block title language content =
     line (''### '' @ title @ newline @ ''```'' @ language @ newline @ content @ newline @ ''```'' @ newline)"

definition markdown_content :: "export_layout \<Rightarrow> diff_file \<Rightarrow> export_content \<Rightarrow> string list" where
  "markdown_content layout f content =
     (case content of
        SplitContent original modified \<Rightarrow>
          (if original \<noteq> [] then [code_block ''Original Version'' (language_of (df_path f)) original] else []) @
          (if modified \<noteq> [] then [code_block ''Modified Version'' (language_of (df_path f)) modified] else [])
      | DiffContent diff \<Rightarrow>
          [code_block (if layout = GitPatch then ''Git Patch'' else ''Full Context Diff'') ''diff'' diff])"

text \<open>\<open>xml_attr\<close> and \<open>cdata\<close>, one replacement after the other.\<close>

definition xml_attr :: "string \<Rightarrow> string" where
  "xml_attr v =
     replace_all ''>'' ''&gt;'' (replace_all ''<'' ''&lt;'' (replace_all [CHR 0x27] ''&apos;''
       (replace_all quote ''&quot;'' (replace_all ''&'' ''&amp;'' v))))"

definition cdata_open :: string where "cdata_open = ''<![CDATA[''"
definition cdata_close :: string where "cdata_close = '']]>''"

definition cdata :: "string \<Rightarrow> string" where
  "cdata v = replace_all cdata_close ('']]'' @ cdata_close @ cdata_open @ ''>'') v"

definition xml_text :: "string \<Rightarrow> string \<Rightarrow> string" where
  "xml_text tag v =
     line (''    <'' @ tag @ ''>'' @ cdata_open @ newline @ cdata v @ newline @ cdata_close @ ''</'' @ tag @ ''>'')"

definition xml_file_start :: "diff_file \<Rightarrow> string" where
  "xml_file_start f =
     line (''  <file path='' @ quote @ xml_attr (df_path f) @ quote @
       '' old_path='' @ quote @ xml_attr (case df_old_path f of None \<Rightarrow> [] | Some p \<Rightarrow> p) @ quote @
       '' status='' @ quote @ xml_attr (df_status f) @ quote @ ''>'')"

definition xml_content :: "export_content \<Rightarrow> string list" where
  "xml_content content =
     (case content of
        SplitContent original modified \<Rightarrow> [xml_text ''original'' original, xml_text ''modified'' modified]
      | DiffContent diff \<Rightarrow> [xml_text ''diff'' diff])"

definition txt_rule :: string where "txt_rule = line (replicate 66 CHR ''='')"

definition txt_side :: "string \<Rightarrow> string \<Rightarrow> string" where
  "txt_side side v =
     line (''<<<<<<<< '' @ side @ '' VERSION START'' @ newline @ v @ newline @ ''>>>>>>>> '' @ side @
       '' VERSION END'' @ newline)"

definition txt_content :: "export_content \<Rightarrow> string list" where
  "txt_content content =
     (case content of
        SplitContent original modified \<Rightarrow>
          (if original \<noteq> [] then [txt_side ''ORIGINAL'' original] else []) @
          (if modified \<noteq> [] then [txt_side ''MODIFIED'' modified] else [])
      | DiffContent diff \<Rightarrow> [line diff])"

definition layout_name :: "export_layout \<Rightarrow> string" where
  "layout_name layout = (case layout of Split \<Rightarrow> ''Split'' | Unified \<Rightarrow> ''Unified'' | GitPatch \<Rightarrow> ''GitPatch'')"

section \<open>The export\<close>

text \<open>What was written, and how it went on.\<close>

type_synonym written = "(vcs_error + unit) \<times> string list"

fun after_text :: "string list \<Rightarrow> vcs_error + export_content \<Rightarrow> (export_content \<Rightarrow> written) \<Rightarrow> written" where
  "after_text before (Inl e) rest = (Inl e, before)"
| "after_text before (Inr content) rest = (case rest content of (r, texts) \<Rightarrow> (r, before @ texts))"

definition write_record ::
  "git_env \<Rightarrow> export_tools \<Rightarrow> export_options \<Rightarrow> native_patch_set option \<Rightarrow> nat \<Rightarrow> diff_record \<Rightarrow> written" where
  "write_record g tools options native index r =
     (let f = dr_public r;
          content = export_content g tools r (eo_layout options) native
      in case eo_format options of
        Markdown \<Rightarrow>
          after_text [] content (\<lambda>c. (Inr (),
            [line (''## File: '' @ markdown_title f @ '' ('' @ df_status f @ '')'' @ newline)] @
            markdown_content (eo_layout options) f c @ [line (''---'' @ newline)]))
      | Json \<Rightarrow>
          after_text (if 0 < index then ['','' @ newline] else []) content (\<lambda>c.
            case xt_json tools \<lparr>je_path = df_path f, je_old_path = df_old_path f, je_status = df_status f,
                                je_layout = layout_name (eo_layout options), je_content = c\<rparr> of
              None \<Rightarrow> (Inl SerializationError, [])
            | Some encoded \<Rightarrow> (Inr (), [encoded]))
      | Xml \<Rightarrow>
          after_text [xml_file_start f] content (\<lambda>c. (Inr (), xml_content c @ [''  </file>'' @ newline]))
      | Txt \<Rightarrow>
          after_text ([txt_rule, line (''FILE: '' @ df_path f @ ''  STATUS: '' @ df_status f)] @
              (case df_old_path f of None \<Rightarrow> [] | Some old \<Rightarrow> [line (''OLD PATH: '' @ old)]) @ [txt_rule]) content
            (\<lambda>c. (Inr (), txt_content c @ [newline])))"

fun write_records ::
  "git_env \<Rightarrow> export_tools \<Rightarrow> export_options \<Rightarrow> native_patch_set option \<Rightarrow> nat \<Rightarrow> diff_record list \<Rightarrow> written" where
  "write_records g tools options native index [] = (Inr (), [])"
| "write_records g tools options native index (r # rs) =
     (case write_record g tools options native index r of
        (Inl e, texts) \<Rightarrow> (Inl e, texts)
      | (Inr _, texts) \<Rightarrow> (
          case write_records g tools options native (Suc index) rs of (res, more_texts) \<Rightarrow> (res, texts @ more_texts)))"

fun export_head :: "export_format \<Rightarrow> string list" where
  "export_head Markdown = [line (''# Git Diff Export'' @ newline), line (''> Generated by WinriseF Toolbox'' @ newline)]"
| "export_head Json =
     [''{'' @ newline @ ''  '' @ quote @ ''generator'' @ quote @ '': '' @ quote @ ''WinriseF Toolbox'' @ quote @ '','' @
      newline @ ''  '' @ quote @ ''files'' @ quote @ '': ['' @ newline]"
| "export_head Xml =
     [''<?xml version='' @ quote @ ''1.0'' @ quote @ '' encoding='' @ quote @ ''UTF-8'' @ quote @ ''?>'' @ newline @
      ''<git_diff_export generator='' @ quote @ ''WinriseF Toolbox'' @ quote @ ''>'' @ newline]"
| "export_head Txt = [''WINRISEF TOOLBOX - GIT DIFF EXPORT'' @ newline @ newline]"

fun export_foot :: "export_format \<Rightarrow> string list" where
  "export_foot Markdown = []"
| "export_foot Json = [newline @ ''  ]'' @ newline @ ''}'' @ newline]"
| "export_foot Xml = [''</git_diff_export>'' @ newline]"
| "export_foot Txt = []"

definition export_records :: "diff_session \<Rightarrow> export_options \<Rightarrow> diff_record list" where
  "export_records session options =
     filter (\<lambda>r. df_file_id (dr_public r) \<in> set (eo_selected_file_ids options)) (ds_records session)"

definition write_export :: "git_env \<Rightarrow> export_tools \<Rightarrow> diff_session \<Rightarrow> export_options \<Rightarrow> written" where
  "write_export g tools session options =
     (if eo_selected_file_ids options = [] then (Inl NoFilesSelected, [])
      else let records = export_records session options
      in if records = [] then (Inl NoFilesSelected, [])
      else if list_ex (\<lambda>r. df_is_binary (dr_public r) \<or> df_export_too_large (dr_public r)) records
      then (Inl UnsupportedExportFile, [])
      else case (if eo_layout options = GitPatch then and_then (native_patches g session) (\<lambda>n. Inr (Some n)) else Inr None) of
        Inl e \<Rightarrow> (Inl e, [])
      | Inr native \<Rightarrow> (
          case write_records g tools options native 0 records of
            (Inl e, texts) \<Rightarrow> (Inl e, export_head (eo_format options) @ texts)
          | (Inr _, texts) \<Rightarrow>
              (Inr (), export_head (eo_format options) @ texts @ export_foot (eo_format options))))"

section \<open>The XML can be read back\<close>

text \<open>The reader: the five entities of an attribute value, and consecutive CDATA sections as one text.\<close>

definition xml_entities :: "(string \<times> char) list" where
  "xml_entities = [(''amp;'', CHR ''&''), (''quot;'', CHR 0x22), (''apos;'', CHR 0x27), (''lt;'', CHR ''<''), (''gt;'', CHR ''>'')]"

fun read_entity :: "(string \<times> char) list \<Rightarrow> string \<Rightarrow> (char \<times> string) option" where
  "read_entity [] s = None"
| "read_entity ((e, c) # es) s = (case strip_prefix e s of Some rest \<Rightarrow> Some (c, rest) | None \<Rightarrow> read_entity es s)"

lemma read_entity_shorter: "read_entity es s = Some (c, rest) \<Longrightarrow> length rest \<le> length s"
  by (induction es) (auto simp: strip_prefix_Some_iff split: option.splits)

function xml_unescape :: "string \<Rightarrow> string option" where
  "xml_unescape s =
     (case s of
        [] \<Rightarrow> Some []
      | c # cs \<Rightarrow>
          if c = CHR ''&'' then (case read_entity xml_entities cs of
              None \<Rightarrow> None
            | Some (d, rest) \<Rightarrow> map_option ((#) d) (xml_unescape rest))
          else map_option ((#) c) (xml_unescape cs))"
  by auto
termination by (relation "measure length") (auto dest!: read_entity_shorter)

declare xml_unescape.simps [simp del]

function read_cdata :: "string \<Rightarrow> string \<times> string" where
  "read_cdata s =
     (case strip_prefix cdata_open s of
        None \<Rightarrow> ([], s)
      | Some body \<Rightarrow> (
          case split_once cdata_close body of
            None \<Rightarrow> ([], s)
          | Some (a, rest) \<Rightarrow> (case read_cdata rest of (v, rest') \<Rightarrow> (a @ v, rest'))))"
  by auto
termination by (relation "measure length") (auto simp: strip_prefix_Some_iff cdata_open_def dest!: split_once_Some)

declare read_cdata.simps [simp del]

text \<open>A replacement of single characters works on each of them.\<close>

lemma split_once_char: "split_once [c] s = (if c \<in> set s then Some (takeWhile (\<lambda>x. x \<noteq> c) s, tl (dropWhile (\<lambda>x. x \<noteq> c) s)) else None)"
  by (induction s) auto

lemma replace_all_Nil: "p \<noteq> [] \<Longrightarrow> replace_all p w [] = []"
  by (simp add: replace_all_def split_str.simps)

lemma split_str_not_Nil [simp]: "split_str sep s \<noteq> []"
  by (subst split_str.simps) (auto split: option.splits)

lemma join_with_Cons: "xs \<noteq> [] \<Longrightarrow> join_with w (x # xs) = x @ w @ join_with w xs"
  by (cases xs) auto

lemma replace_all_split:
  assumes "split_once p s = Some (a, b)" and "p \<noteq> []"
  shows "replace_all p w s = a @ w @ replace_all p w b"
  using assms by (simp add: replace_all_def split_str.simps [of p s] join_with_Cons)

lemma replace_all_none: "split_once p s = None \<Longrightarrow> p \<noteq> [] \<Longrightarrow> replace_all p w s = s"
  by (simp add: replace_all_def split_str.simps)

lemma replace_all_skip:
  assumes "p \<noteq> []" and "strip_prefix p (c # cs) = None"
  shows "replace_all p w (c # cs) = c # replace_all p w cs"
proof (cases "split_once p cs")
  case None
  with assms show ?thesis by (simp add: replace_all_none)
next
  case (Some ab)
  then obtain a b where ab: "split_once p cs = Some (a, b)" by (cases ab) auto
  with assms have "split_once p (c # cs) = Some (c # a, b)" by simp
  with ab assms(1) show ?thesis by (simp add: replace_all_split)
qed

lemma replace_all_char: "replace_all [c] w s = concat (map (\<lambda>x. if x = c then w else [x]) s)"
proof (induction s)
  case (Cons x xs)
  show ?case
  proof (cases "x = c")
    case True
    then have "split_once [c] (x # xs) = Some ([], xs)" by simp
    with Cons True show ?thesis by (simp add: replace_all_split)
  qed (use Cons in \<open>simp add: replace_all_skip\<close>)
qed (simp add: replace_all_Nil)

definition xml_char :: "char \<Rightarrow> string" where
  "xml_char c =
     (if c = CHR ''&'' then ''&amp;'' else if c = CHR 0x22 then ''&quot;'' else if c = CHR 0x27 then ''&apos;''
      else if c = CHR ''<'' then ''&lt;'' else if c = CHR ''>'' then ''&gt;'' else [c])"

lemma xml_attr_char: "xml_attr v = concat (map xml_char v)"
proof (induction v)
  case Nil
  show ?case by (simp add: xml_attr_def replace_all_Nil quote_def)
next
  case (Cons c v)
  have "xml_attr (c # v) = xml_char c @ xml_attr v"
    unfolding xml_attr_def quote_def replace_all_char xml_char_def by simp
  with Cons show ?case by simp
qed

lemma xml_unescape_char: "xml_unescape (xml_char c @ s) = map_option ((#) c) (xml_unescape s)"
  by (subst xml_unescape.simps) (auto simp: xml_char_def xml_entities_def)

lemma xml_attr_reads: "xml_unescape (xml_attr v) = Some v"
  by (induction v) (simp_all add: xml_attr_char xml_unescape_char xml_unescape.simps [of "[]"])

lemma xml_attr_clean: "set (xml_attr v) \<inter> {CHR 0x22, CHR ''<'', CHR ''>''} = {}"
  by (induction v) (auto simp: xml_attr_char xml_char_def)

text \<open>No closing mark starts in a text without one when nothing after it closes.\<close>

lemma split_once_extend:
  "split_once cdata_close p = None \<Longrightarrow> CHR ''>'' \<notin> set q \<Longrightarrow> split_once cdata_close (p @ q) = None"
proof (induction p)
  case Nil
  then show ?case
    by (cases "split_once cdata_close q")
       (auto simp: cdata_close_def dest!: split_once_Some arg_cong [where f = "\<lambda>l. CHR ''>'' \<in> set l"])
next
  case (Cons c p)
  then show ?case
    by (cases p; cases "tl p"; cases q; cases "tl q") (auto simp: cdata_close_def split: option.splits if_splits)
qed

lemma strip_prefix_take: "strip_prefix p s = (if take (length p) s = p then Some (drop (length p) s) else None)"
  by (induction p s rule: strip_prefix.induct) auto

lemma split_once_first:
  assumes "sep \<noteq> []" and "split_once sep (a @ butlast sep) = None"
  shows "split_once sep (a @ sep @ b) = Some (a, b)"
  using assms(2)
proof (induction a)
  case Nil
  from assms(1) obtain x xs where "sep = x # xs" by (cases sep) auto
  then show ?case using strip_prefix_append [of sep b] by simp
next
  case (Cons c a)
  have sep: "sep @ b = butlast sep @ last sep # b"
    using assms(1) by (metis append_Cons append_Nil append_assoc append_butlast_last_id)
  have "take (length sep) (c # a @ sep @ b) = take (length sep) ((c # a @ butlast sep) @ last sep # b)"
    by (simp only: sep append_assoc append_Cons)
  also have "\<dots> = take (length sep) (c # a @ butlast sep)"
    using assms(1) by (subst take_append) (cases sep, auto)
  finally have same: "take (length sep) (c # a @ sep @ b) = take (length sep) (c # a @ butlast sep)" .
  have none: "take (length sep) (c # a @ butlast sep) \<noteq> sep" and tail: "split_once sep (a @ butlast sep) = None"
    using Cons.prems by (auto simp: strip_prefix_take split: if_splits)
  have "strip_prefix sep (c # a @ sep @ b) = None" using none unfolding strip_prefix_take same by simp
  with Cons.IH [OF tail] show ?case by simp
qed

lemma split_once_head_none: "split_once sep s = Some (a, b) \<Longrightarrow> sep \<noteq> [] \<Longrightarrow> split_once sep a = None"
proof (induction s arbitrary: a)
  case (Cons c cs)
  show ?case
  proof (cases "strip_prefix sep (c # cs)")
    case None
    with Cons.prems obtain a' where a: "a = c # a'" "split_once sep cs = Some (a', b)" by auto
    have "strip_prefix sep (c # a') = None"
      using None split_once_Some [OF a(2)] unfolding strip_prefix_None_iff by (metis append_Cons append_assoc)
    with a Cons.IH [OF a(2) Cons.prems(2)] show ?thesis by simp
  qed (use Cons.prems in auto)
qed simp

lemma cdata_section:
  assumes "split_once cdata_close p = None" and "CHR ''>'' \<notin> set q"
  shows "read_cdata (cdata_open @ p @ q @ cdata_close @ rest) = (p @ q @ fst (read_cdata rest), snd (read_cdata rest))"
proof -
  have "split_once cdata_close ((p @ q) @ butlast cdata_close) = None"
    using split_once_extend [OF assms(1), of "q @ butlast cdata_close"] assms(2) by (simp add: cdata_close_def)
  from split_once_first [OF _ this] have "split_once cdata_close (p @ q @ cdata_close @ rest) = Some (p @ q, rest)"
    by (simp add: cdata_close_def)
  then show ?thesis by (subst read_cdata.simps) (simp split: prod.split)
qed

lemma split_once_no_close:
  "split_once cdata_close p = None \<Longrightarrow> c \<noteq> CHR '']'' \<Longrightarrow> split_once cdata_close (c # p) = None"
  by (auto simp: cdata_close_def split: option.splits)

lemma read_cdata_text:
  "c \<noteq> CHR '']'' \<Longrightarrow>
     read_cdata (cdata_open @ c # cdata v @ newline @ cdata_close @ rest) =
       (c # v @ newline @ fst (read_cdata rest), snd (read_cdata rest))"
proof (induction "length v" arbitrary: c v rule: less_induct)
  case less
  show ?case
  proof (cases "split_once cdata_close v")
    case None
    then have "cdata v = v" by (simp add: cdata_def replace_all_none cdata_close_def)
    with cdata_section [OF split_once_no_close [OF None less.prems], of newline rest] show ?thesis
      by (simp add: newline_def)
  next
    case (Some ab)
    then obtain a b where ab: "split_once cdata_close v = Some (a, b)" by (cases ab) auto
    have v: "v = a @ cdata_close @ b" by (rule split_once_Some [OF ab])
    have a: "split_once cdata_close a = None" by (rule split_once_head_none [OF ab]) (simp add: cdata_close_def)
    have cv: "cdata v = a @ '']]'' @ cdata_close @ cdata_open @ ''>'' @ cdata b"
      using ab by (simp add: cdata_def replace_all_split cdata_close_def)
    have "length b < length v" by (simp add: v cdata_close_def)
    from less.hyps [OF this, of "CHR ''>''"]
    have rest: "read_cdata (cdata_open @ CHR ''>'' # cdata b @ newline @ cdata_close @ rest) =
        (CHR ''>'' # b @ newline @ fst (read_cdata rest), snd (read_cdata rest))" by simp
    from cdata_section [OF split_once_no_close [OF a less.prems], of "'']]''"
        "cdata_open @ CHR ''>'' # cdata b @ newline @ cdata_close @ rest"]
    show ?thesis unfolding rest by (simp add: cv) (simp add: v cdata_close_def)
  qed
qed


section \<open>What is listed as text can be exported\<close>

lemma load_sides_ok:
  assumes "env_ok g" and "record_ok g r" and "\<not> df_is_binary (dr_public r)" and "\<not> df_export_too_large (dr_public r)"
  shows "(\<exists>original modified. load_export_sides g r = Inr (original, modified)) \<or>
         (load_export_sides g r = Inl BinaryFile \<and> late_nul g)"
proof -
  have "source_ok g False (df_preview_too_large (dr_public r)) False source" if "source \<in> {dr_original r, dr_modified r}" for source
    using assms(2-4) that by (auto simp: record_ok_def)
  from ok_source_loads(2) [OF assms(1) this [of "dr_original r"]] ok_source_loads(2) [OF assms(1) this [of "dr_modified r"]]
  show ?thesis by (auto simp: load_export_sides_def)
qed

lemma content_ok:
  assumes "env_ok g" and "record_ok g r" and "\<not> df_is_binary (dr_public r)" and "\<not> df_export_too_large (dr_public r)"
    and "layout \<noteq> GitPatch"
  shows "(\<exists>c. export_content g tools r layout native = Inr c) \<or>
         (export_content g tools r layout native = Inl BinaryFile \<and> late_nul g)"
  using load_sides_ok [OF assms(1-4)] assms(5) by (cases layout) (auto simp: export_content_def)

lemma write_record_ok:
  assumes "(\<exists>c. export_content g tools r (eo_layout options) native = Inr c) \<or>
           (export_content g tools r (eo_layout options) native = Inl BinaryFile \<and> late_nul g)"
    and "\<And>entry. xt_json tools entry \<noteq> None"
  shows "fst (write_record g tools options native index r) = Inr () \<or>
         (fst (write_record g tools options native index r) = Inl BinaryFile \<and> late_nul g)"
  using assms(1)
proof
  assume "\<exists>c. export_content g tools r (eo_layout options) native = Inr c"
  then obtain c where "export_content g tools r (eo_layout options) native = Inr c" ..
  then show ?thesis
    by (cases "eo_format options") (auto simp: assms(2) write_record_def Let_def split: option.split)
next
  assume "export_content g tools r (eo_layout options) native = Inl BinaryFile \<and> late_nul g"
  then show ?thesis by (cases "eo_format options") (simp_all add: write_record_def Let_def)
qed

lemma write_records_ok:
  assumes "\<And>i r. r \<in> set rs \<Longrightarrow> fst (write_record g tools options native i r) = Inr () \<or>
         (fst (write_record g tools options native i r) = Inl BinaryFile \<and> late_nul g)"
  shows "fst (write_records g tools options native index rs) = Inr () \<or>
         (fst (write_records g tools options native index rs) = Inl BinaryFile \<and> late_nul g)"
  using assms
proof (induction rs arbitrary: index)
  case (Cons r rs)
  have "fst (write_records g tools options native (Suc index) rs) = Inr () \<or>
      (fst (write_records g tools options native (Suc index) rs) = Inl BinaryFile \<and> late_nul g)"
    by (rule Cons.IH) (simp add: Cons.prems)
  moreover have "fst (write_record g tools options native index r) = Inr () \<or>
      (fst (write_record g tools options native index r) = Inl BinaryFile \<and> late_nul g)"
    by (simp add: Cons.prems)
  ultimately show ?case by (auto split: prod.splits sum.splits)
qed simp

text \<open>An export of files that a session lists as text within the limit, in a layout without native
  patches, is complete, or a blob has a late zero byte.\<close>

lemma write_export_ok:
  assumes "create_diff g old new grp = Inr session" and "env_ok g" and "eo_layout options \<noteq> GitPatch"
    and "export_records session options \<noteq> []"
    and "\<And>r. r \<in> set (export_records session options) \<Longrightarrow>
           \<not> df_is_binary (dr_public r) \<and> \<not> df_export_too_large (dr_public r)"
    and "\<And>entry. xt_json tools entry \<noteq> None"
  shows "fst (write_export g tools session options) = Inr () \<or>
         (fst (write_export g tools session options) = Inl BinaryFile \<and> late_nul g)"
proof -
  have "fst (write_records g tools options None 0 (export_records session options)) = Inr () \<or>
      (fst (write_records g tools options None 0 (export_records session options)) = Inl BinaryFile \<and> late_nul g)"
  proof (rule write_records_ok)
    fix i r
    assume r: "r \<in> set (export_records session options)"
    then have "r \<in> set (ds_records session)" by (simp add: export_records_def)
    then have "record_ok g r" using create_diff_records_ok [OF assms(2,1)] by blast
    from content_ok [OF assms(2) this _ _ assms(3), of tools None] assms(5) [OF r]
    show "fst (write_record g tools options None i r) = Inr () \<or>
        (fst (write_record g tools options None i r) = Inl BinaryFile \<and> late_nul g)"
      using write_record_ok [OF _ assms(6)] by blast
  qed
  moreover have "eo_selected_file_ids options \<noteq> []" using assms(4) by (auto simp: export_records_def)
  moreover have "\<not> list_ex (\<lambda>r. df_is_binary (dr_public r) \<or> df_export_too_large (dr_public r)) (export_records session options)"
    using assms(5) by (auto simp: list_ex_iff)
  ultimately show ?thesis
    using assms(3,4) by (auto simp: write_export_def Let_def split: prod.splits sum.splits)
qed

text \<open>When the last lines differ and have no line break, the unified layout writes them on one line.\<close>

lemma last_lines_glued:
  assumes "xt_changes tools ''a'' ''b'' = [(ChangeDelete, ''a''), (ChangeInsert, ''b'')]"
    and "xt_changes tools ''a+b'' [] = [(ChangeDelete, ''a+b'')]"
  shows "full_context_diff tools ''a'' ''b'' = full_context_diff tools ''a+b'' []"
  using assms by (simp add: full_context_diff_def)

end
