(* ===== verification/Firewall.thy ===== *)
theory Firewall
  imports Git_Export
begin

unbundle bit_operations_syntax

text \<open>
  The rules of the Windows firewall, crates/winrisef-agent/src/firewall.rs: the query, the script that
  runs elevated and how it is passed on.

  A text is here its list of Unicode scalar values, since the script is sent as UTF-16.  Which of them
  PowerShell takes for a quotation mark is an argument of its reader.
\<close>

section \<open>The scripts\<close>

type_synonym scalars = "nat list"

definition ascii :: "string \<Rightarrow> scalars" where
  "ascii s = map of_char s"

definition powershell_literal :: "scalars \<Rightarrow> scalars" where
  "powershell_literal v = replace_all [39] [39, 39] v"

definition udp_rule_name :: "u16 \<Rightarrow> scalars" where
  "udp_rule_name port = ascii (''WinriseF Agent WebTransport UDP '' @ show_nat (unat port))"

definition tcp_rule_name :: "u16 \<Rightarrow> scalars" where
  "tcp_rule_name port = ascii (''WinriseF Agent LAN HTTP TCP '' @ show_nat (unat port))"

definition quoted :: "scalars \<Rightarrow> scalars" where
  "quoted v = 39 # v @ [39]"

definition rules_query :: "u16 \<Rightarrow> scalars \<Rightarrow> scalars" where
  "rules_query port path =
     ascii ''$rules = Get-NetFirewallRule -DisplayName '' @ quoted (udp_rule_name port) @ ascii '','' @ quoted (tcp_rule_name port) @
     ascii '' -ErrorAction SilentlyContinue; $programs = @($rules | Get-NetFirewallApplicationFilter | Where-Object { $_.Program -eq '' @
     quoted path @ ascii '' }); if ($rules.Count -ge 2 -and $programs.Count -ge 2) { exit 0 } else { exit 1 }''"

definition elevated_script :: "u16 \<Rightarrow> scalars \<Rightarrow> scalars" where
  "elevated_script port path =
     ascii ''$ErrorActionPreference = '' @ quoted (ascii ''Stop'') @ ascii ''; Remove-NetFirewallRule -DisplayName '' @
     quoted (udp_rule_name port) @ ascii '','' @ quoted (tcp_rule_name port) @ ascii '' -ErrorAction SilentlyContinue; '' @
     ascii ''New-NetFirewallRule -DisplayName '' @ quoted (udp_rule_name port) @
     ascii '' -Direction Inbound -Action Allow -Protocol UDP -LocalPort '' @ ascii (show_nat (unat port)) @
     ascii '' -Program '' @ quoted path @ ascii '' -Profile Any | Out-Null; '' @
     ascii ''New-NetFirewallRule -DisplayName '' @ quoted (tcp_rule_name port) @
     ascii '' -Direction Inbound -Action Allow -Protocol TCP -LocalPort '' @ ascii (show_nat (unat port)) @
     ascii '' -RemoteAddress LocalSubnet -Program '' @ quoted path @ ascii '' -Profile Any | Out-Null''"

section \<open>The encoding of the script\<close>

definition utf16_units :: "nat \<Rightarrow> u16 list" where
  "utf16_units c =
     (if c < 0x10000 then [word_of_nat c]
      else [word_of_nat (0xD800 + (c - 0x10000) div 0x400), word_of_nat (0xDC00 + (c - 0x10000) mod 0x400)])"

definition le_pair :: "u16 \<Rightarrow> bytes" where
  "le_pair w = [ucast w, ucast (drop_bit 8 w)]"

definition ALPHABET :: string where
  "ALPHABET = ''ABCDEFGHIJKLMNOPQRSTUVWXYZabcdefghijklmnopqrstuvwxyz0123456789+/''"

fun chunks3 :: "'a list \<Rightarrow> 'a list list" where
  "chunks3 [] = []"
| "chunks3 [a] = [[a]]"
| "chunks3 [a, b] = [[a, b]]"
| "chunks3 (a # b # c # xs) = [a, b, c] # chunks3 xs"

definition sextet_char :: "u32 \<Rightarrow> nat \<Rightarrow> char" where
  "sextet_char v shift = ALPHABET ! unat (drop_bit shift v AND 63)"

definition byte_at :: "bytes \<Rightarrow> nat \<Rightarrow> u32" where
  "byte_at chunk i = (if i < length chunk then ucast (chunk ! i) else 0)"

definition chunk_value :: "bytes \<Rightarrow> u32" where
  "chunk_value chunk = (push_bit 16 (byte_at chunk 0) OR push_bit 8 (byte_at chunk 1)) OR byte_at chunk 2"

definition base64_chunk :: "bytes \<Rightarrow> string" where
  "base64_chunk chunk =
     (let v = chunk_value chunk
      in [sextet_char v 18, sextet_char v 12,
          if 1 < length chunk then sextet_char v 6 else CHR ''='',
          if 2 < length chunk then sextet_char v 0 else CHR ''=''])"

definition base64 :: "bytes \<Rightarrow> string" where
  "base64 bs = concat (map base64_chunk (chunks3 bs))"

definition encode_powershell :: "scalars \<Rightarrow> string" where
  "encode_powershell script = base64 (concat (map le_pair (concat (map utf16_units script))))"

section \<open>The rules\<close>

text \<open>\<open>run\<close> starts PowerShell with a command and gives its success, or the error of starting it.\<close>

datatype firewall_error = NoExecutable | ExecutableNotUnicode | PowershellFailed | ElevationFailed

type_synonym 's powershell = "scalars \<Rightarrow> 's \<Rightarrow> (unit + bool) \<times> 's"

definition elevate_command :: "scalars \<Rightarrow> scalars" where
  "elevate_command script =
     ascii ''$process = Start-Process -FilePath '' @ quoted (ascii ''powershell.exe'') @
     ascii '' -Verb RunAs -WindowStyle Hidden -Wait -PassThru -ArgumentList '' @ quoted (ascii ''-NoProfile'') @ ascii '','' @
     quoted (ascii ''-NonInteractive'') @ ascii '','' @ quoted (ascii ''-EncodedCommand'') @ ascii '','' @
     quoted (ascii (encode_powershell script)) @ ascii ''; exit $process.ExitCode''"

definition ensure_inbound_rules ::
  "bool \<Rightarrow> 's powershell \<Rightarrow> scalars option option \<Rightarrow> u16 \<Rightarrow> 's \<Rightarrow> (firewall_error + unit) \<times> 's" where
  "ensure_inbound_rules windows run executable port s =
     (if \<not> windows then (Inr (), s)
      else case executable of
        None \<Rightarrow> (Inl NoExecutable, s)
      | Some None \<Rightarrow> (Inl ExecutableNotUnicode, s)
      | Some (Some name) \<Rightarrow> (
          let path = powershell_literal name
          in case run (rules_query port path) s of
               (Inl _, s1) \<Rightarrow> (Inl PowershellFailed, s1)
             | (Inr True, s1) \<Rightarrow> (Inr (), s1)
             | (Inr False, s1) \<Rightarrow> (
                 case run (elevate_command (elevated_script port path)) s1 of
                   (Inl _, s2) \<Rightarrow> (Inl PowershellFailed, s2)
                 | (Inr elevated, s2) \<Rightarrow> (if elevated then Inr () else Inl ElevationFailed, s2))))"

section \<open>The script arrives\<close>

text \<open>What \<open>-EncodedCommand\<close> is read as: base64, then pairs of bytes, then UTF-16.\<close>

definition sextet_of :: "char \<Rightarrow> nat option" where
  "sextet_of c = (if c \<in> set ALPHABET then Some (length (takeWhile (\<lambda>x. x \<noteq> c) ALPHABET)) else None)"

definition joined_sextets :: "nat \<Rightarrow> nat \<Rightarrow> nat \<Rightarrow> nat \<Rightarrow> u32" where
  "joined_sextets i j k l =
     (push_bit 18 (word_of_nat i) OR push_bit 12 (word_of_nat j)) OR (push_bit 6 (word_of_nat k) OR word_of_nat l)"

definition bytes_of_value :: "u32 \<Rightarrow> bytes" where
  "bytes_of_value v = [ucast (drop_bit 16 v), ucast (drop_bit 8 v), ucast v]"

fun decode64 :: "string \<Rightarrow> bytes option" where
  "decode64 [] = Some []"
| "decode64 (a # b # c # d # s) =
     (case (sextet_of a, sextet_of b) of
        (Some i, Some j) \<Rightarrow>
          if c = CHR ''='' then (if d = CHR ''='' \<and> s = [] then Some (take 1 (bytes_of_value (joined_sextets i j 0 0))) else None)
          else (case sextet_of c of
            None \<Rightarrow> None
          | Some k \<Rightarrow>
              if d = CHR ''='' then (if s = [] then Some (take 2 (bytes_of_value (joined_sextets i j k 0))) else None)
              else (case sextet_of d of
                None \<Rightarrow> None
              | Some l \<Rightarrow> map_option (\<lambda>bs. bytes_of_value (joined_sextets i j k l) @ bs) (decode64 s)))
      | _ \<Rightarrow> None)"
| "decode64 _ = None"

fun le_units :: "bytes \<Rightarrow> u16 list option" where
  "le_units [] = Some []"
| "le_units [a] = None"
| "le_units (a # b # bs) = map_option ((#) (ucast a OR push_bit 8 (ucast b))) (le_units bs)"

fun decode_utf16 :: "u16 list \<Rightarrow> scalars option" where
  "decode_utf16 [] = Some []"
| "decode_utf16 (u # us) =
     (if u < 0xD800 \<or> 0xE000 \<le> u then map_option ((#) (unat u)) (decode_utf16 us)
      else case us of
        [] \<Rightarrow> None
      | l # ls \<Rightarrow>
          if u < 0xDC00 \<and> 0xDC00 \<le> l \<and> l < 0xE000
          then map_option ((#) (0x10000 + (unat u - 0xD800) * 0x400 + (unat l - 0xDC00))) (decode_utf16 ls)
          else None)"

definition scalar :: "nat \<Rightarrow> bool" where
  "scalar c \<longleftrightarrow> c < 0xD800 \<or> (0xE000 \<le> c \<and> c < 0x110000)"

lemma decode_utf16_units:
  assumes "scalar c"
  shows "decode_utf16 (utf16_units c @ us) = map_option ((#) c) (decode_utf16 us)"
proof (cases "c < 0x10000")
  case True
  with assms have "unat (word_of_nat c :: u16) = c" by (simp add: unat_of_nat)
  with True assms show ?thesis by (auto simp: utf16_units_def scalar_def word_less_nat_alt word_le_nat_alt)
next
  case False
  define hi lo where "hi = 0xD800 + (c - 0x10000) div 0x400" and "lo = 0xDC00 + (c - 0x10000) mod 0x400"
  have range: "0xD800 \<le> hi" "hi < 0xDC00" "0xDC00 \<le> lo" "lo < 0xE000"
    using False assms by (auto simp: hi_def lo_def scalar_def)
  then have units: "unat (word_of_nat hi :: u16) = hi" "unat (word_of_nat lo :: u16) = lo" by (simp_all add: unat_of_nat)
  have "0x10000 + (hi - 0xD800) * 0x400 + (lo - 0xDC00) = c"
    using False div_mult_mod_eq [of "c - 0x10000" "0x400"] by (simp add: hi_def lo_def del: div_mult_mod_eq)
  with False range units show ?thesis
    by (simp add: utf16_units_def hi_def [symmetric] lo_def [symmetric] word_less_nat_alt word_le_nat_alt)
qed

lemma decode_utf16_encoded: "list_all scalar cs \<Longrightarrow> decode_utf16 (concat (map utf16_units cs)) = Some cs"
  by (induction cs) (simp_all add: decode_utf16_units)

lemma le_units_pairs: "le_units (concat (map le_pair ws)) = Some ws"
proof (induction ws)
  case (Cons w ws)
  have "ucast (ucast w :: u8) OR push_bit 8 (ucast (ucast (drop_bit 8 w) :: u8)) = w"
    by (rule bit_word_eqI) (auto simp: bit_simps)
  with Cons show ?case by (simp add: le_pair_def)
qed simp

lemma alphabet_index: "n < 64 \<Longrightarrow> sextet_of (ALPHABET ! n) = Some n \<and> ALPHABET ! n \<noteq> CHR ''=''"
proof -
  have "list_all (\<lambda>n. sextet_of (ALPHABET ! n) = Some n \<and> ALPHABET ! n \<noteq> CHR ''='') [0..<64]" by code_simp
  then show "n < 64 \<Longrightarrow> ?thesis" by (simp add: list_all_iff)
qed

lemma low_six: "(v :: u32) AND 63 = take_bit 6 v"
  by (simp add: take_bit_eq_mask mask_eq_exp_minus_1)

lemma sextet_char_read:
  "sextet_of (sextet_char v k) = Some (unat (drop_bit k v AND 63))" "sextet_char v k \<noteq> CHR ''=''"
proof -
  have "unat (drop_bit k v AND 63) < 64"
    using take_bit_nat_less_exp [of 6 "unat (drop_bit k v)"] unfolding low_six by (simp add: unsigned_take_bit_eq)
  then show "sextet_of (sextet_char v k) = Some (unat (drop_bit k v AND 63))" "sextet_char v k \<noteq> CHR ''=''"
    using alphabet_index by (simp_all add: sextet_char_def)
qed

lemma joined_drops:
  "joined_sextets (unat (drop_bit 18 v AND 63)) (unat (drop_bit 12 v AND 63)) (unat (drop_bit 6 v AND 63)) (unat (v AND 63)) = take_bit 24 v"
proof (rule bit_word_eqI)
  fix n assume "n < LENGTH(32)"
  then consider "n < 6" | "6 \<le> n" "n < 12" | "12 \<le> n" "n < 18" | "18 \<le> n" "n < 24" | "24 \<le> n" "n < 32" by fastforce
  then show "bit (joined_sextets (unat (drop_bit 18 v AND 63)) (unat (drop_bit 12 v AND 63)) (unat (drop_bit 6 v AND 63))
      (unat (v AND 63))) n \<longleftrightarrow> bit (take_bit 24 v) n"
    by cases (auto simp: joined_sextets_def low_six bit_simps)
qed

lemma bytes_of_chunk:
  fixes a b c :: u8
  shows "bytes_of_value (take_bit 24 ((push_bit 16 (ucast a) OR push_bit 8 (ucast b)) OR ucast c)) = [a, b, c]"
proof -
  have "bit x (8 + n) \<longleftrightarrow> False" "bit x (16 + n) \<longleftrightarrow> False" for x :: u8 and n
    using bit_imp_le_length [of x "8 + n"] bit_imp_le_length [of x "16 + n"] by auto
  then show ?thesis unfolding bytes_of_value_def by (auto intro!: bit_word_eqI simp: bit_simps)
qed

lemma chunk_values:
  "chunk_value [a] = (push_bit 16 (ucast a) OR push_bit 8 (ucast (0 :: u8))) OR ucast (0 :: u8)"
  "chunk_value [a, b] = (push_bit 16 (ucast a) OR push_bit 8 (ucast b)) OR ucast (0 :: u8)"
  "chunk_value [a, b, c] = (push_bit 16 (ucast a) OR push_bit 8 (ucast b)) OR ucast c"
  by (simp_all add: chunk_value_def byte_at_def)

lemma chunk_low:
  "unat (chunk_value [a] AND 63) = 0" "unat (drop_bit 6 (chunk_value [a]) AND 63) = 0" "unat (chunk_value [a, b] AND 63) = 0"
  unfolding low_six unat_eq_0 chunk_value_def byte_at_def by (auto intro!: bit_word_eqI simp: bit_simps)

lemma decode64_chunk:
  "decode64 (base64_chunk [a, b, c] @ s) = map_option ((@) [a, b, c]) (decode64 s)"
  "decode64 (base64_chunk [a, b]) = Some [a, b]" "decode64 (base64_chunk [a]) = Some [a]"
proof -
  show "decode64 (base64_chunk [a, b, c] @ s) = map_option ((@) [a, b, c]) (decode64 s)"
    using bytes_of_chunk [of a b c, folded chunk_values]
    by (simp add: base64_chunk_def Let_def sextet_char_read joined_drops)
  show "decode64 (base64_chunk [a, b]) = Some [a, b]"
    using joined_drops [of "chunk_value [a, b]"] bytes_of_chunk [of a b 0, folded chunk_values(2)]
    by (simp add: base64_chunk_def Let_def sextet_char_read chunk_low)
  show "decode64 (base64_chunk [a]) = Some [a]"
    using joined_drops [of "chunk_value [a]"] bytes_of_chunk [of a 0 0, folded chunk_values(1)]
    by (simp add: base64_chunk_def Let_def sextet_char_read chunk_low)
qed

lemma decode64_encoded: "decode64 (base64 bs) = Some bs"
proof (induction bs rule: chunks3.induct)
  case (4 a b c xs)
  then show ?case by (simp add: base64_def decode64_chunk)
qed (simp_all add: base64_def decode64_chunk)

text \<open>The script arrives at the elevated PowerShell as it was written, whatever characters the path of
  the program has, also beyond the basic plane: reading the encoded command as base64, as pairs of
  bytes and as UTF-16 gives back every scalar value.\<close>
theorem encoded_script_reads_back:
  assumes "list_all scalar script"
  shows "Option.bind (Option.bind (decode64 (encode_powershell script)) le_units) decode_utf16 = Some script"
  using decode_utf16_encoded [OF assms] by (simp add: encode_powershell_def decode64_encoded le_units_pairs)

lemma encoded_script_reads_back_witness:
  "Option.bind (Option.bind (decode64 (encode_powershell [0x27, 0x4E2D, 0x1F600])) le_units) decode_utf16 = Some [0x27, 0x4E2D, 0x1F600]"
  by (rule encoded_script_reads_back) (simp add: scalar_def)

section \<open>The path in the script\<close>

text \<open>A verbatim string of PowerShell after its opening mark: two marks stand for the second of them, and
  one ends the string.  \<open>mark\<close> is which characters are marks.\<close>

fun read_verbatim :: "(nat \<Rightarrow> bool) \<Rightarrow> scalars \<Rightarrow> (scalars \<times> scalars) option" where
  "read_verbatim mark [] = None"
| "read_verbatim mark [c] = (if mark c then Some ([], []) else None)"
| "read_verbatim mark (c # d # s) =
     (if \<not> mark c then map_option (map_prod ((#) c) id) (read_verbatim mark (d # s))
      else if mark d then map_option (map_prod ((#) d) id) (read_verbatim mark s)
      else Some ([], d # s))"

lemma powershell_literal_simps [simp]:
  "powershell_literal [] = []"
  "powershell_literal (c # v) = (if c = 39 then [39, 39] else [c]) @ powershell_literal v"
  "powershell_literal (v @ w) = powershell_literal v @ powershell_literal w"
  by (simp_all add: powershell_literal_def replace_all_char)

lemma read_verbatim_plain: "\<not> mark c \<Longrightarrow> s \<noteq> [] \<Longrightarrow> read_verbatim mark (c # s) = map_option (map_prod ((#) c) id) (read_verbatim mark s)"
  by (cases s) simp_all

lemma read_verbatim_literal:
  assumes "mark 39" and "\<forall>c \<in> set v. mark c \<longrightarrow> c = 39" and "read_verbatim mark s = Some (w, rest)"
  shows "read_verbatim mark (powershell_literal v @ s) = Some (v @ w, rest)"
  using assms(2)
proof (induction v)
  case (Cons c v)
  then have IH: "read_verbatim mark (powershell_literal v @ s) = Some (v @ w, rest)" by simp
  have "s \<noteq> []" using assms(3) by auto
  show ?case
  proof (cases "c = 39")
    case True
    with IH assms(1) show ?thesis by simp
  next
    case False
    with Cons.prems have "\<not> mark c" by auto
    with False IH \<open>s \<noteq> []\<close> show ?thesis by (simp add: read_verbatim_plain)
  qed
qed (use assms(3) in simp)

lemma read_verbatim_end: "mark 39 \<Longrightarrow> \<not> mark x \<Longrightarrow> read_verbatim mark (39 # x # s) = Some ([], x # s)"
  by simp

lemma ascii_Cons: "ascii (c # s) = of_char c # ascii s"
  by (simp add: ascii_def)

lemma elevated_script_paths:
  "\<exists>before between after. elevated_script port lit = before @ quoted lit @ 32 # between @ quoted lit @ 32 # after"
proof -
  obtain between where between: "ascii '' -Profile Any | Out-Null; '' = 32 # between" by (simp add: ascii_Cons)
  obtain after where after: "ascii '' -Profile Any | Out-Null'' = 32 # after" by (simp add: ascii_Cons)
  show ?thesis
    unfolding elevated_script_def between after
    by (rule exI [of _ "ascii ''$ErrorActionPreference = '' @ quoted (ascii ''Stop'') @ ascii ''; Remove-NetFirewallRule -DisplayName '' @
     quoted (udp_rule_name port) @ ascii '','' @ quoted (tcp_rule_name port) @ ascii '' -ErrorAction SilentlyContinue; '' @
     ascii ''New-NetFirewallRule -DisplayName '' @ quoted (udp_rule_name port) @
     ascii '' -Direction Inbound -Action Allow -Protocol UDP -LocalPort '' @ ascii (show_nat (unat port)) @ ascii '' -Program ''"],
     rule exI [of _ "between @ ascii ''New-NetFirewallRule -DisplayName '' @ quoted (tcp_rule_name port) @
     ascii '' -Direction Inbound -Action Allow -Protocol TCP -LocalPort '' @ ascii (show_nat (unat port)) @
     ascii '' -RemoteAddress LocalSubnet -Program ''"], rule exI [of _ after]) (simp only: append_assoc append_Cons)
qed

text \<open>C38.  What the path of the program cannot do to the elevated script: as long as PowerShell takes no
  other character of the path for a quotation mark than the apostrophe, each of the two literals made
  of it is read as exactly the path, whatever it contains, and the script goes on after it as written.\<close>
theorem quoted_path_reads_back:
  assumes "mark 39" and "\<not> mark 32" and "\<forall>c \<in> set path. mark c \<longrightarrow> c = 39"
  shows "\<exists>before between after lit. lit = quoted (powershell_literal path) \<and>
           elevated_script port (powershell_literal path) = before @ lit @ between @ lit @ after \<and>
           read_verbatim mark (tl lit @ between @ lit @ after) = Some (path, between @ lit @ after) \<and>
           read_verbatim mark (tl lit @ after) = Some (path, after)"
proof -
  have read: "read_verbatim mark (tl (quoted (powershell_literal path)) @ 32 # s) = Some (path, 32 # s)" for s
    using read_verbatim_literal [OF assms(1,3) read_verbatim_end [OF assms(1,2), of s]] by (simp add: quoted_def)
  obtain before between after where "elevated_script port (powershell_literal path) =
      before @ quoted (powershell_literal path) @ 32 # between @ quoted (powershell_literal path) @ 32 # after"
    using elevated_script_paths by blast
  with read show ?thesis
    by (rule_tac x = before in exI, rule_tac x = "32 # between" in exI, rule_tac x = "32 # after" in exI) simp
qed

lemma quoted_path_reads_back_witness:
  "\<exists>before between after lit. lit = quoted (powershell_literal (ascii ''C:/it'' @ 39 # ascii ''s'')) \<and>
     elevated_script 17691 (powershell_literal (ascii ''C:/it'' @ 39 # ascii ''s'')) = before @ lit @ between @ lit @ after \<and>
     read_verbatim (\<lambda>c. c = 39) (tl lit @ between @ lit @ after) = Some (ascii ''C:/it'' @ 39 # ascii ''s'', between @ lit @ after) \<and>
     read_verbatim (\<lambda>c. c = 39) (tl lit @ after) = Some (ascii ''C:/it'' @ 39 # ascii ''s'', after)"
  by (rule quoted_path_reads_back) simp_all



section \<open>When the user is asked\<close>

text \<open>The elevation is asked for once, and only after the query found a rule missing; the agent goes on
  exactly when the rules are there or the elevated script succeeded.\<close>

lemma elevation_when_missing:
  assumes "ensure_inbound_rules True run (Some (Some path)) port s = (r, s')"
    and "run (rules_query port (powershell_literal path)) s = (found, s1)"
    and "run (elevate_command (elevated_script port (powershell_literal path))) s1 = (granted, s2)"
  shows "s' = (if found = Inr False then s2 else s1) \<and> (r = Inr () \<longleftrightarrow> found = Inr True \<or> (found = Inr False \<and> granted = Inr True))"
  using assms by (auto simp: ensure_inbound_rules_def split: sum.splits bool.splits if_splits)

end
