(* ===== verification/Text_Search.thy ===== *)
theory Text_Search
  imports Text_Utf8
begin

text \<open>
  What the searches of the histories use of the standard library's strings: the substring test, the
  words between white space, and the characters of a text, whose bytes are the model.
\<close>

definition contains :: "'a list \<Rightarrow> 'a list \<Rightarrow> bool" where
  "contains pattern s \<longleftrightarrow> split_once pattern s \<noteq> None"

lemma white_space_nonempty: "[] \<notin> set white_space"
  by (simp add: white_space_def)

function words_from :: "string \<Rightarrow> string \<Rightarrow> string list" where
  "words_from word s =
     (case strip_one white_space s of
        Some rest \<Rightarrow> (if word = [] then [] else [word]) @ words_from [] rest
      | None \<Rightarrow> (
          case s of
            [] \<Rightarrow> if word = [] then [] else [word]
          | c # cs \<Rightarrow> words_from (word @ [c]) cs))"
  by auto
termination by (relation "measure (\<lambda>(word, s). length s)") (auto dest: strip_one_less [OF _ white_space_nonempty])

declare words_from.simps [simp del]

definition split_whitespace :: "string \<Rightarrow> string list" where
  "split_whitespace s = words_from [] s"

text \<open>A character starts at every byte that does not continue one.\<close>

definition char_start :: "char \<Rightarrow> bool" where
  "char_start c \<longleftrightarrow> \<not> (128 \<le> (of_char c :: nat) \<and> (of_char c :: nat) < 192)"

definition char_count :: "string \<Rightarrow> nat" where
  "char_count s = length (filter char_start s)"

fun take_chars :: "nat \<Rightarrow> string \<Rightarrow> string" where
  "take_chars n [] = []"
| "take_chars n (c # cs) =
     (if char_start c then (if n = 0 then [] else c # take_chars (n - 1) cs) else c # take_chars n cs)"

text \<open>Every word of a query is found in one of the places.\<close>

definition terms_match :: "string list \<Rightarrow> string list \<Rightarrow> bool" where
  "terms_match terms places \<longleftrightarrow> list_all (\<lambda>term. list_ex (contains term) places) terms"

end
