(* ===== verification/Vc_Paging.thy ===== *)
theory Vc_Paging
  imports Prelude
begin

text \<open>
  Pages and selections of the version-control bridge: \<open>fit_page_prefix\<close> and \<open>bounded_page\<close> of
  crates/winrisef-agent/src/version_control_bridge/pagination.rs, the page arithmetic of
  \<open>history\<close> and \<open>diff_files\<close> of version_control_bridge.rs, and \<open>FileSelection::resolve\<close> of
  file_selection.rs.

  The JSON codec is a library: \<open>encoded_size\<close>, the size of an encoded page, is an argument.  The
  lemmas show that the binary search finds the largest prefix that fits, that a client following
  \<open>next_skip\<close> gets every item exactly once, and what a selection resolves to.
\<close>

section \<open>Model\<close>

definition CONTROL_RESPONSE_BUDGET :: usize where "CONTROL_RESPONSE_BUDGET = 60 * 1024"
definition MAX_HISTORY_PAGE :: usize where "MAX_HISTORY_PAGE = 64"
definition MAX_FILE_PAGE :: usize where "MAX_FILE_PAGE = 128"

record 'a page_response =
  pr_items :: "'a list"
  pr_next_skip :: usize
  pr_has_more :: bool

datatype page_error = ItemTooLarge

type_synonym 'a page_size = "'a list \<Rightarrow> usize \<Rightarrow> bool \<Rightarrow> usize"

definition serialized_size :: "'a page_size \<Rightarrow> 'a list \<Rightarrow> (usize \<Rightarrow> usize \<times> bool) \<Rightarrow> usize \<Rightarrow> usize" where
  "serialized_size encoded_size items page_state len =
     (case page_state len of (next_skip, has_more) \<Rightarrow> encoded_size (take len items) next_skip has_more)"

lemma middle_bounds: "low < high \<Longrightarrow> 0 < nat_div_ceil (high - low) 2 \<and> low + nat_div_ceil (high - low) 2 \<le> high"
  by (simp add: nat_div_ceil_def) presburger

text \<open>The loop of the binary search; \<open>fits\<close> is the comparison with the budget.\<close>

function fit_search :: "(usize \<Rightarrow> bool) \<Rightarrow> usize \<Rightarrow> usize \<Rightarrow> usize" where
  "fit_search fits low high =
     (if low < high then
        let middle = low + nat_div_ceil (high - low) 2
        in if fits middle then fit_search fits middle high else fit_search fits low (middle - 1)
      else low)"
  by pat_completeness auto
termination
  by (relation "measure (\<lambda>(fits, low, high). high - low)") (use middle_bounds in \<open>fastforce+\<close>)

declare fit_search.simps [simp del]

definition fit_page_prefix ::
  "'a page_size \<Rightarrow> 'a list \<Rightarrow> (usize \<Rightarrow> usize \<times> bool) \<Rightarrow> page_error + usize" where
  "fit_page_prefix encoded_size items page_state =
     (let fits = (\<lambda>len. serialized_size encoded_size items page_state len \<le> CONTROL_RESPONSE_BUDGET)
      in if items = [] \<or> fits (length items) then Inr (length items)
         else if \<not> fits 1 then Inl ItemTooLarge
         else Inr (fit_search fits 1 (length items - 1)))"

definition bounded_page ::
  "'a page_size \<Rightarrow> 'a list \<Rightarrow> (usize \<Rightarrow> usize \<times> bool) \<Rightarrow> page_error + 'a page_response" where
  "bounded_page encoded_size items page_state =
     and_then (fit_page_prefix encoded_size items page_state) (\<lambda>keep.
       case page_state keep of (next_skip, has_more) \<Rightarrow>
         Inr \<lparr>pr_items = take keep items, pr_next_skip = next_skip, pr_has_more = has_more\<rparr>)"

definition clamp_limit :: "usize \<Rightarrow> usize \<Rightarrow> usize" where
  "clamp_limit limit bound = max 1 (min limit bound)"

definition diff_files_page :: "'a page_size \<Rightarrow> 'a list \<Rightarrow> usize \<Rightarrow> usize \<Rightarrow> page_error + 'a page_response" where
  "diff_files_page encoded_size files skip limit =
     (let bound = clamp_limit limit MAX_FILE_PAGE;
          total_files = length files;
          stop = min (usize_saturating_add skip bound) total_files;
          items = (if skip < stop then take (stop - skip) (drop skip files) else [])
      in bounded_page encoded_size items (\<lambda>len. (skip + len, skip + len < total_files)))"

text \<open>\<open>read_history\<close> of the repository is an argument: the commits from \<open>skip\<close> on, at most \<open>limit\<close>.\<close>

definition history_page ::
  "'a page_size \<Rightarrow> (usize \<Rightarrow> usize \<Rightarrow> 'a list) \<Rightarrow> usize \<Rightarrow> usize \<Rightarrow> page_error + 'a page_response" where
  "history_page encoded_size read_history skip limit =
     (let bound = clamp_limit limit MAX_HISTORY_PAGE;
          fetched = read_history skip (bound + 1);
          upstream_has_more = bound < length fetched;
          commits = take bound fetched;
          full_len = length commits
      in bounded_page encoded_size commits (\<lambda>len. (skip + len, upstream_has_more \<or> len < full_len)))"

section \<open>The largest prefix that fits\<close>

lemma fit_search_step:
  assumes "low < high"
  obtains m where "low < m" and "m \<le> high"
    and "fit_search fits low high = (if fits m then fit_search fits m high else fit_search fits low (m - 1))"
    and "m = low + nat_div_ceil (high - low) 2"
  using middle_bounds [OF assms] assms
  by (intro that [of "low + nat_div_ceil (high - low) 2"]) (auto simp: fit_search.simps [of fits low high] Let_def)

lemma fit_search_spec:
  assumes "fits low" and "low \<le> high"
  shows "fits (fit_search fits low high) \<and> low \<le> fit_search fits low high \<and> fit_search fits low high \<le> high"
  using assms
proof (induction fits low high rule: fit_search.induct)
  case (1 fits low high)
  show ?case
  proof (cases "low < high")
    case True
    then obtain m where m: "low < m" "m \<le> high"
      "fit_search fits low high = (if fits m then fit_search fits m high else fit_search fits low (m - 1))"
      "m = low + nat_div_ceil (high - low) 2"
      by (rule fit_search_step)
    show ?thesis
    proof (cases "fits m")
      case True
      with 1(1) [OF \<open>low < high\<close> m(4)] m show ?thesis by auto
    next
      case False
      have "low \<le> m - 1" using m by simp
      note IH = 1(2) [OF \<open>low < high\<close> m(4) False 1(3) this]
      have "fit_search fits low (m - 1) \<le> high" using IH m(2) by linarith
      with IH m(3) False show ?thesis by simp
    qed
  qed (use 1(3,4) in \<open>simp add: fit_search.simps\<close>)
qed

lemma fit_search_max:
  assumes "fits low" and "low \<le> high" and "\<And>i j. i \<le> j \<Longrightarrow> j \<le> high \<Longrightarrow> fits j \<Longrightarrow> fits i"
    and "fits k" and "k \<le> high"
  shows "k \<le> fit_search fits low high"
  using assms
proof (induction fits low high rule: fit_search.induct)
  case (1 fits low high)
  show ?case
  proof (cases "low < high")
    case True
    then obtain m where m: "low < m" "m \<le> high"
      "fit_search fits low high = (if fits m then fit_search fits m high else fit_search fits low (m - 1))"
      "m = low + nat_div_ceil (high - low) 2"
      by (rule fit_search_step)
    show ?thesis
    proof (cases "fits m")
      case True
      with 1(1) [OF \<open>low < high\<close> m(4)] 1(3-) m show ?thesis by auto
    next
      case False
      then have "k < m" using 1(5) [of m k] 1(6,7) by (meson not_le)
      moreover have "fits i" if "i \<le> j" "j \<le> m - 1" "fits j" for i j
        using 1(5) [of i j] that m(2) by simp
      ultimately show ?thesis
        using 1(2) [OF \<open>low < high\<close> m(4) False 1(3)] 1(6) m False by simp
    qed
  qed (use 1(3-) in \<open>simp add: fit_search.simps\<close>)
qed

lemma fit_prefix_fits:
  assumes "fit_page_prefix encoded_size items page_state = Inr keep"
  shows "keep \<le> length items \<and> (items = [] \<or> (0 < keep \<and>
           serialized_size encoded_size items page_state keep \<le> CONTROL_RESPONSE_BUDGET))"
proof (cases "items = [] \<or> serialized_size encoded_size items page_state (length items) \<le> CONTROL_RESPONSE_BUDGET")
  case False
  let ?fits = "\<lambda>len. serialized_size encoded_size items page_state len \<le> CONTROL_RESPONSE_BUDGET"
  have one: "?fits 1" and keep: "keep = fit_search ?fits 1 (length items - 1)"
    using assms False by (auto simp: fit_page_prefix_def Let_def split: if_splits)
  have "1 \<le> length items - 1"
    using False one by (cases items; cases "tl items") auto
  note found = fit_search_spec [of ?fits, OF one this, folded keep]
  moreover have "keep \<le> length items" "0 < keep" using found by linarith+
  ultimately show ?thesis by simp
qed (use assms in \<open>auto simp: fit_page_prefix_def Let_def\<close>)

lemma fit_prefix_max:
  assumes "fit_page_prefix encoded_size items page_state = Inr keep"
    and mono: "\<And>i j. i \<le> j \<Longrightarrow> j \<le> length items \<Longrightarrow>
      serialized_size encoded_size items page_state i \<le> serialized_size encoded_size items page_state j"
    and "k \<le> length items" and "serialized_size encoded_size items page_state k \<le> CONTROL_RESPONSE_BUDGET"
  shows "k \<le> keep"
proof (cases "items = [] \<or> serialized_size encoded_size items page_state (length items) \<le> CONTROL_RESPONSE_BUDGET")
  case False
  let ?fits = "\<lambda>len. serialized_size encoded_size items page_state len \<le> CONTROL_RESPONSE_BUDGET"
  have one: "?fits 1" and keep: "keep = fit_search ?fits 1 (length items - 1)"
    using assms(1) False by (auto simp: fit_page_prefix_def Let_def split: if_splits)
  have bound: "1 \<le> length items - 1"
    using False one by (cases items; cases "tl items") auto
  have "k \<noteq> length items" using False assms(4) by auto
  then have "k \<le> length items - 1" using assms(3) by simp
  moreover have "?fits i" if "i \<le> j" "j \<le> length items - 1" "?fits j" for i j
    using mono [of i j] that by linarith
  ultimately show ?thesis
    unfolding keep by (intro fit_search_max [of ?fits, OF one bound]) (use assms(4) in auto)
qed (use assms in \<open>auto simp: fit_page_prefix_def Let_def\<close>)

text \<open>A page is the largest prefix of the items whose encoding fits the budget of 60 KiB: it fits, it
  is empty only when there is nothing to deliver, and no longer prefix fits; the search fails only
  when not even the first item fits.  The encoding of a longer prefix is not shorter.\<close>
theorem page_is_largest_that_fits:
  assumes mono: "\<forall>i j. i \<le> j \<longrightarrow> j \<le> length items \<longrightarrow>
      serialized_size encoded_size items page_state i \<le> serialized_size encoded_size items page_state j"
  shows "case bounded_page encoded_size items page_state of
      Inl e \<Rightarrow> 60 * 1024 < serialized_size encoded_size items page_state 1
    | Inr page \<Rightarrow> \<exists>keep \<le> length items. pr_items page = take keep items \<and>
        (pr_next_skip page, pr_has_more page) = page_state keep \<and> (items \<noteq> [] \<longrightarrow> 0 < keep) \<and>
        (items \<noteq> [] \<longrightarrow> encoded_size (pr_items page) (pr_next_skip page) (pr_has_more page) \<le> 60 * 1024) \<and>
        (\<forall>k. keep < k \<and> k \<le> length items \<longrightarrow> 60 * 1024 < serialized_size encoded_size items page_state k)"
proof (cases "fit_page_prefix encoded_size items page_state")
  case (Inl e)
  then show ?thesis
    by (auto simp: bounded_page_def fit_page_prefix_def CONTROL_RESPONSE_BUDGET_def Let_def split: if_splits)
next
  case (Inr keep)
  have "60 * 1024 < serialized_size encoded_size items page_state k" if "keep < k" "k \<le> length items" for k
    using fit_prefix_max [OF Inr _ that(2)] mono that(1) by (fastforce simp: CONTROL_RESPONSE_BUDGET_def)
  moreover obtain next_skip has_more where st: "page_state keep = (next_skip, has_more)" by fastforce
  ultimately show ?thesis
    using fit_prefix_fits [OF Inr] Inr
    by (auto simp: bounded_page_def serialized_size_def CONTROL_RESPONSE_BUDGET_def intro!: exI [of _ keep])
qed

lemma page_is_largest_that_fits_witness:
  "case bounded_page (\<lambda>items n more. length items * 40000) [''a'', ''b''] (\<lambda>len. (len, len < 2)) of
     Inl e \<Rightarrow> False
   | Inr page \<Rightarrow> \<forall>k. length (pr_items page) < k \<and> k \<le> 2 \<longrightarrow> 60 * 1024 < k * 40000"
proof -
  let ?size = "\<lambda>items (n :: nat) (more :: bool). length items * 40000"
  have "\<forall>i j. i \<le> j \<longrightarrow> j \<le> length [''a'', ''b''] \<longrightarrow>
      serialized_size ?size [''a'', ''b''] (\<lambda>len. (len, len < 2)) i \<le>
      serialized_size ?size [''a'', ''b''] (\<lambda>len. (len, len < 2)) j"
    by (auto simp: serialized_size_def)
  from page_is_largest_that_fits [OF this] show ?thesis
    by (auto simp: serialized_size_def min_def split: sum.splits)
qed

section \<open>Following the pages\<close>

text \<open>The client asks for the page at \<open>next_skip\<close> as long as there is more.\<close>

fun read_pages :: "(usize \<Rightarrow> 'e + 'a page_response) \<Rightarrow> nat \<Rightarrow> usize \<Rightarrow> 'a list option" where
  "read_pages page 0 skip = None"
| "read_pages page (Suc n) skip =
     (case page skip of
        Inl e \<Rightarrow> None
      | Inr r \<Rightarrow>
          if pr_has_more r then map_option (\<lambda>rest. pr_items r @ rest) (read_pages page n (pr_next_skip r))
          else Some (pr_items r))"

lemma diff_page_progress:
  assumes "skip < length files" and "length files \<le> usize_max"
    and one: "encoded_size [files ! skip] (Suc skip) (Suc skip < length files) \<le> CONTROL_RESPONSE_BUDGET"
  obtains keep page where "diff_files_page encoded_size files skip limit = Inr page" and "0 < keep"
    and "skip + keep \<le> length files" and "pr_items page = take keep (drop skip files)"
    and "pr_next_skip page = skip + keep" and "pr_has_more page \<longleftrightarrow> skip + keep < length files"
proof -
  define stop where "stop = min (usize_saturating_add skip (clamp_limit limit MAX_FILE_PAGE)) (length files)"
  define items where "items = take (stop - skip) (drop skip files)"
  define st where "st = (\<lambda>len :: nat. (skip + len, skip + len < length files))"
  have stop: "skip < stop" "stop \<le> length files"
    using assms(1,2) by (auto simp: stop_def usize_saturating_add_def clamp_limit_def MAX_FILE_PAGE_def min_def)
  have page: "diff_files_page encoded_size files skip limit = bounded_page encoded_size items st"
    using stop(1) by (simp add: diff_files_page_def Let_def items_def st_def stop_def)
  have len: "length items = stop - skip" using stop by (simp add: items_def)
  have "take 1 items = [files ! skip]"
    using stop assms(1) by (simp add: items_def take_Suc_conv_app_nth hd_drop_conv_nth take_Suc)
  then have "serialized_size encoded_size items st 1 \<le> CONTROL_RESPONSE_BUDGET"
    using one by (simp add: serialized_size_def st_def)
  then obtain keep where keep: "fit_page_prefix encoded_size items st = Inr keep"
    by (cases "fit_page_prefix encoded_size items st") (auto simp: fit_page_prefix_def Let_def split: if_splits)
  have "0 < keep" "keep \<le> stop - skip"
    using fit_prefix_fits [OF keep] len stop(1) by auto
  moreover have "take keep items = take keep (drop skip files)"
    using \<open>keep \<le> stop - skip\<close> by (simp add: items_def min_def)
  ultimately show ?thesis
    using keep stop by (intro that [of _ keep]) (auto simp: page bounded_page_def st_def)
qed

lemma read_pages_rest:
  assumes "length files - skip < n" and "skip < length files" and "length files \<le> usize_max"
    and one: "\<forall>i < length files. encoded_size [files ! i] (Suc i) (Suc i < length files) \<le> CONTROL_RESPONSE_BUDGET"
  shows "read_pages (\<lambda>s. diff_files_page encoded_size files s limit) n skip = Some (drop skip files)"
  using assms(1,2)
proof (induction n arbitrary: skip)
  case (Suc n)
  have "encoded_size [files ! skip] (Suc skip) (Suc skip < length files) \<le> CONTROL_RESPONSE_BUDGET"
    using one Suc.prems(2) by blast
  then obtain keep page where page: "diff_files_page encoded_size files skip limit = Inr page" "0 < keep"
    "skip + keep \<le> length files" "pr_items page = take keep (drop skip files)"
    "pr_next_skip page = skip + keep" "pr_has_more page \<longleftrightarrow> skip + keep < length files"
    by (rule diff_page_progress [OF Suc.prems(2) assms(3)])
  show ?case
  proof (cases "skip + keep < length files")
    case True
    with Suc page have "read_pages (\<lambda>s. diff_files_page encoded_size files s limit) n (skip + keep) =
        Some (drop (skip + keep) files)" by simp
    with page True show ?thesis by (simp add: add.commute flip: drop_drop)
  next
    case False
    with page show ?thesis by simp
  qed
qed simp

text \<open>C26.  A client that follows the pages of a diff from the start, with whatever limit, gets every file
  exactly once and in order, and comes to an end, as long as each file alone fits a page.\<close>
theorem diff_pages_deliver_all:
  assumes "\<forall>i < length files. encoded_size [files ! i] (Suc i) (Suc i < length files) \<le> 60 * 1024"
    and "length files \<le> usize_max" and "files \<noteq> []"
  shows "read_pages (\<lambda>skip. diff_files_page encoded_size files skip limit) (Suc (length files)) 0 = Some files"
  using read_pages_rest [of files 0 "Suc (length files)" encoded_size limit] assms
  by (simp add: CONTROL_RESPONSE_BUDGET_def)

lemma diff_pages_deliver_all_witness:
  "read_pages (\<lambda>skip. diff_files_page (\<lambda>items n more. length items * 30000) [True, False, True] skip 2)
     (Suc (length [True, False, True])) 0 = Some [True, False, True]"
  by (rule diff_pages_deliver_all) (simp_all add: usize_max_def)

section \<open>Selections\<close>

datatype selection_mode = Include | Exclude

record file_selection =
  fs_mode :: selection_mode
  fs_ranges :: "(u32 \<times> u32) list"

datatype selection_error = RangeInvalid | RangeOutOfRange | RangesOverlap

text \<open>\<open>selected[start..=end].fill(value)\<close>.\<close>

definition fill_range :: "usize \<Rightarrow> usize \<Rightarrow> bool \<Rightarrow> bool list \<Rightarrow> bool list" where
  "fill_range start stop v selected =
     take start selected @ replicate (Suc stop - start) v @ drop (Suc stop) selected"

fun resolve_ranges ::
  "bool \<Rightarrow> usize \<Rightarrow> (u32 \<times> u32) list \<Rightarrow> u32 option \<Rightarrow> bool list \<Rightarrow> selection_error + bool list" where
  "resolve_ranges v total_files [] previous selected = Inr selected"
| "resolve_ranges v total_files ((start, stop) # ranges) previous selected =
     (if \<not> start \<le> stop then Inl RangeInvalid
      else if \<not> unat stop < total_files then Inl RangeOutOfRange
      else if \<not> (case previous of None \<Rightarrow> True | Some p \<Rightarrow> p < start) then Inl RangesOverlap
      else resolve_ranges v total_files ranges (Some stop) (fill_range (unat start) (unat stop) v selected))"

definition resolve :: "file_selection \<Rightarrow> usize \<Rightarrow> selection_error + u32 list" where
  "resolve s total_files =
     and_then (resolve_ranges (fs_mode s = Include) total_files (fs_ranges s) None
                (replicate total_files (fs_mode s = Exclude)))
       (\<lambda>selected. Inr (map word_of_nat (filter (\<lambda>i. selected ! i) [0..<length selected])))"

definition in_ranges :: "nat \<Rightarrow> (u32 \<times> u32) list \<Rightarrow> bool" where
  "in_ranges i ranges \<longleftrightarrow> list_ex (\<lambda>(start, stop). unat start \<le> i \<and> i \<le> unat stop) ranges"

lemma fill_range_nth:
  assumes "start \<le> stop" and "stop < length selected" and "i < length selected"
  shows "fill_range start stop v selected ! i = (if start \<le> i \<and> i \<le> stop then v else selected ! i)"
  using assms by (auto simp: fill_range_def nth_append min_def)

lemma length_fill_range: "start \<le> stop \<Longrightarrow> stop < length selected \<Longrightarrow> length (fill_range start stop v selected) = length selected"
  by (simp add: fill_range_def)

lemma resolve_ranges_spec:
  assumes "resolve_ranges v n ranges previous selected = Inr out" and "length selected = n"
  shows "length out = n \<and> (\<forall>i < n. out ! i = (if in_ranges i ranges then v else selected ! i))"
  using assms
proof (induction v n ranges previous selected rule: resolve_ranges.induct)
  case (2 v n start stop ranges previous selected)
  then have le: "unat start \<le> unat stop" "unat stop < length selected"
    and rec: "resolve_ranges v n ranges (Some stop) (fill_range (unat start) (unat stop) v selected) = Inr out"
    by (auto simp: word_le_nat_alt split: if_splits)
  from 2 rec le have "length out = n \<and>
      (\<forall>i < n. out ! i = (if in_ranges i ranges then v else fill_range (unat start) (unat stop) v selected ! i))"
    by (auto simp: length_fill_range split: if_splits)
  then show ?case using fill_range_nth [OF le] 2(3) by (auto simp: in_ranges_def)
qed (simp add: in_ranges_def)

text \<open>A selection resolves to exactly the files its ranges name, or to exactly the others, in order
  and without repetition, so that the export's check for duplicates never fails.\<close>
theorem selection_resolves:
  assumes "resolve s n = Inr ids" and "n \<le> 2 ^ 32"
  shows "map unat ids = filter (\<lambda>i. in_ranges i (fs_ranges s) = (fs_mode s = Include)) [0..<n] \<and>
         distinct ids \<and> sorted (map unat ids)"
proof -
  obtain out where out: "resolve_ranges (fs_mode s = Include) n (fs_ranges s) None
      (replicate n (fs_mode s = Exclude)) = Inr out"
    and ids: "ids = map word_of_nat (filter (\<lambda>i. out ! i) [0..<length out])"
    using assms(1) by (auto simp: resolve_def result_simps)
  note spec = resolve_ranges_spec [OF out, simplified]
  let ?spec = "filter (\<lambda>i. in_ranges i (fs_ranges s) = (fs_mode s = Include)) [0..<n]"
  have same: "filter (\<lambda>i. out ! i) [0..<length out] = ?spec"
    using spec by (cases "fs_mode s") (auto intro!: filter_cong split: if_splits)
  have "map unat ids = ?spec"
    unfolding ids same using assms(2) by (auto simp: comp_def unat_of_nat intro!: map_idI)
  moreover from this have "distinct ids" by (metis distinct_filter distinct_map distinct_upt)
  moreover have "sorted ?spec" by (simp add: sorted_wrt_filter)
  ultimately show ?thesis by simp
qed

lemma selection_resolves_witness:
  "\<exists>ids. resolve \<lparr>fs_mode = Include, fs_ranges = [(1, 3), (7, 7)]\<rparr> 9 = Inr ids \<and> map unat ids = [1, 2, 3, 7]"
proof -
  have r: "resolve \<lparr>fs_mode = Include, fs_ranges = [(1, 3), (7, 7)]\<rparr> 9 = Inr [1, 2, 3, 7]" by code_simp
  have "filter (\<lambda>i. in_ranges i [(1, 3), (7, 7)]) [0..<9] = [1, 2, 3, 7]" by code_simp
  with selection_resolves [OF r] r show ?thesis by simp
qed

end
