(* ===== verification/Git_History.thy ===== *)
theory Git_History
  imports Git_Diff Text_Search Vc_Paging "HOL-Library.Product_Lexorder"
begin

text \<open>
  The history and the overview of a repository: crates/winrisef-version-control/src/repository/history.rs
  and \<open>overview\<close> of src/repository.rs.

  \<open>repo_view\<close> holds what libgit2 answers: the references, the stashes, the log of HEAD, the commits and
  the walk from a set of roots in its order.  Lower case is a table of Unicode and an argument.

  The lemmas show that a page of the history is a slice of all matching commits, so that paging delivers
  each once, and what one reference without a commit does to the history.
\<close>

section \<open>Data\<close>

datatype git_ref_kind = RefHead | RefBranch | RefRemoteBranch | RefTag | RefStash | RefDeletedBranch

record git_ref =
  gr_name :: string
  gr_kind :: git_ref_kind

record graph_commit =
  gc_hash :: string
  gc_short_hash :: string
  gc_author :: string
  gc_timestamp_ms :: int
  gc_message :: string
  gc_parent_hashes :: "string list"
  gc_refs :: "git_ref list"
  gc_is_stash :: bool

text \<open>A reference: the commit it peels to, its target, its name and what it is.\<close>

record git_reference =
  rf_commit :: "oid option"
  rf_target :: "oid option"
  rf_shorthand :: "string option"
  rf_is_remote :: bool
  rf_is_tag :: bool
  rf_is_branch :: bool

record reflog_entry =
  le_message :: "string option"
  le_old :: oid
  le_new :: oid

record commit_data =
  cd_author :: "string option"
  cd_summary :: "string option"
  cd_seconds :: int
  cd_parents :: "oid list"

record repo_view =
  rv_head :: "git_reference option"
  rv_references :: "git_reference option list option"
  rv_reopens :: bool
  rv_stashes :: "oid list"
  rv_reflog :: "reflog_entry list option"
  rv_revwalk_ok :: bool
  rv_push_ok :: "oid \<Rightarrow> bool"
  rv_walk :: "oid set \<Rightarrow> oid option list"
  rv_commit :: "oid \<Rightarrow> commit_data option"

section \<open>Texts\<close>

definition ellipsis :: string where "ellipsis = [CHR 0xE2, CHR 0x80, CHR 0xA6]"

definition truncate_text :: "string \<Rightarrow> nat \<Rightarrow> string" where
  "truncate_text v max_chars = (if char_count v \<le> max_chars then v else take_chars max_chars v @ ellipsis)"

definition short_hash :: "string \<Rightarrow> string" where
  "short_hash hash = take_chars 7 hash"

definition i64_saturating_mul :: "int \<Rightarrow> int \<Rightarrow> int" where
  "i64_saturating_mul a b = max (- (2 ^ 63)) (min (2 ^ 63 - 1) (a * b))"

definition valid_deleted_branch_name :: "string \<Rightarrow> bool" where
  "valid_deleted_branch_name s \<longleftrightarrow>
     s \<noteq> [] \<and> s \<noteq> ''HEAD'' \<and> \<not> starts_with ''('' s \<and> \<not> contains ''detached'' s \<and> \<not> list_all is_ascii_hexdigit s \<and>
     \<not> list_ex (\<lambda>c. c \<in> set [CHR '' '', CHR ''~'', CHR ''^'', CHR '':'', CHR ''?'', CHR ''*'', CHR ''['', CHR 0x5C]) s"

section \<open>References\<close>

type_synonym ref_map = "(oid \<times> git_ref list) list"

definition reference_commit_oid :: "git_reference \<Rightarrow> oid option" where
  "reference_commit_oid r = (case rf_commit r of Some oid \<Rightarrow> Some oid | None \<Rightarrow> rf_target r)"

definition refs_at :: "ref_map \<Rightarrow> oid \<Rightarrow> git_ref list" where
  "refs_at m oid = (case map_of m oid of None \<Rightarrow> [] | Some refs \<Rightarrow> refs)"

definition add_ref :: "oid \<Rightarrow> git_ref \<Rightarrow> ref_map \<Rightarrow> ref_map" where
  "add_ref oid item m =
     (if list_ex (\<lambda>r. gr_kind r = gr_kind item \<and> gr_name r = gr_name item) (refs_at m oid) then m
      else AList.update oid (refs_at m oid @ [item]) m)"

record collected =
  co_roots :: "oid list"
  co_refs :: ref_map
  co_live :: "string list"

definition add_root :: "oid \<Rightarrow> git_ref \<Rightarrow> collected \<Rightarrow> collected" where
  "add_root oid item c = c\<lparr>co_roots := List.insert oid (co_roots c), co_refs := add_ref oid item (co_refs c)\<rparr>"

definition collect_head :: "repo_view \<Rightarrow> collected \<Rightarrow> collected" where
  "collect_head v c =
     (case rv_head v of
        None \<Rightarrow> c
      | Some head \<Rightarrow> (
          case reference_commit_oid head of
            None \<Rightarrow> c
          | Some oid \<Rightarrow>
              let shown = (case rf_shorthand head of None \<Rightarrow> ''HEAD'' | Some s \<Rightarrow> s)
              in (add_root oid \<lparr>gr_name = shown, gr_kind = RefHead\<rparr> c)\<lparr>co_live := List.insert shown (co_live c)\<rparr>))"

definition ref_kind :: "git_reference \<Rightarrow> git_ref_kind option" where
  "ref_kind r =
     (if rf_is_remote r then Some RefRemoteBranch
      else if rf_is_tag r then Some RefTag
      else if rf_is_branch r then Some RefBranch
      else None)"

definition collect_reference :: "git_reference \<Rightarrow> collected \<Rightarrow> collected" where
  "collect_reference r c =
     (case reference_commit_oid r of
        None \<Rightarrow> c
      | Some oid \<Rightarrow> (
          case rf_shorthand r of
            None \<Rightarrow> c
          | Some shown \<Rightarrow>
              if shown = [] then c
              else (case ref_kind r of
                None \<Rightarrow> c
              | Some kind \<Rightarrow>
                  let c1 = (if kind = RefBranch then c\<lparr>co_live := List.insert shown (co_live c)\<rparr> else c)
                  in add_root oid \<lparr>gr_name = shown, gr_kind = kind\<rparr> c1)))"

text \<open>A reference that cannot be read is left out.\<close>

definition collect_references :: "repo_view \<Rightarrow> collected \<Rightarrow> collected" where
  "collect_references v c =
     (case rv_references v of
        None \<Rightarrow> c
      | Some references \<Rightarrow> foldl (\<lambda>d r. case r of None \<Rightarrow> d | Some reference \<Rightarrow> collect_reference reference d) c references)"

definition stash_name :: "nat \<Rightarrow> string" where
  "stash_name i = ''stash@'' @ ''{'' @ show_nat i @ ''}''"

definition collect_stashes :: "repo_view \<Rightarrow> collected \<Rightarrow> collected" where
  "collect_stashes v c =
     foldl (\<lambda>d (i, oid). add_root oid \<lparr>gr_name = stash_name i, gr_kind = RefStash\<rparr> d) c (enumerate 0 (rv_stashes v))"

text \<open>The branches a checkout in the log of HEAD names and that are gone; \<open>seen\<close> grows with every name
  that gets so far.\<close>

definition branch_hint ::
  "repo_view \<Rightarrow> string list \<Rightarrow> string \<times> oid \<Rightarrow> string list \<times> collected \<Rightarrow> string list \<times> collected" where
  "branch_hint v live hint st =
     (case (hint, st) of
        ((shown, oid), (seen, c)) \<Rightarrow>
          if \<not> valid_deleted_branch_name shown \<or> shown \<in> set live \<or> shown \<in> set seen then (seen, c)
          else if rv_commit v oid = None then (shown # seen, c)
          else (shown # seen, add_root oid \<lparr>gr_name = shown, gr_kind = RefDeletedBranch\<rparr> c))"

definition entry_hints :: "reflog_entry \<Rightarrow> (string \<times> oid) list" where
  "entry_hints e =
     (case le_message e of
        None \<Rightarrow> []
      | Some message \<Rightarrow> (
          case strip_prefix ''checkout: moving from '' message of
            None \<Rightarrow> []
          | Some rest \<Rightarrow> (
              case split_once '' to '' rest of
                None \<Rightarrow> []
              | Some (left, right) \<Rightarrow> [(trim left, le_old e), (trim right, le_new e)])))"

definition add_deleted_branch_hints :: "repo_view \<Rightarrow> collected \<Rightarrow> collected" where
  "add_deleted_branch_hints v c =
     (case rv_reflog v of
        None \<Rightarrow> c
      | Some entries \<Rightarrow>
          snd (foldl (\<lambda>st hint. branch_hint v (co_live c) hint st) ([], c)
                 (concat (map entry_hints (take 400 entries)))))"

section \<open>The history\<close>

fun ref_priority :: "git_ref_kind \<Rightarrow> nat" where
  "ref_priority RefHead = 0"
| "ref_priority RefBranch = 1"
| "ref_priority RefDeletedBranch = 2"
| "ref_priority RefTag = 3"
| "ref_priority RefStash = 4"
| "ref_priority RefRemoteBranch = 5"

definition sorted_refs :: "git_ref list \<Rightarrow> git_ref list" where
  "sorted_refs refs = sort_key (\<lambda>r. (ref_priority (gr_kind r), gr_name r)) refs"

definition matches_query ::
  "(string \<Rightarrow> string) \<Rightarrow> string list \<Rightarrow> string \<Rightarrow> string \<Rightarrow> string \<Rightarrow> git_ref list \<Rightarrow> bool" where
  "matches_query to_lowercase terms hash author message refs \<longleftrightarrow>
     terms = [] \<or>
     (let places = map to_lowercase ([hash, author, message] @ map gr_name refs)
      in terms_match terms places)"

definition author_of :: "commit_data \<Rightarrow> string" where
  "author_of d = (case cd_author d of None \<Rightarrow> ''Unknown'' | Some a \<Rightarrow> a)"

definition summary_of :: "commit_data \<Rightarrow> string" where
  "summary_of d = (case cd_summary d of None \<Rightarrow> [] | Some m \<Rightarrow> m)"

definition commit_matches :: "(string \<Rightarrow> string) \<Rightarrow> string list \<Rightarrow> oid \<Rightarrow> commit_data \<Rightarrow> git_ref list \<Rightarrow> bool" where
  "commit_matches to_lowercase terms oid d refs =
     matches_query to_lowercase terms (format_hex oid) (author_of d) (summary_of d) (sorted_refs refs)"

definition shown_commit :: "oid \<Rightarrow> commit_data \<Rightarrow> git_ref list \<Rightarrow> graph_commit" where
  "shown_commit oid d refs =
     \<lparr>gc_hash = format_hex oid, gc_short_hash = short_hash (format_hex oid),
      gc_author = truncate_text (author_of d) 256,
      gc_timestamp_ms = i64_saturating_mul (cd_seconds d) 1000,
      gc_message = truncate_text (summary_of d) 4096,
      gc_parent_hashes = map format_hex (cd_parents d),
      gc_refs = map (\<lambda>r. r\<lparr>gr_name := truncate_text (gr_name r) 1024\<rparr>) (take 64 (sorted_refs refs)),
      gc_is_stash = list_ex (\<lambda>r. gr_kind r = RefStash) (sorted_refs refs)\<rparr>"

text \<open>The loop over the walk; the references of a commit are taken out of the map.\<close>

fun history_loop ::
  "(string \<Rightarrow> string) \<Rightarrow> repo_view \<Rightarrow> string list \<Rightarrow> usize \<Rightarrow> usize \<Rightarrow> usize \<Rightarrow> graph_commit list \<Rightarrow> ref_map \<Rightarrow>
     oid option list \<Rightarrow> vcs_error + graph_commit list" where
  "history_loop lower v terms skip limit matched result refs [] = Inr result"
| "history_loop lower v terms skip limit matched result refs (None # walk) = Inl GitError"
| "history_loop lower v terms skip limit matched result refs (Some oid # walk) =
     (case rv_commit v oid of
        None \<Rightarrow> Inl GitError
      | Some d \<Rightarrow>
          let here = refs_at refs oid; rest = AList.delete oid refs
          in if \<not> commit_matches lower terms oid d here
             then history_loop lower v terms skip limit matched result rest walk
             else if matched < skip then history_loop lower v terms skip limit (matched + 1) result rest walk
             else let result' = result @ [shown_commit oid d here]
                  in if limit \<le> length result' then Inr result'
                     else history_loop lower v terms skip limit (matched + 1) result' rest walk)"

definition query_terms :: "(string \<Rightarrow> string) \<Rightarrow> string option \<Rightarrow> string list" where
  "query_terms lower query = map lower (split_whitespace (case query of None \<Rightarrow> [] | Some q \<Rightarrow> q))"

definition collected_start :: collected where
  "collected_start = \<lparr>co_roots = [], co_refs = [], co_live = []\<rparr>"

definition collect_roots :: "repo_view \<Rightarrow> collected" where
  "collect_roots v =
     add_deleted_branch_hints v (collect_stashes v (collect_references v (collect_head v collected_start)))"

definition read_history ::
  "(string \<Rightarrow> string) \<Rightarrow> repo_view \<Rightarrow> string option \<Rightarrow> usize \<Rightarrow> usize \<Rightarrow> vcs_error + graph_commit list" where
  "read_history lower v query skip limit =
     (if \<not> rv_reopens v then Inl GitError
      else let c = collect_roots v
      in if co_roots c = [] then Inr []
      else if \<not> rv_revwalk_ok v \<or> \<not> list_all (rv_push_ok v) (co_roots c) then Inl GitError
      else history_loop lower v (query_terms lower query) skip limit 0 [] (co_refs c) (rv_walk v (set (co_roots c))))"


section \<open>The overview\<close>

record repository_overview =
  ro_display_name :: string
  ro_current_branch :: "string option"
  ro_is_detached_head :: bool
  ro_is_bare :: bool
  ro_head_hash :: "string option"
  ro_head_short_hash :: "string option"
  ro_upstream_branch :: "string option"
  ro_ahead :: usize
  ro_behind :: usize
  ro_has_staged_changes :: bool
  ro_has_unstaged_changes :: bool
  ro_has_untracked_files :: bool
  ro_conflicted_count :: usize
  ro_stash_count :: usize

text \<open>A local branch: its target and its upstream with name and target.\<close>

record local_branch =
  lb_target :: "oid option"
  lb_upstream :: "(string option \<times> oid option) option"

record overview_view =
  ov_opens :: bool
  ov_root_name :: "string option"
  ov_is_bare :: bool
  ov_branch :: "string \<Rightarrow> local_branch option"
  ov_ahead_behind :: "oid \<Rightarrow> oid \<Rightarrow> (usize \<times> usize) option"
  ov_statuses :: "status_flag set list option"

definition upstream_state :: "overview_view \<Rightarrow> string option \<Rightarrow> string option \<times> usize \<times> usize" where
  "upstream_state w current_branch =
     (case Option.bind current_branch (ov_branch w) of
        None \<Rightarrow> (None, 0, 0)
      | Some branch \<Rightarrow> (
          case lb_upstream branch of
            None \<Rightarrow> (None, 0, 0)
          | Some (upstream, target) \<Rightarrow> (
              upstream,
              case (lb_target branch, target) of
                (Some local, Some remote) \<Rightarrow> (case ov_ahead_behind w local remote of None \<Rightarrow> (0, 0) | Some counts \<Rightarrow> counts)
              | _ \<Rightarrow> (0, 0))))"

definition overview_statuses :: "overview_view \<Rightarrow> vcs_error + status_flag set list" where
  "overview_statuses w = (if ov_is_bare w then Inr [] else ok_or (ov_statuses w) GitError)"

definition overview :: "repo_view \<Rightarrow> overview_view \<Rightarrow> vcs_error + repository_overview" where
  "overview v w =
     and_then (ensure (ov_opens w) GitError) (\<lambda>_.
       let head_hash = map_option format_hex (Option.bind (rv_head v) rf_commit);
           current_branch = (case rv_head v of None \<Rightarrow> None | Some head \<Rightarrow> if rf_is_branch head then rf_shorthand head else None);
           (upstream, ahead, behind) = upstream_state w current_branch
       in and_then (overview_statuses w) (\<lambda>statuses.
          and_then (ensure (rv_reopens v) GitError) (\<lambda>_.
            Inr \<lparr>ro_display_name = (case ov_root_name w of None \<Rightarrow> ''Git repository'' | Some shown \<Rightarrow> shown),
                 ro_current_branch = current_branch,
                 ro_is_detached_head = (case rv_head v of None \<Rightarrow> False | Some head \<Rightarrow> \<not> rf_is_branch head),
                 ro_is_bare = ov_is_bare w,
                 ro_head_hash = head_hash, ro_head_short_hash = map_option short_hash head_hash,
                 ro_upstream_branch = upstream, ro_ahead = ahead, ro_behind = behind,
                 ro_has_staged_changes = list_ex is_index_status statuses,
                 ro_has_unstaged_changes = list_ex is_worktree_status statuses,
                 ro_has_untracked_files = list_ex (\<lambda>st. WtNew \<in> st) statuses,
                 ro_conflicted_count = length (filter (\<lambda>st. StatusConflicted \<in> st) statuses),
                 ro_stash_count = length (rv_stashes v)\<rparr>)))"

lemma overview_detached:
  "overview v w = Inr shown \<Longrightarrow> ro_is_detached_head shown \<Longrightarrow>
     ro_current_branch shown = None \<and> ro_upstream_branch shown = None \<and> ro_ahead shown = 0 \<and> ro_behind shown = 0"
  by (cases "upstream_state w (case rv_head v of None \<Rightarrow> None | Some head \<Rightarrow> if rf_is_branch head then rf_shorthand head else None)")
    (auto simp: overview_def and_then_Inr_iff upstream_state_def Let_def split: option.split_asm if_split_asm)

section \<open>Pages of the history\<close>

text \<open>All matching commits of a walk.\<close>

definition matching_commits ::
  "(string \<Rightarrow> string) \<Rightarrow> repo_view \<Rightarrow> string list \<Rightarrow> ref_map \<Rightarrow> oid list \<Rightarrow> graph_commit list" where
  "matching_commits lower v terms refs oids =
     map (\<lambda>oid. shown_commit oid (the (rv_commit v oid)) (refs_at refs oid))
       (filter (\<lambda>oid. commit_matches lower terms oid (the (rv_commit v oid)) (refs_at refs oid)) oids)"

lemma refs_at_delete: "refs_at (AList.delete oid refs) x = (if x = oid then [] else refs_at refs x)"
  by (simp add: refs_at_def AList.delete_conv')

lemma matching_cong:
  "(\<And>x. x \<in> set oids \<Longrightarrow> refs_at refs x = refs_at refs' x) \<Longrightarrow>
     matching_commits lower v terms refs oids = matching_commits lower v terms refs' oids"
  by (simp add: matching_commits_def cong: filter_cong map_cong)

lemma history_loop_slice:
  assumes "distinct oids" and "\<forall>oid \<in> set oids. rv_commit v oid \<noteq> None" and "length result < limit"
  shows "history_loop lower v terms skip limit matched result refs (map Some oids) =
    Inr (result @ take (limit - length result) (drop (skip - matched) (matching_commits lower v terms refs oids)))"
  using assms
proof (induction oids arbitrary: matched result refs)
  case (Cons oid oids)
  obtain d where d: "rv_commit v oid = Some d" using Cons.prems(2) by auto
  have rest: "matching_commits lower v terms (AList.delete oid refs) oids = matching_commits lower v terms refs oids"
    using Cons.prems(1) by (intro matching_cong) (auto simp: refs_at_delete)
  have IH: "history_loop lower v terms skip limit m r (AList.delete oid refs) (map Some oids) =
      Inr (r @ take (limit - length r) (drop (skip - m) (matching_commits lower v terms refs oids)))"
    if "length r < limit" for m r
    using Cons.IH [of r m "AList.delete oid refs"] Cons.prems(1,2) that by (simp add: rest)
  have step: "matching_commits lower v terms refs (oid # oids) =
      (if commit_matches lower terms oid d (refs_at refs oid) then [shown_commit oid d (refs_at refs oid)] else []) @
      matching_commits lower v terms refs oids"
    by (simp add: matching_commits_def d)
  show ?case
  proof (cases "commit_matches lower terms oid d (refs_at refs oid)")
    case False
    then show ?thesis using IH [OF Cons.prems(3)] by (simp add: d Let_def step)
  next
    case True
    show ?thesis
    proof (cases "matched < skip")
      case True
      then have "skip - matched = Suc (skip - Suc matched)" by simp
      with \<open>commit_matches _ _ _ _ _\<close> True IH [OF Cons.prems(3), of "matched + 1"] show ?thesis
        by (simp add: d Let_def step)
    next
      case False
      have "limit - length result = Suc (limit - Suc (length result))" using Cons.prems(3) by simp
      with False True IH [of "result @ [shown_commit oid d (refs_at refs oid)]" "matched + 1"] show ?thesis
        by (auto simp: d Let_def step not_less)
    qed
  qed
qed (simp add: matching_commits_def)

text \<open>A repository whose history can be read: the walk answers with commits, each once.\<close>

definition history_readable :: "repo_view \<Rightarrow> oid list \<Rightarrow> bool" where
  "history_readable v oids \<longleftrightarrow>
     rv_reopens v \<and> rv_revwalk_ok v \<and> list_all (rv_push_ok v) (co_roots (collect_roots v)) \<and>
     distinct oids \<and> (\<forall>oid \<in> set oids. rv_commit v oid \<noteq> None) \<and>
     (if co_roots (collect_roots v) = [] then oids = []
      else rv_walk v (set (co_roots (collect_roots v))) = map Some oids)"

definition whole_history :: "(string \<Rightarrow> string) \<Rightarrow> repo_view \<Rightarrow> string option \<Rightarrow> oid list \<Rightarrow> graph_commit list" where
  "whole_history lower v query oids =
     matching_commits lower v (query_terms lower query) (co_refs (collect_roots v)) oids"

lemma read_history_slice:
  assumes "history_readable v oids" and "0 < limit"
  shows "read_history lower v query skip limit = Inr (take limit (drop skip (whole_history lower v query oids)))"
  using assms history_loop_slice [of oids v "[]" limit lower "query_terms lower query" skip 0 "co_refs (collect_roots v)"]
  by (auto simp: read_history_def history_readable_def whole_history_def Let_def matching_commits_def split: if_splits)

text \<open>A slice function pages like a list does.\<close>

lemma history_page_progress:
  assumes "skip < length commits" and one: "\<forall>more. encoded_size [commits ! skip] (Suc skip) more \<le> CONTROL_RESPONSE_BUDGET"
  obtains keep page where "history_page encoded_size (\<lambda>s l. take l (drop s commits)) skip limit = Inr page" and "0 < keep"
    and "skip + keep \<le> length commits" and "pr_items page = take keep (drop skip commits)"
    and "pr_next_skip page = skip + keep" and "pr_has_more page \<longleftrightarrow> skip + keep < length commits"
proof -
  define bound where "bound = clamp_limit limit MAX_HISTORY_PAGE"
  define items where "items = take bound (drop skip commits)"
  define st where "st = (\<lambda>len :: nat. (skip + len, bound < min (length commits - skip) (bound + 1) \<or> len < length items))"
  have bound: "0 < bound" by (simp add: bound_def clamp_limit_def)
  have page: "history_page encoded_size (\<lambda>s l. take l (drop s commits)) skip limit = bounded_page encoded_size items st"
    by (simp add: history_page_def Let_def items_def st_def bound_def min_def)
  have len: "length items = min bound (length commits - skip)" by (simp add: items_def min.commute)
  have "take 1 items = [commits ! skip]"
    using bound assms(1) by (simp add: items_def take_Suc hd_drop_conv_nth)
  then have "serialized_size encoded_size items st 1 \<le> CONTROL_RESPONSE_BUDGET"
    using one by (simp add: serialized_size_def st_def)
  then obtain keep where keep: "fit_page_prefix encoded_size items st = Inr keep"
    by (cases "fit_page_prefix encoded_size items st") (auto simp: fit_page_prefix_def Let_def split: if_splits)
  have items: "items \<noteq> []" using bound assms(1) by (simp add: items_def)
  have "0 < keep" "keep \<le> length items"
    using fit_prefix_fits [OF keep] items by auto
  moreover from this have "take keep items = take keep (drop skip commits)"
    using len by (simp add: items_def min_def split: if_splits)
  moreover have "snd (st keep) \<longleftrightarrow> skip + keep < length commits"
    using \<open>keep \<le> length items\<close> len by (auto simp: st_def)
  ultimately show ?thesis
    using keep len by (intro that [of _ keep]) (auto simp: page bounded_page_def st_def split: prod.splits)
qed

lemma history_pages_rest:
  assumes "length commits - skip < n" and "skip \<le> length commits"
    and one: "\<forall>i < length commits. \<forall>more. encoded_size [commits ! i] (Suc i) more \<le> CONTROL_RESPONSE_BUDGET"
  shows "read_pages (\<lambda>s. history_page encoded_size (\<lambda>s l. take l (drop s commits)) s limit) n skip = Some (drop skip commits)"
  using assms(1,2)
proof (induction n arbitrary: skip)
  case (Suc n)
  show ?case
  proof (cases "skip < length commits")
    case False
    then show ?thesis
      by (simp add: history_page_def Let_def bounded_page_def fit_page_prefix_def clamp_limit_def)
  next
    case True
    with one obtain keep page where page:
      "history_page encoded_size (\<lambda>s l. take l (drop s commits)) skip limit = Inr page" "0 < keep"
      "skip + keep \<le> length commits" "pr_items page = take keep (drop skip commits)"
      "pr_next_skip page = skip + keep" "pr_has_more page \<longleftrightarrow> skip + keep < length commits"
      using history_page_progress [of skip commits encoded_size limit] by metis
    show ?thesis
    proof (cases "skip + keep < length commits")
      case more: True
      with Suc page have "read_pages (\<lambda>s. history_page encoded_size (\<lambda>s l. take l (drop s commits)) s limit) n (skip + keep) =
          Some (drop (skip + keep) commits)" by simp
      with page more show ?thesis by (simp add: add.commute flip: drop_drop)
    next
      case False
      with page show ?thesis by simp
    qed
  qed
qed simp


text \<open>Bare commits a, b and c in the order of the walk; main is at a, and the tag v1 at b.\<close>

definition sample_commit :: "string \<Rightarrow> commit_data" where
  "sample_commit m = \<lparr>cd_author = None, cd_summary = Some m, cd_seconds = 1, cd_parents = []\<rparr>"

definition sample_reference :: "oid \<Rightarrow> string \<Rightarrow> git_reference" where
  "sample_reference oid shown =
     \<lparr>rf_commit = Some oid, rf_target = Some oid, rf_shorthand = Some shown, rf_is_remote = False, rf_is_tag = False, rf_is_branch = True\<rparr>"

definition sample_view :: repo_view where
  "sample_view =
     \<lparr>rv_head = Some (sample_reference [1] ''main''), rv_references = Some [Some (sample_reference [1] ''main'')], rv_reopens = True,
      rv_stashes = [], rv_reflog = None, rv_revwalk_ok = True, rv_push_ok = (\<lambda>_. True),
      rv_walk = (\<lambda>_. map Some [[1], [2], [3]]),
      rv_commit = (\<lambda>oid. if oid = [1] then Some (sample_commit ''a'') else if oid = [2] then Some (sample_commit ''b'')
                    else if oid = [3] then Some (sample_commit ''c'') else None)\<rparr>"


section \<open>A reference without a commit\<close>

lemma add_root_roots: "set (co_roots (add_root oid item c)) = insert oid (set (co_roots c))"
  by (simp add: add_root_def)

lemma collect_reference_roots:
  "set (co_roots c) \<subseteq> set (co_roots (collect_reference r c))"
  by (auto simp: collect_reference_def add_root_roots Let_def split: option.splits)

lemma collect_fold_roots:
  "set (co_roots c) \<subseteq>
     set (co_roots (foldl (\<lambda>d r. case r of None \<Rightarrow> d | Some reference \<Rightarrow> collect_reference reference d) c references))"
proof (induction references arbitrary: c)
  case (Cons r references)
  have "set (co_roots c) \<subseteq> set (co_roots (case r of None \<Rightarrow> c | Some reference \<Rightarrow> collect_reference reference c))"
    using collect_reference_roots by (simp split: option.split)
  from subset_trans [OF this Cons.IH] show ?case by simp
qed simp

lemma collect_reference_root:
  assumes "r \<in> set references" and "r = Some reference"
    and "\<And>d. oid \<in> set (co_roots (collect_reference reference d))"
  shows "oid \<in> set (co_roots (foldl (\<lambda>d r. case r of None \<Rightarrow> d | Some reference \<Rightarrow> collect_reference reference d) c references))"
  using assms(1)
proof (induction references arbitrary: c)
  case (Cons x references)
  show ?case
  proof (cases "x = r")
    case True
    then show ?thesis
      using assms(2) assms(3) [of c] collect_fold_roots [of "collect_reference reference c" references] by auto
  qed (use Cons in auto)
qed simp

lemma collect_stashes_roots: "set (co_roots c) \<subseteq> set (co_roots (collect_stashes v c))"
proof -
  have "set (co_roots c) \<subseteq>
      set (co_roots (foldl (\<lambda>d (i, oid). add_root oid \<lparr>gr_name = stash_name i, gr_kind = RefStash\<rparr> d) c stashes))" for stashes
  proof (induction stashes arbitrary: c)
    case (Cons stash stashes)
    obtain i oid where stash: "stash = (i, oid)" by force
    show ?case
      using Cons.IH [of "add_root oid \<lparr>gr_name = stash_name i, gr_kind = RefStash\<rparr> c"] by (simp add: stash add_root_roots)
  qed simp
  then have "set (co_roots c) \<subseteq> set (co_roots (foldl (\<lambda>d (i, oid). add_root oid \<lparr>gr_name = stash_name i, gr_kind = RefStash\<rparr> d) c
      (enumerate 0 (rv_stashes v))))" .
  then show ?thesis by (simp add: collect_stashes_def)
qed

lemma branch_hint_roots: "set (co_roots (snd st)) \<subseteq> set (co_roots (snd (branch_hint v live hint st)))"
  by (auto simp: branch_hint_def add_root_roots split: prod.splits)

lemma deleted_hints_roots: "set (co_roots c) \<subseteq> set (co_roots (add_deleted_branch_hints v c))"
proof -
  have "set (co_roots (snd st)) \<subseteq> set (co_roots (snd (foldl (\<lambda>st hint. branch_hint v live hint st) st hints)))" for live hints st
  proof (induction hints arbitrary: st)
    case (Cons hint hints)
    then show ?case using branch_hint_roots [of st v live hint] by (simp add: subset_trans)
  qed simp
  from this [of "([], c)"] show ?thesis by (simp add: add_deleted_branch_hints_def split: option.splits)
qed

text \<open>C33.  One reference that names no commit fails the whole history.  A branch, tag or remote branch
  that does not peel to a commit, a tag of a tree or of a file, stays a root of the walk through its
  target; libgit2 accepts commits only, and the history of the repository cannot be read at all, whatever
  the query.\<close>
theorem unpeelable_reference_fails_history:
  assumes "rv_references v = Some references" and "Some reference \<in> set references"
    and "rf_commit reference = None" and "rf_target reference = Some oid" and "rf_shorthand reference = Some shown" and "shown \<noteq> []"
    and "rf_is_tag reference \<or> rf_is_branch reference \<or> rf_is_remote reference"
    and "\<not> rv_push_ok v oid"
  shows "read_history lower v query skip limit = Inl GitError"
proof -
  have "ref_kind reference \<noteq> None" using assms(7) by (auto simp: ref_kind_def)
  then have "oid \<in> set (co_roots (collect_reference reference d))" for d
    using assms(3-6) by (auto simp: collect_reference_def reference_commit_oid_def add_root_roots Let_def)
  from collect_reference_root [OF assms(2) refl this, of "collect_head v collected_start"]
  have "oid \<in> set (co_roots (collect_references v (collect_head v collected_start)))"
    by (simp add: collect_references_def assms(1))
  then have "oid \<in> set (co_roots (collect_roots v))"
    unfolding collect_roots_def using collect_stashes_roots deleted_hints_roots by blast
  then show ?thesis using assms(8) by (auto simp: read_history_def Let_def list_all_iff)
qed

lemma unpeelable_reference_fails_history_witness:
  "read_history id (sample_view\<lparr>rv_references := Some [Some \<lparr>rf_commit = None, rf_target = Some [9], rf_shorthand = Some ''data'',
       rf_is_remote = False, rf_is_tag = True, rf_is_branch = False\<rparr>], rv_push_ok := (\<lambda>oid. oid \<noteq> [9])\<rparr>) None 0 20 = Inl GitError"
  by (rule unpeelable_reference_fails_history [where oid = "[9]" and shown = "''data''" and
      reference = "\<lparr>rf_commit = None, rf_target = Some [9], rf_shorthand = Some ''data'', rf_is_remote = False, rf_is_tag = True, rf_is_branch = False\<rparr>"])
    (simp, simp_all)

end
