(* ===== verification/Launch.thy ===== *)
theory Launch
  imports Server
begin

text \<open>
  The launch of the agent by its protocol handler, crates/winrisef-agent/src/launch.rs: the trust
  check of an activation, the callback to the browser, and the task that keeps the public IPv6
  state in step with the firewall.

  The url crate is an argument: its parser, and the serializer of form fields.  The firewall, the
  adapters and the browser are system calls, whose answers are events.
\<close>

definition LAUNCH_TTL_MS :: u64 where "LAUNCH_TTL_MS = 120000"

definition PRODUCTION_WEB_ORIGINS :: "string list" where
  "PRODUCTION_WEB_ORIGINS = [''https://e.winrisef.top'', ''https://n.winrisef.top'', ''https://v.winrisef.top'']"

section \<open>Activation\<close>

datatype launch_feature = Transfer | VersionControl

record activation =
  ac_return_url :: url_view
  ac_nonce :: string
  ac_allowed_origin :: string
  ac_feature :: launch_feature

datatype launch_error =
    ActivationUriInvalid
  | ActivationUnsupported
  | FeatureUnsupported
  | ReturnUrlMissing
  | ReturnUrlInvalid
  | ReturnUrlCredentials
  | ReturnUrlNotSecure
  | ReturnUrlNoOrigin
  | OriginNotTrusted
  | NonceMissing
  | NonceInvalid
  | AgentBusy

text \<open>The fields of the query, the last of a name wins.\<close>

fun activation_fields ::
  "(string \<times> string) list \<Rightarrow> string option \<times> string option \<times> launch_feature \<Rightarrow>
     launch_error + (string option \<times> string option \<times> launch_feature)" where
  "activation_fields [] st = Inr st"
| "activation_fields ((key, value) # pairs) (return_url, nonce, feature) =
     (if key = ''returnUrl'' then activation_fields pairs (Some value, nonce, feature)
      else if key = ''nonce'' then activation_fields pairs (return_url, Some value, feature)
      else if key = ''feature'' then
        (if value = ''transfer'' then activation_fields pairs (return_url, nonce, Transfer)
         else if value = ''version-control'' then activation_fields pairs (return_url, nonce, VersionControl)
         else Inl FeatureUnsupported)
      else activation_fields pairs (return_url, nonce, feature))"

definition parse_activation ::
  "(string \<Rightarrow> url_view option) \<Rightarrow> string \<Rightarrow> string list \<Rightarrow> launch_error + activation" where
  "parse_activation url_parse value additional_trusted_origins =
     and_then (ok_or (url_parse value) ActivationUriInvalid) (\<lambda>uri.
     and_then (ensure (url_scheme uri = ''winrisef'' \<and> url_host_str uri = Some ''launch'') ActivationUnsupported) (\<lambda>_.
     and_then (activation_fields (url_query_pairs uri) (None, None, Transfer)) (\<lambda>(return_text, nonce_text, feature).
     and_then (ok_or return_text ReturnUrlMissing) (\<lambda>return_value.
     and_then (ok_or (url_parse return_value) ReturnUrlInvalid) (\<lambda>return_url.
     and_then (ensure (url_username return_url = [] \<and> url_password return_url = None) ReturnUrlCredentials) (\<lambda>_.
     let secure = url_scheme return_url = ''https'';
         loopback = is_loopback_host (url_host_str return_url);
         allowed_origin = url_origin return_url
     in and_then (ensure (secure \<or> (url_scheme return_url = ''http'' \<and> loopback)) ReturnUrlNotSecure) (\<lambda>_.
     and_then (ensure (allowed_origin \<noteq> ''null'') ReturnUrlNoOrigin) (\<lambda>_.
     and_then (ensure (loopback \<or> allowed_origin \<in> set PRODUCTION_WEB_ORIGINS \<or>
                allowed_origin \<in> set additional_trusted_origins) OriginNotTrusted) (\<lambda>_.
     and_then (ok_or nonce_text NonceMissing) (\<lambda>nonce.
     and_then (ensure (length nonce = 32 \<and> list_all is_ascii_hexdigit nonce) NonceInvalid) (\<lambda>_.
     Inr \<lparr>ac_return_url = return_url\<lparr>url_fragment := None\<rparr>, ac_nonce = nonce,
          ac_allowed_origin = allowed_origin, ac_feature = feature\<rparr>)))))))))))"

section \<open>Callbacks\<close>

record ready_info =
  ri_port :: u16
  ri_certificate_sha256 :: string

definition LOCALHOST :: ip_addr where "LOCALHOST = V4 0x7f000001"
definition VERSION_CONTROL_PATH :: string where "VERSION_CONTROL_PATH = ''/winrisef/version-control/v2''"

text \<open>\<open>endpoint\<close> is the \<open>https_endpoint\<close> of the network endpoints, written a second time.\<close>

definition launch_endpoint :: "ip_addr \<Rightarrow> u16 \<Rightarrow> string \<Rightarrow> string" where
  "launch_endpoint ip port path = ''https://'' @ host_text ip @ '':'' @ show_nat (unat port) @ path"

definition version_control_fields :: "string \<Rightarrow> ready_info \<Rightarrow> bytes \<Rightarrow> u64 \<Rightarrow> (string \<times> string) list" where
  "version_control_fields nonce ready launch_token expires_at_ms =
     [(''winrisef-version-control'', ''1''), (''nonce'', nonce),
      (''bridge'', launch_endpoint LOCALHOST (ri_port ready) VERSION_CONTROL_PATH),
      (''certificate'', ri_certificate_sha256 ready), (''token'', format_hex launch_token),
      (''expires'', show_nat (unat expires_at_ms))]"

definition error_fields :: "string \<Rightarrow> string \<Rightarrow> (string \<times> string) list" where
  "error_fields nonce error = [(''winrisef-version-control'', ''1''), (''nonce'', nonce), (''error'', error)]"

definition callback_fields ::
  "string \<Rightarrow> ready_info \<Rightarrow> published_endpoints \<Rightarrow> bytes \<Rightarrow> u64 \<Rightarrow> (string \<times> string) list" where
  "callback_fields nonce ready endpoints launch_token launch_expires_at_ms =
     [(''winrisef-agent'', ''1''), (''nonce'', nonce),
      (''bridge'', launch_endpoint LOCALHOST (ri_port ready) BRIDGE_PATH),
      (''certificate'', ri_certificate_sha256 ready), (''token'', format_hex launch_token),
      (''expires'', show_nat (unat launch_expires_at_ms)), (''network-epoch'', pe_network_epoch endpoints),
      (''public-ipv6-state'', public_ipv6_text (pe_public_ipv6_state endpoints))] @
     map (Pair ''lan'') (pe_benchmark_endpoints endpoints) @
     map (Pair ''file-wt'') (pe_file_web_transport_endpoints endpoints) @
     map (Pair ''lan-http'') (pe_lna_http_endpoints endpoints) @
     map (Pair ''file-http'') (pe_file_http_endpoints endpoints)"

definition with_fragment ::
  "((string \<times> string) list \<Rightarrow> string) \<Rightarrow> (string \<times> string) list \<Rightarrow> url_view \<Rightarrow> url_view" where
  "with_fragment serialize pairs url = url\<lparr>url_fragment := Some (serialize pairs)\<rparr>"

section \<open>The start\<close>

text \<open>What a launch does: a second version-control agent answers the browser, any other second
  instance is an error.\<close>

datatype launch_plan =
    ReportBusy url_view
  | ServeVersionControl activation
  | ServeTransfer activation public_ipv6_state

definition launch_run ::
  "(string \<Rightarrow> url_view option) \<Rightarrow> ((string \<times> string) list \<Rightarrow> string) \<Rightarrow> string \<Rightarrow> string list \<Rightarrow> bool \<Rightarrow>
     network_endpoints \<Rightarrow> launch_error + launch_plan" where
  "launch_run url_parse serialize uri trusted instance_free endpoints =
     and_then (parse_activation url_parse uri trusted) (\<lambda>activation.
     if instance_free then
       (case ac_feature activation of
          VersionControl \<Rightarrow> Inr (ServeVersionControl activation)
        | Transfer \<Rightarrow> Inr (ServeTransfer activation
            (if has_public_ipv6 endpoints then Authorizing else NotPresent)))
     else if ac_feature activation = VersionControl
     then Inr (ReportBusy (with_fragment serialize (error_fields (ac_nonce activation) ''agent_busy'')
                (ac_return_url activation)))
     else Inl AgentBusy)"

section \<open>The firewall task\<close>

record firewall_task =
  ft_policy :: endpoint_policy
  ft_authorization :: "bool option"
  ft_requests :: nat

definition firewall_start :: "endpoint_policy \<Rightarrow> firewall_task" where
  "firewall_start policy = \<lparr>ft_policy = policy, ft_authorization = None, ft_requests = 0\<rparr>"

definition authorized_state :: "bool \<Rightarrow> public_ipv6_state" where
  "authorized_state authorized = (if authorized then Available else Unavailable)"

text \<open>One round of the loop: the discovery before, the answer of the firewall when it is asked, and
  the discovery after.\<close>

definition firewall_round :: "network_endpoints \<times> bool \<times> network_endpoints \<Rightarrow> firewall_task \<Rightarrow> firewall_task" where
  "firewall_round turn t =
     (case turn of (before, authorized, after) \<Rightarrow>
        if \<not> has_public_ipv6 before then t\<lparr>ft_policy := set_public_ipv6_state NotPresent (ft_policy t)\<rparr>
        else case ft_authorization t of
          Some granted \<Rightarrow> t\<lparr>ft_policy := set_public_ipv6_state (authorized_state granted) (ft_policy t)\<rparr>
        | None \<Rightarrow>
            let asked = set_public_ipv6_state Authorizing (ft_policy t)
            in \<lparr>ft_policy = set_public_ipv6_state
                  (if has_public_ipv6 after then authorized_state authorized else NotPresent) asked,
                ft_authorization = Some authorized, ft_requests = ft_requests t + 1\<rparr>)"

definition firewall_rounds :: "(network_endpoints \<times> bool \<times> network_endpoints) list \<Rightarrow> firewall_task \<Rightarrow> firewall_task" where
  "firewall_rounds rounds t = foldl (\<lambda>u round. firewall_round round u) t rounds"

section \<open>Trust\<close>

lemma parse_activation_trusted:
  assumes "parse_activation url_parse uri trusted = Inr a"
  obtains return_value url where "url_parse return_value = Some url"
    and "ac_return_url a = url\<lparr>url_fragment := None\<rparr>" and "ac_allowed_origin a = url_origin url"
    and "url_username url = []" and "url_password url = None"
    and "url_scheme url = ''https'' \<or> (url_scheme url = ''http'' \<and> is_loopback_host (url_host_str url))"
    and "url_origin url \<noteq> ''null''"
    and "is_loopback_host (url_host_str url) \<or> url_origin url \<in> set PRODUCTION_WEB_ORIGINS \<or> url_origin url \<in> set trusted"
    and "length (ac_nonce a) = 32" and "list_all is_ascii_hexdigit (ac_nonce a)"
proof -
  obtain uri_view return_value url nonce feature pairs where
    "url_parse return_value = Some url"
    "a = \<lparr>ac_return_url = url\<lparr>url_fragment := None\<rparr>, ac_nonce = nonce, ac_allowed_origin = url_origin url, ac_feature = feature\<rparr>"
    "url_username url = []" "url_password url = None"
    "url_scheme url = ''https'' \<or> (url_scheme url = ''http'' \<and> is_loopback_host (url_host_str url))"
    "url_origin url \<noteq> ''null''"
    "is_loopback_host (url_host_str url) \<or> url_origin url \<in> set PRODUCTION_WEB_ORIGINS \<or> url_origin url \<in> set trusted"
    "length nonce = 32" "list_all is_ascii_hexdigit nonce"
    using assms unfolding parse_activation_def Let_def
    by (clarsimp simp: result_simps split: prod.splits)
  then show ?thesis by (intro that [of return_value url]) simp_all
qed


definition sample_url :: "string \<Rightarrow> url_view option" where
  "sample_url s =
     (if s = ''winrisef://launch'' then
        Some \<lparr>url_scheme = ''winrisef'', url_username = [], url_password = None, url_host_str = Some ''launch'',
              url_path = [], url_origin = ''null'',
              url_query_pairs = [(''returnUrl'', ''https://n.winrisef.top''), (''nonce'', replicate 32 CHR ''a'')],
              url_fragment = None\<rparr>
      else if s = ''https://n.winrisef.top'' then
        Some \<lparr>url_scheme = ''https'', url_username = [], url_password = None,
              url_host_str = Some ''n.winrisef.top'', url_path = ''/'', url_origin = ''https://n.winrisef.top'',
              url_query_pairs = [], url_fragment = None\<rparr>
      else None)"


section \<open>The firewall\<close>

lemma set_state [simp]: "ep_state (set_public_ipv6_state st p) = st"
  by (simp add: set_public_ipv6_state_def)

definition granted_in :: "(network_endpoints \<times> bool \<times> network_endpoints) list \<Rightarrow> bool" where
  "granted_in rounds \<longleftrightarrow> (\<exists>(before, authorized, after) \<in> set rounds. authorized \<and> has_public_ipv6 before)"

definition firewall_inv :: "(network_endpoints \<times> bool \<times> network_endpoints) list \<Rightarrow> firewall_task \<Rightarrow> bool" where
  "firewall_inv rounds t \<longleftrightarrow>
     ft_requests t = (if ft_authorization t = None then 0 else 1) \<and>
     (ft_authorization t = Some True \<longrightarrow> granted_in rounds) \<and>
     (ep_state (ft_policy t) = Available \<longrightarrow> ft_authorization t = Some True)"

lemma firewall_round_inv:
  "firewall_inv rounds t \<Longrightarrow> firewall_inv (rounds @ [r]) (firewall_round r t)"
  by (cases r) (auto simp: firewall_inv_def firewall_round_def authorized_state_def granted_in_def Let_def
      split: option.splits if_splits)

lemma firewall_rounds_inv: "firewall_inv before t \<Longrightarrow> firewall_inv (before @ rounds) (firewall_rounds rounds t)"
proof (induction rounds arbitrary: before t)
  case (Cons r rounds)
  from Cons.IH [OF firewall_round_inv [OF Cons.prems]] show ?case by (simp add: firewall_rounds_def)
qed (simp add: firewall_rounds_def)

text \<open>Public IPv6 becomes available only when the firewall answered a request with a grant, however
  the addresses come and go; the user is asked at most once, and an interface without a public address
  takes the state back to not present.\<close>
theorem public_ipv6_needs_grant:
  assumes "st \<noteq> Available"
  shows "let t = firewall_rounds rounds (firewall_start (policy_new st))
         in (ep_state (ft_policy t) = Available \<longrightarrow>
               (\<exists>before after. (before, True, after) \<in> set rounds \<and> has_public_ipv6 before)) \<and>
            ft_requests t \<le> 1 \<and>
            (\<not> has_public_ipv6 e \<longrightarrow> ep_state (ft_policy (firewall_round (e, authorized, e') t)) = NotPresent)"
proof -
  have "firewall_inv [] (firewall_start (policy_new st))"
    using assms by (simp add: firewall_inv_def firewall_start_def policy_new_def)
  moreover have "granted_in rounds \<Longrightarrow> \<exists>before after. (before, True, after) \<in> set rounds \<and> has_public_ipv6 before"
    unfolding granted_in_def by fastforce
  ultimately show ?thesis
    using firewall_rounds_inv [of "[]" _ rounds]
    by (simp add: Let_def firewall_inv_def firewall_round_def)
qed

lemma public_ipv6_needs_grant_witness:
  "\<forall>e. ft_requests (firewall_rounds [(e, False, e), (e, True, e)] (firewall_start (policy_new Authorizing))) \<le> 1"
proof
  fix e
  show "ft_requests (firewall_rounds [(e, False, e), (e, True, e)] (firewall_start (policy_new Authorizing))) \<le> 1"
    using public_ipv6_needs_grant [of Authorizing "[(e, False, e), (e, True, e)]"] by (simp add: Let_def)
qed

end
