(* ===== verification/Launch_Session.thy ===== *)
theory Launch_Session
  imports Launch Auth
begin

text \<open>
  The two kinds of launch of crates/winrisef-agent/src/launch.rs once their server is ready: the one-time
  token, the callback that carries it to the page, and the start of the firewall task.

  The random bytes, the clock and the answer of the browser are arguments.
\<close>

section \<open>The launch\<close>

datatype launch_failure = NoRandomToken | LaunchClock clock_error | BrowserNotOpened

record launched =
  la_authority :: ticket_authority
  la_callback :: url_view
  la_firewall_started :: bool

definition launch_authority :: "int \<Rightarrow> bytes option \<Rightarrow> launch_failure + bytes \<times> u64 \<times> ticket_authority" where
  "launch_authority t random =
     and_then (ok_or random NoRandomToken) (\<lambda>launch_token.
       case now_ms t of
         Inl e \<Rightarrow> Inl (LaunchClock e)
       | Inr now \<Rightarrow>
           let expires_at_ms = saturating_add now LAUNCH_TTL_MS
           in Inr (launch_token, expires_at_ms, authority_new launch_token expires_at_ms))"

text \<open>The agent ends when the browser does not open; the firewall task waits for the page to be opened.\<close>

definition serve_transfer ::
  "((string \<times> string) list \<Rightarrow> string) \<Rightarrow> (url_view \<Rightarrow> bool) \<Rightarrow> int \<Rightarrow> bytes option \<Rightarrow> activation \<Rightarrow> ready_info \<Rightarrow>
     published_endpoints \<Rightarrow> launch_failure + launched" where
  "serve_transfer serialize browse t random a ready endpoints =
     and_then (launch_authority t random) (\<lambda>(launch_token, expires_at_ms, authority).
       let callback = with_fragment serialize (callback_fields (ac_nonce a) ready endpoints launch_token expires_at_ms) (ac_return_url a)
       in if browse callback then Inr \<lparr>la_authority = authority, la_callback = callback, la_firewall_started = True\<rparr>
          else Inl BrowserNotOpened)"

definition serve_version_control ::
  "((string \<times> string) list \<Rightarrow> string) \<Rightarrow> (url_view \<Rightarrow> bool) \<Rightarrow> int \<Rightarrow> bytes option \<Rightarrow> activation \<Rightarrow> ready_info \<Rightarrow>
     launch_failure + launched" where
  "serve_version_control serialize browse t random a ready =
     and_then (launch_authority t random) (\<lambda>(launch_token, expires_at_ms, authority).
       let callback = with_fragment serialize (version_control_fields (ac_nonce a) ready launch_token expires_at_ms) (ac_return_url a)
       in if browse callback then Inr \<lparr>la_authority = authority, la_callback = callback, la_firewall_started = False\<rparr>
          else Inl BrowserNotOpened)"

section \<open>The page is admitted\<close>

text \<open>What the page finds in the fragment, and what its token is worth at a time.\<close>

definition admits_until :: "((string \<times> string) list \<Rightarrow> string) \<Rightarrow> activation \<Rightarrow> int \<Rightarrow> launched \<Rightarrow> bool" where
  "admits_until serialize a limit l \<longleftrightarrow>
     (\<exists>pairs hex launch_token. url_fragment (la_callback l) = Some (serialize pairs) \<and> map_of pairs ''nonce'' = Some (ac_nonce a) \<and>
        map_of pairs ''token'' = Some hex \<and> parse_hex 16 hex = Inr launch_token \<and>
        (\<forall>t'. 0 \<le> t' \<and> t' < 2 ^ 64 \<longrightarrow>
           fst (consume_launch_token t' launch_token (la_authority l)) = Inr (t' \<le> limit)))"

lemma authority_admits:
  assumes "launch_authority t (Some launch_token) = Inr (token, expires_at_ms, authority)"
    and "0 \<le> t" and "t + 120000 < 2 ^ 64" and "0 \<le> t'" and "t' < 2 ^ 64"
  shows "fst (consume_launch_token t' launch_token authority) = Inr (t' \<le> t + 120000) \<and> token = launch_token"
proof -
  have t: "t < 2 ^ 64" using assms(3) by simp
  note clock = now_ms_in_range [OF assms(2) t] and later = now_ms_in_range [OF assms(4,5)]
  have made: "token = launch_token" "expires_at_ms = saturating_add (word_of_int t) LAUNCH_TTL_MS"
    "authority = authority_new launch_token expires_at_ms"
    using assms(1) clock(1) by (auto simp: launch_authority_def ok_or_simps Let_def)
  have "unat expires_at_ms = nat t + 120000"
    using assms(2,3) by (simp add: made(2) unat_saturating_add clock(2) LAUNCH_TTL_MS_def nat_less_iff min_def)
  then have "expires_at_ms < word_of_int t' \<longleftrightarrow> \<not> t' \<le> t + 120000"
    using assms(2,4) by (auto simp: word_less_nat_alt later(2))
  then show ?thesis using later(1) made
    by (auto simp: consume_launch_token_def authority_new_def constant_time_equal_iff)
qed

lemma launched_admits:
  assumes "launch_authority t (Some launch_token) = Inr (launch_token, expires_at_ms, authority)" and "length launch_token = 16"
    and "0 \<le> t" and "t + 120000 < 2 ^ 64"
    and "la_authority l = authority" and "url_fragment (la_callback l) = Some (serialize pairs)"
    and "map_of pairs ''nonce'' = Some (ac_nonce a)" and "map_of pairs ''token'' = Some (format_hex launch_token)"
  shows "admits_until serialize a (t + 120000) l"
proof -
  have "parse_hex 16 (format_hex launch_token) = Inr launch_token" using parse_hex_format [of launch_token] assms(2) by simp
  moreover have "fst (consume_launch_token t' launch_token (la_authority l)) = Inr (t' \<le> t + 120000)"
    if "0 \<le> t'" "t' < 2 ^ 64" for t'
    using authority_admits [OF assms(1,3,4) that] assms(5) by simp
  ultimately show ?thesis
    unfolding admits_until_def using assms(6-8) by blast
qed



end
