(* ===== verification/Http_Message.thy ===== *)
theory Http_Message
  imports Auth Text_Utf8
begin

text \<open>
  The HTTP/1.1 messages of the LAN endpoint, crates/winrisef-agent/src/lna_http.rs: reading and
  parsing a request, and the text of the responses.

  A socket is the list of the chunks its reads will deliver; an empty chunk, like the end of the
  list, is the end of the stream.  Timeouts end a connection like the end of the stream and are not modelled apart.  A
  \<open>str\<close> is a list of characters, one per UTF-8 byte.  Errors carry the text that is sent back.

  The lemmas show that a response is framed exactly: its only blank line ends its header, and the
  announced length is the length of the body.
\<close>

section \<open>Requests\<close>

definition LNA_HTTP_BASE_PATH :: string where "LNA_HTTP_BASE_PATH = ''/winrisef/lna/v1''"
definition PROBE_PATH :: string where "PROBE_PATH = ''/winrisef/lna/v1/probe''"
definition BENCHMARK_PATH :: string where "BENCHMARK_PATH = ''/winrisef/lna/v1/benchmark''"
definition TICKET_HEADER :: string where "TICKET_HEADER = ''x-winrisef-ticket''"
definition FILE_TOKEN_HEADER :: string where "FILE_TOKEN_HEADER = ''x-winrisef-transfer-token''"
definition MAX_HEADER_BYTES :: nat where "MAX_HEADER_BYTES = 16 * 1024"
definition IO_BLOCK_BYTES :: nat where "IO_BLOCK_BYTES = 1024 * 1024"
definition MAX_BENCHMARK_REQUEST_BYTES :: u64 where "MAX_BENCHMARK_REQUEST_BYTES = 64 * 1024 * 1024"

definition CRLF :: string where "CRLF = [CHR 0x0D, CHR 0x0A]"

datatype http_error = HttpBad string | HttpPanic

record http_request =
  rq_method :: string
  rq_path :: string
  rq_query :: "string option"
  rq_origin :: "string option"
  rq_ticket :: "bytes option"
  rq_file_token :: "bytes option"
  rq_content_length :: "u64 option"
  rq_transfer_encoding :: bool
  rq_keep_alive :: bool

text \<open>The local variables of the header loop.\<close>

record header_state =
  hd_origin :: "string option"
  hd_ticket :: "bytes option"
  hd_file_token :: "bytes option"
  hd_content_length :: "u64 option"
  hd_transfer_encoding :: bool
  hd_connection_close :: bool

definition set_once :: "'a option \<Rightarrow> 'a \<Rightarrow> string \<Rightarrow> http_error + 'a option" where
  "set_once slot v label =
     (if slot = None then Inr (Some v) else Inl (HttpBad (''duplicate '' @ label @ '' header'')))"

definition header_hex :: "nat \<Rightarrow> string \<Rightarrow> string \<Rightarrow> http_error + bytes" where
  "header_hex n v label =
     (case parse_hex n v of
        Inr bs \<Rightarrow> Inr bs
      | Inl HexLength \<Rightarrow> Inl (HttpBad (label @ '' must contain '' @ show_nat (n * 2) @ '' hexadecimal characters''))
      | Inl NotHex \<Rightarrow> Inl (HttpBad (label @ '' is not hexadecimal''))
      | Inl HexPanic \<Rightarrow> Inl HttpPanic)"

definition ascii_alphanumeric :: "char \<Rightarrow> bool" where
  "ascii_alphanumeric c \<longleftrightarrow>
     (CHR ''0'' \<le> c \<and> c \<le> CHR ''9'') \<or> (CHR ''a'' \<le> c \<and> c \<le> CHR ''z'') \<or> (CHR ''A'' \<le> c \<and> c \<le> CHR ''Z'')"

definition header_line :: "header_state \<Rightarrow> string \<Rightarrow> http_error + header_state" where
  "header_line h line =
     (case split_once '':'' line of
        None \<Rightarrow> Inl (HttpBad ''HTTP header is malformed'')
      | Some (name, raw) \<Rightarrow>
          if \<not> (name \<noteq> [] \<and> list_all (\<lambda>c. ascii_alphanumeric c \<or> c = CHR ''-'') name)
          then Inl (HttpBad ''HTTP header name is invalid'')
          else
            let v = trim raw in
            if eq_ignore_ascii_case name ''origin'' then
              and_then (set_once (hd_origin h) v ''Origin'') (\<lambda>x. Inr (h\<lparr>hd_origin := x\<rparr>))
            else if eq_ignore_ascii_case name TICKET_HEADER then
              and_then (header_hex 16 v ''benchmark ticket'') (\<lambda>t.
              and_then (set_once (hd_ticket h) t ''ticket'') (\<lambda>x. Inr (h\<lparr>hd_ticket := x\<rparr>)))
            else if eq_ignore_ascii_case name FILE_TOKEN_HEADER then
              and_then (header_hex 32 v ''file transfer token'') (\<lambda>t.
              and_then (set_once (hd_file_token h) t ''file transfer token'') (\<lambda>x.
                Inr (h\<lparr>hd_file_token := x\<rparr>)))
            else if eq_ignore_ascii_case name ''content-length'' then
              and_then (ok_or (parse_u64 v) (HttpBad ''Content-Length is invalid'')) (\<lambda>n.
              and_then (set_once (hd_content_length h) n ''Content-Length'') (\<lambda>x.
                Inr (h\<lparr>hd_content_length := x\<rparr>)))
            else if eq_ignore_ascii_case name ''transfer-encoding'' then
              Inr (h\<lparr>hd_transfer_encoding := True\<rparr>)
            else if eq_ignore_ascii_case name ''connection'' \<and> eq_ignore_ascii_case v ''close'' then
              Inr (h\<lparr>hd_connection_close := True\<rparr>)
            else if eq_ignore_ascii_case name ''expect'' then
              Inl (HttpBad ''Expect requests are not supported'')
            else Inr h)"

fun header_lines :: "header_state \<Rightarrow> string list \<Rightarrow> http_error + header_state" where
  "header_lines h [] = Inr h"
| "header_lines h (line # lines) = and_then (header_line h line) (\<lambda>h'. header_lines h' lines)"

definition header_state_new :: header_state where
  "header_state_new = \<lparr>hd_origin = None, hd_ticket = None, hd_file_token = None,
     hd_content_length = None, hd_transfer_encoding = False, hd_connection_close = False\<rparr>"

definition request_line :: "string \<Rightarrow> http_error + string \<times> string" where
  "request_line line =
     (case split_char (CHR '' '') line of
        [] \<Rightarrow> Inl (HttpBad ''HTTP method is missing'')
      | [m] \<Rightarrow> Inl (HttpBad ''HTTP target is missing'')
      | [m, target] \<Rightarrow> Inl (HttpBad ''HTTP version is missing'')
      | m # target # version # extra \<Rightarrow>
          if extra \<noteq> [] then Inl (HttpBad ''HTTP request line has extra fields'')
          else if version \<noteq> ''HTTP/1.1'' then Inl (HttpBad ''only HTTP/1.1 is supported'')
          else if \<not> (starts_with ''/'' target \<and> CHR ''#'' \<notin> set target)
          then Inl (HttpBad ''HTTP target must be origin-form'')
          else Inr (m, target))"

definition parse_request :: "string \<Rightarrow> http_error + http_request" where
  "parse_request header =
     (case split_str CRLF header of
        [] \<Rightarrow> Inl (HttpBad ''HTTP request line is missing'')
      | first # lines \<Rightarrow>
          and_then (request_line first) (\<lambda>(m, target).
          and_then (header_lines header_state_new lines) (\<lambda>h.
            let (path, query) = (case split_once ''?'' target of
                    None \<Rightarrow> (target, None) | Some (p, q) \<Rightarrow> (p, Some q))
            in Inr \<lparr>rq_method = m, rq_path = path, rq_query = query, rq_origin = hd_origin h,
                    rq_ticket = hd_ticket h, rq_file_token = hd_file_token h,
                    rq_content_length = hd_content_length h,
                    rq_transfer_encoding = hd_transfer_encoding h,
                    rq_keep_alive = (\<not> hd_connection_close h)\<rparr>)))"

text \<open>The position of the first blank line.\<close>

fun find_header_end :: "bytes \<Rightarrow> nat option" where
  "find_header_end (a # b # c # d # r) =
     (if a = 13 \<and> b = 10 \<and> c = 13 \<and> d = 10 then Some 0
      else map_option Suc (find_header_end (b # c # d # r)))"
| "find_header_end bs = None"

text \<open>A read delivers at most \<open>n\<close> bytes of the next chunk.\<close>

type_synonym socket = "bytes list"

definition sock_read :: "nat \<Rightarrow> socket \<Rightarrow> bytes \<times> socket" where
  "sock_read n sock =
     (case sock of
        [] \<Rightarrow> ([], [])
      | c # cs \<Rightarrow>
          if c = [] then ([], sock) else if length c \<le> n then (c, cs) else (take n c, drop n c # cs))"

text \<open>The bytes that will arrive: an empty chunk is the end of the stream.\<close>

definition sock_bytes :: "socket \<Rightarrow> bytes" where
  "sock_bytes sock = concat (takeWhile (\<lambda>c. c \<noteq> []) sock)"

lemma sock_read_bytes: "sock_read n sock = (bs, sock') \<Longrightarrow> sock_bytes sock = bs @ sock_bytes sock' \<and> length bs \<le> n"
  by (auto simp: sock_read_def sock_bytes_def split: list.splits if_splits)

lemma sock_read_end: "0 < n \<Longrightarrow> sock_read n sock = ([], sock') \<Longrightarrow> sock_bytes sock = []"
  by (auto simp: sock_read_def sock_bytes_def split: list.splits if_splits)

function read_request ::
  "socket \<Rightarrow> bytes \<Rightarrow> (http_error + http_request option) \<times> bytes \<times> socket" where
  "read_request sock pending =
     (case find_header_end pending of
        Some header_end \<Rightarrow> (
          case from_utf8 (take header_end pending) of
            None \<Rightarrow> (Inl (HttpBad ''HTTP headers are not valid UTF-8/ASCII''), pending, sock)
          | Some header \<Rightarrow> (
              case parse_request header of
                Inl e \<Rightarrow> (Inl e, pending, sock)
              | Inr request \<Rightarrow> (Inr (Some request), drop (header_end + 4) pending, sock)))
      | None \<Rightarrow>
          if \<not> length pending < MAX_HEADER_BYTES
          then (Inl (HttpBad ''HTTP request headers are too large''), pending, sock)
          else (case sock_read 4096 sock of
            (bs, sock') \<Rightarrow>
              if bs = []
              then (if pending = [] then Inr None
                    else Inl (HttpBad ''HTTP connection ended inside request headers''), pending, sock')
              else read_request sock' (pending @ bs)))"
  by auto
termination
  by (relation "measure (\<lambda>(sock, pending). length (sock_bytes sock))")
     (auto dest!: sock_read_bytes [OF sym] simp: Suc_le_eq)

declare read_request.simps [simp del]

section \<open>Responses\<close>

definition reason_of :: "nat \<Rightarrow> string" where
  "reason_of status =
     (if status = 200 then ''OK''
      else if status = 204 then ''No Content''
      else if status = 400 then ''Bad Request''
      else if status = 401 then ''Unauthorized''
      else if status = 403 then ''Forbidden''
      else if status = 404 then ''Not Found''
      else if status = 405 then ''Method Not Allowed''
      else if status = 409 then ''Conflict''
      else if status = 413 then ''Content Too Large''
      else if status = 503 then ''Service Unavailable''
      else ''Error'')"

definition extra_header :: "string \<times> string \<Rightarrow> string" where
  "extra_header h = fst h @ '': '' @ snd h @ CRLF"

definition write_response ::
  "nat \<Rightarrow> string \<Rightarrow> u64 \<Rightarrow> string \<Rightarrow> bool \<Rightarrow> (string \<times> string) list \<Rightarrow> string" where
  "write_response status content_type content_length origin keep_alive extra_headers =
     ''HTTP/1.1 '' @ show_nat status @ '' '' @ reason_of status @ CRLF @
     ''Server: WinriseF-Agent'' @ CRLF @
     ''Content-Type: '' @ content_type @ CRLF @
     ''Content-Length: '' @ show_nat (unat content_length) @ CRLF @
     ''Connection: '' @ (if keep_alive then ''keep-alive'' else ''close'') @ CRLF @
     ''Cache-Control: no-store'' @ CRLF @
     ''Access-Control-Allow-Origin: '' @ origin @ CRLF @
     ''Access-Control-Allow-Private-Network: true'' @ CRLF @
     ''Access-Control-Expose-Headers: X-WinriseF-Bytes'' @ CRLF @
     ''Vary: Origin, Access-Control-Request-Private-Network'' @ CRLF @
     concat (map extra_header extra_headers) @ CRLF"

definition write_preflight :: "string \<Rightarrow> bool \<Rightarrow> string" where
  "write_preflight origin keep_alive =
     write_response 204 ''text/plain'' 0 origin keep_alive
       [(''Access-Control-Allow-Methods'', ''GET, POST, OPTIONS''),
        (''Access-Control-Allow-Headers'', ''Content-Type, X-WinriseF-Ticket, X-WinriseF-Transfer-Token''),
        (''Access-Control-Max-Age'', ''600'')]"

definition escape_json :: "string \<Rightarrow> string" where
  "escape_json s =
     concat (map (\<lambda>c. if c = CHR 0x5C then [CHR 0x5C, CHR 0x5C]
                       else if c = CHR 0x22 then [CHR 0x5C, CHR 0x22] else [c]) s)"

definition error_body :: "string \<Rightarrow> string \<Rightarrow> string" where
  "error_body code message =
     ''{'' @ [CHR 0x22] @ ''error'' @ [CHR 0x22] @ '':{'' @ [CHR 0x22] @ ''code'' @ [CHR 0x22] @ '':'' @
     [CHR 0x22] @ code @ [CHR 0x22] @ '','' @ [CHR 0x22] @ ''message'' @ [CHR 0x22] @ '':'' @
     [CHR 0x22] @ escape_json message @ [CHR 0x22] @ ''}}''"

definition write_error :: "nat \<Rightarrow> string \<Rightarrow> string \<Rightarrow> string option \<Rightarrow> string" where
  "write_error status code message origin =
     (let body = error_body code message
      in write_response status ''application/json'' (word_of_nat (length body))
           (case origin of None \<Rightarrow> ''null'' | Some s \<Rightarrow> s) False [] @ body)"


section \<open>Framing of responses\<close>

definition line_text :: "string \<Rightarrow> bool" where
  "line_text s \<longleftrightarrow> CHR 0x0D \<notin> set s \<and> CHR 0x0A \<notin> set s"

lemma line_text_simps [simp]:
  "line_text []" "line_text (a @ b) \<longleftrightarrow> line_text a \<and> line_text b"
  "line_text (c # s) \<longleftrightarrow> c \<noteq> CHR 0x0D \<and> c \<noteq> CHR 0x0A \<and> line_text s"
  by (auto simp: line_text_def)

lemma line_text_show_nat: "line_text (show_nat n)"
proof (induction n rule: show_nat.induct)
  case (1 n)
  have digit: "line_text [hex_char d]" if "d < 10" for d
    using of_char_hex_char [of d] that by (auto split: if_splits)
  show ?case
  proof (cases "n < 10")
    case True
    then show ?thesis using digit [of n] by (subst show_nat.simps) simp
  next
    case False
    then show ?thesis using 1 digit [of "n mod 10"] by (subst show_nat.simps) simp
  qed
qed

lemma line_text_reason: "line_text (reason_of status)"
  by (simp add: reason_of_def)

text \<open>Text made of non-empty lines has its first blank line at the end.\<close>

definition lines_text :: "string list \<Rightarrow> string" where
  "lines_text ls = concat (map (\<lambda>l. l @ CRLF) ls)"

lemma find_header_end_step:
  "\<not> (x = 13 \<and> take 3 bs = [10, 13, 10]) \<Longrightarrow> find_header_end (x # bs) = map_option Suc (find_header_end bs)"
proof -
  assume not: "\<not> (x = 13 \<and> take 3 bs = [10, 13, 10])"
  show ?thesis
  proof (cases bs)
    case (Cons b r1)
    then show ?thesis
    proof (cases r1)
      case (Cons c r2)
      with \<open>bs = b # r1\<close> not show ?thesis by (cases r2) auto
    qed simp
  qed simp
qed

lemma find_header_end_line:
  assumes "line_text l" and "find_header_end bs = Some e" and "take 2 bs \<noteq> [13, 10]"
  shows "find_header_end (bytes_of (l @ CRLF) @ bs) = Some (length l + 2 + e)"
  using assms(1)
proof (induction l)
  case Nil
  have "find_header_end (10 # bs) = Some (Suc e)"
    by (subst find_header_end_step) (simp_all add: assms(2))
  moreover have "\<not> (13 = 13 \<and> take 3 (10 # bs) = [10, 13, 10 :: u8])" using assms(3) by simp
  ultimately show ?case by (simp add: CRLF_def find_header_end_step del: find_header_end.simps)
next
  case (Cons c l)
  have "(word_of_nat (of_char c) :: u8) \<noteq> word_of_nat (of_char (CHR 0x0D))"
    using Cons.prems by (subst byte_of_char_inj) simp
  then have "(word_of_nat (of_char c) :: u8) \<noteq> 13" by simp
  with Cons show ?case by (simp add: find_header_end_step del: find_header_end.simps)
qed

lemma find_header_end_lines:
  assumes "ls \<noteq> []" and "\<forall>l \<in> set ls. line_text l \<and> l \<noteq> []"
  shows "find_header_end (bytes_of (lines_text ls @ CRLF) @ body) = Some (length (lines_text ls) - 2) \<and>
         take 2 (bytes_of (lines_text ls @ CRLF) @ body) \<noteq> [13, 10]"
  using assms
proof (induction ls)
  case (Cons l ls)
  then obtain c l' where l: "l = c # l'" "line_text l" by (cases l) auto
  have "(word_of_nat (of_char c) :: u8) \<noteq> word_of_nat (of_char (CHR 0x0D))"
    using l by (subst byte_of_char_inj) simp
  then have first: "take 2 (bytes_of (lines_text (l # ls) @ CRLF) @ body) \<noteq> [13, 10]"
    using l(1) by (simp add: lines_text_def numeral_2_eq_2)
  show ?case
  proof (cases "ls = []")
    case False
    then have rest: "find_header_end (bytes_of (lines_text ls @ CRLF) @ body) = Some (length (lines_text ls) - 2)"
      "take 2 (bytes_of (lines_text ls @ CRLF) @ body) \<noteq> [13, 10]" using Cons by simp_all
    obtain l1 ls1 where "ls = l1 # ls1" using False by (cases ls) auto
    then have "2 \<le> length (lines_text ls)" by (simp add: lines_text_def CRLF_def)
    with find_header_end_line [OF l(2) rest] first show ?thesis
      by (simp add: lines_text_def CRLF_def)
  next
    case True
    have "find_header_end (bytes_of (l @ CRLF @ CRLF) @ body) = Some (length l)"
      using l(2)
    proof (induction l)
      case Nil
      then show ?case by (simp add: CRLF_def)
    next
      case (Cons d l)
      have "(word_of_nat (of_char d) :: u8) \<noteq> word_of_nat (of_char (CHR 0x0D))"
        using Cons.prems by (subst byte_of_char_inj) simp
      then have "(word_of_nat (of_char d) :: u8) \<noteq> 13" by simp
      with Cons show ?case by (simp add: find_header_end_step del: find_header_end.simps)
    qed
    with True first show ?thesis by (simp add: lines_text_def CRLF_def)
  qed
qed simp

definition response_lines ::
  "nat \<Rightarrow> string \<Rightarrow> u64 \<Rightarrow> string \<Rightarrow> bool \<Rightarrow> (string \<times> string) list \<Rightarrow> string list" where
  "response_lines status content_type content_length origin keep_alive extra =
     [''HTTP/1.1 '' @ show_nat status @ '' '' @ reason_of status, ''Server: WinriseF-Agent'',
      ''Content-Type: '' @ content_type, ''Content-Length: '' @ show_nat (unat content_length),
      ''Connection: '' @ (if keep_alive then ''keep-alive'' else ''close''), ''Cache-Control: no-store'',
      ''Access-Control-Allow-Origin: '' @ origin, ''Access-Control-Allow-Private-Network: true'',
      ''Access-Control-Expose-Headers: X-WinriseF-Bytes'',
      ''Vary: Origin, Access-Control-Request-Private-Network''] @
     map (\<lambda>h. fst h @ '': '' @ snd h) extra"

lemma write_response_lines:
  "write_response status content_type content_length origin keep_alive extra =
     lines_text (response_lines status content_type content_length origin keep_alive extra) @ CRLF"
  by (simp add: write_response_def response_lines_def lines_text_def extra_header_def [abs_def] comp_def)

lemma response_header_end:
  assumes "line_text content_type" and "line_text origin" and "\<forall>h \<in> set extra. line_text (fst h) \<and> line_text (snd h)"
  shows "find_header_end (bytes_of (write_response status content_type n origin keep_alive extra) @ body) =
    Some (length (write_response status content_type n origin keep_alive extra) - 4)"
proof -
  let ?ls = "response_lines status content_type n origin keep_alive extra"
  have "?ls \<noteq> []" "\<forall>l \<in> set ?ls. line_text l \<and> l \<noteq> []"
    using assms by (auto simp: response_lines_def line_text_show_nat line_text_reason)
  from find_header_end_lines [OF this, of body] show ?thesis
    by (simp add: write_response_lines CRLF_def)
qed

section \<open>Reading a request\<close>

lemma find_header_end_bound: "find_header_end bs = Some e \<Longrightarrow> e + 4 \<le> length bs"
  by (induction bs arbitrary: e rule: find_header_end.induct) (fastforce split: if_splits)+

lemma find_header_end_append: "find_header_end p = Some e \<Longrightarrow> find_header_end (p @ q) = Some e"
  by (induction p arbitrary: e rule: find_header_end.induct) (auto split: if_splits)

lemma read_request_spec:
  "read_request sock pending = (Inr (Some r), pending', sock') \<Longrightarrow>
     \<exists>e. find_header_end (pending @ sock_bytes sock) = Some e \<and>
         and_then (ok_or (from_utf8 (take e (pending @ sock_bytes sock))) HttpPanic) parse_request = Inr r \<and>
         pending' @ sock_bytes sock' = drop (e + 4) (pending @ sock_bytes sock) \<and>
         (length pending < MAX_HEADER_BYTES + 4096 \<longrightarrow> e + 4 < MAX_HEADER_BYTES + 4096)"
proof (induction sock pending rule: read_request.induct)
  case (1 sock pending)
  show ?case
  proof (cases "find_header_end pending")
    case (Some e)
    note bound = find_header_end_bound [OF Some]
    with 1(2) Some show ?thesis
      by (subst (asm) read_request.simps)
         (auto simp: find_header_end_append split: option.splits sum.splits)
  next
    case None
    obtain bs sock1 where read: "sock_read 4096 sock = (bs, sock1)" by fastforce
    from 1(2) None read have lt: "length pending < MAX_HEADER_BYTES" and bs: "bs \<noteq> []"
      and rec: "read_request sock1 (pending @ bs) = (Inr (Some r), pending', sock')"
      by (subst (asm) read_request.simps, auto split: if_splits)+
    have "\<not> \<not> length pending < MAX_HEADER_BYTES" using lt by simp
    from 1(1) [OF None this read [symmetric] bs rec] lt sock_read_bytes [OF read]
    show ?thesis by (auto simp: MAX_HEADER_BYTES_def)
  qed
qed


section \<open>Fields of a request\<close>

definition header_named :: "string \<Rightarrow> string \<Rightarrow> bool" where
  "header_named name line \<longleftrightarrow>
     (case split_once '':'' line of None \<Rightarrow> False | Some (n, _) \<Rightarrow> eq_ignore_ascii_case n name)"

definition header_value :: "string \<Rightarrow> string" where
  "header_value line = (case split_once '':'' line of None \<Rightarrow> [] | Some (_, v) \<Rightarrow> trim v)"

text \<open>A field that is set by at most one line, to the parsed value of that line.\<close>

definition field_from :: "string \<Rightarrow> (string \<Rightarrow> 'a option) \<Rightarrow> string list \<Rightarrow> 'a option \<Rightarrow> 'a option \<Rightarrow> bool" where
  "field_from name parse lines old new \<longleftrightarrow>
     (case filter (header_named name) lines of
        [] \<Rightarrow> new = old
      | [l] \<Rightarrow> old = None \<and> new = parse (header_value l) \<and> new \<noteq> None
      | _ \<Rightarrow> False)"

lemma field_from_Nil: "field_from name parse [] old old"
  by (simp add: field_from_def)

lemma field_from_Cons:
  "field_from name parse [l] old mid \<Longrightarrow> field_from name parse ls mid new \<Longrightarrow>
     field_from name parse (l # ls) old new"
  by (auto simp: field_from_def split: list.splits if_splits) (metis+)?

lemma field_from_one:
  "field_from name parse [l] old new \<longleftrightarrow>
     (if header_named name l then old = None \<and> new = parse (header_value l) \<and> new \<noteq> None else new = old)"
  by (simp add: field_from_def)

definition hex_option :: "nat \<Rightarrow> string \<Rightarrow> bytes option" where
  "hex_option n s = (case parse_hex n s of Inl _ \<Rightarrow> None | Inr bs \<Rightarrow> Some bs)"

lemma lower_names:
  "map ascii_lower ''origin'' = ''origin''" "map ascii_lower TICKET_HEADER = TICKET_HEADER"
  "map ascii_lower FILE_TOKEN_HEADER = FILE_TOKEN_HEADER"
  "map ascii_lower ''content-length'' = ''content-length''"
  "map ascii_lower ''transfer-encoding'' = ''transfer-encoding''"
  "map ascii_lower ''connection'' = ''connection''" "map ascii_lower ''expect'' = ''expect''"
  by (simp_all add: ascii_lower_def less_eq_char_def TICKET_HEADER_def FILE_TOKEN_HEADER_def)

lemma distinct_names:
  "distinct [''origin'', TICKET_HEADER, FILE_TOKEN_HEADER, ''content-length'', ''transfer-encoding'',
     ''connection'', ''expect'']"
  by (simp add: TICKET_HEADER_def FILE_TOKEN_HEADER_def)

lemma header_hex_Inr: "header_hex n v label = Inr bs \<longleftrightarrow> parse_hex n v = Inr bs"
  by (auto simp: header_hex_def split: sum.splits hex_error.splits)

lemma set_once_Inr: "set_once slot v label = Inr x \<longleftrightarrow> slot = None \<and> x = Some v"
  by (auto simp: set_once_def)

lemma header_line_fields:
  assumes "header_line h line = Inr h'"
  shows "field_from ''origin'' Some [line] (hd_origin h) (hd_origin h') \<and>
         field_from TICKET_HEADER (hex_option 16) [line] (hd_ticket h) (hd_ticket h') \<and>
         field_from FILE_TOKEN_HEADER (hex_option 32) [line] (hd_file_token h) (hd_file_token h') \<and>
         field_from ''content-length'' parse_u64 [line] (hd_content_length h) (hd_content_length h') \<and>
         hd_transfer_encoding h' = (hd_transfer_encoding h \<or> header_named ''transfer-encoding'' line) \<and>
         \<not> header_named ''expect'' line"
proof -
  obtain name raw where split: "split_once '':'' line = Some (name, raw)"
    using assms by (auto simp: header_line_def split: option.splits)
  define n where "n = map ascii_lower name"
  have named: "header_named x line \<longleftrightarrow> n = map ascii_lower x" for x
    by (simp add: header_named_def split eq_ignore_ascii_case_def n_def)
  have same: "eq_ignore_ascii_case name x \<longleftrightarrow> n = map ascii_lower x" for x
    by (simp add: eq_ignore_ascii_case_def n_def)
  have v: "header_value line = trim raw" by (simp add: header_value_def split)
  note run = assms [unfolded header_line_def split, simplified, unfolded same lower_names Let_def]
  have dist: "distinct [origin_name, TICKET_HEADER, FILE_TOKEN_HEADER, length_name, encoding_name, close_name, expect_name]"
    if "origin_name = ''origin''" "length_name = ''content-length''" "encoding_name = ''transfer-encoding''"
      "close_name = ''connection''" "expect_name = ''expect''"
    for origin_name length_name encoding_name close_name expect_name
    using distinct_names that by simp
  define o1 l1 e1 c1 x1 where short: "o1 = ''origin''" "l1 = ''content-length''" "e1 = ''transfer-encoding''"
    "c1 = ''connection''" "x1 = ''expect''"
  note names = dist [OF short]
  note run' = run [folded short]
  consider "n = o1" | "n = TICKET_HEADER" | "n = FILE_TOKEN_HEADER" | "n = l1" | "n = e1"
    | (other) "n \<noteq> o1" "n \<noteq> TICKET_HEADER" "n \<noteq> FILE_TOKEN_HEADER" "n \<noteq> l1" "n \<noteq> e1" by blast
  then have F:
    "(if n = o1 then hd_origin h = None \<and> hd_origin h' = Some (trim raw) \<and> hd_origin h' \<noteq> None
      else hd_origin h' = hd_origin h) \<and>
     (if n = TICKET_HEADER
      then hd_ticket h = None \<and> hd_ticket h' = hex_option 16 (trim raw) \<and> hd_ticket h' \<noteq> None
      else hd_ticket h' = hd_ticket h) \<and>
     (if n = FILE_TOKEN_HEADER
      then hd_file_token h = None \<and> hd_file_token h' = hex_option 32 (trim raw) \<and> hd_file_token h' \<noteq> None
      else hd_file_token h' = hd_file_token h) \<and>
     (if n = l1
      then hd_content_length h = None \<and> hd_content_length h' = parse_u64 (trim raw) \<and> hd_content_length h' \<noteq> None
      else hd_content_length h' = hd_content_length h) \<and>
     hd_transfer_encoding h' = (hd_transfer_encoding h \<or> n = e1) \<and> n \<noteq> x1"
  proof cases
    case other
    then have "h' = h \<or> h' = h\<lparr>hd_connection_close := True\<rparr>" "n \<noteq> x1"
      using run' names by (auto split: if_splits)
    with other show ?thesis by auto
  qed (use run' names in \<open>auto simp: result_simps header_hex_Inr set_once_Inr hex_option_def split: if_splits\<close>)
  have low: "map ascii_lower o1 = o1" "map ascii_lower l1 = l1" "map ascii_lower e1 = e1"
    "map ascii_lower x1 = x1"
    by (simp_all only: short lower_names)
  from F show ?thesis
    unfolding field_from_one named v short(1,2,3,5) [symmetric] low lower_names(2,3)
    by (elim conjE) (intro conjI)
qed

lemma header_lines_fields:
  assumes "header_lines h lines = Inr h'"
  shows "field_from ''origin'' Some lines (hd_origin h) (hd_origin h') \<and>
         field_from TICKET_HEADER (hex_option 16) lines (hd_ticket h) (hd_ticket h') \<and>
         field_from FILE_TOKEN_HEADER (hex_option 32) lines (hd_file_token h) (hd_file_token h') \<and>
         field_from ''content-length'' parse_u64 lines (hd_content_length h) (hd_content_length h') \<and>
         hd_transfer_encoding h' =
           (hd_transfer_encoding h \<or> list_ex (header_named ''transfer-encoding'') lines) \<and>
         \<not> list_ex (header_named ''expect'') lines"
  using assms
proof (induction lines arbitrary: h)
  case (Cons line lines)
  then obtain h1 where h1: "header_line h line = Inr h1" "header_lines h1 lines = Inr h'"
    by (auto simp: result_simps)
  with header_line_fields [OF h1(1)] Cons.IH [OF h1(2)] show ?case
    by (auto intro: field_from_Cons)
qed (simp add: field_from_Nil)


section \<open>Properties\<close>

text \<open>An error response is framed exactly: the first blank line of what is written ends the header,
  what follows is the JSON body and nothing else, and its length is the announced
  \<open>Content-Length\<close>, for any message and any origin without line breaks.\<close>

theorem error_response_framed:
  assumes "line_text (case origin of None \<Rightarrow> ''null'' | Some s \<Rightarrow> s)" and "length (error_body code message) < 2 ^ 64"
  shows "\<exists>e. find_header_end (bytes_of (write_error status code message origin)) = Some e \<and>
           drop (e + 4) (write_error status code message origin) = error_body code message \<and>
           (\<exists>front rest. write_error status code message origin =
              front @ ''Content-Length: '' @ show_nat (length (error_body code message)) @ CRLF @ rest)"
proof -
  let ?o = "case origin of None \<Rightarrow> ''null'' | Some s \<Rightarrow> s" and ?body = "error_body code message"
  let ?head = "write_response status ''application/json'' (word_of_nat (length ?body)) ?o False []"
  have whole: "write_error status code message origin = ?head @ ?body"
    by (simp add: write_error_def Let_def)
  have "4 \<le> length ?head" by (simp add: write_response_def CRLF_def)
  moreover have "find_header_end (bytes_of ?head @ bytes_of ?body) = Some (length ?head - 4)"
    using assms(1) by (intro response_header_end) simp_all
  moreover have "unat (word_of_nat (length ?body) :: u64) = length ?body"
    using assms(2) by (simp add: unat_of_nat)
  then have "\<exists>front rest. ?head = front @ ''Content-Length: '' @ show_nat (length ?body) @ CRLF @ rest"
    unfolding write_response_def
    by - (rule exI [of _ "''HTTP/1.1 '' @ show_nat status @ '' '' @ reason_of status @ CRLF @
      ''Server: WinriseF-Agent'' @ CRLF @ ''Content-Type: application/json'' @ CRLF"], simp)
  then have "\<exists>front rest. ?head @ ?body = front @ ''Content-Length: '' @ show_nat (length ?body) @ CRLF @ rest"
    by (metis append.assoc)
  ultimately show ?thesis unfolding whole by simp
qed

theorem error_response_framed_witness:
  "\<exists>e. find_header_end (bytes_of (write_error 404 ''x'' ''y'' None)) = Some e \<and>
     drop (e + 4) (write_error 404 ''x'' ''y'' None) = error_body ''x'' ''y''"
proof -
  have "length (error_body ''x'' ''y'') < 2 ^ 64" by (simp add: error_body_def escape_json_def)
  with error_response_framed [of None "''x''" "''y''" 404] show ?thesis by auto
qed

text \<open>Reading a request is independent of how the network cuts the bytes: whatever was buffered and
  whatever chunks arrive, a request that is returned is the parse of the bytes before the first
  blank line of the whole input, exactly these bytes and the blank line are consumed, and a
  header never exceeds the limit by more than one read.\<close>

theorem read_request_exact:
  assumes "read_request sock pending = (Inr (Some r), pending', sock')"
  shows "\<exists>e header. find_header_end (pending @ sock_bytes sock) = Some e \<and>
           from_utf8 (take e (pending @ sock_bytes sock)) = Some header \<and> parse_request header = Inr r \<and>
           pending' @ sock_bytes sock' = drop (e + 4) (pending @ sock_bytes sock) \<and>
           (length pending < 20480 \<longrightarrow> e + 4 < 20480)"
  using read_request_spec [OF assms] by (auto simp: result_simps MAX_HEADER_BYTES_def)

definition sample_request :: http_request where
  "sample_request = \<lparr>rq_method = ''GET'', rq_path = ''/x'', rq_query = Some ''q'', rq_origin = Some ''a'',
     rq_ticket = None, rq_file_token = None, rq_content_length = None, rq_transfer_encoding = False,
     rq_keep_alive = True\<rparr>"

definition sample_header :: string where
  "sample_header = ''GET /x?q HTTP/1.1'' @ CRLF @ ''ORIGIN: a''"

lemma sample_parses: "parse_request sample_header = Inr sample_request"
  by code_simp

lemma sample_header_end: "find_header_end (bytes_of (sample_header @ CRLF @ CRLF @ ''body'')) = Some 28"
  by code_simp

lemma sample_header_text: "from_utf8 (take 28 (bytes_of (sample_header @ CRLF @ CRLF @ ''body''))) = Some sample_header"
  by code_simp

lemma sample_read:
  "read_request [bytes_of ''rest''] (bytes_of (sample_header @ CRLF @ CRLF @ ''body'')) =
     (Inr (Some sample_request), bytes_of ''body'', [bytes_of ''rest''])"
proof -
  have "drop (28 + 4) (bytes_of (sample_header @ CRLF @ CRLF @ ''body'')) = bytes_of ''body''" by code_simp
  then show ?thesis
    by (subst read_request.simps)
       (simp only: sample_header_end sample_header_text sample_parses option.case sum.case)
qed

theorem read_request_exact_witness:
  "bytes_of ''bodyrest'' = drop 32 (bytes_of (sample_header @ CRLF @ CRLF @ ''body'') @ bytes_of ''rest'')"
proof -
  have "find_header_end (bytes_of (sample_header @ CRLF @ CRLF @ ''body'') @ bytes_of ''rest'') = Some 28"
    using sample_header_end by (rule find_header_end_append)
  with read_request_exact [OF sample_read] show ?thesis by (auto simp: sock_bytes_def)
qed

text \<open>The fields of an accepted request are unambiguous: the origin, the ticket, the transfer token
  and the content length each come from the only header line of that name, parsed in full, and
  are absent without one; transfer encoding is noticed on any line, and an \<open>Expect\<close> line is
  never accepted.  So no two readers can disagree about where the body ends.\<close>

theorem request_fields_unambiguous:
  assumes "parse_request header = Inr r"
  shows "\<exists>first lines target. split_str CRLF header = first # lines \<and>
           split_char (CHR '' '') first = [rq_method r, target, ''HTTP/1.1''] \<and>
           field_from ''origin'' Some lines None (rq_origin r) \<and>
           field_from TICKET_HEADER (hex_option 16) lines None (rq_ticket r) \<and>
           field_from FILE_TOKEN_HEADER (hex_option 32) lines None (rq_file_token r) \<and>
           field_from ''content-length'' parse_u64 lines None (rq_content_length r) \<and>
           rq_transfer_encoding r = list_ex (header_named ''transfer-encoding'') lines \<and>
           \<not> list_ex (header_named ''expect'') lines \<and>
           target = rq_path r @ (case rq_query r of None \<Rightarrow> [] | Some q \<Rightarrow> ''?'' @ q)"
proof -
  obtain first lines where split: "split_str CRLF header = first # lines"
    using assms by (auto simp: parse_request_def split: list.splits)
  obtain m target h path query where run: "request_line first = Inr (m, target)"
    "header_lines header_state_new lines = Inr h"
    "(path, query) = (case split_once ''?'' target of None \<Rightarrow> (target, None) | Some (p, q) \<Rightarrow> (p, Some q))"
    "r = \<lparr>rq_method = m, rq_path = path, rq_query = query, rq_origin = hd_origin h,
        rq_ticket = hd_ticket h, rq_file_token = hd_file_token h, rq_content_length = hd_content_length h,
        rq_transfer_encoding = hd_transfer_encoding h, rq_keep_alive = (\<not> hd_connection_close h)\<rparr>"
    using assms split
    by (cases "split_once ''?'' (snd (projr (request_line first)))")
       (auto simp: parse_request_def result_simps Let_def)
  have target: "target = path @ (case query of None \<Rightarrow> [] | Some q \<Rightarrow> ''?'' @ q)"
    using run(3) by (auto dest: split_once_Some split: option.splits)
  have "split_char (CHR '' '') first = [m, target, ''HTTP/1.1'']"
    using run(1) by (auto simp: request_line_def split: list.splits if_splits)
  with split run(4) target header_lines_fields [OF run(2)] show ?thesis
    by (auto simp: header_state_new_def)
qed


theorem request_fields_unambiguous_witness:
  "\<exists>first lines. split_str CRLF sample_header = first # lines \<and>
     field_from ''origin'' Some lines None (Some ''a'')"
  using request_fields_unambiguous [OF sample_parses] by (auto simp: sample_request_def)

end
