(* ===== verification/Transfer_Safety.thy ===== *)
theory Transfer_Safety
  imports Transfer_Runs
begin

text \<open>
  The properties of the native file transfer manager, over every run of Transfer_Runs: exclusive
  leases, publication only of complete files, checked credentials, and what the ends of a
  transfer leave behind.
\<close>

section \<open>Sample transfers\<close>

definition sample_random :: "nat \<Rightarrow> bytes option" where
  "sample_random i = Some (replicate (if i = 0 then 16 else 32) (word_of_nat i))"

definition sample_final :: path where "sample_final = [''home'', ''report.bin'']"

definition sample_receive :: "native_data_plane \<Rightarrow> u64 \<Rightarrow> (transfer_error + transfer_grant option) \<times> world" where
  "sample_receive plane n =
     prepare_receive_open 0 sample_random True True (Some sample_final) ''att'' ''own'' ''peer'' n plane
       manager_new"

definition sample_id :: string where "sample_id = format_hex (replicate 16 0)"

definition sample_part :: path where
  "sample_part = [''home'', ''.report.bin.winrisef-'' @ sample_id @ ''.part'']"

definition sample_transfer :: "u64 \<Rightarrow> segment_state list \<Rightarrow> active_transfer" where
  "sample_transfer n states = \<lparr>at_transfer_id = sample_id, at_attachment_id = ''att'', at_peer_device_id = ''peer'',
     at_direction = BrowserToAgent, at_data_plane = LnaHttp, at_total_bytes = n,
     at_hard_expires_at = 43200000, at_lna_token = Some (replicate 32 1), at_webtransport_tokens = [],
     at_consumed_poisoned = False, at_webtransport_consumed = replicate 6 False,
     at_segments = \<lparr>sg_total_bytes = n, sg_segment_bytes = 31457280, sg_poisoned = False,
       sg_states = states, sg_completed_bytes = 0\<rparr>,
     at_buffers = \<lparr>bp_block_size = 4194304, bp_buffer_count = 12, bp_poisoned = False,
       bp_allocated = 0, bp_available = []\<rparr>,
     at_resource = ReceiveResource 0 sample_part sample_final,
     at_last_activity_ms = 0, at_last_progress_ms = 0, at_last_progress_bytes = 0, at_cancelled = False\<rparr>"

definition sample_world :: "active_transfer \<Rightarrow> world" where
  "sample_world x = \<lparr>w_selected = [], w_selected_poisoned = False, w_active = Some 0,
     w_active_poisoned = False, w_transfers = [x], w_events = [],
     w_dir = (\<lambda>_. None)(sample_part \<mapsto> 0), w_next_inode = 1\<rparr>"

lemma sample_receive_world:
  assumes "0 < n" and "div_ceil n 31457280 = c"
  shows "sample_receive LnaHttp n =
     (Inr (Some \<lparr>gr_transfer_id = sample_id, gr_attachment_id = ''att'', gr_owner_device_id = ''own'',
       gr_authorization = AuthLnaHttp (format_hex (replicate 32 1))\<rparr>),
      sample_world (sample_transfer n (replicate (unat c) Pending)))"
  using assms
  by (simp add: sample_receive_def prepare_receive_open_def sample_random_def temporary_path_def
      path_parent_def path_file_name_def sample_final_def sample_part_def sample_id_def Let_def
      manager_new_def install_transfer_with_id_def new_transfer_def transfer_now_def now_ms_def
      transfer_credentials_def segment_bytes_of_def lift_err_def segments_new_def
      pool_new_lazy_def validate_shape_def buffers_of_def transfer_constants sample_world_def
      sample_transfer_def saturating_add_def)

lemma sample_reachable:
  assumes "0 < n" and "div_ceil n 31457280 = c"
  shows "reachable_system \<lparr>y_world = sample_world (sample_transfer n (replicate (unat c) Pending)),
           y_leases = [], y_connections = []\<rparr>"
proof -
  have "transfer_step system_new
      (system_new\<lparr>y_world := sample_world (sample_transfer n (replicate (unat c) Pending))\<rparr>)"
    using sample_receive_world [OF assms] unfolding sample_receive_def
    by (intro PrepareReceive) (simp add: system_new_def)
  then show ?thesis by (simp add: reachable_system_def system_new_def r_into_rtranclp)
qed

lemma reachable_step: "reachable_system s \<Longrightarrow> transfer_step s s' \<Longrightarrow> reachable_system s'"
  by (simp add: reachable_system_def)

text \<open>Two segments of a file of 30 MiB and two bytes, both requested.\<close>

definition sample_lease :: "nat \<Rightarrow> segment_lease" where
  "sample_lease i = \<lparr>ls_transfer = 0, ls_index = i, ls_offset = word_of_nat i * 31457280,
     ls_len = (if i = 0 then 31457280 else 2)\<rparr>"

lemma sample_begin:
  "begin_lna_segment 0 0 sample_id (replicate 32 1) BrowserToAgent 0 31457280
     (sample_world (sample_transfer 31457282 [Pending, Pending])) =
   (Inr (sample_lease 0), sample_world (sample_transfer 31457282 [Active, Pending]))"
  "begin_lna_segment 0 0 sample_id (replicate 32 1) BrowserToAgent 31457280 2
     (sample_world (sample_transfer 31457282 [Active, Pending])) =
   (Inr (sample_lease 1), sample_world (sample_transfer 31457282 [Active, Active]))"
  by (simp_all add: begin_lna_segment_def active_transfer_of_def sample_world_def sample_transfer_def
      validate_lna_def validate_time_def transfer_now_def now_ms_def constant_time_equal_iff
      saturating_sub_def TRANSFER_IDLE_TTL_MS_def reserve_lease_def segments_reserve_def
      is_multiple_of_def transfer_touch_def put_transfer_def sample_lease_def Let_def min_def)

definition sample_system :: system where
  "sample_system = \<lparr>y_world = sample_world (sample_transfer 31457282 [Active, Active]),
     y_leases = [sample_lease 1, sample_lease 0], y_connections = []\<rparr>"

lemma sample_system_reachable: "reachable_system sample_system"
proof -
  let ?s0 = "\<lparr>y_world = sample_world (sample_transfer 31457282 [Pending, Pending]),
    y_leases = [], y_connections = []\<rparr>"
  have two: "div_ceil (31457282 :: u64) 31457280 = 2" by (simp add: div_ceil_def)
  have list: "replicate (unat (2 :: u64)) Pending = [Pending, Pending]"
  proof -
    have "unat (2 :: u64) = Suc (Suc 0)" by simp
    then show ?thesis by (simp only: replicate.simps)
  qed
  have s0: "reachable_system ?s0"
    using sample_reachable [OF _ two] unfolding list by simp
  have "reachable_system (?s0\<lparr>y_world := sample_world (sample_transfer 31457282 [Active, Pending]),
      y_leases := [sample_lease 0]\<rparr>)"
    using reachable_step [OF s0 BeginLna] sample_begin(1) by simp
  from reachable_step [OF this BeginLna] sample_begin(2) show ?thesis
    by (simp add: sample_system_def)
qed

section \<open>Leases\<close>

definition lease_bytes :: "segment_lease \<Rightarrow> nat set" where
  "lease_bytes l = extent_bytes (unat (ls_offset l), unat (ls_len l))"

lemma lease_segment:
  assumes "system_inv s" and "l \<in> set (y_leases s)"
  shows "ls_transfer l < length (w_transfers (y_world s))"
    "segments_inv (at_segments (w_transfers (y_world s) ! ls_transfer l))"
    "ls_index l \<in> sg_in Active (at_segments (w_transfers (y_world s) ! ls_transfer l))"
    "lease_bytes l = extent_bytes (segment_at (at_segments (w_transfers (y_world s) ! ls_transfer l)) (ls_index l))"
proof -
  have ok: "lease_ok (y_world s) l" and winv: "world_inv (y_world s)"
    using assms by (simp_all add: system_inv_def)
  then show len: "ls_transfer l < length (w_transfers (y_world s))" by (simp add: lease_ok_def)
  show "segments_inv (at_segments (w_transfers (y_world s) ! ls_transfer l))"
    using core_wf_inv [OF world_inv_nth [OF winv len]] .
  show "ls_index l \<in> sg_in Active (at_segments (w_transfers (y_world s) ! ls_transfer l))"
    "lease_bytes l = extent_bytes (segment_at (at_segments (w_transfers (y_world s) ! ls_transfer l)) (ls_index l))"
    using ok len by (simp_all add: lease_ok_def lease_bytes_def)
qed

text \<open>C2. Exclusive leases: in every reachable state of the manager, whatever the interleaving of
  requests, commits, drops and cancellations, two outstanding leases of one transfer cover
  disjoint byte ranges, and no lease covers a byte of a segment that was already committed.\<close>

theorem leases_exclusive:
  assumes "reachable_system s" and "i < length (y_leases s)" and "j < length (y_leases s)"
    and "i \<noteq> j" and "ls_transfer (y_leases s ! i) = ls_transfer (y_leases s ! j)"
  shows "lease_bytes (y_leases s ! i) \<inter> lease_bytes (y_leases s ! j) = {} \<and>
         (\<forall>k \<in> sg_in Complete (at_segments (w_transfers (y_world s) ! ls_transfer (y_leases s ! i))).
            lease_bytes (y_leases s ! i) \<inter>
            extent_bytes (segment_at (at_segments (w_transfers (y_world s) ! ls_transfer (y_leases s ! i))) k) = {})"
proof -
  have inv: "system_inv s" using assms(1) by (rule reachable_system_inv)
  note li = lease_segment [OF inv nth_mem [OF assms(2)]]
  note lj = lease_segment [OF inv nth_mem [OF assms(3)]]
  have "lease_key (y_leases s ! i) \<noteq> lease_key (y_leases s ! j)"
    using inv assms(2-4) nth_eq_iff_index_eq [of "map lease_key (y_leases s)" i j]
    by (simp add: system_inv_def)
  then have "ls_index (y_leases s ! i) \<noteq> ls_index (y_leases s ! j)"
    using assms(5) by (simp add: lease_key_def)
  moreover have "ls_index (y_leases s ! i) \<noteq> k"
    if "k \<in> sg_in Complete (at_segments (w_transfers (y_world s) ! ls_transfer (y_leases s ! i)))" for k
    using li(3) that by (auto simp: sg_in_def)
  ultimately show ?thesis
    using segments_disjoint [OF li(2)] li(4) lj(4) assms(5) by simp
qed

theorem leases_exclusive_witness:
  "lease_bytes (y_leases sample_system ! 0) \<inter> lease_bytes (y_leases sample_system ! 1) = {}"
  using leases_exclusive [OF sample_system_reachable, of 0 1]
  by (simp add: sample_system_def sample_lease_def)

section \<open>Publication\<close>

text \<open>C1. Only complete files are published: in a reachable state, if a step changes what a path
  names that is not a partial file, then the step is the completion of a received file with that
  destination, every segment of the transfer was committed, no lease of it is out, and the path
  now names what was its partial file.\<close>

theorem only_complete_files_published:
  assumes reach: "reachable_system s" and step: "transfer_step s s'"
    and part: "\<not> is_part_path p" and changed: "w_dir (y_world s') p \<noteq> w_dir (y_world s) p"
  shows "\<exists>a inode part. a < length (w_transfers (y_world s)) \<and>
    at_resource (w_transfers (y_world s) ! a) = ReceiveResource inode part p \<and>
    sg_in Complete (at_segments (w_transfers (y_world s) ! a)) =
      {..<length (sg_states (at_segments (w_transfers (y_world s) ! a)))} \<and>
    (\<forall>l \<in> set (y_leases s). ls_transfer l \<noteq> a) \<and>
    w_dir (y_world s') p = w_dir (y_world s) part"
proof -
  have inv: "system_inv s" using reach by (rule reachable_system_inv)
  then have winv: "world_inv (y_world s)" by (simp add: system_inv_def)
  have main: ?thesis
    if a: "a < length (w_transfers (y_world s))"
      and c: "complete_receive_transfer sync_ok replace_ok a (y_world s) = (r, w)"
      and d: "w_dir w p \<noteq> w_dir (y_world s) p" and w: "y_world s' = w" for a sync_ok replace_ok r w
  proof -
    from complete_dir [OF c d] obtain inode q final where
      res: "at_resource (w_transfers (y_world s) ! a) = ReceiveResource inode q final"
      and complete: "segments_is_complete (at_segments (w_transfers (y_world s) ! a))"
      and p: "p = q \<or> p = final"
      and dir: "w_dir w = ((w_dir (y_world s))(q := None))(final := w_dir (y_world s) q)" by blast
    have "p = final" using p part resource_wf_nth [OF winv a res] by auto
    with a res dir complete_leases [OF inv a complete] w show ?thesis by auto
  qed
  from step changed show ?thesis
  proof (cases rule: transfer_step.cases)
    case (CompleteLna t sync_ok replace_ok tid token r w)
    then obtain a where "active_transfer_of tid (y_world s) = Inr a"
      "complete_receive_transfer sync_ok replace_ok a (y_world s) = (r, w)"
      using changed by (auto simp: complete_receive_def result_simps split: sum.splits)
    then show ?thesis
      using main [OF active_transfer_bound [OF winv]] changed CompleteLna(1) by simp
  next
    case (CompleteWt c t sync_ok replace_ok r w)
    then have "complete_receive_transfer sync_ok replace_ok (cn_transfer c) (y_world s) = (r, w)"
      using changed by (auto simp: complete_webtransport_receive_def Let_def split: sum.splits if_splits)
    moreover have "cn_transfer c < length (w_transfers (y_world s))"
      using inv CompleteWt(2) by (simp add: system_inv_def)
    ultimately show ?thesis using main changed CompleteWt(1) by simp
  qed (use part winv changed in \<open>auto dest: create_send_dir prepare_receive_dir begin_lna_dir connect_dir
        begin_extent_dir commit_dir small_dir(2-5) release_source_dir cancel_dir
        simp: fail_dir cancel_all_dir small_dir(1)\<close>)
qed

text \<open>A ten-byte file, received and committed, then completed.\<close>

definition small_transfer :: "segment_state \<Rightarrow> u64 \<Rightarrow> active_transfer" where
  "small_transfer st done_bytes =
     (sample_transfer 10 [st])\<lparr>at_segments := \<lparr>sg_total_bytes = 10, sg_segment_bytes = 31457280,
        sg_poisoned = False, sg_states = [st], sg_completed_bytes = done_bytes\<rparr>,
        at_last_progress_bytes := done_bytes\<rparr>"

definition small_lease :: segment_lease where
  "small_lease = \<lparr>ls_transfer = 0, ls_index = 0, ls_offset = 0, ls_len = 10\<rparr>"

definition committed_world :: world where
  "committed_world = (sample_world (small_transfer Complete 10))\<lparr>w_events := [ProgressEvent sample_id ''att'' 10]\<rparr>"

lemma small_begin:
  "begin_lna_segment 0 0 sample_id (replicate 32 1) BrowserToAgent 0 10
     (sample_world (small_transfer Pending 0)) = (Inr small_lease, sample_world (small_transfer Active 0))"
  by (simp add: begin_lna_segment_def active_transfer_of_def sample_world_def sample_transfer_def
      small_transfer_def
      validate_lna_def validate_time_def transfer_now_def now_ms_def constant_time_equal_iff
      saturating_sub_def TRANSFER_IDLE_TTL_MS_def reserve_lease_def segments_reserve_def
      is_multiple_of_def transfer_touch_def put_transfer_def small_lease_def Let_def min_def)

lemma small_commit:
  "commit_segment 0 small_lease (sample_world (small_transfer Active 0)) = (Inr 10, committed_world)"
  by (simp add: commit_segment_def sample_world_def sample_transfer_def small_transfer_def
      segments_complete_def small_lease_def transfer_now_def now_ms_def Let_def publish_def
      put_transfer_def committed_world_def)

lemma small_complete:
  "\<exists>w. complete_receive 0 True True sample_id (replicate 32 1) committed_world = (Inr (), w) \<and>
     w_dir w sample_final = Some 0"
  by (simp add: complete_receive_def active_transfer_of_def committed_world_def sample_world_def
      sample_transfer_def small_transfer_def validate_lna_def validate_time_def transfer_now_def
      now_ms_def constant_time_equal_iff saturating_sub_def TRANSFER_IDLE_TTL_MS_def
      complete_receive_transfer_def segments_is_complete_def publish_def Let_def atomic_replace_def
      take_active_def)

lemma committed_reachable:
  "reachable_system \<lparr>y_world = committed_world, y_leases = [], y_connections = []\<rparr>"
proof -
  let ?s0 = "\<lparr>y_world = sample_world (small_transfer Pending 0), y_leases = [], y_connections = []\<rparr>"
  have one: "div_ceil (10 :: u64) 31457280 = 1" by (simp add: div_ceil_def)
  have "small_transfer Pending 0 = sample_transfer 10 (replicate (unat (1 :: u64)) Pending)"
    by (simp add: small_transfer_def sample_transfer_def)
  then have s0: "reachable_system ?s0" using sample_reachable [OF _ one] by simp
  have s1: "reachable_system (?s0\<lparr>y_world := sample_world (small_transfer Active 0),
      y_leases := [small_lease]\<rparr>)"
    using reachable_step [OF s0 BeginLna] small_begin by simp
  from reachable_step [OF s1 Commit [of 0]] small_commit show ?thesis
    by (simp add: without_def)
qed

lemma sample_final_not_part: "\<not> is_part_path sample_final"
  by (auto simp: is_part_path_def sample_final_def)

theorem only_complete_files_published_witness:
  "\<exists>s s' a. reachable_system s \<and> transfer_step s s' \<and> w_dir (y_world s') sample_final = Some 0 \<and>
     sg_in Complete (at_segments (w_transfers (y_world s) ! a)) =
       {..<length (sg_states (at_segments (w_transfers (y_world s) ! a)))}"
proof -
  let ?s = "\<lparr>y_world = committed_world, y_leases = [], y_connections = []\<rparr>"
  obtain w where w: "complete_receive 0 True True sample_id (replicate 32 1) committed_world = (Inr (), w)"
    and dir: "w_dir w sample_final = Some 0" using small_complete by blast
  have step: "transfer_step ?s (?s\<lparr>y_world := w\<rparr>)"
    by (rule CompleteLna) (use w in simp)
  have "w_dir (y_world (?s\<lparr>y_world := w\<rparr>)) sample_final \<noteq> w_dir (y_world ?s) sample_final"
    using dir by (simp add: committed_world_def sample_world_def sample_part_def sample_final_def)
  from only_complete_files_published [OF committed_reachable step sample_final_not_part this]
    step committed_reachable dir
  show ?thesis by (metis select_convs(1) system.update_convs(1))
qed

section \<open>Credentials\<close>

text \<open>No segment without authorisation: a lease is only given for the active transfer of that
  identifier, over its own data plane and direction, with its own token, while it is not
  cancelled, within twelve hours of its creation and 120 seconds of its last activity, and only
  for a pending segment of its grid.\<close>

theorem lna_segment_authorised:
  assumes "world_inv w" and "0 \<le> t1" and "t1 < 2 ^ 64"
    and "begin_lna_segment t1 t2 tid token direction offset len w = (Inr l, w')"
  shows "\<exists>x expected. w_active w = Some (ls_transfer l) \<and> x = w_transfers w ! ls_transfer l \<and>
    at_transfer_id x = tid \<and> at_data_plane x = LnaHttp \<and> at_direction x = direction \<and>
    \<not> at_cancelled x \<and> at_lna_token x = Some expected \<and> constant_time_equal expected token \<and>
    t1 \<le> int (unat (at_hard_expires_at x)) \<and>
    t1 - int (unat (at_last_activity_ms x)) \<le> 120000 \<and>
    ls_index l \<in> sg_in Pending (at_segments x) \<and>
    (unat offset, unat len) = segment_at (at_segments x) (ls_index l)"
proof -
  from begin_lna_cases [OF assms(4)] obtain a where a: "active_transfer_of tid w = Inr a"
    and valid: "validate_lna t1 token direction (w_transfers w ! a) = Inr ()"
    and reserve: "reserve_lease t2 a offset len w = (Inr l, w')" by auto
  let ?x = "w_transfers w ! a"
  have act: "w_active w = Some a" and tid: "at_transfer_id ?x = tid"
    using a by (auto simp: active_transfer_of_def split: if_splits option.splits)
  have len: "a < length (w_transfers w)" using active_transfer_bound [OF assms(1) a] .
  note now = now_ms_in_range [OF assms(2,3)]
  obtain expected where checks: "at_data_plane ?x = LnaHttp" "at_direction ?x = direction"
    "\<not> at_cancelled ?x" "at_lna_token ?x = Some expected" "constant_time_equal expected token"
    and hard: "word_of_int t1 \<le> at_hard_expires_at ?x"
    and idle: "saturating_sub (word_of_int t1) (at_last_activity_ms ?x) \<le> TRANSFER_IDLE_TTL_MS"
    using valid by (auto simp: validate_lna_def validate_time_def transfer_now_def now(1) result_simps)
  have "t1 \<le> int (unat (at_hard_expires_at ?x))"
    using hard unfolding word_le_nat_alt now(2) nat_le_iff .
  moreover have "t1 - int (unat (at_last_activity_ms ?x)) \<le> 120000"
  proof -
    have "nat t1 - unat (at_last_activity_ms ?x) \<le> 120000"
      using idle by (simp add: word_le_nat_alt unat_saturating_sub now(2) TRANSFER_IDLE_TTL_MS_def)
    then show ?thesis using assms(2) by linarith
  qed
  moreover obtain i g where g: "segments_reserve offset len (at_segments ?x) = (Inr i, g)"
    and l: "l = \<lparr>ls_transfer = a, ls_index = i, ls_offset = offset, ls_len = len\<rparr>"
    using reserve_cases [OF assms(1) len reserve] by auto
  have "i \<in> sg_in Pending (at_segments ?x)" "(unat offset, unat len) = segment_at (at_segments ?x) i"
    using g by (simp_all add: segments_reserve_Inr_iff [OF core_wf_inv [OF world_inv_nth [OF assms(1) len]]])
  ultimately show ?thesis using act tid checks l by auto
qed

lemma sample_world_inv: "world_inv (sample_world (small_transfer Pending 0))"
proof -
  have "system_inv \<lparr>y_world = sample_world (sample_transfer 10 (replicate (unat (1 :: u64)) Pending)),
      y_leases = [], y_connections = []\<rparr>"
    by (rule reachable_system_inv [OF sample_reachable]) (simp_all add: div_ceil_def)
  moreover have "small_transfer Pending 0 = sample_transfer 10 (replicate (unat (1 :: u64)) Pending)"
    by (simp add: small_transfer_def sample_transfer_def)
  ultimately show ?thesis by (simp add: system_inv_def)
qed

theorem lna_segment_authorised_witness:
  "\<exists>expected. at_lna_token (small_transfer Pending 0) = Some expected \<and>
     constant_time_equal expected (replicate 32 1)"
  using lna_segment_authorised [OF sample_world_inv _ _ small_begin]
  by (auto simp: sample_world_def small_lease_def)

text \<open>Each of the six connection tokens of a transfer is accepted at most once, and no other
  index ever is, whatever is presented and however often.\<close>

theorem connection_tokens_one_time:
  assumes "new_transfer t random tid spec = Inr (x, authorization)"
  shows "accepted_connections x ps j \<le> (if j < 6 then 1 else 0)"
proof -
  have "at_webtransport_consumed x = replicate 6 False"
    using assms
    by (auto simp: new_transfer_def result_simps FILE_WEBTRANSPORT_CONNECTIONS_def)
  then show ?thesis
    using connections.redemptions_le_credits [where s = x and t = j and ps = ps]
    by (auto simp: accepted_connections_eq connection_credits_def split: if_splits)
qed

definition sample_spec :: transfer_spec where
  "sample_spec = \<lparr>sp_attachment_id = ''att'', sp_owner_device_id = ''own'', sp_peer_device_id = ''peer'',
     sp_direction = BrowserToAgent, sp_data_plane = WebTransport, sp_total_bytes = 10,
     sp_resource = ReceiveResource 0 sample_part sample_final\<rparr>"

theorem connection_tokens_one_time_witness:
  "\<exists>x authorization. new_transfer 0 sample_random sample_id sample_spec = Inr (x, authorization) \<and>
     accepted_connections x
       [Attempt 1 (replicate 16 0) 0 BrowserToAgent ''peer'',
        Attempt 2 (replicate 16 0) 0 BrowserToAgent ''peer''] 0 \<le> 1"
proof -
  have "draw_tokens 6 0 sample_random \<noteq> Inl e" for e
    by (simp add: eval_nat_numeral sample_random_def)
  then obtain tokens where "draw_tokens 6 0 sample_random = Inr tokens"
    by (metis sum.exhaust)
  then obtain x authorization where
    new: "new_transfer 0 sample_random sample_id sample_spec = Inr (x, authorization)"
    by (simp add: new_transfer_def sample_spec_def transfer_now_def now_ms_def transfer_credentials_def
        FILE_WEBTRANSPORT_CONNECTIONS_def segment_bytes_of_def FILE_WEBTRANSPORT_EXTENT_BYTES_def
        lift_err_def segments_new_def pool_new_lazy_def validate_shape_def buffers_of_def
        FILE_WEBTRANSPORT_LANES_PER_CONNECTION_def FILE_IO_BLOCK_BYTES_def)
  from connection_tokens_one_time [OF new, of "[Attempt 1 (replicate 16 0) 0 BrowserToAgent ''peer'',
        Attempt 2 (replicate 16 0) 0 BrowserToAgent ''peer'']" 0] new
  show ?thesis by auto
qed

section \<open>Ends of a transfer\<close>

text \<open>Cancelling a reception ends it cleanly: the slot is free, the transfer is marked, its
  partial file is gone, every other path is as it was, and no later request can obtain a segment
  for its identifier while the slot stays free.\<close>

theorem cancel_cleans_up:
  assumes "world_inv w" and "cancel_transfer True tid w = (Inr (), w')"
  shows "\<exists>a. w_active w = Some a \<and> w_active w' = None \<and> at_transfer_id (w_transfers w ! a) = tid \<and>
    at_cancelled (w_transfers w' ! a) \<and>
    (\<forall>inode part final. at_resource (w_transfers w ! a) = ReceiveResource inode part final \<longrightarrow>
       w_dir w' = (w_dir w)(part := None) \<and>
       w_events w' = w_events w @ [CancelledEvent tid (at_attachment_id (w_transfers w ! a))]) \<and>
    (\<forall>source inode. at_resource (w_transfers w ! a) = SendResource source inode \<longrightarrow>
       w_dir w' = w_dir w \<and> map_of (w_selected w') source = None)"
proof -
  obtain a w1 where take: "take_active tid w = (Inr a, w1)"
    using assms(2) by (auto simp: cancel_transfer_def split: prod.splits sum.splits)
  note spec = take_active_transfer [OF assms(1) take]
  have w1: "w1 = w\<lparr>w_active := None\<rparr>"
    using take by (auto simp: take_active_def split: sum.splits)
  show ?thesis
    using assms(2) spec
    by (cases "at_resource (w_transfers w ! a)")
       (auto simp: cancel_transfer_def take w1 stop_transfer_def cleanup_resource_def Let_def
         publish_def put_transfer_def release_source_def delete_conv split: if_splits
         prod.splits sum.splits)
qed

theorem cancel_cleans_up_witness:
  "\<exists>w'. cancel_transfer True sample_id (sample_world (small_transfer Pending 0)) = (Inr (), w') \<and>
     w_active w' = None"
proof -
  obtain w' where w': "cancel_transfer True sample_id (sample_world (small_transfer Pending 0)) = (Inr (), w')"
    by (simp add: cancel_transfer_def take_active_def active_transfer_of_def sample_world_def
        small_transfer_def sample_transfer_def Let_def)
  from cancel_cleans_up [OF sample_world_inv w'] w' show ?thesis by blast
qed

text \<open>Finishing a reception as if it were a sending is refused, but only after the transfer was
  taken out of its slot: the slot is free, the partial file stays, the transfer is not marked
  cancelled, and neither a later cancellation nor \<open>cancel_all\<close> removes the file.\<close>

theorem finish_send_leaks_part:
  "\<exists>w'. finish_send_transfer sample_id (sample_world (small_transfer Pending 0)) = (Inl NotASendTransfer, w') \<and>
     w_active w' = None \<and> w_dir w' sample_part = Some 0 \<and> \<not> at_cancelled (w_transfers w' ! 0) \<and>
     cancel_transfer True sample_id w' = (Inl TransferNotActive, w') \<and>
     w_dir (cancel_all True w') sample_part = Some 0"
  by (simp add: finish_send_transfer_def take_active_def active_transfer_of_def sample_world_def
      small_transfer_def sample_transfer_def cancel_transfer_def cancel_all_def Let_def)

text \<open>A transfer installed while the save dialog is open makes the reception fail after its
  partial file was created, and that file is left behind: no call of the manager knows it.\<close>

theorem dialog_race_leaks_part:
  "\<exists>w'. prepare_receive_check 10 manager_new = Inr () \<and>
     prepare_receive_open 0 (\<lambda>i. Some (replicate 16 9)) True True (Some [''tmp'', ''x'']) ''att2'' ''own'' ''peer''
       10 LnaHttp (sample_world (small_transfer Pending 0)) = (Inl AnotherTransferActive, w') \<and>
     w_dir w' [''tmp'', ''.x.winrisef-'' @ format_hex (replicate 16 9) @ ''.part''] = Some 1 \<and>
     w_dir (cancel_all True w') [''tmp'', ''.x.winrisef-'' @ format_hex (replicate 16 9) @ ''.part''] = Some 1"
  by (simp add: prepare_receive_check_def ensure_idle_def manager_new_def result_simps
      prepare_receive_open_def temporary_path_def
      path_parent_def path_file_name_def Let_def install_transfer_with_id_def new_transfer_def
      transfer_now_def now_ms_def transfer_credentials_def segment_bytes_of_def lift_err_def
      segments_new_def pool_new_lazy_def validate_shape_def buffers_of_def transfer_constants
      sample_world_def sample_part_def small_transfer_def sample_transfer_def cancel_all_def
      stop_transfer_def cleanup_resource_def put_transfer_def)

end
