(* ===== verification/File_Http.thy ===== *)
theory File_Http
  imports Http_Message File_Payload Transfer_Safety
begin

text \<open>
  The native file transfer over HTTP, crates/winrisef-agent/src/file_http.rs: the endpoint paths and
  queries, the route of a file request, and the two segment pipelines over the connection.

  The environment of a request is a record: the clock readings, the positional I/O, the outcome
  of the system calls, the query decoder of the \<open>url\<close> crate, and the text of a manager error.
  Writes to the socket succeed; what was written is the returned text.  The state is the file
  semaphore with the payload state of File_Payload.
\<close>

section \<open>Environment and state\<close>

record http_env =
  he_clk :: "nat \<Rightarrow> int"
  he_pread :: "u64 \<Rightarrow> nat \<Rightarrow> unit + bytes"
  he_pwrite :: "u64 \<Rightarrow> bytes \<Rightarrow> unit + nat"
  he_sync_ok :: bool
  he_replace_ok :: bool
  he_remove_ok :: bool
  he_form :: "string \<Rightarrow> (string \<times> string) list"
  he_describe :: "transfer_error \<Rightarrow> string"
  he_elapsed_nanos :: u64

record connection =
  co_pending :: bytes
  co_socket :: socket

record file_state =
  fs_requests :: semaphore
  fs_payload :: payload_state

definition conn_bytes :: "connection \<Rightarrow> bytes" where
  "conn_bytes k = co_pending k @ sock_bytes (co_socket k)"

function sock_read_exact :: "nat \<Rightarrow> socket \<Rightarrow> (unit + bytes) \<times> socket" where
  "sock_read_exact n sock =
     (if n = 0 then (Inr [], sock)
      else (case sock_read n sock of
        (bs, sock1) \<Rightarrow>
          if bs = [] then (Inl (), sock1)
          else (case sock_read_exact (n - length bs) sock1 of
            (Inl _, sock2) \<Rightarrow> (Inl (), sock2)
          | (Inr others, sock2) \<Rightarrow> (Inr (bs @ others), sock2))))"
  by auto
termination by (relation "measure fst") (auto dest!: sock_read_bytes [OF sym])

declare sock_read_exact.simps [simp del]

text \<open>A block comes from what is buffered first, then from the socket.\<close>

definition http_fetch :: "nat \<Rightarrow> connection \<Rightarrow> (unit + bytes) \<times> connection" where
  "http_fetch n k =
     (let buffered = take n (co_pending k);
          k1 = k\<lparr>co_pending := drop n (co_pending k)\<rparr>
      in if length buffered < n
         then (case sock_read_exact (n - length buffered) (co_socket k1) of
                 (Inl _, sock) \<Rightarrow> (Inl (), k1\<lparr>co_socket := sock\<rparr>)
               | (Inr bs, sock) \<Rightarrow> (Inr (buffered @ bs), k1\<lparr>co_socket := sock\<rparr>))
         else (Inr buffered, k1))"

section \<open>Paths and queries\<close>

definition FILE_HTTP_BASE_PATH :: string where "FILE_HTTP_BASE_PATH = ''/winrisef/file/v1''"
definition FILE_PROBE_PATH :: string where "FILE_PROBE_PATH = ''/winrisef/file/v1/probe''"
definition FILE_TRANSFER_PREFIX :: string where "FILE_TRANSFER_PREFIX = ''/winrisef/file/v1/transfers/''"

definition ascii_hexdigit :: "char \<Rightarrow> bool" where
  "ascii_hexdigit c \<longleftrightarrow>
     (CHR ''0'' \<le> c \<and> c \<le> CHR ''9'') \<or> (CHR ''a'' \<le> c \<and> c \<le> CHR ''f'') \<or> (CHR ''A'' \<le> c \<and> c \<le> CHR ''F'')"

definition parse_path :: "string \<Rightarrow> (string \<times> string) option" where
  "parse_path path =
     (case strip_prefix FILE_TRANSFER_PREFIX path of
        None \<Rightarrow> None
      | Some suffix \<Rightarrow> (
          case split_once ''/'' suffix of
            None \<Rightarrow> None
          | Some (transfer_id, action) \<Rightarrow>
              if length transfer_id \<noteq> 32 \<or> \<not> list_all ascii_hexdigit transfer_id then None
              else Some (transfer_id, action)))"

fun query_fields ::
  "u64 option \<Rightarrow> u64 option \<Rightarrow> (string \<times> string) list \<Rightarrow> string + u64 option \<times> u64 option" where
  "query_fields offset len [] = Inr (offset, len)"
| "query_fields offset len ((key, v) # pairs) =
     (if key = ''offset'' \<and> offset = None then
        and_then (ok_or (parse_u64 v) ''offset is invalid'') (\<lambda>n. query_fields (Some n) len pairs)
      else if key = ''bytes'' \<and> len = None then
        and_then (ok_or (parse_u64 v) ''bytes is invalid'') (\<lambda>n. query_fields offset (Some n) pairs)
      else Inl ''file segment query contains an unknown or duplicate parameter'')"

definition parse_query ::
  "(string \<Rightarrow> (string \<times> string) list) \<Rightarrow> string option \<Rightarrow> bool \<Rightarrow> string + u64 \<times> u64" where
  "parse_query form query require_bytes =
     and_then (ok_or query ''file segment query is missing'') (\<lambda>q.
     and_then (query_fields None None (form q)) (\<lambda>(offset, len).
     and_then (ok_or offset ''file segment offset is missing'') (\<lambda>off.
       if require_bytes
       then and_then (ok_or len ''file segment byte count is missing'') (\<lambda>n. Inr (off, n))
       else if len = None then Inr (off, 0) else Inl ''upload segment must use Content-Length'')))"

section \<open>The route of a file request\<close>

datatype http_failure =
    FailedPayload payload_error
  | FailedCommit transfer_error
  | FailedUpload
  | FailedTicket auth_error

type_synonym 's response = "(http_failure + unit) \<times> string \<times> connection \<times> 's"

definition reply :: "string \<Rightarrow> connection \<Rightarrow> 's \<Rightarrow> 's response" where
  "reply out k s = (Inr (), out, k, s)"

definition set_world :: "world \<Rightarrow> file_state \<Rightarrow> file_state" where
  "set_world w s = s\<lparr>fs_payload := (fs_payload s)\<lparr>pl_world := w\<rparr>\<rparr>"

definition tick :: "file_state \<Rightarrow> file_state" where
  "tick s = s\<lparr>fs_payload := (fs_payload s)\<lparr>pl_tick := Suc (pl_tick (fs_payload s))\<rparr>\<rparr>"

definition now_of :: "http_env \<Rightarrow> file_state \<Rightarrow> int" where
  "now_of env s = he_clk env (pl_tick (fs_payload s))"

definition world_of :: "file_state \<Rightarrow> world" where
  "world_of s = pl_world (fs_payload s)"

definition release_requests :: "nat \<Rightarrow> file_state \<Rightarrow> file_state" where
  "release_requests n s = s\<lparr>fs_requests := release_many n (fs_requests s)\<rparr>"

definition send_segment ::
  "http_env \<Rightarrow> string \<Rightarrow> bool \<Rightarrow> segment_lease \<Rightarrow> file_state \<Rightarrow>
     (payload_error + unit) \<times> string \<times> file_state" where
  "send_segment env origin keep_alive l s =
     (case send_payload 2 (he_pread env) (he_clk env) l (fs_payload s) of
        (r, body, p) \<Rightarrow>
          (r, write_response 200 ''application/octet-stream'' (ls_len l) origin keep_alive
                [(''X-WinriseF-Offset'', show_nat (unat (ls_offset l)))] @ chars_of body,
           s\<lparr>fs_payload := p\<rparr>))"

definition receive_segment ::
  "http_env \<Rightarrow> segment_lease \<Rightarrow> connection \<Rightarrow> file_state \<Rightarrow>
     (payload_error + unit) \<times> connection \<times> file_state" where
  "receive_segment env l k s =
     (case receive_payload 2 http_fetch (he_pwrite env) (he_clk env) l k (fs_payload s) of
        (r, k1, p) \<Rightarrow> (r, k1, s\<lparr>fs_payload := p\<rparr>))"

definition route_complete ::
  "http_env \<Rightarrow> string \<Rightarrow> http_request \<Rightarrow> string \<Rightarrow> bytes \<Rightarrow> connection \<Rightarrow> file_state \<Rightarrow>
     file_state response" where
  "route_complete env origin rq transfer_id token k s =
     (if rq_method rq \<noteq> ''POST'' \<or> (case rq_content_length rq of None \<Rightarrow> False | Some n \<Rightarrow> n \<noteq> 0)
      then reply (write_error 405 ''invalid_complete'' ''file completion requires an empty POST request''
             (Some origin)) k s
      else (case try_acquire_many FILE_HTTP_PARALLELISM (fs_requests s) of
        None \<Rightarrow> reply (write_error 409 ''transfer_still_active'' ''native file requests are still active''
                  (Some origin)) k s
      | Some permit \<Rightarrow> (
          let s1 = s\<lparr>fs_requests := permit\<rparr> in
          case complete_receive (now_of env s1) (he_sync_ok env) (he_replace_ok env) transfer_id token
                 (world_of s1) of
            (r, w) \<Rightarrow> (
              let s2 = release_requests FILE_HTTP_PARALLELISM (set_world w (tick s1)) in
              case r of
                Inr _ \<Rightarrow> reply (write_response 204 ''text/plain'' 0 origin (rq_keep_alive rq) []) k s2
              | Inl e \<Rightarrow> reply (write_error 409 ''transfer_incomplete'' (he_describe env e) (Some origin)) k s2))))"

text \<open>Offset and length of a segment request, or the refusal to answer with.\<close>

definition segment_range :: "http_env \<Rightarrow> string \<Rightarrow> http_request \<Rightarrow> string + u64 \<times> u64" where
  "segment_range env origin rq =
     (if rq_method rq = ''GET'' then
        (if (case rq_content_length rq of None \<Rightarrow> False | Some n \<Rightarrow> n \<noteq> 0)
         then Inl (write_error 400 ''invalid_download'' ''file download must not have a request body'' (Some origin))
         else (case parse_query (he_form env) (rq_query rq) True of
           Inr r \<Rightarrow> Inr r
         | Inl e \<Rightarrow> Inl (write_error 400 ''invalid_segment'' e (Some origin))))
      else if rq_method rq = ''POST'' then
        (case parse_query (he_form env) (rq_query rq) False of
           Inl e \<Rightarrow> Inl (write_error 400 ''invalid_segment'' e (Some origin))
         | Inr (offset, _) \<Rightarrow> (
             case rq_content_length rq of
               None \<Rightarrow> Inl (write_error 400 ''content_length_required''
                         ''file upload requires Content-Length'' (Some origin))
             | Some n \<Rightarrow> Inr (offset, n)))
      else Inl (write_error 405 ''method_not_allowed'' ''file segment accepts GET or POST'' (Some origin)))"

definition segment_body :: "u64 \<Rightarrow> u64 \<Rightarrow> string" where
  "segment_body offset len =
     ''{'' @ [CHR 0x22] @ ''offset'' @ [CHR 0x22] @ '':'' @ show_nat (unat offset) @ '','' @
     [CHR 0x22] @ ''bytes'' @ [CHR 0x22] @ '':'' @ show_nat (unat len) @ ''}''"

text \<open>What follows the pipeline: the commit and the answer, or the end of the transfer.\<close>

definition segment_done ::
  "http_env \<Rightarrow> string \<Rightarrow> http_request \<Rightarrow> string \<Rightarrow> u64 \<Rightarrow> u64 \<Rightarrow> segment_lease \<Rightarrow> payload_error + unit \<Rightarrow>
     string \<Rightarrow> connection \<Rightarrow> file_state \<Rightarrow> file_state response" where
  "segment_done env origin rq transfer_id offset len l r out k s =
     (case r of
        Inl e \<Rightarrow> (Inl (FailedPayload e), out, k,
          release_requests 1
            (set_world (fail_transfer (he_remove_ok env) transfer_id ''native file segment failed'' (world_of s)) s))
      | Inr _ \<Rightarrow> (
          case commit_segment (now_of env s) l (world_of s) of
            (Inl e, w) \<Rightarrow> (Inl (FailedCommit e), out, k, release_requests 1 (set_world w (tick s)))
          | (Inr _, w) \<Rightarrow> (
              let s1 = release_requests 1 (set_world w (tick s)) in
              if rq_method rq = ''POST''
              then reply (out @ write_response 200 ''application/json''
                     (word_of_nat (length (segment_body offset len))) origin (rq_keep_alive rq) [] @
                     segment_body offset len) k s1
              else reply out k s1)))"

definition route_segment ::
  "http_env \<Rightarrow> string \<Rightarrow> http_request \<Rightarrow> string \<Rightarrow> bytes \<Rightarrow> connection \<Rightarrow> file_state \<Rightarrow>
     file_state response" where
  "route_segment env origin rq transfer_id token k s =
     (case try_acquire (fs_requests s) of
        None \<Rightarrow> reply (write_error 503 ''transfer_busy'' ''all native file lanes are busy'' (Some origin)) k s
      | Some permit \<Rightarrow> (
          let s1 = s\<lparr>fs_requests := permit\<rparr> in
          case segment_range env origin rq of
            Inl refusal \<Rightarrow> reply refusal k (release_requests 1 s1)
          | Inr (offset, len) \<Rightarrow> (
              let direction = (if rq_method rq = ''GET'' then AgentToBrowser else BrowserToAgent) in
              case begin_lna_segment (now_of env s1) (now_of env (tick s1)) transfer_id token direction
                     offset len (world_of s1) of
                (Inl e, w) \<Rightarrow>
                  reply (write_error 401 ''transfer_rejected'' (he_describe env e) (Some origin)) k
                    (release_requests 1 (set_world w (tick (tick s1))))
              | (Inr l, w) \<Rightarrow> (
                  let s2 = set_world w (tick (tick s1)) in
                  if rq_method rq = ''GET''
                  then (case send_segment env origin (rq_keep_alive rq) l s2 of
                          (r, out, s3) \<Rightarrow> segment_done env origin rq transfer_id offset len l r out k s3)
                  else (case receive_segment env l k s2 of
                          (r, k1, s3) \<Rightarrow> segment_done env origin rq transfer_id offset len l r [] k1 s3)))))"

definition file_route ::
  "http_env \<Rightarrow> string \<Rightarrow> http_request \<Rightarrow> connection \<Rightarrow> file_state \<Rightarrow> file_state response" where
  "file_route env origin rq k s =
     (let has_body = (case rq_content_length rq of None \<Rightarrow> False | Some n \<Rightarrow> n \<noteq> 0) in
      if rq_method rq = ''OPTIONS'' then
        (if has_body \<or> rq_transfer_encoding rq
         then reply (write_error 400 ''invalid_preflight'' ''preflight request must not have a body''
                (Some origin)) k s
         else reply (write_preflight origin (rq_keep_alive rq)) k s)
      else if rq_path rq = FILE_PROBE_PATH then
        (if rq_method rq \<noteq> ''GET'' \<or> has_body
         then reply (write_error 405 ''invalid_probe'' ''file probe only accepts an empty GET request''
                (Some origin)) k s
         else reply (write_response 204 ''text/plain'' 0 origin (rq_keep_alive rq) []) k s)
      else if rq_transfer_encoding rq then
        reply (write_error 400 ''chunked_not_supported'' ''native file transfers require a fixed Content-Length''
          (Some origin)) k s
      else (case parse_path (rq_path rq) of
        None \<Rightarrow> reply (write_error 404 ''not_found'' ''file endpoint does not exist'' (Some origin)) k s
      | Some (transfer_id, action) \<Rightarrow> (
          case rq_file_token rq of
            None \<Rightarrow> reply (write_error 401 ''transfer_token_required''
                      ''native file transfer token is required'' (Some origin)) k s
          | Some token \<Rightarrow>
              if action = ''complete'' then route_complete env origin rq transfer_id token k s
              else if action = ''segments'' then route_segment env origin rq transfer_id token k s
              else reply (write_error 404 ''not_found'' ''file endpoint does not exist'' (Some origin)) k s)))"

section \<open>The connection as a byte source\<close>

lemma sock_read_nonempty:
  assumes "0 < n" and "sock_bytes sock \<noteq> []"
  shows "\<exists>bs sock'. sock_read n sock = (bs, sock') \<and> bs \<noteq> []"
  using sock_read_end [OF assms(1)] assms(2) by (cases "sock_read n sock") auto

lemma sock_read_exact_enough:
  "n \<le> length (sock_bytes sock) \<Longrightarrow>
     \<exists>sock'. sock_read_exact n sock = (Inr (take n (sock_bytes sock)), sock') \<and>
             sock_bytes sock' = drop n (sock_bytes sock)"
proof (induction n sock rule: sock_read_exact.induct)
  case (1 n sock)
  show ?case
  proof (cases "n = 0")
    case False
    then have "0 < n" "sock_bytes sock \<noteq> []" using "1.prems" by auto
    from sock_read_nonempty [OF this] obtain bs sock1 where
      read: "sock_read n sock = (bs, sock1)" "bs \<noteq> []" by blast
    note spec = sock_read_bytes [OF read(1)]
    then have "n - length bs \<le> length (sock_bytes sock1)" using "1.prems" by auto
    from "1.IH" [OF False read(1) [symmetric] read(2) this] obtain sock' where
      "sock_read_exact (n - length bs) sock1 = (Inr (take (n - length bs) (sock_bytes sock1)), sock')"
      "sock_bytes sock' = drop (n - length bs) (sock_bytes sock1)" by blast
    with spec read False show ?thesis by (subst sock_read_exact.simps) simp
  qed (simp add: sock_read_exact.simps)
qed

lemma sock_read_exact_short:
  "length (sock_bytes sock) < n \<Longrightarrow> \<exists>sock'. sock_read_exact n sock = (Inl (), sock')"
proof (induction n sock rule: sock_read_exact.induct)
  case (1 n sock)
  then have n: "n \<noteq> 0" by auto
  obtain bs sock1 where read: "sock_read n sock = (bs, sock1)" by fastforce
  show ?case
  proof (cases "bs = []")
    case False
    note spec = sock_read_bytes [OF read]
    then have "length (sock_bytes sock1) < n - length bs" using "1.prems" by auto
    from "1.IH" [OF n read [symmetric] False this] read n False show ?thesis
      by (subst sock_read_exact.simps) auto
  qed (use n read in \<open>subst sock_read_exact.simps, simp\<close>)
qed

lemma sock_read_exact_le: "length (sock_bytes (snd (sock_read_exact n sock))) \<le> length (sock_bytes sock)"
proof (induction n sock rule: sock_read_exact.induct)
  case (1 n sock)
  obtain bs sock1 where read: "sock_read n sock = (bs, sock1)" by fastforce
  note spec = sock_read_bytes [OF read]
  show ?case
  proof (cases "n = 0 \<or> bs = []")
    case False
    obtain r sock2 where rec: "sock_read_exact (n - length bs) sock1 = (r, sock2)" by fastforce
    with "1.IH" [OF _ read [symmetric]] False have "length (sock_bytes sock2) \<le> length (sock_bytes sock1)" by simp
    with spec read rec False show ?thesis
      by (subst sock_read_exact.simps) (cases r, simp_all)
  qed (use read spec in \<open>subst sock_read_exact.simps, auto\<close>)
qed

lemma http_fetch_le: "length (conn_bytes (snd (http_fetch n k))) \<le> length (conn_bytes k)"
  using sock_read_exact_le [of "n - length (take n (co_pending k))" "co_socket k"]
  by (auto simp: http_fetch_def conn_bytes_def Let_def split: prod.split sum.split)

interpretation http_source: byte_source http_fetch conn_bytes
proof
  fix n :: nat and k :: connection
  let ?m = "n - length (take n (co_pending k))"
  show "\<exists>c'. http_fetch n k = (Inr (take n (conn_bytes k)), c') \<and> conn_bytes c' = drop n (conn_bytes k)"
    if "n \<le> length (conn_bytes k)"
  proof (cases "length (take n (co_pending k)) < n")
    case True
    then have "?m \<le> length (sock_bytes (co_socket k))" "?m = n - length (co_pending k)"
      using that by (auto simp: conn_bytes_def min_def split: if_splits)
    with sock_read_exact_enough [of ?m "co_socket k"] True show ?thesis
      by (fastforce simp: http_fetch_def conn_bytes_def Let_def)
  qed (auto simp: http_fetch_def conn_bytes_def Let_def)
  show "\<exists>c'. http_fetch n k = (Inl (), c')" if "length (conn_bytes k) < n"
  proof -
    have "length (take n (co_pending k)) < n" "length (sock_bytes (co_socket k)) < ?m"
      using that by (auto simp: conn_bytes_def min_def)
    with sock_read_exact_short [of "co_socket k" ?m] show ?thesis
      by (auto simp: http_fetch_def Let_def)
  qed
qed

section \<open>Permits\<close>

lemma release_acquired:
  "try_acquire_many n q = Some q' \<Longrightarrow> release_many n q' = q"
  by (auto simp: try_acquire_many_def release_many_def split: if_splits)

lemma release_acquired_one: "try_acquire q = Some q' \<Longrightarrow> release_many 1 q' = q"
  unfolding try_acquire_def by (rule release_acquired)

lemma requests_frame [simp]:
  "fs_requests (set_world w s) = fs_requests s" "fs_requests (tick s) = fs_requests s"
  "fs_requests (release_requests n s) = release_many n (fs_requests s)"
  "world_of (set_world w s) = w" "world_of (tick s) = world_of s" "world_of (release_requests n s) = world_of s"
  "world_of (s\<lparr>fs_requests := q\<rparr>) = world_of s"
  by (simp_all add: set_world_def tick_def release_requests_def world_of_def)

lemma segment_done_requests:
  "fs_requests (snd (snd (snd (segment_done env origin rq transfer_id offset len l r out k s)))) =
     release_many 1 (fs_requests s)"
  by (simp add: segment_done_def reply_def Let_def split: sum.split prod.split)

lemma route_segment_requests:
  "fs_requests (snd (snd (snd (route_segment env origin rq transfer_id token k s)))) = fs_requests s"
proof (cases "try_acquire (fs_requests s)")
  case (Some q)
  then have "release_many 1 q = fs_requests s" by (rule release_acquired_one)
  with Some show ?thesis
    by (auto simp: route_segment_def reply_def Let_def send_segment_def receive_segment_def
        segment_done_requests split: sum.split prod.split)
qed (simp add: route_segment_def reply_def)

lemma route_complete_requests:
  "fs_requests (snd (snd (snd (route_complete env origin rq transfer_id token k s)))) = fs_requests s"
  by (auto simp: route_complete_def reply_def Let_def dest: release_acquired
      split: option.split sum.split prod.split)

lemma file_route_requests: "fs_requests (snd (snd (snd (file_route env origin rq k s)))) = fs_requests s"
  by (simp add: file_route_def reply_def Let_def route_segment_requests route_complete_requests
      split: option.split prod.split)

section \<open>Authorisation\<close>

lemma reply_world: "world_of (snd (snd (snd (reply out k s)))) = world_of s"
  by (simp add: reply_def)

definition lna_authorised :: "int \<Rightarrow> string \<Rightarrow> bytes \<Rightarrow> native_file_direction \<Rightarrow> world \<Rightarrow> bool" where
  "lna_authorised t transfer_id token direction w \<longleftrightarrow>
     (\<exists>a. active_transfer_of transfer_id w = Inr a \<and> validate_lna t token direction (w_transfers w ! a) = Inr ())"

lemma begin_lna_unauthorised:
  "\<not> lna_authorised t1 transfer_id token direction w \<Longrightarrow>
     \<exists>e. begin_lna_segment t1 t2 transfer_id token direction offset len w = (Inl e, w)"
  by (cases "active_transfer_of transfer_id w")
     (auto simp: begin_lna_segment_def lna_authorised_def result_simps split: sum.splits)

lemma complete_unauthorised:
  "\<not> lna_authorised t transfer_id token BrowserToAgent w \<Longrightarrow>
     \<exists>e. complete_receive t sync_ok replace_ok transfer_id token w = (Inl e, w)"
  by (cases "active_transfer_of transfer_id w")
     (auto simp: complete_receive_def lna_authorised_def result_simps split: sum.splits)

lemma route_segment_unauthorised:
  assumes "\<not> lna_authorised (now_of env s) transfer_id token
      (if rq_method rq = ''GET'' then AgentToBrowser else BrowserToAgent) (world_of s)"
  shows "world_of (snd (snd (snd (route_segment env origin rq transfer_id token k s)))) = world_of s"
proof -
  obtain e where "begin_lna_segment (now_of env s) t2 transfer_id token
      (if rq_method rq = ''GET'' then AgentToBrowser else BrowserToAgent) offset len (world_of s) =
      (Inl (e t2 offset len), world_of s)" for t2 offset len
    using begin_lna_unauthorised [OF assms] by metis
  moreover have "now_of env (s\<lparr>fs_requests := q\<rparr>) = now_of env s" for q by (simp add: now_of_def)
  ultimately show ?thesis
    by (auto simp: route_segment_def reply_def Let_def split: option.split sum.split prod.split)
qed

lemma route_complete_unauthorised:
  assumes "\<not> lna_authorised (now_of env s) transfer_id token BrowserToAgent (world_of s)"
  shows "world_of (snd (snd (snd (route_complete env origin rq transfer_id token k s)))) = world_of s"
proof -
  have "now_of env (s\<lparr>fs_requests := q\<rparr>) = now_of env s" for q by (simp add: now_of_def)
  moreover obtain e where
    "complete_receive (now_of env s) (he_sync_ok env) (he_replace_ok env) transfer_id token (world_of s) =
       (Inl e, world_of s)"
    using complete_unauthorised [OF assms] by blast
  ultimately show ?thesis
    by (auto simp: route_complete_def reply_def Let_def split: option.split)
qed

section \<open>A small exchange\<close>

text \<open>For evaluation: system calls that succeed, a query decoder for the one query used, and the ten-byte
  receive transfer of Transfer_Safety.\<close>

definition small_env :: http_env where
  "small_env = \<lparr>he_clk = (\<lambda>_. 0), he_pread = (\<lambda>offset n. Inl ()), he_pwrite = (\<lambda>offset bs. Inr 1),
     he_sync_ok = True, he_replace_ok = True, he_remove_ok = True,
     he_form = (\<lambda>q. if q = ''offset=0'' then [(''offset'', ''0'')] else []),
     he_describe = (\<lambda>_. ''refused''), he_elapsed_nanos = 0\<rparr>"

definition small_state :: "nat \<Rightarrow> world \<Rightarrow> file_state" where
  "small_state taken w = \<lparr>fs_requests = \<lparr>sem_permits = FILE_HTTP_PARALLELISM, sem_taken = taken\<rparr>,
     fs_payload = \<lparr>pl_world = w, pl_content = [0, 0, 0, 0, 0, 0, 0, 0, 0, 0], pl_tick = 0\<rparr>\<rparr>"

definition small_post :: "string \<Rightarrow> string option \<Rightarrow> u64 option \<Rightarrow> http_request" where
  "small_post action query len =
     \<lparr>rq_method = ''POST'', rq_path = FILE_TRANSFER_PREFIX @ sample_id @ ''/'' @ action, rq_query = query,
      rq_origin = Some ''https://o'', rq_ticket = None, rq_file_token = Some (replicate 32 1),
      rq_content_length = len, rq_transfer_encoding = False, rq_keep_alive = True\<rparr>"

lemma parse_small_path:
  "parse_path (rq_path (small_post ''complete'' query len)) = Some (sample_id, ''complete'')"
  unfolding small_post_def http_request.simps by code_simp

lemma small_complete_route:
  "world_of (snd (snd (snd (file_route small_env ''https://o'' (small_post ''complete'' None None) k
       (small_state 0 committed_world))))) \<noteq> committed_world"
proof -
  obtain w where w: "complete_receive 0 True True sample_id (replicate 32 1) committed_world = (Inr (), w)"
    "w_dir w sample_final = Some 0" using small_complete by blast
  moreover have "w_dir committed_world sample_final \<noteq> Some 0"
    by (simp add: committed_world_def sample_world_def sample_part_def sample_final_def)
  ultimately have "w \<noteq> committed_world" by auto
  moreover have "rq_path (small_post ''complete'' None None) \<noteq> FILE_PROBE_PATH" by code_simp
  ultimately show ?thesis
    using w(1) parse_small_path
    by (simp add: file_route_def Let_def small_post_def [of "''complete''"] route_complete_def small_state_def
        small_env_def try_acquire_many_def now_of_def reply_def world_of_def tick_def set_world_def
        release_requests_def)
qed

section \<open>Properties\<close>



text \<open>No request keeps a permit: whatever a file request does, refusals, failures and panics of the
  pipeline included, the file semaphore afterwards is what it was before; and the completion
  runs only when no other request holds a permit.\<close>

theorem file_permits_balanced:
  "fs_requests (snd (snd (snd (file_route env origin rq k s)))) = fs_requests s \<and>
   (0 < sem_taken (fs_requests s) \<longrightarrow> sem_permits (fs_requests s) = FILE_HTTP_PARALLELISM \<longrightarrow>
     world_of (snd (snd (snd (route_complete env origin rq transfer_id token k s)))) = world_of s)"
proof (intro conjI impI)
  show "fs_requests (snd (snd (snd (file_route env origin rq k s)))) = fs_requests s"
    by (rule file_route_requests)
  assume "0 < sem_taken (fs_requests s)" "sem_permits (fs_requests s) = FILE_HTTP_PARALLELISM"
  then have "try_acquire_many FILE_HTTP_PARALLELISM (fs_requests s) = None"
    by (simp add: try_acquire_many_def)
  then show "world_of (snd (snd (snd (route_complete env origin rq transfer_id token k s)))) = world_of s"
    by (simp add: route_complete_def reply_def)
qed

theorem file_permits_balanced_witness:
  "world_of (snd (snd (snd (route_complete small_env ''https://o'' (small_post ''complete'' None None) sample_id
       (replicate 32 1) \<lparr>co_pending = [], co_socket = []\<rparr> (small_state 1 committed_world))))) = committed_world"
  using file_permits_balanced [of small_env "''https://o''" "small_post ''complete'' None None"
      "\<lparr>co_pending = [], co_socket = []\<rparr>" "small_state 1 committed_world" sample_id "replicate 32 1"]
  by (simp add: small_state_def world_of_def)

text \<open>An upload over HTTP stores exactly its body: when the segment is granted and its pipeline can
  run, the bytes that follow the request, however buffered and however cut by the network, are
  stored at the segment's range and taken from the connection, and what follows them is left
  for the next request.\<close>

theorem http_upload_stores:
  assumes "takes_some (he_pwrite env)" and "clock_runs (he_clk env)"
    and "payload_ready 2 l (world_of s)"
    and "unat (ls_offset l) + unat (ls_len l) < 2 ^ 64"
    and "unat (ls_offset l) + unat (ls_len l) \<le> length (pl_content (fs_payload s))"
    and "unat (ls_len l) \<le> length (conn_bytes k)"
  shows "\<exists>k' s'. receive_segment env l k s = (Inr (), k', s') \<and>
           conn_bytes k' = drop (unat (ls_len l)) (conn_bytes k) \<and>
           pl_content (fs_payload s') =
             splice (unat (ls_offset l)) (take (unat (ls_len l)) (conn_bytes k)) (pl_content (fs_payload s)) \<and>
           only_io (ls_transfer l) (world_of s) (world_of s')"
  using http_source.receive_payload_stores [OF assms(1,2) assms(3) [unfolded world_of_def] assms(4-6)]
  by (auto simp: receive_segment_def world_of_def)

theorem http_upload_stores_witness:
  "\<exists>k' s'. receive_segment small_env small_lease
       \<lparr>co_pending = [1, 2, 3], co_socket = [[4, 5], [6, 7, 8, 9, 10, 71, 69]]\<rparr>
       (small_state 1 (sample_world (small_transfer Active 0))) = (Inr (), k', s') \<and>
     conn_bytes k' = [71, 69] \<and> pl_content (fs_payload s') = [1, 2, 3, 4, 5, 6, 7, 8, 9, 10]"
proof -
  have io: "takes_some (he_pwrite small_env)" "clock_runs (he_clk small_env)"
    by (auto simp: takes_some_def clock_runs_def small_env_def Suc_le_eq)
  have ready: "payload_ready 2 small_lease (world_of (small_state 1 (sample_world (small_transfer Active 0))))"
    by (simp add: payload_ready_def pool_room_def small_lease_def world_of_def small_state_def sample_world_def
        small_transfer_def sample_transfer_def)
  show ?thesis
    using http_upload_stores [OF io ready, of "\<lparr>co_pending = [1, 2, 3], co_socket = [[4, 5], [6, 7, 8, 9, 10, 71, 69]]\<rparr>"]
    by (simp add: small_lease_def conn_bytes_def sock_bytes_def small_state_def splice_def) blast
qed

end
