(* ===== verification/Lna_Http.thy ===== *)
theory Lna_Http
  imports File_Http
begin

text \<open>
  The LAN HTTP endpoint, crates/winrisef-agent/src/lna_http.rs: the benchmark transfers, the route
  of a request and the loop of a connection.

  The state of the endpoint is the ticket authority, the semaphore of the benchmark lanes and the
  state of the file requests.  A connection is run to its end; its result is how it ended, the
  text of every response in order, what is left unread and the state.  The environment is the
  record of File_Http; the measured time of a benchmark is a field of it.
\<close>

section \<open>Benchmark transfers\<close>

record http_settings =
  hs_allowed_origin :: string
  hs_max_transfer_size :: u64

record lna_state =
  ln_authority :: ticket_authority
  ln_active :: semaphore
  ln_files :: file_state

definition has_body :: "http_request \<Rightarrow> bool" where
  "has_body rq = (case rq_content_length rq of None \<Rightarrow> False | Some n \<Rightarrow> n \<noteq> 0)"

lemma upload_step:
  assumes "remaining \<noteq> 0" and "length bs \<le> min (unat remaining) IO_BLOCK_BYTES" and "bs \<noteq> []"
  shows "unat (remaining - word_of_nat (length bs) :: u64) = unat remaining - length bs"
    and "unat (word_of_nat (length bs) :: u64) = length bs"
proof -
  have "length bs < 2 ^ 64" using assms(2) unat_lt64 [of remaining] by simp
  then show w: "unat (word_of_nat (length bs) :: u64) = length bs" by (simp add: unat_of_nat)
  show "unat (remaining - word_of_nat (length bs) :: u64) = unat remaining - length bs"
    using assms(2) w by (simp add: unat_sub_le)
qed

lemma upload_less:
  "remaining \<noteq> 0 \<Longrightarrow> sock_read (min (unat remaining) IO_BLOCK_BYTES) sock = (bs, sock1) \<Longrightarrow> bs \<noteq> [] \<Longrightarrow>
     unat (remaining - word_of_nat (length bs) :: u64) < unat remaining"
  using sock_read_bytes [of "min (unat remaining) IO_BLOCK_BYTES" sock bs sock1] upload_step(1) [of remaining bs]
  by (simp add: unat_gt_0)

text \<open>The read loop of an upload; \<open>progress\<close> is the monitor's counter.\<close>

function drain_upload :: "u64 \<Rightarrow> socket \<Rightarrow> u64 \<Rightarrow> (unit + u64) \<times> socket" where
  "drain_upload remaining sock progress =
     (if remaining = 0 then (Inr progress, sock)
      else (case sock_read (min (unat remaining) IO_BLOCK_BYTES) sock of
        (bs, sock1) \<Rightarrow>
          if bs = [] then (Inl (), sock1)
          else drain_upload (remaining - word_of_nat (length bs)) sock1
                 (progress + word_of_nat (length bs))))"
  by auto
termination
  by (relation "measure (\<lambda>(remaining, sock, progress). unat remaining)") (auto intro: upload_less [OF _ sym])

declare drain_upload.simps [simp del]

definition benchmark_body :: "u64 \<Rightarrow> u64 \<Rightarrow> string" where
  "benchmark_body n elapsed =
     ''{'' @ [CHR 0x22] @ ''bytes'' @ [CHR 0x22] @ '':'' @ show_nat (unat n) @ '','' @
     [CHR 0x22] @ ''elapsedNanos'' @ [CHR 0x22] @ '':'' @ show_nat (unat elapsed) @ ''}''"

definition receive_benchmark ::
  "http_env \<Rightarrow> u64 \<Rightarrow> string \<Rightarrow> bool \<Rightarrow> connection \<Rightarrow> (http_failure + unit) \<times> string \<times> connection" where
  "receive_benchmark env total_bytes origin keep_alive k =
     (let buffered = min (unat total_bytes) (length (co_pending k));
          k1 = k\<lparr>co_pending := drop buffered (co_pending k)\<rparr>
      in case drain_upload (total_bytes - word_of_nat buffered) (co_socket k1) (word_of_nat buffered) of
           (Inl _, sock) \<Rightarrow> (Inl FailedUpload, [], k1\<lparr>co_socket := sock\<rparr>)
         | (Inr progress, sock) \<Rightarrow>
             if progress \<noteq> total_bytes then (Inl FailedUpload, [], k1\<lparr>co_socket := sock\<rparr>)
             else (let body = benchmark_body progress (he_elapsed_nanos env)
                   in (Inr (), write_response 200 ''application/json'' (word_of_nat (length body)) origin
                         keep_alive [] @ body, k1\<lparr>co_socket := sock\<rparr>)))"

text \<open>The zero blocks of a download.\<close>

function zero_blocks :: "u64 \<Rightarrow> string" where
  "zero_blocks remaining =
     (if remaining = 0 then []
      else (let n = min (unat remaining) IO_BLOCK_BYTES
            in replicate n (CHR 0x00) @ zero_blocks (remaining - word_of_nat n)))"
  by auto
termination
proof (relation "measure unat")
  fix remaining :: u64 and n
  assume "remaining \<noteq> 0" "n = min (unat remaining) IO_BLOCK_BYTES"
  then show "(remaining - word_of_nat n, remaining) \<in> measure unat"
    using upload_step(1) [of remaining "replicate n (0 :: u8)"]
    by (auto simp: unat_gt_0 IO_BLOCK_BYTES_def)
qed simp

declare zero_blocks.simps [simp del]

definition send_benchmark :: "u64 \<Rightarrow> string \<Rightarrow> bool \<Rightarrow> string" where
  "send_benchmark total_bytes origin keep_alive =
     write_response 200 ''application/octet-stream'' total_bytes origin keep_alive
       [(''X-WinriseF-Bytes'', show_nat (unat total_bytes))] @ zero_blocks total_bytes"

section \<open>The route of a request\<close>

fun download_fields :: "u64 option \<Rightarrow> (string \<times> string) list \<Rightarrow> string + u64 option" where
  "download_fields slot [] = Inr slot"
| "download_fields slot ((key, v) # pairs) =
     (if key \<noteq> ''bytes'' then Inl ''benchmark download query contains an unknown parameter''
      else and_then (ok_or (parse_u64 v) ''benchmark download byte count is invalid'') (\<lambda>n.
             if slot \<noteq> None then Inl ''duplicate bytes query header''
             else download_fields (Some n) pairs))"

definition parse_download_bytes :: "(string \<Rightarrow> (string \<times> string) list) \<Rightarrow> string option \<Rightarrow> string + u64" where
  "parse_download_bytes form query =
     and_then (ok_or query ''benchmark download requires a bytes query parameter'') (\<lambda>q.
     and_then (download_fields None (form q)) (\<lambda>n.
       ok_or n ''benchmark download requires a bytes query parameter''))"

text \<open>The size of a benchmark, or the refusal to answer with.\<close>

definition benchmark_size :: "http_env \<Rightarrow> string \<Rightarrow> http_request \<Rightarrow> string + u64" where
  "benchmark_size env origin rq =
     (if rq_method rq = ''POST'' then
        ok_or (rq_content_length rq)
          (write_error 400 ''content_length_required'' ''benchmark upload requires Content-Length'' (Some origin))
      else if rq_method rq = ''GET'' then
        (case parse_download_bytes (he_form env) (rq_query rq) of
           Inr n \<Rightarrow> Inr n
         | Inl e \<Rightarrow> Inl (write_error 400 ''invalid_download_size'' e (Some origin)))
      else Inl (write_error 405 ''method_not_allowed'' ''benchmark accepts GET or POST'' (Some origin)))"

definition lna_now :: "http_env \<Rightarrow> lna_state \<Rightarrow> int" where
  "lna_now env s = now_of env (ln_files s)"

definition run_benchmark ::
  "http_env \<Rightarrow> string \<Rightarrow> http_request \<Rightarrow> u64 \<Rightarrow> connection \<Rightarrow> lna_state \<Rightarrow> lna_state response" where
  "run_benchmark env origin rq request_bytes k s =
     (if rq_method rq = ''POST''
      then (case receive_benchmark env request_bytes origin (rq_keep_alive rq) k of
              (r, out, k1) \<Rightarrow> (r, out, k1, s))
      else reply (send_benchmark request_bytes origin (rq_keep_alive rq)) k s)"

definition benchmark_request ::
  "http_env \<Rightarrow> http_settings \<Rightarrow> http_request \<Rightarrow> u64 \<Rightarrow> connection \<Rightarrow> lna_state \<Rightarrow> lna_state response" where
  "benchmark_request env settings rq request_bytes k s =
     (let origin = hs_allowed_origin settings;
          max_request_bytes = min (hs_max_transfer_size settings) MAX_BENCHMARK_REQUEST_BYTES
      in if request_bytes = 0 \<or> max_request_bytes < request_bytes
         then reply (write_error 413 ''request_too_large''
                ''benchmark request size is outside the allowed range'' (Some origin)) k s
         else if rq_method rq = ''GET'' \<and> has_body rq
         then reply (write_error 400 ''invalid_download''
                ''benchmark download must not have a request body'' (Some origin)) k s
         else (case rq_ticket rq of
           None \<Rightarrow> reply (write_error 401 ''ticket_required'' ''benchmark ticket is required'' (Some origin)) k s
         | Some ticket \<Rightarrow> (
             case try_acquire (ln_active s) of
               None \<Rightarrow> reply (write_error 503 ''benchmark_busy'' ''all benchmark lanes are busy'' (Some origin)) k s
             | Some permit \<Rightarrow> (
                 let s1 = s\<lparr>ln_active := permit\<rparr> in
                 case consume_ticket (lna_now env s1) ticket (ln_authority s1) of
                   (consumed, authority) \<Rightarrow> (
                     let s2 = s1\<lparr>ln_authority := authority, ln_files := tick (ln_files s1)\<rparr>;
                         release = (\<lambda>t. t\<lparr>ln_active := release_many 1 (ln_active t)\<rparr>)
                     in case consumed of
                          Inl e \<Rightarrow> (Inl (FailedTicket e), [], k, release s2)
                        | Inr False \<Rightarrow>
                            reply (write_error 401 ''ticket_invalid''
                              ''benchmark ticket is expired or already used'' (Some origin)) k (release s2)
                        | Inr True \<Rightarrow> (
                            case run_benchmark env origin rq request_bytes k s2 of
                              (r, out, k1, s3) \<Rightarrow> (r, out, k1, release s3)))))))"

definition route_request ::
  "http_env \<Rightarrow> http_settings \<Rightarrow> http_request \<Rightarrow> connection \<Rightarrow> lna_state \<Rightarrow> lna_state response" where
  "route_request env settings rq k s =
     (let origin = hs_allowed_origin settings in
      if starts_with FILE_HTTP_BASE_PATH (rq_path rq) then
        (case file_route env origin rq k (ln_files s) of
           (r, out, k1, files) \<Rightarrow> (r, out, k1, s\<lparr>ln_files := files\<rparr>))
      else if rq_method rq = ''OPTIONS'' then
        (if rq_path rq \<noteq> PROBE_PATH \<and> rq_path rq \<noteq> BENCHMARK_PATH
         then reply (write_error 404 ''not_found'' ''HTTP endpoint does not exist'' (Some origin)) k s
         else if has_body rq \<or> rq_transfer_encoding rq
         then reply (write_error 400 ''invalid_preflight'' ''preflight request must not have a body''
                (Some origin)) k s
         else reply (write_preflight origin (rq_keep_alive rq)) k s)
      else if rq_path rq = PROBE_PATH then
        (if rq_method rq \<noteq> ''GET''
         then reply (write_error 405 ''method_not_allowed'' ''probe only accepts GET'' (Some origin)) k s
         else if has_body rq \<or> rq_transfer_encoding rq
         then reply (write_error 400 ''invalid_probe'' ''probe request must not have a body'' (Some origin)) k s
         else reply (write_response 204 ''text/plain'' 0 origin (rq_keep_alive rq) []) k s)
      else if rq_path rq \<noteq> BENCHMARK_PATH then
        reply (write_error 404 ''not_found'' ''HTTP endpoint does not exist'' (Some origin)) k s
      else if rq_transfer_encoding rq then
        reply (write_error 400 ''chunked_not_supported'' ''Transfer-Encoding is not accepted'' (Some origin)) k s
      else (case benchmark_size env origin rq of
        Inl refusal \<Rightarrow> reply refusal k s
      | Inr request_bytes \<Rightarrow> benchmark_request env settings rq request_bytes k s))"

section \<open>What a request leaves unread\<close>

lemma receive_blocks_avail:
  assumes "\<And>n c. avail (snd (fetch n c)) \<le> (avail c :: nat)"
  shows "avail (fst (snd (receive_blocks fetch pwrite clk l position remaining c s))) \<le> avail c"
  using assms
proof (induction fetch pwrite clk l position remaining c s rule: receive_blocks.induct)
  case (1 fetch pwrite clk l position remaining c s)
  let ?n = "min (unat remaining) FILE_IO_BLOCK_BYTES"
  obtain r c1 where f: "fetch ?n c = (r, c1)" by fastforce
  then have le: "avail c1 \<le> avail c" using "1.prems" [of ?n c] by simp
  show ?case
  proof (cases "remaining = 0 \<or> (\<exists>e. r = Inl e)")
    case False
    then obtain block where r: "remaining \<noteq> 0" "r = Inr block" by (cases r) auto
    obtain q s1 where b: "store_block pwrite clk l position block s = (q, s1)" by fastforce
    show ?thesis
    proof (cases q)
      case (Inr u)
      with "1.IH" [OF r(1) refl] f r b "1.prems" le show ?thesis
        by (subst receive_blocks.simps) (fastforce intro: le_trans)
    qed (use f r b le in \<open>subst receive_blocks.simps, simp\<close>)
  qed (use f le in \<open>subst receive_blocks.simps, auto simp: Let_def\<close>)
qed

lemma drain_upload_le: "length (sock_bytes (snd (drain_upload remaining sock progress))) \<le> length (sock_bytes sock)"
proof (induction remaining sock progress rule: drain_upload.induct)
  case (1 remaining sock progress)
  obtain bs sock1 where read: "sock_read (min (unat remaining) IO_BLOCK_BYTES) sock = (bs, sock1)" by fastforce
  note spec = sock_read_bytes [OF read]
  show ?case
  proof (cases "remaining = 0 \<or> bs = []")
    case False
    with "1.IH" [OF _ read [symmetric]] spec read show ?thesis by (subst drain_upload.simps) simp
  qed (use read spec in \<open>subst drain_upload.simps, auto\<close>)
qed

lemma drain_upload_enough:
  "unat remaining \<le> length (sock_bytes sock) \<Longrightarrow>
     \<exists>sock'. drain_upload remaining sock progress = (Inr (progress + remaining), sock') \<and>
             sock_bytes sock' = drop (unat remaining) (sock_bytes sock)"
proof (induction remaining sock progress rule: drain_upload.induct)
  case (1 remaining sock progress)
  show ?case
  proof (cases "remaining = 0")
    case False
    let ?n = "min (unat remaining) IO_BLOCK_BYTES"
    have "0 < unat remaining" using False by (simp add: unat_gt_0)
    then have "0 < ?n" "sock_bytes sock \<noteq> []" using "1.prems" by (auto simp: IO_BLOCK_BYTES_def)
    from sock_read_nonempty [OF this] obtain bs sock1 where
      read: "sock_read ?n sock = (bs, sock1)" "bs \<noteq> []" by blast
    note spec = sock_read_bytes [OF read(1)]
    note left = upload_step [OF False conjunct2 [OF spec] read(2)]
    have "unat (remaining - word_of_nat (length bs)) \<le> length (sock_bytes sock1)"
      using spec left "1.prems" by simp
    from "1.IH" [OF False read(1) [symmetric] read(2) this] spec left read False show ?thesis
      by (subst drain_upload.simps) (auto simp: algebra_simps)
  qed (simp add: drain_upload.simps)
qed

lemma drain_upload_short:
  "length (sock_bytes sock) < unat remaining \<Longrightarrow> \<exists>sock'. drain_upload remaining sock progress = (Inl (), sock')"
proof (induction remaining sock progress rule: drain_upload.induct)
  case (1 remaining sock progress)
  then have n: "remaining \<noteq> 0" by auto
  obtain bs sock1 where read: "sock_read (min (unat remaining) IO_BLOCK_BYTES) sock = (bs, sock1)" by fastforce
  show ?case
  proof (cases "bs = []")
    case False
    note spec = sock_read_bytes [OF read]
    note left = upload_step(1) [OF n conjunct2 [OF spec] False]
    have "length (sock_bytes sock1) < unat (remaining - word_of_nat (length bs))"
      using spec left "1.prems" by simp
    from "1.IH" [OF n read [symmetric] False this] read n False show ?thesis
      by (subst drain_upload.simps) auto
  qed (use n read in \<open>subst drain_upload.simps, simp\<close>)
qed

text \<open>No request puts anything back: the number of unread bytes never grows.\<close>

definition unread :: "connection \<Rightarrow> nat" where
  "unread k = length (conn_bytes k)"

definition unread_after :: "'s response \<Rightarrow> nat" where
  "unread_after res = unread (fst (snd (snd res)))"

lemma unread_after_simps [simp]: "unread_after (r, out, k, s) = unread k" "unread_after (reply out k s) = unread k"
  by (simp_all add: unread_after_def reply_def)

lemma receive_segment_le: "unread (fst (snd (receive_segment env l k s))) \<le> unread k"
proof -
  have "unread (snd (http_fetch n c)) \<le> unread c" for n c by (simp add: unread_def http_fetch_le)
  note le = receive_blocks_avail [where avail = unread and fetch = http_fetch, OF this]
  obtain e w where acq: "acquire_buffers 2 l (world_of s) = (e, w)" by fastforce
  obtain r k1 s1 where blocks: "receive_blocks http_fetch (he_pwrite env) (he_clk env) l (ls_offset l) (ls_len l) k
      ((fs_payload s)\<lparr>pl_world := w\<rparr>) = (r, k1, s1)" by (metis surj_pair)
  then have "unread k1 \<le> unread k" by (metis le fst_conv snd_conv)
  with acq blocks show ?thesis
    by (cases e) (simp_all add: receive_segment_def receive_payload_def world_of_def Let_def)
qed

lemma segment_done_unread:
  "unread_after (segment_done env origin rq transfer_id offset len l r out k s) = unread k"
  by (simp add: segment_done_def Let_def split: sum.split prod.split)

lemma route_segment_le: "unread_after (route_segment env origin rq transfer_id token k s) \<le> unread k"
proof -
  have "unread k1 \<le> unread k" if "receive_segment env l k s' = (r, k1, s3)" for l s' r k1 s3
    using receive_segment_le [of env l k s'] that by simp
  then show ?thesis
    by (auto simp: route_segment_def Let_def segment_done_unread split: option.split sum.split prod.split)
qed

lemma file_route_le: "unread_after (file_route env origin rq k s) \<le> unread k"
proof -
  have "unread_after (route_complete env origin rq transfer_id token k s) = unread k" for transfer_id token
    by (simp add: route_complete_def Let_def split: option.split prod.split sum.split)
  then show ?thesis
    by (auto simp: file_route_def Let_def intro: route_segment_le split: option.split)
qed

lemma receive_benchmark_le: "unread (snd (snd (receive_benchmark env n origin keep_alive k))) \<le> unread k"
proof -
  let ?b = "min (unat n) (length (co_pending k))"
  have "length (sock_bytes sock) \<le> length (sock_bytes (co_socket k))"
    if "drain_upload (n - word_of_nat ?b) (co_socket k) (word_of_nat ?b) = (r, sock)" for r sock
    using drain_upload_le [of "n - word_of_nat ?b" "co_socket k" "word_of_nat ?b"] that by simp
  then show ?thesis
    by (auto simp: receive_benchmark_def Let_def unread_def conn_bytes_def intro: add_mono split: sum.split prod.split)
qed

lemma benchmark_request_le: "unread_after (benchmark_request env settings rq n k s) \<le> unread k"
proof -
  have "unread k1 \<le> unread k" if "receive_benchmark env n origin keep_alive k = (r, out, k1)" for origin keep_alive r out k1
    using receive_benchmark_le [of env n origin keep_alive k] that by simp
  then show ?thesis
    by (auto simp: benchmark_request_def run_benchmark_def Let_def reply_def
        split: option.split sum.split prod.split bool.split)
qed

lemma route_request_le: "unread_after (route_request env settings rq k s) \<le> unread k"
proof -
  have "unread k1 \<le> unread k" if "file_route env origin rq k (ln_files s) = (r, out, k1, files)" for origin r out k1 files
    using file_route_le [of env origin rq k "ln_files s"] that by simp
  then show ?thesis
    using benchmark_request_le
    by (auto simp: route_request_def Let_def split: prod.split sum.split)
qed

section \<open>A connection\<close>

datatype connection_end =
    ConnectionClosed
  | ConnectionFailed http_failure
  | ConnectionPanicked

lemma read_request_unread:
  assumes "read_request (co_socket k) (co_pending k) = (Inr (Some rq), pending, sock)"
  shows "unread \<lparr>co_pending = pending, co_socket = sock\<rparr> + 4 \<le> unread k"
proof -
  obtain e where e: "find_header_end (conn_bytes k) = Some e" "pending @ sock_bytes sock = drop (e + 4) (conn_bytes k)"
    using read_request_spec [OF assms] unfolding conn_bytes_def by blast
  with find_header_end_bound [OF e(1)] show ?thesis by (simp add: unread_def conn_bytes_def)
qed

lemma connection_step:
  assumes "read_request (co_socket k) (co_pending k) = (Inr (Some rq), pending, sock)"
    and "route_request env settings rq \<lparr>co_pending = pending, co_socket = sock\<rparr> s = (r, out, k2, s1)"
  shows "unread k2 < unread k"
  using read_request_unread [OF assms(1)] assms(2)
    route_request_le [of env settings rq "\<lparr>co_pending = pending, co_socket = sock\<rparr>" s]
  by simp

function handle_connection ::
  "http_env \<Rightarrow> http_settings \<Rightarrow> connection \<Rightarrow> lna_state \<Rightarrow>
     connection_end \<times> string list \<times> connection \<times> lna_state" where
  "handle_connection env settings k s =
     (case read_request (co_socket k) (co_pending k) of
        (Inl HttpPanic, pending, sock) \<Rightarrow>
          (ConnectionPanicked, [], \<lparr>co_pending = pending, co_socket = sock\<rparr>, s)
      | (Inl (HttpBad e), pending, sock) \<Rightarrow>
          (ConnectionClosed, [write_error 400 ''invalid_request'' e None],
           \<lparr>co_pending = pending, co_socket = sock\<rparr>, s)
      | (Inr None, pending, sock) \<Rightarrow> (ConnectionClosed, [], \<lparr>co_pending = pending, co_socket = sock\<rparr>, s)
      | (Inr (Some rq), pending, sock) \<Rightarrow> (
          let k1 = \<lparr>co_pending = pending, co_socket = sock\<rparr> in
          if rq_origin rq \<noteq> Some (hs_allowed_origin settings)
          then (ConnectionClosed, [write_error 403 ''origin_not_allowed'' ''request Origin is not allowed'' None],
                k1, s)
          else (case route_request env settings rq k1 s of
            (Inl e, out, k2, s1) \<Rightarrow> (ConnectionFailed e, [out], k2, s1)
          | (Inr _, out, k2, s1) \<Rightarrow>
              if \<not> rq_keep_alive rq then (ConnectionClosed, [out], k2, s1)
              else (case handle_connection env settings k2 s1 of
                (ending, outs, k3, s2) \<Rightarrow> (ending, out # outs, k3, s2)))))"
  by auto
termination
  by (relation "measure (\<lambda>(env, settings, k, s). unread k)") (auto intro: connection_step [OF sym sym])

declare handle_connection.simps [simp del]

section \<open>Invariants of a connection\<close>

lemma read_request_parsed:
  assumes "read_request sock pending = (Inr (Some rq), pending', sock')"
  shows "\<exists>e header. find_header_end (pending @ sock_bytes sock) = Some e \<and>
           header = chars_of (take e (pending @ sock_bytes sock)) \<and> parse_request header = Inr rq"
  using read_request_spec [OF assms] by (auto simp: from_utf8_def result_simps split: if_splits)

lemma parse_request_lines:
  assumes "parse_request header = Inr rq"
  shows "\<exists>lines h. set lines \<subseteq> set (split_str CRLF header) \<and> header_lines header_state_new lines = Inr h \<and>
           hd_origin h = rq_origin rq \<and> hd_ticket h = rq_ticket rq"
proof -
  obtain first lines where split: "split_str CRLF header = first # lines"
    using assms by (auto simp: parse_request_def split: list.splits)
  obtain x where "request_line first = Inr x"
    using assms split by (cases "request_line first") (auto simp: parse_request_def)
  then obtain h where "header_lines header_state_new lines = Inr h" "hd_ticket h = rq_ticket rq"
    "hd_origin h = rq_origin rq"
    using assms split
    by (cases "header_lines header_state_new lines") (auto simp: parse_request_def Let_def case_prod_beta)
  with split show ?thesis by auto
qed

lemma parse_request_ticket:
  assumes "parse_request header = Inr rq" and "rq_ticket rq = Some t"
  shows "length t = 16"
proof -
  obtain lines h where h: "header_lines header_state_new lines = Inr h" "hd_ticket h = rq_ticket rq"
    using parse_request_lines [OF assms(1)] by blast
  with header_lines_fields [OF h(1)] assms(2) obtain v where "parse_hex 16 v = Inr t"
    by (auto simp: field_from_def hex_option_def header_state_new_def split: if_splits sum.splits list.splits)
  then show ?thesis using parse_hex_length by blast
qed

lemma parse_request_origin:
  assumes "parse_request header = Inr rq" and "rq_origin rq = Some v"
  shows "\<exists>line \<in> set (split_str CRLF header). header_named ''origin'' line \<and> header_value line = v"
proof -
  obtain lines h where h: "set lines \<subseteq> set (split_str CRLF header)" "header_lines header_state_new lines = Inr h"
    "hd_origin h = rq_origin rq" "hd_ticket h = rq_ticket rq"
    using parse_request_lines [OF assms(1)] by blast
  with header_lines_fields [OF h(2)] assms(2) show ?thesis
    by (auto simp: field_from_def header_state_new_def filter_eq_Cons_iff split: list.splits)
qed

text \<open>What every request with the allowed origin keeps, a connection keeps.\<close>

definition state_after :: "'s response \<Rightarrow> 's" where
  "state_after res = snd (snd (snd res))"

lemma connection_invariant:
  assumes "\<And>rq k s. rq_origin rq = Some (hs_allowed_origin settings) \<Longrightarrow> (\<forall>t. rq_ticket rq = Some t \<longrightarrow> length t = 16) \<Longrightarrow>
      P s \<Longrightarrow> P (state_after (route_request env settings rq k s))"
    and "P s" and "handle_connection env settings k s = (ending, outs, k', s')"
  shows "P s'"
  using assms
proof (induction env settings k s arbitrary: ending outs k' s' rule: handle_connection.induct)
  case (1 env settings k s)
  obtain r pending sock where read: "read_request (co_socket k) (co_pending k) = (r, pending, sock)"
    by (metis surj_pair)
  show ?case
  proof (cases "\<exists>rq. r = Inr (Some rq) \<and> rq_origin rq = Some (hs_allowed_origin settings)")
    case False
    then have "s' = s"
      using read "1.prems"(3) by (subst (asm) handle_connection.simps)
        (auto split: sum.splits option.splits http_error.splits if_splits)
    with "1.prems" show ?thesis by simp
  next
    case True
    then obtain rq where rq: "r = Inr (Some rq)" "rq_origin rq = Some (hs_allowed_origin settings)" by blast
    let ?k1 = "\<lparr>co_pending = pending, co_socket = sock\<rparr>"
    obtain v out k2 s1 where route: "route_request env settings rq ?k1 s = (v, out, k2, s1)"
      by (metis surj_pair)
    have "\<forall>t. rq_ticket rq = Some t \<longrightarrow> length t = 16"
      using read_request_parsed [OF read [unfolded rq(1)]] parse_request_ticket by blast
    then have "P (state_after (route_request env settings rq ?k1 s))"
      using "1.prems"(1) [OF rq(2)] "1.prems"(2) by blast
    then have P1: "P s1" unfolding route by (simp add: state_after_def)
    show ?thesis
    proof (cases "(\<exists>e. v = Inl e) \<or> \<not> rq_keep_alive rq")
      case True
      then have "s' = s1"
        using read rq route "1.prems"(3) by (subst (asm) handle_connection.simps) (auto split: sum.splits)
      with P1 show ?thesis by simp
    next
      case False
      then have v: "v = Inr ()" "rq_keep_alive rq" by (cases v; simp)+
      obtain outs' where rec: "handle_connection env settings k2 s1 = (ending, outs', k', s')"
        using read rq route v "1.prems"(3)
        by (subst (asm) handle_connection.simps) (auto split: prod.splits)
      show ?thesis
        by (rule "1.IH" [OF read [symmetric] rq(1) refl refl refl _ route [symmetric] v(1) refl refl _ "1.prems"(1) P1 rec])
           (use rq v in auto)
    qed
  qed
qed

lemma route_request_permits:
  "ln_active (state_after (route_request env settings rq k s)) = ln_active s \<and>
   fs_requests (ln_files (state_after (route_request env settings rq k s))) = fs_requests (ln_files s)"
proof -
  have from_file: "fs_requests files = fs_requests (ln_files s)"
    if "file_route env origin rq k (ln_files s) = (r, out, k1, files)" for origin r out k1 files
    using file_route_requests [of env origin rq k "ln_files s"] that by simp
  have "ln_active (state_after (benchmark_request env settings rq n k s)) = ln_active s \<and>
      fs_requests (ln_files (state_after (benchmark_request env settings rq n k s))) = fs_requests (ln_files s)" for n
    by (auto simp: benchmark_request_def run_benchmark_def state_after_def reply_def Let_def
        dest: release_acquired_one split: option.split sum.split prod.split bool.split)
  with from_file show ?thesis
    by (auto simp: route_request_def Let_def state_after_def reply_def split: prod.split sum.split)
qed

lemma route_request_authority:
  "ln_authority (state_after (route_request env settings rq k s)) = ln_authority s \<or>
   (\<exists>t. rq_ticket rq = Some t \<and>
     ln_authority (state_after (route_request env settings rq k s)) =
       snd (consume_ticket (lna_now env s) t (ln_authority s)))"
proof -
  have "ln_authority (state_after (benchmark_request env settings rq n k s)) = ln_authority s \<or>
      (\<exists>t. rq_ticket rq = Some t \<and> ln_authority (state_after (benchmark_request env settings rq n k s)) =
         snd (consume_ticket (lna_now env s) t (ln_authority s)))" for n
    by (auto simp: benchmark_request_def run_benchmark_def state_after_def reply_def Let_def lna_now_def
        split: option.split sum.split prod.split bool.split)
  then show ?thesis
    by (simp add: route_request_def Let_def state_after_def reply_def split: prod.split sum.split)
qed

definition answers_ok :: "string \<Rightarrow> bool" where
  "answers_ok out \<longleftrightarrow> take 12 out = ''HTTP/1.1 200''"

lemma show_status:
  "show_nat 200 = ''200''" "show_nat 204 = ''204''" "show_nat 400 = ''400''" "show_nat 401 = ''401''"
  "show_nat 403 = ''403''" "show_nat 404 = ''404''" "show_nat 405 = ''405''" "show_nat 413 = ''413''"
  "show_nat 503 = ''503''"
  by code_simp+

lemma answers_ok_response: "length (show_nat n) = 3 \<Longrightarrow>
    answers_ok (write_response n content_type len origin keep_alive extra @ body) \<longleftrightarrow> show_nat n = ''200''"
  by (simp add: answers_ok_def write_response_def)

lemma answers_ok_204 [simp]: "\<not> answers_ok (write_response 204 content_type len origin keep_alive extra)"
  using answers_ok_response [of 204 content_type len origin keep_alive extra "[]"] by (simp add: show_status)

lemma answers_ok_error [simp]:
  "n \<in> {400, 401, 403, 404, 405, 413, 503} \<Longrightarrow> \<not> answers_ok (write_error n code message origin)"
  by (auto simp: write_error_def Let_def answers_ok_response show_status)

lemma answers_ok_others [simp]: "\<not> answers_ok (write_preflight origin keep_alive)" "\<not> answers_ok []"
  by (simp_all add: write_preflight_def) (simp add: answers_ok_def)

lemma benchmark_size_refusal: "benchmark_size env origin rq = Inl refusal \<Longrightarrow> \<not> answers_ok refusal"
  by (auto simp: benchmark_size_def ok_or_def split: if_splits sum.splits option.splits)

lemma benchmark_request_served:
  assumes "benchmark_request env settings rq n k s = (r, out, k', s')" and "answers_ok out"
  shows "\<exists>t. rq_ticket rq = Some t \<and> 0 < n \<and> n \<le> min (hs_max_transfer_size settings) MAX_BENCHMARK_REQUEST_BYTES \<and>
           consume_ticket (lna_now env s) t (ln_authority s) = (Inr True, ln_authority s')"
proof -
  obtain t where t: "rq_ticket rq = Some t"
    using assms by (cases "rq_ticket rq") (auto simp: benchmark_request_def Let_def reply_def split: if_split_asm)
  obtain q where q: "try_acquire (ln_active s) = Some q"
    using assms t
    by (cases "try_acquire (ln_active s)") (auto simp: benchmark_request_def Let_def reply_def split: if_split_asm)
  have n: "0 < n" "n \<le> min (hs_max_transfer_size settings) MAX_BENCHMARK_REQUEST_BYTES"
    using assms by (auto simp: benchmark_request_def Let_def reply_def word_gt_0 not_less split: if_split_asm)
  obtain c authority where c: "consume_ticket (lna_now env s) t (ln_authority s) = (c, authority)" by fastforce
  have now: "lna_now env (s\<lparr>ln_active := q\<rparr>) = lna_now env s" by (simp add: lna_now_def)
  have "c = Inr True \<and> ln_authority s' = authority"
    using assms t q n c now
    by (cases c) (auto simp: benchmark_request_def run_benchmark_def Let_def reply_def
        split: if_split_asm bool.split_asm prod.split_asm)
  with t n c show ?thesis by auto
qed

section \<open>A small exchange\<close>

text \<open>An upload without a ticket, whose body is a probe request.\<close>

definition upload_header :: string where
  "upload_header = ''POST /winrisef/lna/v1/benchmark HTTP/1.1'' @ CRLF @ ''Origin: a'' @ CRLF @ ''Content-Length: 69''"

definition probe_header :: string where
  "probe_header = ''GET /winrisef/lna/v1/probe HTTP/1.1'' @ CRLF @ ''Origin: a'' @ CRLF @ ''Connection: close''"

definition origin_a :: http_settings where
  "origin_a = \<lparr>hs_allowed_origin = ''a'', hs_max_transfer_size = 1000\<rparr>"

definition plain_request :: "string \<Rightarrow> string \<Rightarrow> u64 option \<Rightarrow> bool \<Rightarrow> http_request" where
  "plain_request m path len keep_alive =
     \<lparr>rq_method = m, rq_path = path, rq_query = None, rq_origin = Some ''a'', rq_ticket = None,
      rq_file_token = None, rq_content_length = len, rq_transfer_encoding = False, rq_keep_alive = keep_alive\<rparr>"

definition small_lna :: lna_state where
  "small_lna = \<lparr>ln_authority = authority_new (replicate 16 1) 0, ln_active = semaphore_new 1,
     ln_files = small_state 0 committed_world\<rparr>"

lemma plain_request_simps [simp]:
  "rq_method (plain_request m path len keep_alive) = m" "rq_path (plain_request m path len keep_alive) = path"
  "rq_origin (plain_request m path len keep_alive) = Some ''a''" "rq_ticket (plain_request m path len keep_alive) = None"
  "rq_content_length (plain_request m path len keep_alive) = len"
  "\<not> rq_transfer_encoding (plain_request m path len keep_alive)"
  "rq_keep_alive (plain_request m path len keep_alive) = keep_alive"
  "hs_allowed_origin origin_a = ''a''" "hs_max_transfer_size origin_a = 1000"
  by (simp_all add: plain_request_def origin_a_def)

lemma upload_parses: "parse_request upload_header = Inr (plain_request ''POST'' BENCHMARK_PATH (Some 69) True)"
proof -
  let ?h = "header_state_new\<lparr>hd_origin := Some ''a''\<rparr>"
  have lines: "split_str CRLF upload_header = [''POST /winrisef/lna/v1/benchmark HTTP/1.1'', ''Origin: a'', ''Content-Length: 69'']"
    by code_simp
  have parts: "request_line ''POST /winrisef/lna/v1/benchmark HTTP/1.1'' = Inr (''POST'', BENCHMARK_PATH)"
    "header_line header_state_new ''Origin: a'' = Inr ?h" "split_once ''?'' BENCHMARK_PATH = None"
    by code_simp+
  have "split_once '':'' ''Content-Length: 69'' = Some (''Content-Length'', '' 69'')" "trim '' 69'' = ''69''"
    "list_all (\<lambda>c. ascii_alphanumeric c \<or> c = CHR ''-'') ''Content-Length''"
    "\<not> eq_ignore_ascii_case ''Content-Length'' ''origin''" "\<not> eq_ignore_ascii_case ''Content-Length'' TICKET_HEADER"
    "\<not> eq_ignore_ascii_case ''Content-Length'' FILE_TOKEN_HEADER"
    "eq_ignore_ascii_case ''Content-Length'' ''content-length''"
    by code_simp+
  moreover have "parse_u64 ''69'' = Some 69"
    by (simp add: parse_u64_def from_str_radix_def digit_value_def)
  ultimately have "header_line ?h ''Content-Length: 69'' = Inr (?h\<lparr>hd_content_length := Some 69\<rparr>)"
    by (simp add: header_line_def Let_def set_once_def header_state_new_def)
  moreover have "hd_ticket header_state_new = None" "hd_file_token header_state_new = None"
    "\<not> hd_transfer_encoding header_state_new" "\<not> hd_connection_close header_state_new"
    by (simp_all add: header_state_new_def)
  ultimately show ?thesis
    by (simp add: parse_request_def lines parts plain_request_def)
qed

lemma upload_read:
  "read_request [] (bytes_of (upload_header @ CRLF @ CRLF @ probe_header @ CRLF @ CRLF)) =
     (Inr (Some (plain_request ''POST'' BENCHMARK_PATH (Some 69) True)), bytes_of (probe_header @ CRLF @ CRLF), [])"
proof -
  let ?text = "bytes_of (upload_header @ CRLF @ CRLF @ probe_header @ CRLF @ CRLF)"
  have parts: "find_header_end ?text = Some 71" "from_utf8 (take 71 ?text) = Some upload_header"
    "drop (71 + 4) ?text = bytes_of (probe_header @ CRLF @ CRLF)"
    by code_simp+
  show ?thesis
    by (subst read_request.simps) (simp only: parts upload_parses option.case sum.case)
qed

lemma probe_read:
  "read_request [] (bytes_of (probe_header @ CRLF @ CRLF)) =
     (Inr (Some (plain_request ''GET'' PROBE_PATH None False)), [], [])"
proof -
  let ?text = "bytes_of (probe_header @ CRLF @ CRLF)"
  have parts: "find_header_end ?text = Some 65" "from_utf8 (take 65 ?text) = Some probe_header"
    "parse_request probe_header = Inr (plain_request ''GET'' PROBE_PATH None False)" "drop (65 + 4) ?text = []"
    by code_simp+
  show ?thesis
    by (subst read_request.simps) (simp only: parts option.case sum.case)
qed

section \<open>Properties\<close>

text \<open>C10. No benchmark without a fresh ticket: when a request outside the file endpoint is answered with
  status 200, it was a request for the benchmark path, of a size within both limits, and its ticket
  was accepted by the authority and is used up: one redemption fewer is left of it.\<close>

theorem benchmark_needs_ticket:
  assumes "route_request env settings rq k s = (r, out, k', s')" and "answers_ok out"
    and "\<not> starts_with FILE_HTTP_BASE_PATH (rq_path rq)"
    and "auth_inv (ln_authority s)" and "\<forall>t. rq_ticket rq = Some t \<longrightarrow> length t = 16"
  shows "\<exists>n t. rq_path rq = BENCHMARK_PATH \<and> benchmark_size env (hs_allowed_origin settings) rq = Inr n \<and>
           0 < n \<and> n \<le> min (hs_max_transfer_size settings) MAX_BENCHMARK_REQUEST_BYTES \<and>
           rq_ticket rq = Some t \<and>
           fst (consume_ticket (lna_now env s) t (ln_authority s)) = Inr True \<and>
           ticket_credits (ln_authority s') t < ticket_credits (ln_authority s) t"
proof -
  have not: "rq_method rq \<noteq> ''OPTIONS''" "rq_path rq \<noteq> PROBE_PATH" "rq_path rq = BENCHMARK_PATH"
    "\<not> rq_transfer_encoding rq"
    using assms(1-3) by (auto simp: route_request_def Let_def reply_def split: if_split_asm)
  obtain n where n: "benchmark_size env (hs_allowed_origin settings) rq = Inr n"
    using assms(1-3) not benchmark_size_refusal
    by (cases "benchmark_size env (hs_allowed_origin settings) rq") (auto simp: route_request_def Let_def reply_def)
  then have "benchmark_request env settings rq n k s = (r, out, k', s')"
    using assms(1,3) not by (simp add: route_request_def Let_def)
  from benchmark_request_served [OF this assms(2)] obtain t where
    t: "rq_ticket rq = Some t" "0 < n" "n \<le> min (hs_max_transfer_size settings) MAX_BENCHMARK_REQUEST_BYTES"
      "consume_ticket (lna_now env s) t (ln_authority s) = (Inr True, ln_authority s')" by blast
  then have "length t = 16" using assms(5) by blast
  from consume_ticket_credits [OF assms(4) this, of "lna_now env s" t] t n not(3) show ?thesis by simp
qed

theorem benchmark_needs_ticket_witness:
  "let s = small_lna\<lparr>ln_authority := (ln_authority small_lna)\<lparr>
             ta_tickets := [\<lparr>tk_token = replicate 16 7, tk_expires_at_ms = 100\<rparr>]\<rparr>\<rparr>;
       rq = (plain_request ''POST'' BENCHMARK_PATH (Some 2) True)\<lparr>rq_ticket := Some (replicate 16 7)\<rparr>
   in \<exists>r out k' s'. route_request small_env origin_a rq \<lparr>co_pending = [5, 6], co_socket = []\<rparr> s = (r, out, k', s') \<and>
        ticket_credits (ln_authority s') (replicate 16 7) < ticket_credits (ln_authority s) (replicate 16 7)"
proof -
  let ?s = "small_lna\<lparr>ln_authority := (ln_authority small_lna)\<lparr>
             ta_tickets := [\<lparr>tk_token = replicate 16 7, tk_expires_at_ms = 100\<rparr>]\<rparr>\<rparr>"
  let ?rq = "(plain_request ''POST'' BENCHMARK_PATH (Some 2) True)\<lparr>rq_ticket := Some (replicate 16 7)\<rparr>"
  let ?k = "\<lparr>co_pending = [5, 6], co_socket = []\<rparr>"
  have paths: "\<not> starts_with FILE_HTTP_BASE_PATH BENCHMARK_PATH" "BENCHMARK_PATH \<noteq> PROBE_PATH" by code_simp+
  have upload: "receive_benchmark small_env 2 ''a'' True ?k =
      (Inr (), write_response 200 ''application/json'' (word_of_nat (length (benchmark_body 2 0))) ''a'' True [] @
         benchmark_body 2 0, \<lparr>co_pending = [], co_socket = []\<rparr>)"
    by (simp add: receive_benchmark_def drain_upload.simps small_env_def Let_def)
  have ticket: "consume_ticket 0 (replicate 16 7) (ln_authority ?s) = (Inr True, authority_new (replicate 16 1) 0)"
    by (simp add: consume_ticket_def now_ms_def small_lna_def authority_new_def constant_time_equal_iff retain_live_def)
  have now: "lna_now small_env t = 0" for t by (simp add: lna_now_def now_of_def small_env_def)
  obtain s' out k' where run: "route_request small_env origin_a ?rq ?k ?s = (Inr (), out, k', s')" "answers_ok out"
    using ticket
    by (simp add: route_request_def paths benchmark_size_def benchmark_request_def run_benchmark_def upload now
        MAX_BENCHMARK_REQUEST_BYTES_def reply_def min_def small_lna_def semaphore_new_def try_acquire_def
        try_acquire_many_def Let_def answers_ok_response show_status)
  have inv: "auth_inv (ln_authority ?s)"
    by (simp add: auth_inv_def small_lna_def authority_new_def MAX_PENDING_TICKETS_def)
  from benchmark_needs_ticket [OF run _ inv] paths run(1) show ?thesis by (auto simp: Let_def)
qed

text \<open>C11. Without the allowed \<open>Origin\<close> a connection does nothing: when no line of the first request's
  header is an \<open>Origin\<close> header of the allowed value, the state is unchanged, at most one response
  is sent, it is a refusal that names no origin, and the connection ends.\<close>

theorem origin_required:
  assumes "\<And>e line. find_header_end (conn_bytes k) = Some e \<Longrightarrow>
      line \<in> set (split_str CRLF (chars_of (take e (conn_bytes k)))) \<Longrightarrow> header_named ''origin'' line \<Longrightarrow>
      header_value line \<noteq> hs_allowed_origin settings"
    and "handle_connection env settings k s = (ending, outs, k', s')"
  shows "s' = s \<and> ending \<in> {ConnectionClosed, ConnectionPanicked} \<and> length outs \<le> 1 \<and>
         (\<forall>out \<in> set outs. \<exists>code message. out = write_error 400 code message None \<or>
            out = write_error 403 code message None)"
proof -
  obtain r pending sock where read: "read_request (co_socket k) (co_pending k) = (r, pending, sock)"
    by (metis surj_pair)
  have "rq_origin rq \<noteq> Some (hs_allowed_origin settings)" if some: "r = Inr (Some rq)" for rq
  proof
    assume o: "rq_origin rq = Some (hs_allowed_origin settings)"
    obtain e header where e: "find_header_end (conn_bytes k) = Some e"
      "header = chars_of (take e (conn_bytes k))" "parse_request header = Inr rq"
      using read_request_parsed [OF read [unfolded some]] unfolding conn_bytes_def by blast
    obtain line where "line \<in> set (split_str CRLF header)" "header_named ''origin'' line"
      "header_value line = hs_allowed_origin settings"
      using parse_request_origin [OF e(3) o] by blast
    with assms(1) [OF e(1)] e(2) show False by blast
  qed
  then show ?thesis
    using assms(2) read by (subst (asm) handle_connection.simps)
      (auto split: sum.splits option.splits http_error.splits if_splits, blast+)
qed

theorem origin_required_witness:
  "\<exists>ending outs k'. handle_connection small_env (origin_a\<lparr>hs_allowed_origin := ''b''\<rparr>)
     \<lparr>co_pending = bytes_of (probe_header @ CRLF @ CRLF), co_socket = []\<rparr> small_lna = (ending, outs, k', small_lna)"
proof -
  let ?k = "\<lparr>co_pending = bytes_of (probe_header @ CRLF @ CRLF), co_socket = []\<rparr>"
  obtain ending outs k' s' where run: "handle_connection small_env (origin_a\<lparr>hs_allowed_origin := ''b''\<rparr>) ?k small_lna =
      (ending, outs, k', s')" by (metis surj_pair)
  have lines: "find_header_end (conn_bytes ?k) = Some 65"
    "\<forall>line \<in> set (split_str CRLF (chars_of (take 65 (conn_bytes ?k)))).
       header_named ''origin'' line \<longrightarrow> header_value line \<noteq> ''b''"
    unfolding conn_bytes_def sock_bytes_def by code_simp+
  have "s' = small_lna"
    using origin_required [OF _ run] lines by auto
  with run show ?thesis by auto
qed

text \<open>A connection keeps the invariants of the endpoint: whatever its bytes are, afterwards every
  permit is back, the ticket authority is well formed, and of no ticket are more redemptions left
  than before.\<close>

theorem connection_keeps_invariants:
  assumes "auth_inv (ln_authority s)" and "handle_connection env settings k s = (ending, outs, k', s')"
  shows "ln_active s' = ln_active s \<and> fs_requests (ln_files s') = fs_requests (ln_files s) \<and>
         auth_inv (ln_authority s') \<and>
         ticket_credits (ln_authority s') u \<le> ticket_credits (ln_authority s) u"
proof (rule connection_invariant [OF _ _ assms(2), where P = "\<lambda>t. ln_active t = ln_active s \<and>
      fs_requests (ln_files t) = fs_requests (ln_files s) \<and> auth_inv (ln_authority t) \<and>
      ticket_credits (ln_authority t) u \<le> ticket_credits (ln_authority s) u"])
  fix rq :: http_request and k :: connection and t :: lna_state
  assume ticket: "\<forall>i. rq_ticket rq = Some i \<longrightarrow> length i = 16"
    and t: "ln_active t = ln_active s \<and> fs_requests (ln_files t) = fs_requests (ln_files s) \<and>
      auth_inv (ln_authority t) \<and> ticket_credits (ln_authority t) u \<le> ticket_credits (ln_authority s) u"
  let ?t = "state_after (route_request env settings rq k t)"
  have "auth_inv (ln_authority ?t) \<and> ticket_credits (ln_authority ?t) u \<le> ticket_credits (ln_authority t) u"
    using route_request_authority [of env settings rq k t]
  proof
    assume "\<exists>i. rq_ticket rq = Some i \<and>
      ln_authority ?t = snd (consume_ticket (lna_now env t) i (ln_authority t))"
    then obtain i where i: "rq_ticket rq = Some i"
      "ln_authority ?t = snd (consume_ticket (lna_now env t) i (ln_authority t))" by blast
    with ticket have "length i = 16" by blast
    with i t consume_ticket_inv consume_ticket_credits [of "ln_authority t" i "lna_now env t" u]
    show ?thesis by (auto split: if_splits)
  qed (use t in simp)
  with t route_request_permits [of env settings rq k t]
  show "ln_active ?t = ln_active s \<and> fs_requests (ln_files ?t) = fs_requests (ln_files s) \<and>
      auth_inv (ln_authority ?t) \<and> ticket_credits (ln_authority ?t) u \<le> ticket_credits (ln_authority s) u"
    by auto
qed (use assms(1) in simp)

theorem connection_keeps_invariants_witness:
  "auth_inv (ln_authority (snd (snd (snd (handle_connection small_env origin_a
     \<lparr>co_pending = bytes_of (upload_header @ CRLF @ CRLF), co_socket = [[1], [2, 3]]\<rparr> small_lna)))))"
proof -
  have "auth_inv (ln_authority small_lna)"
    by (simp add: auth_inv_def small_lna_def authority_new_def MAX_PENDING_TICKETS_def)
  from connection_keeps_invariants [OF this] show ?thesis by (metis prod.collapse)
qed


text \<open>An upload benchmark takes exactly its announced bytes: they are read from the connection,
  wherever they are buffered and however they are cut, what follows is left for the next request,
  and the answer states their number; a connection that ends earlier gets no answer.\<close>

theorem benchmark_upload_exact:
  "(if unat n \<le> length (conn_bytes k)
    then \<exists>k'. receive_benchmark env n origin keep_alive k =
           (Inr (), write_response 200 ''application/json''
              (word_of_nat (length (benchmark_body n (he_elapsed_nanos env)))) origin keep_alive [] @
              benchmark_body n (he_elapsed_nanos env), k') \<and>
         conn_bytes k' = drop (unat n) (conn_bytes k)
    else \<exists>k'. receive_benchmark env n origin keep_alive k = (Inl FailedUpload, [], k'))"
proof -
  let ?b = "min (unat n) (length (co_pending k))"
  have b: "unat (word_of_nat ?b :: u64) = ?b"
    using unat_lt64 [of n] by (simp add: unat_of_nat)
  have left: "unat (n - word_of_nat ?b) = unat n - ?b" by (rule trans [OF unat_sub_le]) (simp_all add: b)
  show ?thesis
  proof (cases "unat n \<le> length (conn_bytes k)")
    case True
    then have "unat (n - word_of_nat ?b) \<le> length (sock_bytes (co_socket k))"
      unfolding left by (auto simp: conn_bytes_def min_def)
    from drain_upload_enough [OF this, of "word_of_nat ?b"] obtain sock where
      "drain_upload (n - word_of_nat ?b) (co_socket k) (word_of_nat ?b) = (Inr n, sock)"
      "sock_bytes sock = drop (unat n - ?b) (sock_bytes (co_socket k))" unfolding left by auto
    with True show ?thesis
      by (auto simp: receive_benchmark_def Let_def conn_bytes_def min_def)
  next
    case False
    then have "length (sock_bytes (co_socket k)) < unat (n - word_of_nat ?b)"
      unfolding left by (auto simp: conn_bytes_def min_def)
    from drain_upload_short [OF this, of "word_of_nat ?b"] False show ?thesis
      by (auto simp: receive_benchmark_def Let_def)
  qed
qed

lemma close_announced:
  "\<exists>front rest. write_response st ct n origin False extra = front @ CRLF @ ''Connection: close'' @ CRLF @ rest"
proof -
  have "write_response st ct n origin False extra =
      (''HTTP/1.1 '' @ show_nat st @ '' '' @ reason_of st @ CRLF @ ''Server: WinriseF-Agent'' @ CRLF @
       ''Content-Type: '' @ ct @ CRLF @ ''Content-Length: '' @ show_nat (unat n)) @ CRLF @ ''Connection: close'' @ CRLF @
      (''Cache-Control: no-store'' @ CRLF @ ''Access-Control-Allow-Origin: '' @ origin @ CRLF @
      ''Access-Control-Allow-Private-Network: true'' @ CRLF @
      ''Access-Control-Expose-Headers: X-WinriseF-Bytes'' @ CRLF @
      ''Vary: Origin, Access-Control-Request-Private-Network'' @ CRLF @ concat (map extra_header extra) @ CRLF)"
    unfolding write_response_def by (simp only: if_False append_assoc) simp
  then show ?thesis by (intro exI)
qed

text \<open>A refused request's body is taken for the next request: outside the file endpoint, when a
  request that asked to keep the connection is refused, none of its body has been read, the loop
  goes on although the refusal said \<open>Connection: close\<close>, and the body is parsed as a request of its own.\<close>

theorem refused_body_is_next_request:
  assumes "read_request (co_socket k) (co_pending k) = (Inr (Some rq), pending, sock)"
    and "rq_origin rq = Some (hs_allowed_origin settings)" and "rq_keep_alive rq"
    and "\<not> starts_with FILE_HTTP_BASE_PATH (rq_path rq)"
    and "route_request env settings rq \<lparr>co_pending = pending, co_socket = sock\<rparr> s = (Inr (), out, k2, s2)"
    and "out = write_error status code message (Some (hs_allowed_origin settings))" and "\<not> answers_ok out"
  shows "k2 = \<lparr>co_pending = pending, co_socket = sock\<rparr> \<and>
         (\<exists>front rest. out = front @ CRLF @ ''Connection: close'' @ CRLF @ rest) \<and>
         (case handle_connection env settings k2 s2 of
            (ending, outs, k', s') \<Rightarrow> handle_connection env settings k s = (ending, out # outs, k', s'))"
proof -
  let ?k1 = "\<lparr>co_pending = pending, co_socket = sock\<rparr>"
  have bench: "k2 = ?k1" if "benchmark_request env settings rq n ?k1 s = (Inr (), out, k2, s2)" for n
  proof -
    have "answers_ok out'" if "receive_benchmark env n origin keep_alive ?k1 = (Inr (), out', k')" for origin keep_alive out' k'
      using that by (auto simp: receive_benchmark_def Let_def answers_ok_response show_status
          split: sum.split_asm prod.split_asm if_split_asm)
    with that assms(7) show ?thesis
      by (auto simp: benchmark_request_def run_benchmark_def Let_def reply_def
          split: if_split_asm option.split_asm sum.split_asm prod.split_asm bool.split_asm)
  qed
  then have "k2 = ?k1"
    using assms(4,5) by (auto simp: route_request_def Let_def reply_def split: if_split_asm sum.split_asm)
  moreover have "\<exists>front rest. out = front @ CRLF @ ''Connection: close'' @ CRLF @ rest"
  proof -
    let ?body = "error_body code message" and ?o = "hs_allowed_origin settings"
    obtain front rest where
      "write_response status ''application/json'' (word_of_nat (length ?body)) ?o False [] =
         front @ CRLF @ ''Connection: close'' @ CRLF @ rest"
      using close_announced by blast
    then have "out = front @ CRLF @ ''Connection: close'' @ CRLF @ rest @ ?body"
      unfolding assms(6) write_error_def Let_def option.case by (simp only: append_assoc)
    then show ?thesis by blast
  qed
  moreover obtain ending outs k' s' where rec: "handle_connection env settings k2 s2 = (ending, outs, k', s')"
    by (metis surj_pair)
  then have "handle_connection env settings k s = (ending, out # outs, k', s')"
    using assms(1-3,5) by (subst handle_connection.simps) simp
  ultimately show ?thesis using rec by simp
qed

theorem refused_body_is_next_request_witness:
  "\<exists>k s ending k' s'. handle_connection small_env origin_a k s =
     (ending,
      [write_error 401 ''ticket_required'' ''benchmark ticket is required'' (Some ''a''),
       write_response 204 ''text/plain'' 0 ''a'' False []], k', s') \<and>
     conn_bytes k = bytes_of (upload_header @ CRLF @ CRLF @ probe_header @ CRLF @ CRLF)"
proof -
  let ?rq = "plain_request ''POST'' BENCHMARK_PATH (Some 69) True"
  let ?probe = "plain_request ''GET'' PROBE_PATH None False"
  let ?k = "\<lparr>co_pending = bytes_of (upload_header @ CRLF @ CRLF @ probe_header @ CRLF @ CRLF), co_socket = []\<rparr>"
  let ?k1 = "\<lparr>co_pending = bytes_of (probe_header @ CRLF @ CRLF), co_socket = []\<rparr>"
  have paths: "\<not> starts_with FILE_HTTP_BASE_PATH BENCHMARK_PATH" "BENCHMARK_PATH \<noteq> PROBE_PATH"
    "\<not> starts_with FILE_HTTP_BASE_PATH PROBE_PATH"
    by code_simp+
  have route: "route_request small_env origin_a ?rq ?k1 small_lna =
      (Inr (), write_error 401 ''ticket_required'' ''benchmark ticket is required'' (Some ''a''), ?k1, small_lna)"
    by (simp add: route_request_def paths benchmark_size_def benchmark_request_def MAX_BENCHMARK_REQUEST_BYTES_def
        reply_def min_def)
  have probe: "route_request small_env origin_a ?probe \<lparr>co_pending = [], co_socket = []\<rparr> small_lna =
      (Inr (), write_response 204 ''text/plain'' 0 ''a'' False [], \<lparr>co_pending = [], co_socket = []\<rparr>, small_lna)"
    by (simp add: route_request_def paths reply_def has_body_def)
  have rest: "handle_connection small_env origin_a ?k1 small_lna =
      (ConnectionClosed, [write_response 204 ''text/plain'' 0 ''a'' False []], \<lparr>co_pending = [], co_socket = []\<rparr>, small_lna)"
    by (subst handle_connection.simps) (simp add: probe_read probe del: bytes_of_simps)
  have "handle_connection small_env origin_a ?k small_lna =
      (ConnectionClosed, [write_error 401 ''ticket_required'' ''benchmark ticket is required'' (Some ''a''),
       write_response 204 ''text/plain'' 0 ''a'' False []], \<lparr>co_pending = [], co_socket = []\<rparr>, small_lna)"
    using refused_body_is_next_request [of ?k ?rq "bytes_of (probe_header @ CRLF @ CRLF)" "[]" origin_a small_env small_lna]
      upload_read route rest paths
    by (simp del: bytes_of_simps)
  moreover have "conn_bytes ?k = bytes_of (upload_header @ CRLF @ CRLF @ probe_header @ CRLF @ CRLF)"
    by (simp add: conn_bytes_def sock_bytes_def del: bytes_of_simps)
  ultimately show ?thesis by blast
qed

end
