(* ===== verification/Lna_Listener.thy ===== *)
theory Lna_Listener
  imports Bounded_Resource
begin

text \<open>
  The accept loop of the LAN HTTP endpoint, \<open>run\<close> in crates/winrisef-agent/src/lna_http.rs: the permits
  of its connections, the tasks and how the loop ends.

  What a connection does is Lna_Http; here it is a task that ends at some time.  The socket calls of
  \<open>start\<close> and the tuning of a socket have no effect on this state.
\<close>

section \<open>The loop\<close>

definition MAX_PERMITS :: nat where "MAX_PERMITS = usize_max div 8"

record listener =
  li_connections :: semaphore
  li_tasks :: "nat list"
  li_accepted :: nat
  li_ended :: "(unit + unit) option"

definition connection_limit :: "usize \<Rightarrow> usize" where
  "connection_limit max_sessions = usize_saturating_add (min usize_max (max_sessions * 4)) 8"

text \<open>A semaphore of more than \<open>MAX_PERMITS\<close> panics.\<close>

definition listener_new :: "usize \<Rightarrow> listener option" where
  "listener_new max_sessions =
     (if MAX_PERMITS < max_sessions \<or> MAX_PERMITS < connection_limit max_sessions then None
      else Some \<lparr>li_connections = semaphore_new (connection_limit max_sessions), li_tasks = [], li_accepted = 0, li_ended = None\<rparr>)"

text \<open>The shutdown channel changed, or its sender is gone; \<open>accept\<close> answered; a task ended.\<close>

datatype listener_event = ShutdownChanged "bool option" | AcceptAnswered bool | TaskEnded nat

text \<open>Dropping the tasks gives their permits back.\<close>

definition end_listener :: "unit + unit \<Rightarrow> listener \<Rightarrow> listener" where
  "end_listener r s =
     s\<lparr>li_connections := release_many (length (li_tasks s)) (li_connections s), li_tasks := [], li_ended := Some r\<rparr>"

definition accept_connection :: "listener \<Rightarrow> listener" where
  "accept_connection s =
     (case try_acquire (li_connections s) of
        None \<Rightarrow> s
      | Some c \<Rightarrow> s\<lparr>li_connections := c, li_tasks := li_tasks s @ [li_accepted s], li_accepted := Suc (li_accepted s)\<rparr>)"

fun listener_step :: "listener_event \<Rightarrow> listener \<Rightarrow> listener" where
  "listener_step (ShutdownChanged v) s =
     (if li_ended s \<noteq> None then s else if v = Some False then s else end_listener (Inr ()) s)"
| "listener_step (AcceptAnswered accepted) s =
     (if li_ended s \<noteq> None then s else if accepted then accept_connection s else end_listener (Inl ()) s)"
| "listener_step (TaskEnded i) s =
     (if i \<in> set (li_tasks s)
      then s\<lparr>li_connections := release_many 1 (li_connections s), li_tasks := remove1 i (li_tasks s)\<rparr> else s)"

definition listener_run :: "listener_event list \<Rightarrow> listener \<Rightarrow> listener" where
  "listener_run es s = foldl (\<lambda>t e. listener_step e t) s es"

section \<open>Every task has a permit\<close>

definition listener_inv :: "usize \<Rightarrow> listener \<Rightarrow> bool" where
  "listener_inv n s \<longleftrightarrow>
     sem_permits (li_connections s) = connection_limit n \<and> sem_taken (li_connections s) = length (li_tasks s) \<and>
     length (li_tasks s) \<le> connection_limit n \<and> distinct (li_tasks s) \<and> (\<forall>i \<in> set (li_tasks s). i < li_accepted s) \<and>
     (li_ended s \<noteq> None \<longrightarrow> li_tasks s = [])"

lemma listener_step_inv: "listener_inv n s \<Longrightarrow> listener_inv n (listener_step e s)"
proof (cases e)
  case (AcceptAnswered accepted)
  assume "listener_inv n s"
  with AcceptAnswered show ?thesis
    by (auto simp: listener_inv_def end_listener_def accept_connection_def try_acquire_def try_acquire_many_def release_many_def
        intro: less_SucI)
next
  case (TaskEnded i)
  assume inv: "listener_inv n s"
  then have "i \<in> set (li_tasks s) \<Longrightarrow> length (remove1 i (li_tasks s)) = length (li_tasks s) - 1" by (simp add: length_remove1)
  with inv TaskEnded show ?thesis
    by (auto simp: listener_inv_def release_many_def dest: notin_set_remove1)
qed (auto simp: listener_inv_def end_listener_def release_many_def)

lemma listener_run_inv: "listener_inv n s \<Longrightarrow> listener_inv n (listener_run es s)"
  by (induction es arbitrary: s) (simp_all add: listener_run_def listener_step_inv)

lemma listener_stays_ended:
  "li_ended s = Some r \<Longrightarrow> li_ended (listener_run es s) = Some r"
proof (induction es arbitrary: s)
  case (Cons e es)
  then have "li_ended (listener_step e s) = Some r" by (cases e) auto
  with Cons.IH show ?case by (simp add: listener_run_def)
qed (simp add: listener_run_def)

text \<open>C40.  The endpoint never serves more than four connections per session and eight more, whatever comes
  in and ends in whatever order; a new connection is refused only when that many are being served;
  the loop ends by the shutdown or by an error of the listener, and then no connection is left and
  none is ever served again.\<close>
theorem listener_bounded:
  assumes "listener_new max_sessions = Some s0"
  shows "let s = listener_run es s0
         in length (li_tasks s) \<le> 4 * max_sessions + 8 \<and>
            (accept_connection s = s \<longleftrightarrow> length (li_tasks s) = 4 * max_sessions + 8) \<and>
            (ShutdownChanged None \<in> set es \<or> ShutdownChanged (Some True) \<in> set es \<or> AcceptAnswered False \<in> set es \<longleftrightarrow>
               li_ended s \<noteq> None) \<and>
            (li_ended s \<noteq> None \<longrightarrow> li_tasks (listener_run more_events s) = [])"
proof -
  have "connection_limit max_sessions < usize_max"
    using assms by (auto simp: listener_new_def MAX_PERMITS_def usize_max_def split: if_splits)
  then have limit: "connection_limit max_sessions = 4 * max_sessions + 8"
    by (auto simp: connection_limit_def usize_saturating_add_def min_def split: if_splits)
  have start: "listener_inv max_sessions s0" "li_ended s0 = None"
    using assms by (auto simp: listener_new_def listener_inv_def semaphore_new_def split: if_splits)
  note inv = listener_run_inv [OF start(1), of es]
  have shutdown_value: "v \<noteq> Some False \<Longrightarrow> v \<noteq> Some True \<Longrightarrow> v = None" for v :: "bool option"
    by (cases v) auto
  have ends: "li_ended s = None \<Longrightarrow> (ShutdownChanged None \<in> set es \<or> ShutdownChanged (Some True) \<in> set es \<or> AcceptAnswered False \<in> set es \<longleftrightarrow>
      li_ended (listener_run es s) \<noteq> None)" for s
  proof (induction es arbitrary: s)
    case (Cons e es)
    show ?case
    proof (cases "li_ended (listener_step e s)")
      case None
      then have "e \<notin> {ShutdownChanged None, ShutdownChanged (Some True), AcceptAnswered False}"
        using Cons.prems by (auto simp: end_listener_def)
      with Cons.IH [OF None] show ?thesis by (auto simp: listener_run_def)
    next
      case (Some r)
      then have "e \<in> {ShutdownChanged None, ShutdownChanged (Some True), AcceptAnswered False}"
        using Cons.prems by (cases e rule: listener_event.exhaust)
          (auto simp: accept_connection_def split: if_splits option.splits intro: shutdown_value)
      with listener_stays_ended [OF Some, of es] show ?thesis by (auto simp: listener_run_def)
    qed
  qed (simp add: listener_run_def)
  have refused: "accept_connection s = s \<longleftrightarrow> length (li_tasks s) = connection_limit max_sessions" if "listener_inv max_sessions s" for s
    using that by (auto simp: listener_inv_def accept_connection_def try_acquire_def try_acquire_many_def
        dest: arg_cong [of _ _ li_accepted])
  have "li_tasks (listener_run more_events (listener_run es s0)) = []" if "li_ended (listener_run es s0) = Some r" for r
    using listener_run_inv [OF inv, of more_events] listener_stays_ended [OF that, of more_events] by (simp add: listener_inv_def)
  with inv refused [OF inv] ends [OF start(2)] limit show ?thesis
    by (auto simp: Let_def listener_inv_def)
qed

lemma listener_bounded_witness:
  "\<exists>s0. listener_new 6 = Some s0 \<and> length (li_tasks (listener_run [AcceptAnswered True] s0)) \<le> 32"
proof -
  obtain s0 where s0: "listener_new 6 = Some s0"
    by (simp add: listener_new_def connection_limit_def usize_saturating_add_def MAX_PERMITS_def usize_max_def)
  from listener_bounded [OF s0, of "[AcceptAnswered True]" "[]"] s0 show ?thesis by (simp add: Let_def)
qed

end
