(* ===== verification/Coverage.thy ===== *)
theory Coverage
  imports Extent_Grid Protocol
begin

text \<open>
  The coverage tracker of the memory benchmark, crates/winrisef-core/src/coverage.rs.  The mutex
  that guards the slots is a flag that says whether a panic has poisoned it.  An operation
  returns its result and the tracker after it.

  The lemmas show that a tracker accepts exactly the extents of the grid of its transfer, each
  once, that its byte counter is the sum of the slots it has seen and never wraps, and that
  completeness means every slot.  The tracker interprets the locale \<open>extent_ledger\<close>.
\<close>

section \<open>Model\<close>

datatype coverage_error =
    InvalidShape
  | CInvalidExtent
  | OutOfRange
  | DuplicateExtent u64
  | TooManyExtents
  | Poisoned

record coverage_tracker =
  ct_total_size :: u64
  ct_extent_size :: u64
  ct_seen :: "bool list"
  ct_poisoned :: bool
  ct_received_bytes :: u64

definition coverage_new :: "u64 \<Rightarrow> u64 \<Rightarrow> coverage_error + coverage_tracker" where
  "coverage_new total_size extent_size =
     (if total_size = 0 \<or> extent_size = 0 then Inl InvalidShape
      else and_then (ok_or (usize_try_from (div_ceil total_size extent_size)) TooManyExtents)
        (\<lambda>count. Inr \<lparr>ct_total_size = total_size, ct_extent_size = extent_size,
                    ct_seen = replicate count False, ct_poisoned = False,
                    ct_received_bytes = 0\<rparr>))"

definition coverage_record ::
  "coverage_tracker \<Rightarrow> extent_header \<Rightarrow> (coverage_error + unit) \<times> coverage_tracker" where
  "coverage_record t e =
     (if \<not> is_multiple_of (e_offset e) (ct_extent_size t) \<or> e_len e = 0
      then (Inl CInvalidExtent, t)
      else (case checked_add (e_offset e) (e_len e) of
        None \<Rightarrow> (Inl OutOfRange, t)
      | Some stop \<Rightarrow> (
        if ct_total_size t < stop then (Inl OutOfRange, t)
        else if e_len e \<noteq> min (ct_extent_size t) (ct_total_size t - e_offset e)
        then (Inl CInvalidExtent, t)
        else (case usize_try_from (e_offset e div ct_extent_size t) of
          None \<Rightarrow> (Inl TooManyExtents, t)
        | Some index \<Rightarrow> (
          if ct_poisoned t then (Inl Poisoned, t)
          else if \<not> index < length (ct_seen t) then (Inl OutOfRange, t)
          else if ct_seen t ! index then (Inl (DuplicateExtent (e_offset e)), t)
          else (Inr (), t\<lparr>ct_seen := (ct_seen t)[index := True],
                          ct_received_bytes := ct_received_bytes t + e_len e\<rparr>))))))"

definition coverage_is_complete :: "coverage_tracker \<Rightarrow> coverage_error + bool" where
  "coverage_is_complete t =
     (if ct_poisoned t then Inl Poisoned
      else Inr (ct_received_bytes t = ct_total_size t \<and> list_all (\<lambda>v. v) (ct_seen t)))"

fun coverage_record_all ::
  "coverage_tracker \<Rightarrow> extent_header list \<Rightarrow> (coverage_error + unit) \<times> coverage_tracker" where
  "coverage_record_all t [] = (Inr (), t)"
| "coverage_record_all t (e # es) =
     (case coverage_record t e of
        (Inl err, t') \<Rightarrow> (Inl err, t')
      | (Inr _, t') \<Rightarrow> coverage_record_all t' es)"

section \<open>Invariant\<close>

definition ct_total :: "coverage_tracker \<Rightarrow> nat" where "ct_total t = unat (ct_total_size t)"
definition ct_ext :: "coverage_tracker \<Rightarrow> nat" where "ct_ext t = unat (ct_extent_size t)"
definition ct_slot :: "coverage_tracker \<Rightarrow> extent_header \<Rightarrow> nat" where
  "ct_slot t e = unat (e_offset e) div ct_ext t"
definition ct_counted :: "coverage_tracker \<Rightarrow> nat set" where
  "ct_counted t = {i. i < length (ct_seen t) \<and> ct_seen t ! i}"

definition coverage_inv :: "coverage_tracker \<Rightarrow> bool" where
  "coverage_inv t \<longleftrightarrow> ct_total_size t \<noteq> 0 \<and> ct_extent_size t \<noteq> 0
     \<and> length (ct_seen t) = extent_count (ct_total t) (ct_ext t)
     \<and> unat (ct_received_bytes t) = (\<Sum>i\<in>ct_counted t. extent_len (ct_total t) (ct_ext t) i)"

text \<open>What \<open>record\<close> accepts: a full extent of the grid.\<close>

definition grid_header :: "coverage_tracker \<Rightarrow> extent_header \<Rightarrow> bool" where
  "grid_header t e \<longleftrightarrow> (unat (e_offset e), unat (e_len e)) \<in> set (extent_grid (ct_total t) (ct_ext t))"

lemma coverage_new_Inr_iff:
  "coverage_new n k = Inr t \<longleftrightarrow>
     n \<noteq> 0 \<and> k \<noteq> 0 \<and>
     t = \<lparr>ct_total_size = n, ct_extent_size = k,
          ct_seen = replicate (extent_count (unat n) (unat k)) False,
          ct_poisoned = False, ct_received_bytes = 0\<rparr>"
  by (auto simp: coverage_new_def extent_count_def unat_div_ceil)

lemma coverage_new_inv: "coverage_new n k = Inr t \<Longrightarrow> coverage_inv t"
  by (auto simp: coverage_new_Inr_iff coverage_inv_def ct_total_def ct_ext_def ct_counted_def
      intro!: sum.neutral)

lemma coverage_new_counted: "coverage_new n k = Inr t \<Longrightarrow> ct_counted t = {}"
  by (auto simp: coverage_new_Inr_iff ct_counted_def)

lemma coverage_ext_pos: "coverage_inv t \<Longrightarrow> 0 < ct_ext t"
  by (simp add: coverage_inv_def ct_ext_def word_pos_iff)

text \<open>The checks of \<open>record\<close>, put together, are membership in the grid.\<close>

lemma grid_header_iff:
  assumes "coverage_inv t"
  shows "grid_header t e \<longleftrightarrow>
     is_multiple_of (e_offset e) (ct_extent_size t) \<and> e_len e \<noteq> 0 \<and>
     (\<exists>stop. checked_add (e_offset e) (e_len e) = Some stop \<and> stop \<le> ct_total_size t) \<and>
     e_len e = min (ct_extent_size t) (ct_total_size t - e_offset e)"
    (is "_ \<longleftrightarrow> ?checks")
proof
  have ext: "0 < ct_ext t" using assms by (rule coverage_ext_pos)
  have lt: "ct_total t < 2 ^ 64"
    using unsigned_less [of "ct_total_size t", where ?'a = nat] by (simp add: ct_total_def)
  assume "grid_header t e"
  then have g: "ct_ext t dvd unat (e_offset e)" "unat (e_offset e) < ct_total t"
    "unat (e_len e) = min (ct_ext t) (ct_total t - unat (e_offset e))"
    by (simp_all add: grid_header_def set_extent_grid [OF ext])
  then have le: "unat (e_offset e) + unat (e_len e) \<le> ct_total t" by simp
  then have "checked_add (e_offset e) (e_len e) = Some (e_offset e + e_len e)"
    "unat (e_offset e + e_len e) = unat (e_offset e) + unat (e_len e)"
    using lt by (simp_all add: checked_add_def unat_simps)
  with le have "\<exists>stop. checked_add (e_offset e) (e_len e) = Some stop \<and> stop \<le> ct_total_size t"
    by (simp add: word_le_nat_alt ct_total_def)
  moreover have "e_len e = min (ct_extent_size t) (ct_total_size t - e_offset e)"
    using g by (simp add: word_eq_nat_iff unat_simps ct_total_def ct_ext_def)
  ultimately show ?checks
    using g ext by (simp add: is_multiple_of_iff ct_ext_def word_pos_iff)
next
  have ext: "0 < ct_ext t" using assms by (rule coverage_ext_pos)
  assume c: ?checks
  then obtain stop where "checked_add (e_offset e) (e_len e) = Some stop" "stop \<le> ct_total_size t"
    by blast
  then have le: "unat (e_offset e) + unat (e_len e) \<le> ct_total t"
    by (simp add: checked_add_Some_iff word_le_nat_alt ct_total_def)
  have "e_len e \<noteq> 0" using c by blast
  then have "0 < unat (e_len e)" by (simp only: word_pos_iff)
  moreover note le
  moreover have "unat (e_len e) = min (ct_ext t) (ct_total t - unat (e_offset e))"
    using c le by (metis add_leD1 ct_ext_def ct_total_def unat_min unat_sub_le)
  moreover have "ct_ext t dvd unat (e_offset e)"
    using c by (simp add: is_multiple_of_iff ct_ext_def)
  ultimately show "grid_header t e"
    by (simp add: grid_header_def set_extent_grid [OF ext])
qed

lemma grid_header_slot:
  assumes "coverage_inv t" and "grid_header t e"
  shows "ct_slot t e < length (ct_seen t)"
    and "unat (e_len e) = extent_len (ct_total t) (ct_ext t) (ct_slot t e)"
    and "unat (e_offset e) = ct_slot t e * ct_ext t"
  using assms coverage_ext_pos [OF assms(1)]
  by (auto simp: grid_header_def set_extent_grid ct_slot_def coverage_inv_def less_extent_count_iff
      extent_len_def)

text \<open>Every branch of \<open>record\<close>.\<close>

lemma coverage_record_cases:
  assumes "coverage_inv t"
  shows "coverage_record t e =
    (if \<not> grid_header t e then (fst (coverage_record t e), t)
     else if ct_poisoned t then (Inl Poisoned, t)
     else if ct_slot t e \<in> ct_counted t then (Inl (DuplicateExtent (e_offset e)), t)
     else (Inr (), t\<lparr>ct_seen := (ct_seen t)[ct_slot t e := True],
                     ct_received_bytes := ct_received_bytes t + e_len e\<rparr>))"
proof (cases "grid_header t e")
  case False
  then show ?thesis
    using grid_header_iff [OF assms, of e]
    by (auto simp: coverage_record_def not_less split: option.splits)
next
  case True
  note checks = True [unfolded grid_header_iff [OF assms]]
  then obtain stop where stop: "checked_add (e_offset e) (e_len e) = Some stop"
    "\<not> ct_total_size t < stop" by (auto simp: not_less)
  have idx: "unat (e_offset e div ct_extent_size t) = ct_slot t e"
    by (simp add: ct_slot_def ct_ext_def unat_div_distrib)
  have len: "e_len e = min (ct_extent_size t) (ct_total_size t - e_offset e)"
    using checks by blast
  from True stop idx checks len grid_header_slot(1) [OF assms True] show ?thesis
    by (simp add: coverage_record_def ct_counted_def del: min_def)
qed

lemma coverage_record_rejects:
  assumes "coverage_inv t" and "\<not> grid_header t e"
  shows "fst (coverage_record t e) \<noteq> Inr ()"
  using grid_header_iff [OF assms(1), of e] assms(2)
  by (auto simp: coverage_record_def not_less split: option.splits)

lemma coverage_record_Inr_iff:
  assumes "coverage_inv t"
  shows "coverage_record t e = (Inr (), t') \<longleftrightarrow>
     grid_header t e \<and> \<not> ct_poisoned t \<and> ct_slot t e \<notin> ct_counted t \<and>
     t' = t\<lparr>ct_seen := (ct_seen t)[ct_slot t e := True],
            ct_received_bytes := ct_received_bytes t + e_len e\<rparr>"
  using coverage_record_cases [OF assms, of e] coverage_record_rejects [OF assms, of e]
  by (auto split: if_splits)

lemma coverage_record_unchanged:
  "coverage_record t e = (Inl err, t') \<Longrightarrow> t' = t"
  by (auto simp: coverage_record_def split: if_splits option.splits)

section \<open>The tracker is a ledger\<close>

definition coverage_mark :: "coverage_tracker \<Rightarrow> extent_header \<Rightarrow> coverage_tracker option" where
  "coverage_mark t e = (case coverage_record t e of (Inr _, t') \<Rightarrow> Some t' | _ \<Rightarrow> None)"

lemma coverage_mark_Some_iff: "coverage_mark t e = Some t' \<longleftrightarrow> coverage_record t e = (Inr (), t')"
  by (auto simp: coverage_mark_def split: prod.splits sum.splits)

lemma ct_counted_update:
  "i < length (ct_seen t) \<Longrightarrow>
     ct_counted (t\<lparr>ct_seen := (ct_seen t)[i := True], ct_received_bytes := r\<rparr>) =
       insert i (ct_counted t)"
  by (auto simp: ct_counted_def nth_list_update)

lemma ct_frame [simp]:
  "ct_total (t\<lparr>ct_seen := s, ct_received_bytes := r\<rparr>) = ct_total t"
  "ct_ext (t\<lparr>ct_seen := s, ct_received_bytes := r\<rparr>) = ct_ext t"
  "ct_slot (t\<lparr>ct_seen := s, ct_received_bytes := r\<rparr>) = ct_slot t"
  by (simp_all add: ct_total_def ct_ext_def ct_slot_def fun_eq_iff)

lemma coverage_counted_bound:
  "coverage_inv t \<Longrightarrow> ct_counted t \<subseteq> {..<extent_count (ct_total t) (ct_ext t)}"
  by (auto simp: coverage_inv_def ct_counted_def)

lemma coverage_record_inv:
  assumes inv: "coverage_inv t" and ok: "coverage_record t e = (Inr (), t')"
  shows "coverage_inv t'"
proof -
  let ?s = "ct_slot t e" and ?len = "extent_len (ct_total t) (ct_ext t)"
  from ok have g: "grid_header t e" and fresh: "?s \<notin> ct_counted t"
    and t': "t' = t\<lparr>ct_seen := (ct_seen t)[?s := True],
                    ct_received_bytes := ct_received_bytes t + e_len e\<rparr>"
    by (simp_all add: coverage_record_Inr_iff [OF inv])
  note slot = grid_header_slot [OF inv g]
  have fin: "finite (ct_counted t)" by (simp add: ct_counted_def)
  have sub: "insert ?s (ct_counted t) \<subseteq> {..<extent_count (ct_total t) (ct_ext t)}"
    using coverage_counted_bound [OF inv] slot(1) inv by (simp add: coverage_inv_def)
  have rec: "unat (ct_received_bytes t) = (\<Sum>i\<in>ct_counted t. ?len i)"
    using inv by (simp add: coverage_inv_def)
  then have sum: "(\<Sum>i\<in>insert ?s (ct_counted t). ?len i) =
      unat (ct_received_bytes t) + unat (e_len e)"
    using fin fresh slot(2) by simp
  moreover have "\<dots> \<le> ct_total t"
    using sum_extent_le_total [OF coverage_ext_pos [OF inv] sub] sum by simp
  moreover have "ct_total t < 2 ^ 64"
    using unsigned_less [of "ct_total_size t", where ?'a = nat] by (simp add: ct_total_def)
  ultimately have "unat (ct_received_bytes t + e_len e) = (\<Sum>i\<in>insert ?s (ct_counted t). ?len i)"
    by (simp add: unat_simps)
  then show ?thesis
    using inv slot(1) by (simp add: t' coverage_inv_def ct_counted_update)
qed

interpretation cov: extent_ledger coverage_inv ct_total ct_ext ct_slot ct_counted
  "\<lambda>t. unat (ct_received_bytes t)" coverage_mark
proof
  fix t e t'
  assume inv: "coverage_inv t"
  {
    assume mark: "coverage_mark t e = Some t'"
    then have ok: "coverage_record t e = (Inr (), t')" by (simp add: coverage_mark_Some_iff)
    note spec = ok [unfolded coverage_record_Inr_iff [OF inv]]
    show "coverage_inv t'" using inv ok by (rule coverage_record_inv)
    show "ct_total t' = ct_total t" "ct_ext t' = ct_ext t" "ct_slot t' = ct_slot t"
      "ct_slot t e \<notin> ct_counted t"
      using spec by simp_all
    show "ct_counted t' = insert (ct_slot t e) (ct_counted t)"
      using spec grid_header_slot(1) [OF inv] by (simp add: ct_counted_update)
  }
  show "0 < ct_ext t" using inv by (rule coverage_ext_pos)
  show "ct_counted t \<subseteq> {..<extent_count (ct_total t) (ct_ext t)}"
    using inv by (rule coverage_counted_bound)
  show "unat (ct_received_bytes t) = (\<Sum>i\<in>ct_counted t. extent_len (ct_total t) (ct_ext t) i)"
    using inv by (simp add: coverage_inv_def)
qed

lemma coverage_record_all_mark:
  "coverage_record_all t es = (Inr (), t') \<longleftrightarrow> cov.mark_all t es = Some t'"
  by (induction es arbitrary: t)
     (auto simp: coverage_mark_def split: prod.splits sum.splits)

lemma coverage_record_all_grid:
  "coverage_inv t \<Longrightarrow> coverage_record_all t es = (Inr (), t') \<Longrightarrow> list_all (grid_header t) es"
proof (induction es arbitrary: t)
  case (Cons e es)
  then obtain u where u: "coverage_record t e = (Inr (), u)"
    and rest: "coverage_record_all u es = (Inr (), t')"
    by (auto split: prod.splits sum.splits)
  have "grid_header u = grid_header t"
    using u by (auto simp: coverage_record_Inr_iff [OF Cons.prems(1)] grid_header_def fun_eq_iff)
  with Cons.IH [OF coverage_record_inv [OF Cons.prems(1) u] rest] u show ?case
    by (simp add: coverage_record_Inr_iff [OF Cons.prems(1)])
qed simp

lemma coverage_is_complete_iff:
  assumes "coverage_inv t" and "\<not> ct_poisoned t"
  shows "coverage_is_complete t = Inr (ct_counted t = {..<extent_count (ct_total t) (ct_ext t)})"
proof -
  have "ct_received_bytes t = ct_total_size t \<longleftrightarrow>
      ct_counted t = {..<extent_count (ct_total t) (ct_ext t)}"
    using cov.bytes_total_iff [OF assms(1)] by (simp add: word_eq_nat_iff ct_total_def)
  moreover have "list_all (\<lambda>v. v) (ct_seen t) \<longleftrightarrow>
      ct_counted t = {..<extent_count (ct_total t) (ct_ext t)}"
    using assms(1) by (auto simp: list_all_conv_nth ct_counted_def coverage_inv_def)
  ultimately show ?thesis using assms(2) by (simp add: coverage_is_complete_def)
qed

text \<open>Distinct extents of the grid that were not seen yet are all accepted, in any order.\<close>

lemma coverage_record_all_accepts:
  assumes "coverage_inv t" and "\<not> ct_poisoned t" and "list_all (grid_header t) es"
    and "distinct (map (ct_slot t) es)" and "ct_slot t ` set es \<inter> ct_counted t = {}"
  shows "\<exists>t'. coverage_record_all t es = (Inr (), t') \<and> \<not> ct_poisoned t'"
  using assms
proof (induction es arbitrary: t)
  case (Cons e es)
  let ?u = "t\<lparr>ct_seen := (ct_seen t)[ct_slot t e := True],
              ct_received_bytes := ct_received_bytes t + e_len e\<rparr>"
  have ok: "coverage_record t e = (Inr (), ?u)"
    using Cons.prems by (simp add: coverage_record_Inr_iff)
  have "ct_slot t e < length (ct_seen t)" using grid_header_slot(1) Cons.prems by simp
  moreover have "grid_header ?u = grid_header t" by (simp add: grid_header_def fun_eq_iff)
  ultimately have "\<exists>t'. coverage_record_all ?u es = (Inr (), t') \<and> \<not> ct_poisoned t'"
    using Cons.prems coverage_record_inv [OF Cons.prems(1) ok]
    by (intro Cons.IH) (auto simp: ct_counted_update)
  with ok show ?case by simp
qed simp

lemma grid_headers_pairs:
  assumes inv: "coverage_inv t" and es: "list_all (grid_header t) es"
  shows "map (\<lambda>e. (unat (e_offset e), unat (e_len e))) es =
    map (\<lambda>i. (i * ct_ext t, extent_len (ct_total t) (ct_ext t) i)) (map (ct_slot t) es)"
  using es grid_header_slot(2,3) [OF inv] by (auto simp: list_all_iff)

lemma coverage_new_shape:
  assumes "coverage_new total_size extent_size = Inr t"
  shows "coverage_inv t" "ct_counted t = {}" "\<not> ct_poisoned t"
    "ct_total t = unat total_size" "ct_ext t = unat extent_size"
  using assms coverage_new_inv coverage_new_counted
  by (auto simp: coverage_new_Inr_iff ct_total_def ct_ext_def)

lemma coverage_perm_slots:
  assumes new: "coverage_new total_size extent_size = Inr t"
    and perm: "mset (map (\<lambda>e. (unat (e_offset e), unat (e_len e))) es) =
           mset (extent_grid (unat total_size) (unat extent_size))"
  shows "list_all (grid_header t) es"
    and "mset (map (ct_slot t) es) = mset [0..<extent_count (ct_total t) (ct_ext t)]"
    and "distinct (map (ct_slot t) es)"
proof -
  note shape = coverage_new_shape [OF new]
  note ext = coverage_ext_pos [OF shape(1)]
  let ?n = "extent_count (ct_total t) (ct_ext t)"
  have "set (map (\<lambda>e. (unat (e_offset e), unat (e_len e))) es) =
      set (extent_grid (ct_total t) (ct_ext t))"
    using perm by (metis mset_eq_setD shape(4,5))
  then show grid: "list_all (grid_header t) es" by (auto simp: list_all_iff grid_header_def)
  have "mset (map (ct_slot t) es) =
      image_mset (\<lambda>p. fst p div ct_ext t) (mset (map (\<lambda>e. (unat (e_offset e), unat (e_len e))) es))"
    by (simp add: ct_slot_def [abs_def] multiset.map_comp comp_def)
  also have "\<dots> = mset (map (\<lambda>i. i * ct_ext t div ct_ext t) [0..<?n])"
    by (simp only: perm) (simp add: extent_grid_def shape(4,5) multiset.map_comp comp_def)
  also have "\<dots> = mset [0..<?n]" using ext by simp
  finally show slots: "mset (map (ct_slot t) es) = mset [0..<?n]" .
  then show "distinct (map (ct_slot t) es)" by (metis distinct_upt mset_eq_imp_distinct_iff)
qed

lemma coverage_complete_perm:
  assumes new: "coverage_new total_size extent_size = Inr t"
  shows "(\<exists>t'. coverage_record_all t es = (Inr (), t') \<and> coverage_is_complete t' = Inr True) \<longleftrightarrow>
           mset (map (\<lambda>e. (unat (e_offset e), unat (e_len e))) es) =
           mset (extent_grid (unat total_size) (unat extent_size))" (is "?run \<longleftrightarrow> ?perm")
proof
  note shape = coverage_new_shape [OF new]
  let ?g = "\<lambda>i. (i * ct_ext t, extent_len (ct_total t) (ct_ext t) i)"
  assume ?run
  then obtain t' where run: "coverage_record_all t es = (Inr (), t')"
    and complete: "coverage_is_complete t' = Inr True" by blast
  then have mark: "cov.mark_all t es = Some t'" by (simp add: coverage_record_all_mark)
  have bytes: "unat (ct_received_bytes t') = ct_total t'"
    using complete by (auto simp: coverage_is_complete_def ct_total_def split: if_splits)
  have "mset (map (ct_slot t) es) = mset [0..<extent_count (ct_total t) (ct_ext t)]"
    using shape(1,2) mark bytes by (rule cov.mark_all_complete)
  then have "mset (map ?g (map (ct_slot t) es)) = mset (map ?g [0..<extent_count (ct_total t) (ct_ext t)])"
    by (simp only: mset_map)
  then show ?perm
    by (simp only: grid_headers_pairs [OF shape(1) coverage_record_all_grid [OF shape(1) run]]
        extent_grid_def shape(4,5) [symmetric])
next
  note shape = coverage_new_shape [OF new]
  let ?n = "extent_count (ct_total t) (ct_ext t)"
  assume perm: ?perm
  note slots = coverage_perm_slots [OF new perm]
  then obtain t' where run: "coverage_record_all t es = (Inr (), t')" and up: "\<not> ct_poisoned t'"
    using coverage_record_all_accepts [OF shape(1,3) slots(1,3)] shape(2) by auto
  have "cov.mark_all t es = Some t'" using run by (simp add: coverage_record_all_mark)
  note spec = cov.mark_all_spec [OF shape(1) this]
  have "ct_slot t ` set es = {..<?n}" using mset_eq_setD [OF slots(2)] by auto
  with spec shape(2) have "coverage_is_complete t' = Inr True"
    by (subst coverage_is_complete_iff) (use up in auto)
  with run show ?run by blast
qed

section \<open>Properties\<close>

text \<open>C4. Exactly once: starting from a new tracker, a sequence of extents is recorded without error
  and reported complete if and only if it is a permutation of the extent grid of the transfer,
  so that every byte of the file was covered exactly once.\<close>

theorem coverage_complete_iff_permutation:
  assumes new: "coverage_new total_size extent_size = Inr t"
  shows "(\<exists>t'. coverage_record_all t es = (Inr (), t') \<and> coverage_is_complete t' = Inr True) \<longleftrightarrow>
           mset (map (\<lambda>e. (unat (e_offset e), unat (e_len e))) es) =
           mset (extent_grid (unat total_size) (unat extent_size))"
  using assms by (rule coverage_complete_perm)

theorem coverage_complete_iff_permutation_witness:
  "\<exists>t'. coverage_record_all
      \<lparr>ct_total_size = 150, ct_extent_size = 64, ct_seen = replicate 3 False, ct_poisoned = False,
       ct_received_bytes = 0\<rparr>
      [\<lparr>e_offset = 128, e_len = 22\<rparr>, \<lparr>e_offset = 0, e_len = 64\<rparr>, \<lparr>e_offset = 64, e_len = 64\<rparr>] =
      (Inr (), t') \<and> coverage_is_complete t' = Inr True"
  by (subst coverage_complete_iff_permutation [of 150 64])
     (simp_all add: coverage_new_Inr_iff extent_count_def nat_div_ceil_def extent_grid_def
       extent_len_def upt_rec)

end
