(* ===== verification/Memory_Transfer.thy ===== *)
theory Memory_Transfer
  imports Coverage Lane_Schedule Auth
begin

text \<open>
  The memory benchmark session, crates/winrisef-agent/src/transfer.rs: authentication, the fixed
  configuration, the four sender lanes and the four receiver lanes with their shared coverage
  tracker, seen-lane mask and byte counter.

  A stream is the list of its bytes.  A receiver lane is a state machine whose atomic actions are
  the source's: taking the lane header, recording an extent header, counting one payload chunk,
  seeing the end.  The step relation interleaves the lanes in any order and cuts the payload
  into chunks of any size the source asks for.

  The lemmas show that the sender lanes partition the extent grid and that a successful
  reception has recorded every extent of the transfer exactly once and counted every byte.
\<close>

section \<open>Configuration and authentication\<close>

definition LANE_COUNT :: nat where "LANE_COUNT = 4"
definition BLOCK_SIZE :: nat where "BLOCK_SIZE = 4 * 1024 * 1024"
definition EXTENT_SIZE :: u64 where "EXTENT_SIZE = 16 * 1024 * 1024"

datatype transfer_authenticator = FixedToken bytes | TicketsOf ticket_authority

definition authenticator_consume ::
  "int \<Rightarrow> bytes \<Rightarrow> transfer_authenticator \<Rightarrow> (auth_error + bool) \<times> transfer_authenticator" where
  "authenticator_consume t token a =
     (case a of
        FixedToken expected \<Rightarrow> (Inr (constant_time_equal token expected), a)
      | TicketsOf authority \<Rightarrow>
          (let (r, authority') = consume_ticket t token authority in (r, TicketsOf authority')))"

definition valid_configuration :: "hello \<Rightarrow> u64 \<Rightarrow> bool" where
  "valid_configuration h max_transfer_size \<longleftrightarrow>
     unat (h_lanes h) = LANE_COUNT \<and> unat (h_block_size h) = BLOCK_SIZE \<and>
     h_extent_size h = EXTENT_SIZE \<and> h_total_size h \<le> max_transfer_size"

definition ack_for :: "hello \<Rightarrow> ack_status \<Rightarrow> hello_ack" where
  "ack_for h status =
     \<lparr>a_status = status, a_lanes = h_lanes h, a_block_size = h_block_size h,
      a_extent_size = h_extent_size h, a_total_size = h_total_size h\<rparr>"

datatype session_error =
    HelloMissing
  | HelloInvalid protocol_error
  | SessionAuth auth_error
  | SessionAuthenticationFailed
  | SessionConfigurationInvalid

text \<open>The opening of \<open>run_session\<close>: the acknowledgements it writes, and the hello it goes on with.\<close>

definition session_open ::
  "int \<Rightarrow> u64 \<Rightarrow> bytes \<Rightarrow> transfer_authenticator \<Rightarrow>
     (session_error + hello) \<times> hello_ack list \<times> transfer_authenticator" where
  "session_open t max_transfer_size stream a =
     (if length stream < HELLO_LEN then (Inl HelloMissing, [], a)
      else (case hello_decode (take HELLO_LEN stream) of
        Inl e \<Rightarrow> (Inl (HelloInvalid e), [], a)
      | Inr h \<Rightarrow> (
          case authenticator_consume t (h_token h) a of
            (Inl e, a') \<Rightarrow> (Inl (SessionAuth e), [], a')
          | (Inr False, a') \<Rightarrow> (Inl SessionAuthenticationFailed, [ack_for h AuthenticationFailed], a')
          | (Inr True, a') \<Rightarrow>
              if \<not> valid_configuration h max_transfer_size
              then (Inl SessionConfigurationInvalid, [ack_for h InvalidConfiguration], a')
              else (Inr h, [ack_for h Accepted], a'))))"

text \<open>The result frame of a session whose payload phase ended.\<close>

definition session_result :: "bool \<Rightarrow> u64 \<Rightarrow> u64 \<Rightarrow> transfer_result" where
  "session_result outcome_ok bytes elapsed_nanos =
     \<lparr>r_status = (if outcome_ok then Accepted else TransferFailed), r_bytes = bytes,
      r_elapsed_nanos = elapsed_nanos\<rparr>"

section \<open>Sending\<close>

definition lane_extent :: "u16 \<Rightarrow> u64 \<Rightarrow> u64 \<Rightarrow> extent_header option" where
  "lane_extent lane_id extent_index total_size =
     (case checked_mul extent_index (word_of_nat LANE_COUNT) of
        None \<Rightarrow> None
      | Some n \<Rightarrow> (
          case checked_add n (ucast lane_id) of
            None \<Rightarrow> None
          | Some extent_number \<Rightarrow> (
              case checked_mul extent_number EXTENT_SIZE of
                None \<Rightarrow> None
              | Some offset \<Rightarrow>
                  if total_size \<le> offset then None
                  else Some \<lparr>e_offset = offset, e_len = min EXTENT_SIZE (total_size - offset)\<rparr>)))"

lemma unat_ucast_up:
  assumes "LENGTH('a) \<le> LENGTH('b)"
  shows "unat (ucast (w :: 'a::len word) :: 'b::len word) = unat w"
proof -
  have "unat w < 2 ^ LENGTH('a)" by (rule unsigned_less)
  also have "\<dots> \<le> 2 ^ LENGTH('b)" using assms by (simp add: power_increasing)
  finally show ?thesis by (simp add: unsigned_ucast_eq take_bit_nat_eq_self)
qed

lemma lane_extent_slot:
  "lane_extent lane_id i total_size =
     (let n = unat i * 4 + unat lane_id in
      if n * unat EXTENT_SIZE < unat total_size
      then Some \<lparr>e_offset = word_of_nat (n * unat EXTENT_SIZE),
                 e_len = word_of_nat (extent_len (unat total_size) (unat EXTENT_SIZE) n)\<rparr>
      else None)"
proof -
  let ?n = "unat i * 4 + unat lane_id" and ?e = "16777216 :: nat"
  have e: "unat EXTENT_SIZE = ?e" "EXTENT_SIZE = 16777216" by (simp_all add: EXTENT_SIZE_def)
  have four: "unat (word_of_nat LANE_COUNT :: u64) = 4" by (simp add: LANE_COUNT_def)
  have lane: "unat (ucast lane_id :: u64) = unat lane_id"
    by (rule unat_ucast_up) simp
  have bound: "unat total_size < 2 ^ 64" using unat_lt64 [of total_size] by simp
  show ?thesis
  proof (cases "?n * ?e < 2 ^ 64")
    case False
    then have "lane_extent lane_id i total_size = None"
      by (auto simp: lane_extent_def checked_mul_def checked_add_def four lane e unat_simps
          split: option.splits)
    moreover have "\<not> ?n * ?e < unat total_size" using False bound by linarith
    ultimately show ?thesis by (simp add: e Let_def)
  next
    case True
    then have mul: "checked_mul i (word_of_nat LANE_COUNT) = Some (i * word_of_nat LANE_COUNT)"
      and umul: "unat (i * word_of_nat LANE_COUNT :: u64) = unat i * 4"
      by (simp_all add: checked_mul_def four unat_simps)
    have add: "checked_add (i * word_of_nat LANE_COUNT) (ucast lane_id) =
        Some (i * word_of_nat LANE_COUNT + ucast lane_id)"
      and uadd: "unat (i * word_of_nat LANE_COUNT + ucast lane_id :: u64) = ?n"
      using True by (simp_all add: checked_add_def umul lane unat_simps)
    let ?w = "i * word_of_nat LANE_COUNT + ucast lane_id :: u64"
    have off: "checked_mul ?w EXTENT_SIZE = Some (?w * EXTENT_SIZE)"
      and uoff: "unat (?w * EXTENT_SIZE) = ?n * ?e"
      using True by (simp_all add: checked_mul_def uadd e(1) unat_mult_lt)
    have weq: "?w * EXTENT_SIZE = word_of_nat (?n * ?e)"
      using True by (simp add: word_eq_nat_iff uoff unat_of_nat del: of_nat_mult of_nat_add)
    have len: "min EXTENT_SIZE (total_size - ?w * EXTENT_SIZE) =
        word_of_nat (extent_len (unat total_size) ?e ?n)" if "?n * ?e < unat total_size"
    proof -
      have "extent_len (unat total_size) ?e ?n < 2 ^ 64" by (simp add: extent_len_def)
      then show ?thesis
        using that
        by (simp add: word_eq_nat_iff unat_min unat_sub_le uoff e(1) extent_len_def unat_of_nat
            del: min_def)
    qed
    have "lane_extent lane_id i total_size =
        (if ?n * ?e < unat total_size
         then Some \<lparr>e_offset = ?w * EXTENT_SIZE, e_len = min EXTENT_SIZE (total_size - ?w * EXTENT_SIZE)\<rparr>
         else None)"
      by (simp add: lane_extent_def mul add off word_le_nat_alt uoff not_le del: min_def)
    then show ?thesis
    proof (cases "?n * ?e < unat total_size")
      case lt: True
      then show ?thesis
        using \<open>lane_extent lane_id i total_size = _\<close> len [OF lt] unfolding Let_def e(1) weq by simp
    next
      case False
      then show ?thesis
        using \<open>lane_extent lane_id i total_size = _\<close> unfolding Let_def e(1) by simp
    qed
  qed
qed

lemma lane_extent_index_less: "lane_extent lane_id i total_size = Some x \<Longrightarrow> unat i < unat total_size"
  by (auto simp: lane_extent_slot Let_def EXTENT_SIZE_def split: if_splits)

text \<open>The extents one lane sends, by the loop of \<open>send_lane\<close>.\<close>

function lane_extents_from :: "u16 \<Rightarrow> u64 \<Rightarrow> u64 \<Rightarrow> extent_header list" where
  "lane_extents_from lane_id extent_index total_size =
     (case lane_extent lane_id extent_index total_size of
        None \<Rightarrow> []
      | Some x \<Rightarrow> x # lane_extents_from lane_id (extent_index + 1) total_size)"
  by auto
termination
proof (relation "measure (\<lambda>(lane_id, i, total_size). unat total_size - unat i)")
  fix lane_id i total_size x
  assume "lane_extent lane_id i total_size = Some x"
  then have lt: "unat i < unat total_size" by (rule lane_extent_index_less)
  moreover have "unat i + unat (1 :: u64) < 2 ^ LENGTH(64)"
    using lt unat_lt64 [of total_size] by simp
  ultimately have "unat (i + 1) = Suc (unat i)" by (subst unat_add_lt) simp_all
  with lt show "((lane_id, i + 1, total_size), lane_id, i, total_size) \<in>
      measure (\<lambda>(lane_id, i, total_size). unat total_size - unat i)"
    by simp
qed simp

declare lane_extents_from.simps [simp del]

text \<open>The bytes of a lane: header, extents with their zero payload, terminator.\<close>

definition send_lane :: "u16 \<Rightarrow> u64 \<Rightarrow> bytes" where
  "send_lane lane_id total_size =
     lane_header_encode \<lparr>l_lane_id = lane_id, l_lane_count = word_of_nat LANE_COUNT,
       l_total_size = total_size, l_extent_size = EXTENT_SIZE\<rparr> @
     concat (map (\<lambda>x. extent_header_encode x @ replicate (unat (e_len x)) 0)
       (lane_extents_from lane_id 0 total_size)) @
     extent_header_encode EXTENT_END"

definition header_pair :: "extent_header \<Rightarrow> nat \<times> nat" where
  "header_pair e = (unat (e_offset e), unat (e_len e))"

lemma lane_extents_from_slots:
  "unat lane_id < 4 \<Longrightarrow>
   map header_pair (lane_extents_from lane_id i total_size) =
    map (\<lambda>n. (n * unat EXTENT_SIZE, extent_len (unat total_size) (unat EXTENT_SIZE) n))
      (filter (\<lambda>n. n mod 4 = unat lane_id)
        [unat i * 4 + unat lane_id..<extent_count (unat total_size) (unat EXTENT_SIZE)])"
proof (induction lane_id i total_size rule: lane_extents_from.induct)
  case (1 lane_id i total_size)
  let ?n = "unat i * 4 + unat lane_id" and ?e = "unat EXTENT_SIZE"
  let ?c = "extent_count (unat total_size) ?e"
  have pos: "0 < ?e" by (simp add: EXTENT_SIZE_def)
  have lane: "?n mod 4 = unat lane_id" using 1(2) by simp
  show ?case
  proof (cases "?n < ?c")
    case False
    then have "lane_extent lane_id i total_size = None"
      by (simp add: lane_extent_slot Let_def less_extent_count_iff [OF pos])
    with False show ?thesis by (simp add: lane_extents_from.simps)
  next
    case True
    let ?x = "\<lparr>e_offset = word_of_nat (?n * ?e), e_len = word_of_nat (extent_len (unat total_size) ?e ?n)\<rparr>"
    have lt: "?n * ?e < unat total_size" using True by (simp add: less_extent_count_iff [OF pos])
    then have x: "lane_extent lane_id i total_size = Some ?x"
      by (simp add: lane_extent_slot Let_def)
    have "unat i < unat total_size" using lane_extent_index_less [OF x] .
    then have "unat i + unat (1 :: u64) < 2 ^ LENGTH(64)" using unat_lt64 [of total_size] by simp
    then have suc: "unat (i + 1) = Suc (unat i)" by (subst unat_add_lt) simp_all
    have "extent_len (unat total_size) ?e ?n \<le> unat total_size" by (simp add: extent_len_def)
    then have pair: "header_pair ?x = (?n * ?e, extent_len (unat total_size) ?e ?n)"
      using lt unat_lt64 [of total_size]
      by (simp add: header_pair_def unat_of_nat del: of_nat_mult of_nat_add)
    have next_lane: "unat (i + 1) * 4 + unat lane_id = ?n + 4" using suc by simp
    have "lane_extents_from lane_id i total_size = ?x # lane_extents_from lane_id (i + 1) total_size"
      using x by (subst lane_extents_from.simps) simp
    then show ?thesis
      using 1(1) [OF x 1(2)] lane_slots_from [OF 1(2) lane, of ?c] True pair
      unfolding next_lane by simp
  qed
qed

definition lane_pairs :: "nat \<Rightarrow> nat \<Rightarrow> (nat \<times> nat) list" where
  "lane_pairs tot l = map header_pair (lane_extents_from (word_of_nat l) 0 (word_of_nat tot))"

interpretation memory_lanes: lane_schedule 4 "unat EXTENT_SIZE" "\<lambda>tot. tot < 2 ^ 64" lane_pairs
proof
  fix l tot :: nat
  assume l: "l < 4" and tot: "tot < 2 ^ 64"
  have "unat (word_of_nat l :: u16) = l" using l by (simp add: unat_of_nat)
  moreover have "unat (word_of_nat tot :: u64) = tot" using tot by (simp add: unat_of_nat)
  ultimately show "lane_pairs tot l =
      map (\<lambda>i. (i * unat EXTENT_SIZE, extent_len tot (unat EXTENT_SIZE) i))
        (lane_slots 4 l (extent_count tot (unat EXTENT_SIZE)))"
    using lane_extents_from_slots [of "word_of_nat l" 0 "word_of_nat tot"] l
    by (simp add: lane_pairs_def lane_slots_start)
qed (simp_all add: EXTENT_SIZE_def)

end
