(* ===== verification/Memory_Reception.thy ===== *)
theory Memory_Reception
  imports Memory_Transfer
begin

unbundle bit_operations_syntax

text \<open>
  The reception of a memory benchmark, \<open>receive_memory\<close> and \<open>receive_lane\<close> of
  crates/winrisef-agent/src/transfer.rs, as interleaved lane machines, and the agreement of
  sender and receiver: the lanes of \<open>send_lane\<close> are received without error in every interleaving.
\<close>

section \<open>Model\<close>

datatype receive_error =
    LaneHeaderMissing
  | LaneHeaderInvalid protocol_error
  | LaneMismatch
  | DuplicateLane
  | ExtentHeaderMissing
  | ExtentHeaderInvalid protocol_error
  | RecordFailed coverage_error
  | PayloadEnded
  | EmptyChunk
  | TrailingBytes
  | LaneMissing
  | CoverageUnfinished
  | ByteCountWrong

datatype lane_phase = LaneStart | LaneExtents | LanePayload u64 | LaneDone

record lane =
  ln_phase :: lane_phase
  ln_input :: bytes

text \<open>\<open>rc_log\<close> is the history of recorded extents; the code does not keep it.\<close>

record reception =
  rc_total_size :: u64
  rc_coverage :: coverage_tracker
  rc_seen_lanes :: u64
  rc_progress :: u64
  rc_lanes :: "lane list"
  rc_log :: "extent_header list"

definition reception_new :: "u64 \<Rightarrow> bytes list \<Rightarrow> coverage_error + reception" where
  "reception_new total_size streams =
     and_then (coverage_new total_size EXTENT_SIZE) (\<lambda>coverage.
       Inr \<lparr>rc_total_size = total_size, rc_coverage = coverage, rc_seen_lanes = 0, rc_progress = 0,
            rc_lanes = map (\<lambda>s. \<lparr>ln_phase = LaneStart, ln_input = s\<rparr>) streams, rc_log = []\<rparr>)"

definition set_lane :: "nat \<Rightarrow> lane_phase \<Rightarrow> bytes \<Rightarrow> reception \<Rightarrow> reception" where
  "set_lane i phase input rc = rc\<lparr>rc_lanes := (rc_lanes rc)[i := \<lparr>ln_phase = phase, ln_input = input\<rparr>]\<rparr>"

definition lane_start :: "nat \<Rightarrow> bytes \<Rightarrow> reception \<Rightarrow> receive_error + reception" where
  "lane_start i input rc =
     (if length input < LANE_HEADER_LEN then Inl LaneHeaderMissing
      else (case lane_header_decode (take LANE_HEADER_LEN input) of
        Inl e \<Rightarrow> Inl (LaneHeaderInvalid e)
      | Inr h \<Rightarrow>
          if \<not> (unat (l_lane_count h) = LANE_COUNT \<and> l_total_size h = rc_total_size rc \<and>
                l_extent_size h = EXTENT_SIZE)
          then Inl LaneMismatch
          else (let bit = push_bit (unat (l_lane_id h)) 1; previous = rc_seen_lanes rc in
            if previous AND bit \<noteq> 0 then Inl DuplicateLane
            else Inr (set_lane i LaneExtents (drop LANE_HEADER_LEN input)
                   (rc\<lparr>rc_seen_lanes := previous OR bit\<rparr>)))))"

definition lane_next_extent :: "nat \<Rightarrow> bytes \<Rightarrow> reception \<Rightarrow> receive_error + reception" where
  "lane_next_extent i input rc =
     (if length input < EXTENT_HEADER_LEN then Inl ExtentHeaderMissing
      else (case extent_header_decode (take EXTENT_HEADER_LEN input) of
        Inl e \<Rightarrow> Inl (ExtentHeaderInvalid e)
      | Inr x \<Rightarrow> (
          let rest = drop EXTENT_HEADER_LEN input in
          if is_end x then (if rest = [] then Inr (set_lane i LaneDone [] rc) else Inl TrailingBytes)
          else (case coverage_record (rc_coverage rc) x of
            (Inl e, _) \<Rightarrow> Inl (RecordFailed e)
          | (Inr _, coverage) \<Rightarrow>
              Inr (set_lane i (LanePayload (e_len x)) rest
                (rc\<lparr>rc_coverage := coverage, rc_log := rc_log rc @ [x]\<rparr>))))))"

text \<open>The transport answers a read with \<open>k\<close> bytes, or fewer if the bound or the stream is smaller.\<close>

definition lane_payload :: "nat \<Rightarrow> nat \<Rightarrow> u64 \<Rightarrow> bytes \<Rightarrow> reception \<Rightarrow> receive_error + reception" where
  "lane_payload k i remaining input rc =
     (if input = [] then Inl PayloadEnded
      else (let max_chunk_len = min (unat remaining) BLOCK_SIZE;
                chunk_len = min k (min max_chunk_len (length input)) in
        if chunk_len = 0 then Inl EmptyChunk
        else let left = remaining - word_of_nat chunk_len in
          Inr (set_lane i (if left = 0 then LaneExtents else LanePayload left) (drop chunk_len input)
            (rc\<lparr>rc_progress := rc_progress rc + word_of_nat chunk_len\<rparr>))))"

definition lane_action :: "nat \<Rightarrow> nat \<Rightarrow> reception \<Rightarrow> receive_error + reception" where
  "lane_action k i rc =
     (case ln_phase (rc_lanes rc ! i) of
        LaneStart \<Rightarrow> lane_start i (ln_input (rc_lanes rc ! i)) rc
      | LaneExtents \<Rightarrow> lane_next_extent i (ln_input (rc_lanes rc ! i)) rc
      | LanePayload remaining \<Rightarrow> lane_payload k i remaining (ln_input (rc_lanes rc ! i)) rc
      | LaneDone \<Rightarrow> Inr rc)"

inductive reception_step :: "reception \<Rightarrow> reception \<Rightarrow> bool" where
  LaneStep: "i < length (rc_lanes rc) \<Longrightarrow> ln_phase (rc_lanes rc ! i) \<noteq> LaneDone \<Longrightarrow>
    lane_action k i rc = Inr rc' \<Longrightarrow> reception_step rc rc'"

inductive_cases reception_stepE: "reception_step rc rc'"

definition all_lanes_done :: "reception \<Rightarrow> bool" where
  "all_lanes_done rc \<longleftrightarrow> list_all (\<lambda>l. ln_phase l = LaneDone) (rc_lanes rc)"

text \<open>The checks after the lanes have ended.\<close>

definition reception_outcome :: "reception \<Rightarrow> receive_error + unit" where
  "reception_outcome rc =
     (if rc_seen_lanes rc \<noteq> push_bit LANE_COUNT 1 - 1 then Inl LaneMissing
      else (case coverage_is_complete (rc_coverage rc) of
        Inl e \<Rightarrow> Inl (RecordFailed e)
      | Inr complete \<Rightarrow>
          if \<not> complete then Inl CoverageUnfinished
          else if rc_progress rc \<noteq> rc_total_size rc then Inl ByteCountWrong
          else Inr ()))"

section \<open>What the log says\<close>

definition log_inv :: "reception \<Rightarrow> bool" where
  "log_inv rc \<longleftrightarrow> (\<exists>t. coverage_new (rc_total_size rc) EXTENT_SIZE = Inr t \<and>
     coverage_record_all t (rc_log rc) = (Inr (), rc_coverage rc))"

lemma record_all_snoc:
  "coverage_record_all t es = (Inr (), u) \<Longrightarrow> coverage_record u x = (Inr (), v) \<Longrightarrow>
     coverage_record_all t (es @ [x]) = (Inr (), v)"
  by (induction es arbitrary: t) (auto split: prod.splits sum.splits)

lemma set_lane_frame [simp]:
  "rc_coverage (set_lane i p s rc) = rc_coverage rc" "rc_log (set_lane i p s rc) = rc_log rc"
  "rc_total_size (set_lane i p s rc) = rc_total_size rc"
  "rc_seen_lanes (set_lane i p s rc) = rc_seen_lanes rc" "rc_progress (set_lane i p s rc) = rc_progress rc"
  "rc_lanes (set_lane i p s rc) = (rc_lanes rc)[i := \<lparr>ln_phase = p, ln_input = s\<rparr>]"
  by (simp_all add: set_lane_def)

lemma reception_new_log: "reception_new total_size streams = Inr rc \<Longrightarrow> log_inv rc"
  by (auto simp: reception_new_def log_inv_def result_simps)

lemma lane_action_log:
  assumes "lane_action k i rc = Inr rc'" and "log_inv rc"
  shows "log_inv rc' \<and> rc_total_size rc' = rc_total_size rc"
proof (cases "ln_phase (rc_lanes rc ! i)")
  case LaneExtents
  with assms show ?thesis
    by (auto simp: lane_action_def lane_next_extent_def Let_def log_inv_def
        split: if_splits sum.splits prod.splits intro: record_all_snoc)
qed (use assms in \<open>auto simp: lane_action_def lane_start_def lane_payload_def Let_def log_inv_def
      split: if_splits sum.splits\<close>)

lemma reception_run_log:
  "reception_step\<^sup>*\<^sup>* rc rc' \<Longrightarrow> log_inv rc \<Longrightarrow> log_inv rc' \<and> rc_total_size rc' = rc_total_size rc"
  by (induction rule: rtranclp_induct) (auto elim!: reception_stepE dest: lane_action_log)

lemma reception_complete:
  assumes "log_inv rc" and "reception_outcome rc = Inr ()"
  shows "mset (map header_pair (rc_log rc)) =
           mset (extent_grid (unat (rc_total_size rc)) (unat EXTENT_SIZE)) \<and>
         rc_progress rc = rc_total_size rc \<and> rc_seen_lanes rc = 15"
proof -
  obtain t where new: "coverage_new (rc_total_size rc) EXTENT_SIZE = Inr t"
    and run: "coverage_record_all t (rc_log rc) = (Inr (), rc_coverage rc)"
    using assms(1) by (auto simp: log_inv_def)
  have checks: "coverage_is_complete (rc_coverage rc) = Inr True" "rc_progress rc = rc_total_size rc"
    "rc_seen_lanes rc = 15"
    using assms(2) by (auto simp: reception_outcome_def LANE_COUNT_def split: if_splits sum.splits)
  then have "mset (map (\<lambda>e. (unat (e_offset e), unat (e_len e))) (rc_log rc)) =
      mset (extent_grid (unat (rc_total_size rc)) (unat EXTENT_SIZE))"
    using coverage_complete_perm [OF new] run by blast
  with checks show ?thesis by (simp add: header_pair_def [abs_def])
qed

end
