(* ===== verification/Memory_Agreement.thy ===== *)
theory Memory_Agreement
  imports Memory_Reception
begin

text \<open>
  Sender and receiver of the memory benchmark agree: the streams of the four \<open>send_lane\<close> tasks are
  received by \<open>receive_memory\<close> without error in every interleaving and chunking, every run ends,
  and it ends in success.  The simulation relation \<open>agree\<close> says which extents each lane still has
  to deliver.
\<close>

section \<open>What a lane still has to deliver\<close>

definition extents_bytes :: "extent_header list \<Rightarrow> bytes" where
  "extents_bytes xs =
     concat (map (\<lambda>x. extent_header_encode x @ replicate (unat (e_len x)) 0) xs) @
     extent_header_encode EXTENT_END"

definition sent_extents :: "u64 \<Rightarrow> nat \<Rightarrow> extent_header list" where
  "sent_extents tot j = lane_extents_from (word_of_nat j) 0 tot"

definition all_extents :: "u64 \<Rightarrow> extent_header list" where
  "all_extents tot = concat (map (sent_extents tot) [0..<4])"

fun pending_bytes :: "lane_phase \<Rightarrow> nat" where
  "pending_bytes (LanePayload r) = unat r"
| "pending_bytes _ = 0"

definition lane_ok :: "u64 \<Rightarrow> nat \<Rightarrow> lane \<Rightarrow> extent_header list \<Rightarrow> bool" where
  "lane_ok tot j l es \<longleftrightarrow>
     (case ln_phase l of
        LaneStart \<Rightarrow> ln_input l = send_lane (word_of_nat j) tot \<and> es = sent_extents tot j
      | LaneExtents \<Rightarrow> ln_input l = extents_bytes es
      | LanePayload r \<Rightarrow> r \<noteq> 0 \<and> ln_input l = replicate (unat r) 0 @ extents_bytes es
      | LaneDone \<Rightarrow> ln_input l = [] \<and> es = [])"

definition agree :: "reception \<Rightarrow> extent_header list list \<Rightarrow> bool" where
  "agree rc ess \<longleftrightarrow>
     length (rc_lanes rc) = 4 \<and> length ess = 4 \<and> log_inv rc \<and> rc_total_size rc \<noteq> 0 \<and>
     (\<forall>j < 4. lane_ok (rc_total_size rc) j (rc_lanes rc ! j) (ess ! j)) \<and>
     mset (rc_log rc @ concat ess) = mset (all_extents (rc_total_size rc)) \<and>
     unat (rc_progress rc) + (\<Sum>l\<leftarrow>rc_lanes rc. pending_bytes (ln_phase l)) =
       (\<Sum>x\<leftarrow>rc_log rc. unat (e_len x)) \<and>
     (\<forall>j. bit (rc_seen_lanes rc) j \<longleftrightarrow> j < 4 \<and> ln_phase (rc_lanes rc ! j) \<noteq> LaneStart)"

lemma less_four: "j < (4 :: nat) \<longleftrightarrow> j \<in> {0, 1, 2, 3}"
  by auto

section \<open>The extents of the sender\<close>

lemma all_extents_grid:
  "mset (map header_pair (all_extents tot)) = mset (extent_grid (unat tot) (unat EXTENT_SIZE))"
proof -
  have "map header_pair (all_extents tot) = concat (map (lane_pairs (unat tot)) [0..<4])"
    by (simp add: all_extents_def map_concat comp_def lane_pairs_def [abs_def] sent_extents_def del: upt_Suc)
  moreover have "unat tot < 2 ^ 64" using unat_lt64 [of tot] by simp
  ultimately show ?thesis using memory_lanes.lanes_send_grid by metis
qed

lemma sent_extents_wf:
  assumes "x \<in> set (all_extents tot)"
  shows "0 < unat (e_len x)" "unat (e_offset x) + unat (e_len x) \<le> unat tot"
proof -
  have pos: "0 < unat EXTENT_SIZE" by (simp add: EXTENT_SIZE_def)
  have "header_pair x \<in> set (extent_grid (unat tot) (unat EXTENT_SIZE))"
    using assms all_extents_grid [of tot] by (metis image_eqI list.set_map mset_eq_setD)
  then show "0 < unat (e_len x)" "unat (e_offset x) + unat (e_len x) \<le> unat tot"
    using pos by (auto simp: header_pair_def set_extent_grid [OF pos])
qed

lemma extent_decodes:
  assumes "x \<in> set (all_extents tot)"
  shows "extent_header_decode (extent_header_encode x) = Inr x" "\<not> is_end x"
  using sent_extents_wf [OF assms] unat_lt64 [of tot]
  by (auto simp: extent_header_decode_encode is_end_def word_pos_iff)

lemma end_decodes: "extent_header_decode (extent_header_encode EXTENT_END) = Inr EXTENT_END"
  by (simp add: extent_header_decode_encode)

lemma lane_header_decodes:
  assumes "j < 4"
  shows "lane_header_decode (lane_header_encode \<lparr>l_lane_id = word_of_nat j,
      l_lane_count = word_of_nat LANE_COUNT, l_total_size = tot, l_extent_size = EXTENT_SIZE\<rparr>) =
    Inr \<lparr>l_lane_id = word_of_nat j, l_lane_count = word_of_nat LANE_COUNT, l_total_size = tot,
      l_extent_size = EXTENT_SIZE\<rparr>"
  using assms
  by (intro lane_header_decode_encode) (simp add: word_less_nat_alt unat_of_nat LANE_COUNT_def)

lemma extents_bytes_simps:
  "extents_bytes [] = extent_header_encode EXTENT_END"
  "extents_bytes (x # xs) = extent_header_encode x @ replicate (unat (e_len x)) 0 @ extents_bytes xs"
  by (simp_all add: extents_bytes_def)

lemma take_header [simp]:
  "take EXTENT_HEADER_LEN (extent_header_encode x @ s) = extent_header_encode x"
  "drop EXTENT_HEADER_LEN (extent_header_encode x @ s) = s"
  "take EXTENT_HEADER_LEN (extent_header_encode x) = extent_header_encode x"
  "drop EXTENT_HEADER_LEN (extent_header_encode x) = []"
  using length_encodings(3) [of x] by simp_all

section \<open>One step\<close>

lemma sum_list_pending_update:
  "i < length ls \<Longrightarrow>
     (\<Sum>l\<leftarrow>ls[i := l']. pending_bytes (ln_phase l)) + pending_bytes (ln_phase (ls ! i)) =
     (\<Sum>l\<leftarrow>ls. pending_bytes (ln_phase l)) + pending_bytes (ln_phase l')"
  by (induction ls arbitrary: i) (auto simp: nth_Cons split: nat.splits)

lemma concat_take_head:
  assumes "i < length ess" and "ess ! i = x # xs"
  shows "mset (concat ess) = add_mset x (mset (concat (ess[i := xs])))"
  using assms by (induction ess arbitrary: i) (auto simp: nth_Cons split: nat.splits)

lemma record_next:
  assumes new: "coverage_new tot EXTENT_SIZE = Inr t"
    and run: "coverage_record_all t log = (Inr (), cov)"
    and sub: "mset (log @ x # rest) = mset (all_extents tot)"
  shows "\<exists>cov'. coverage_record cov x = (Inr (), cov')"
proof -
  have "mset (map (\<lambda>e. (unat (e_offset e), unat (e_len e))) (log @ x # rest)) =
      image_mset header_pair (mset (log @ x # rest))"
    by (simp add: header_pair_def [abs_def])
  also have "\<dots> = mset (extent_grid (unat tot) (unat EXTENT_SIZE))"
    by (simp only: sub all_extents_grid mset_map [symmetric])
  finally have "mset (map (\<lambda>e. (unat (e_offset e), unat (e_len e))) (log @ x # rest)) =
      mset (extent_grid (unat tot) (unat EXTENT_SIZE))" .
  from coverage_perm_slots [OF new this] have grid: "list_all (grid_header t) (log @ [x])"
    and dist: "distinct (map (ct_slot t) (log @ [x]))" by auto
  note shape = coverage_new_shape [OF new]
  obtain t' where "coverage_record_all t (log @ [x]) = (Inr (), t')"
    using coverage_record_all_accepts [OF shape(1,3) grid dist] shape(2) by auto
  then show ?thesis
    using run by (induction log arbitrary: t) (auto split: prod.splits sum.splits)
qed

lemma log_length_total:
  assumes "mset (log @ rest) = mset (all_extents tot)"
  shows "(\<Sum>x\<leftarrow>log @ rest. unat (e_len x)) = unat tot"
proof -
  have pos: "0 < unat EXTENT_SIZE" by (simp add: EXTENT_SIZE_def)
  have "(\<Sum>x\<leftarrow>log @ rest. unat (e_len x)) = sum_mset (image_mset (\<lambda>x. unat (e_len x)) (mset (log @ rest)))"
    by (simp only: sum_mset_sum_list mset_map [symmetric])
  also have "\<dots> = sum_mset (image_mset snd (image_mset header_pair (mset (all_extents tot))))"
    by (simp only: assms multiset.map_comp comp_def header_pair_def snd_conv)
  also have "\<dots> = (\<Sum>e\<leftarrow>extent_grid (unat tot) (unat EXTENT_SIZE). snd e)"
    by (simp only: all_extents_grid mset_map [symmetric] sum_mset_sum_list)
  also have "\<dots> = (\<Sum>i<extent_count (unat tot) (unat EXTENT_SIZE). extent_len (unat tot) (unat EXTENT_SIZE) i)"
    by (simp add: extent_grid_def comp_def interv_sum_list_conv_sum_set_nat atLeast0LessThan)
  also have "\<dots> = unat tot" by (rule sum_extent_count [OF pos])
  finally show ?thesis .
qed

lemma lane_bit: "i < 64 \<Longrightarrow> bit (2 ^ i :: u64) j \<longleftrightarrow> j = i"
  by (auto simp: bit_exp_iff)

lemma lane_bit_fresh:
  assumes "i < 64" and "\<not> bit (seen :: u64) i"
  shows "seen AND 2 ^ i = 0" and "bit (seen OR 2 ^ i) j \<longleftrightarrow> bit seen j \<or> j = i"
proof -
  show "seen AND 2 ^ i = 0"
    by (rule bit_eqI) (use assms in \<open>auto simp: bit_and_iff lane_bit\<close>)
  show "bit (seen OR 2 ^ i) j \<longleftrightarrow> bit seen j \<or> j = i"
    using assms by (auto simp: bit_or_iff lane_bit)
qed

lemma agree_lane:
  assumes "agree rc ess" and "i < 4"
  shows "lane_ok (rc_total_size rc) i (rc_lanes rc ! i) (ess ! i)"
  using assms by (simp add: agree_def)

text \<open>Replacing one lane.\<close>

lemma agree_replace:
  assumes old: "agree rc ess" and i: "i < 4"
    and log: "log_inv rc'" and tot: "rc_total_size rc' = rc_total_size rc"
    and lanes: "rc_lanes rc' = (rc_lanes rc)[i := l]"
    and lane: "lane_ok (rc_total_size rc) i l es"
    and all: "mset (rc_log rc' @ concat (ess[i := es])) = mset (all_extents (rc_total_size rc))"
    and bytes: "unat (rc_progress rc') + (\<Sum>l\<leftarrow>rc_lanes rc'. pending_bytes (ln_phase l)) =
       (\<Sum>x\<leftarrow>rc_log rc'. unat (e_len x))"
    and seen: "\<And>j. bit (rc_seen_lanes rc') j \<longleftrightarrow> (if j = i then ln_phase l \<noteq> LaneStart else bit (rc_seen_lanes rc) j)"
  shows "agree rc' (ess[i := es])"
  unfolding agree_def
proof (intro conjI allI impI)
  fix j :: nat
  assume "j < 4"
  then show "lane_ok (rc_total_size rc') j (rc_lanes rc' ! j) (ess[i := es] ! j)"
    using old lane i by (cases "j = i") (auto simp: agree_def tot lanes)
next
  fix j
  show "bit (rc_seen_lanes rc') j \<longleftrightarrow> j < 4 \<and> ln_phase (rc_lanes rc' ! j) \<noteq> LaneStart"
    using old i by (cases "j = i") (auto simp: agree_def lanes seen)
qed (use old log tot all bytes in \<open>simp_all add: agree_def lanes\<close>)

lemma agree_start:
  assumes old: "agree rc ess" and i: "i < 4" and phase: "ln_phase (rc_lanes rc ! i) = LaneStart"
  shows "\<exists>rc' ess'. lane_action k i rc = Inr rc' \<and> agree rc' ess'"
proof -
  let ?tot = "rc_total_size rc"
  let ?h = "\<lparr>l_lane_id = word_of_nat i, l_lane_count = word_of_nat LANE_COUNT, l_total_size = ?tot,
    l_extent_size = EXTENT_SIZE\<rparr>"
  have input: "ln_input (rc_lanes rc ! i) = lane_header_encode ?h @ extents_bytes (sent_extents ?tot i)"
    and es: "ess ! i = sent_extents ?tot i"
    using agree_lane [OF old i] phase
    by (simp_all add: lane_ok_def send_lane_def extents_bytes_def sent_extents_def)
  have id: "unat (word_of_nat i :: u16) = i" using i by (simp add: unat_of_nat)
  have count: "unat (word_of_nat LANE_COUNT :: u16) = LANE_COUNT" by (simp add: LANE_COUNT_def)
  have fresh: "\<not> bit (rc_seen_lanes rc) i" using old phase by (simp add: agree_def)
  have i64: "i < 64" using i by simp
  let ?rc' = "set_lane i LaneExtents (extents_bytes (sent_extents ?tot i))
    (rc\<lparr>rc_seen_lanes := rc_seen_lanes rc OR 2 ^ i\<rparr>)"
  have "lane_action k i rc = Inr ?rc'"
    using length_encodings(2) [of ?h] lane_header_decodes [OF i, of ?tot]
    by (simp add: lane_action_def phase input lane_start_def id count Let_def
        lane_bit_fresh(1) [OF i64 fresh])
  moreover have "agree ?rc' (ess[i := sent_extents ?tot i])"
  proof (rule agree_replace [OF old i, where l = "\<lparr>ln_phase = LaneExtents,
        ln_input = extents_bytes (sent_extents ?tot i)\<rparr>"])
    have same: "ess[i := sent_extents ?tot i] = ess" using es by (metis list_update_id)
    show "mset (rc_log ?rc' @ concat (ess[i := sent_extents ?tot i])) = mset (all_extents ?tot)"
      unfolding same using old by (simp add: agree_def)
    show "unat (rc_progress ?rc') + (\<Sum>l\<leftarrow>rc_lanes ?rc'. pending_bytes (ln_phase l)) =
        (\<Sum>x\<leftarrow>rc_log ?rc'. unat (e_len x))"
      using old i phase sum_list_pending_update [of i "rc_lanes rc" "\<lparr>ln_phase = LaneExtents,
        ln_input = extents_bytes (sent_extents ?tot i)\<rparr>"] by (simp add: agree_def)
  qed (use old in \<open>auto simp: agree_def log_inv_def lane_ok_def lane_bit_fresh(2) [OF i64 fresh]\<close>)
  ultimately show ?thesis by blast
qed

lemma agree_payload:
  assumes old: "agree rc ess" and i: "i < 4" and phase: "ln_phase (rc_lanes rc ! i) = LanePayload r"
    and k: "0 < k"
  shows "\<exists>rc' ess'. lane_action k i rc = Inr rc' \<and> agree rc' ess'"
proof -
  let ?es = "ess ! i"
  have input: "ln_input (rc_lanes rc ! i) = replicate (unat r) 0 @ extents_bytes ?es" and r: "r \<noteq> 0"
    using agree_lane [OF old i] phase by (simp_all add: lane_ok_def)
  define c where "c = min k (min (min (unat r) BLOCK_SIZE) (length (ln_input (rc_lanes rc ! i))))"
  have rpos: "0 < unat r" using r by (simp add: word_pos_iff)
  have c: "0 < c" "c \<le> unat r"
    using k rpos by (auto simp: c_def input BLOCK_SIZE_def)
  have cw: "unat (word_of_nat c :: u64) = c"
    using c(2) unat_lt64 [of r] by (simp add: unat_of_nat)
  have left: "unat (r - word_of_nat c) = unat r - c" using c(2) by (simp add: unat_sub_le cw)
  have rest: "drop c (ln_input (rc_lanes rc ! i)) = replicate (unat r - c) 0 @ extents_bytes ?es"
    using c(2) by (simp add: input)
  let ?l = "\<lparr>ln_phase = (if r - word_of_nat c = 0 then LaneExtents else LanePayload (r - word_of_nat c)),
    ln_input = replicate (unat r - c) 0 @ extents_bytes ?es\<rparr>"
  let ?rc' = "set_lane i (ln_phase ?l) (ln_input ?l) (rc\<lparr>rc_progress := rc_progress rc + word_of_nat c\<rparr>)"
  have ne: "ln_input (rc_lanes rc ! i) \<noteq> []" using rpos by (simp add: input)
  have act: "lane_action k i rc = Inr ?rc'"
    using c(1) ne rest
    by (simp add: lane_action_def phase lane_payload_def Let_def flip: c_def)
  have len: "i < length (rc_lanes rc)" "i < length ess" using old i by (simp_all add: agree_def)
  have zero: "r - word_of_nat c = 0 \<longleftrightarrow> unat r = c"
    using left c(2) by (metis diff_is_0_eq le_antisym unat_eq_zero unat_0 diff_self_eq_0)
  have pend: "pending_bytes (ln_phase ?l) + c = pending_bytes (ln_phase (rc_lanes rc ! i))"
    using c(2) zero left by (auto simp: phase)
  have sum: "(\<Sum>l\<leftarrow>(rc_lanes rc)[i := ?l]. pending_bytes (ln_phase l)) + c =
      (\<Sum>l\<leftarrow>rc_lanes rc. pending_bytes (ln_phase l))"
    using sum_list_pending_update [OF len(1), of ?l] pend by linarith
  have total: "unat (rc_progress rc) + (\<Sum>l\<leftarrow>rc_lanes rc. pending_bytes (ln_phase l)) =
      (\<Sum>x\<leftarrow>rc_log rc. unat (e_len x))"
    and log: "mset (rc_log rc @ concat ess) = mset (all_extents (rc_total_size rc))"
    using old by (simp_all add: agree_def)
  have "(\<Sum>x\<leftarrow>rc_log rc. unat (e_len x)) \<le> unat (rc_total_size rc)"
    using log_length_total [OF log] by simp
  moreover have "unat (rc_total_size rc) < 2 ^ 64" using unat_lt64 [of "rc_total_size rc"] by simp
  ultimately have "unat (rc_progress rc) + c < 2 ^ 64" using total sum by linarith
  then have prog: "unat (rc_progress rc + word_of_nat c) = unat (rc_progress rc) + c"
    by (subst unat_add_lt) (simp_all add: cw)
  have "agree ?rc' (ess[i := ?es])"
  proof (rule agree_replace [OF old i, where l = ?l])
    show "lane_ok (rc_total_size rc) i ?l ?es"
      using zero left by (auto simp: lane_ok_def)
    show "unat (rc_progress ?rc') + (\<Sum>l\<leftarrow>rc_lanes ?rc'. pending_bytes (ln_phase l)) =
        (\<Sum>x\<leftarrow>rc_log ?rc'. unat (e_len x))"
      using total sum prog by simp
    show "mset (rc_log ?rc' @ concat (ess[i := ?es])) = mset (all_extents (rc_total_size rc))"
      using log by simp
    show "bit (rc_seen_lanes ?rc') j \<longleftrightarrow> (if j = i then ln_phase ?l \<noteq> LaneStart else bit (rc_seen_lanes rc) j)" for j
      using old i phase by (auto simp: agree_def)
  qed (use old in \<open>simp_all add: agree_def log_inv_def\<close>)
  with act show ?thesis by blast
qed

lemma agree_extents:
  assumes old: "agree rc ess" and i: "i < 4" and phase: "ln_phase (rc_lanes rc ! i) = LaneExtents"
  shows "\<exists>rc' ess'. lane_action k i rc = Inr rc' \<and> agree rc' ess'"
proof -
  let ?tot = "rc_total_size rc"
  have input: "ln_input (rc_lanes rc ! i) = extents_bytes (ess ! i)"
    using agree_lane [OF old i] phase by (simp add: lane_ok_def)
  have len: "i < length (rc_lanes rc)" "i < length ess" using old i by (simp_all add: agree_def)
  have total: "unat (rc_progress rc) + (\<Sum>l\<leftarrow>rc_lanes rc. pending_bytes (ln_phase l)) =
      (\<Sum>x\<leftarrow>rc_log rc. unat (e_len x))"
    and log: "mset (rc_log rc @ concat ess) = mset (all_extents ?tot)"
    and linv: "log_inv rc"
    using old by (simp_all add: agree_def)
  show ?thesis
  proof (cases "ess ! i")
    case Nil
    let ?rc' = "set_lane i LaneDone [] rc"
    have act: "lane_action k i rc = Inr ?rc'"
      using length_encodings(3) [of EXTENT_END]
      by (simp add: lane_action_def phase input Nil extents_bytes_simps lane_next_extent_def
          end_decodes is_end_iff Let_def)
    have sum: "(\<Sum>l\<leftarrow>(rc_lanes rc)[i := \<lparr>ln_phase = LaneDone, ln_input = []\<rparr>]. pending_bytes (ln_phase l)) =
        (\<Sum>l\<leftarrow>rc_lanes rc. pending_bytes (ln_phase l))"
      using sum_list_pending_update [OF len(1), of "\<lparr>ln_phase = LaneDone, ln_input = []\<rparr>"] phase by simp
    have same: "ess[i := []] = ess" using Nil by (metis list_update_id)
    have "agree ?rc' (ess[i := []])"
    proof (rule agree_replace [OF old i, where l = "\<lparr>ln_phase = LaneDone, ln_input = []\<rparr>"])
      show "bit (rc_seen_lanes ?rc') j \<longleftrightarrow>
          (if j = i then ln_phase \<lparr>ln_phase = LaneDone, ln_input = []\<rparr> \<noteq> LaneStart else bit (rc_seen_lanes rc) j)" for j
        using old i phase by (auto simp: agree_def)
    qed (use linv total log sum same in \<open>simp_all add: lane_ok_def log_inv_def\<close>)
    with act show ?thesis by blast
  next
    case (Cons x xs)
    have "x \<in> set (all_extents ?tot)"
      using log Cons len(2) by (metis Un_iff in_set_conv_nth length_pos_if_in_set list.set_intros(1)
          mset_eq_setD nth_mem set_append set_concat UN_I)
    note wf = extent_decodes [OF this] sent_extents_wf [OF this]
    obtain t where new: "coverage_new ?tot EXTENT_SIZE = Inr t"
      and run: "coverage_record_all t (rc_log rc) = (Inr (), rc_coverage rc)"
      using linv by (auto simp: log_inv_def)
    have all: "mset (rc_log rc @ x # concat (ess[i := xs])) = mset (all_extents ?tot)"
      using log concat_take_head [OF len(2) Cons] by simp
    obtain cov where rec: "coverage_record (rc_coverage rc) x = (Inr (), cov)"
      using record_next [OF new run all] by blast
    let ?l = "\<lparr>ln_phase = LanePayload (e_len x), ln_input = replicate (unat (e_len x)) 0 @ extents_bytes xs\<rparr>"
    let ?rc' = "set_lane i (ln_phase ?l) (ln_input ?l)
      (rc\<lparr>rc_coverage := cov, rc_log := rc_log rc @ [x]\<rparr>)"
    have act: "lane_action k i rc = Inr ?rc'"
      using length_encodings(3) [of x] wf(2)
      by (simp add: lane_action_def phase input Cons extents_bytes_simps lane_next_extent_def
          wf(1) rec Let_def)
    have sum: "(\<Sum>l\<leftarrow>(rc_lanes rc)[i := ?l]. pending_bytes (ln_phase l)) =
        (\<Sum>l\<leftarrow>rc_lanes rc. pending_bytes (ln_phase l)) + unat (e_len x)"
      using sum_list_pending_update [OF len(1), of ?l] phase by simp
    have "agree ?rc' (ess[i := xs])"
    proof (rule agree_replace [OF old i, where l = ?l])
      show "lane_ok ?tot i ?l xs" using wf(3) by (auto simp: lane_ok_def)
      show "log_inv ?rc'" using lane_action_log [OF act linv] by simp
      show "bit (rc_seen_lanes ?rc') j \<longleftrightarrow> (if j = i then ln_phase ?l \<noteq> LaneStart else bit (rc_seen_lanes rc) j)" for j
        using old i phase by (auto simp: agree_def)
      show "unat (rc_progress ?rc') + (\<Sum>l\<leftarrow>rc_lanes ?rc'. pending_bytes (ln_phase l)) =
          (\<Sum>x\<leftarrow>rc_log ?rc'. unat (e_len x))"
        using total sum by simp
      show "mset (rc_log ?rc' @ concat (ess[i := xs])) = mset (all_extents ?tot)" using all by simp
    qed simp_all
    with act show ?thesis by blast
  qed
qed

section \<open>Whole runs\<close>

lemma agree_action:
  assumes "agree rc ess" and "i < 4" and "ln_phase (rc_lanes rc ! i) \<noteq> LaneDone" and "0 < k"
  shows "\<exists>rc' ess'. lane_action k i rc = Inr rc' \<and> agree rc' ess'"
  using assms agree_start agree_extents agree_payload
  by (cases "ln_phase (rc_lanes rc ! i)") blast+

lemma agree_step:
  assumes "reception_step rc rc'" and "agree rc ess"
  shows "\<exists>ess'. agree rc' ess'"
  using assms
proof (cases rule: reception_step.cases)
  case (LaneStep i k)
  then have i: "i < 4" using assms(2) by (simp add: agree_def)
  show ?thesis
  proof (cases "k = 0")
    case False
    with agree_action [OF assms(2) i LaneStep(2)] LaneStep(3) show ?thesis by (metis neq0_conv Inr_inject)
  next
    case True
    show ?thesis
    proof (cases "ln_phase (rc_lanes rc ! i)")
      case (LanePayload r)
      with True LaneStep(3) show ?thesis
        by (auto simp: lane_action_def lane_payload_def Let_def split: if_splits)
    next
      case LaneStart
      with agree_start [OF assms(2) i] LaneStep(3) show ?thesis by (metis Inr_inject)
    next
      case LaneExtents
      with agree_extents [OF assms(2) i] LaneStep(3) show ?thesis by (metis Inr_inject)
    qed (use LaneStep(2) in simp)
  qed
qed

lemma agree_run:
  "reception_step\<^sup>*\<^sup>* rc rc' \<Longrightarrow> agree rc ess \<Longrightarrow> \<exists>ess'. agree rc' ess'"
  by (induction rule: rtranclp_induct) (auto dest: agree_step)

lemma agree_done:
  assumes old: "agree rc ess" and finished: "all_lanes_done rc"
  shows "reception_outcome rc = Inr ()"
proof -
  have phase: "ln_phase (rc_lanes rc ! j) = LaneDone" if "j < 4" for j
    using finished old that by (simp add: all_lanes_done_def agree_def list_all_length)
  then have "ess ! j = []" if "j < 4" for j
    using agree_lane [OF old that] that by (simp add: lane_ok_def)
  then have empty: "concat ess = []" using old by (auto simp: agree_def in_set_conv_nth)
  have log: "mset (rc_log rc) = mset (all_extents (rc_total_size rc))"
    and linv: "log_inv rc"
    and total: "unat (rc_progress rc) + (\<Sum>l\<leftarrow>rc_lanes rc. pending_bytes (ln_phase l)) =
      (\<Sum>x\<leftarrow>rc_log rc. unat (e_len x))"
    using old empty by (simp_all add: agree_def)
  obtain t where new: "coverage_new (rc_total_size rc) EXTENT_SIZE = Inr t"
    and run: "coverage_record_all t (rc_log rc) = (Inr (), rc_coverage rc)"
    using linv by (auto simp: log_inv_def)
  have "mset (map (\<lambda>e. (unat (e_offset e), unat (e_len e))) (rc_log rc)) =
      image_mset header_pair (mset (rc_log rc))"
    by (simp add: header_pair_def [abs_def])
  also have "\<dots> = mset (extent_grid (unat (rc_total_size rc)) (unat EXTENT_SIZE))"
    by (simp only: log all_extents_grid mset_map [symmetric])
  finally have grid: "mset (map (\<lambda>e. (unat (e_offset e), unat (e_len e))) (rc_log rc)) =
      mset (extent_grid (unat (rc_total_size rc)) (unat EXTENT_SIZE))" .
  obtain t' where t': "coverage_record_all t (rc_log rc) = (Inr (), t')" "coverage_is_complete t' = Inr True"
    using iffD2 [OF coverage_complete_perm [OF new, of "rc_log rc"] grid] by blast
  then have "coverage_is_complete (rc_coverage rc) = Inr True" using run by simp
  moreover have zero: "(\<Sum>l\<leftarrow>rc_lanes rc. pending_bytes (ln_phase l)) = 0"
    using finished by (auto simp: all_lanes_done_def list_all_iff sum_list_nonneg_eq_0_iff)
  have "(\<Sum>x\<leftarrow>rc_log rc. unat (e_len x)) = unat (rc_total_size rc)"
    using log_length_total [of "rc_log rc" "[]"] log by simp
  then have "rc_progress rc = rc_total_size rc"
    using total unfolding zero word_eq_nat_iff by linarith
  moreover have "rc_seen_lanes rc = 15"
  proof (rule bit_eqI)
    fix j assume "possible_bit TYPE(64 word) j"
    have "bit (15 :: u64) j \<longleftrightarrow> j < 4"
      using bit_mask_iff [of 4 j, where ?'a = u64] \<open>possible_bit TYPE(64 word) j\<close>
      by (simp add: mask_eq_exp_minus_1)
    then show "bit (rc_seen_lanes rc) j \<longleftrightarrow> bit (15 :: u64) j"
      using old phase by (auto simp: agree_def)
  qed
  ultimately show ?thesis by (simp add: reception_outcome_def LANE_COUNT_def)
qed

text \<open>Every step takes bytes from a stream, so runs end; they end with all lanes done.\<close>

definition bytes_left :: "reception \<Rightarrow> nat" where
  "bytes_left rc = (\<Sum>l\<leftarrow>rc_lanes rc. length (ln_input l))"

lemma bytes_left_update:
  "i < length ls \<Longrightarrow> length s < length (ln_input (ls ! i)) \<Longrightarrow>
     (\<Sum>l\<leftarrow>ls[i := \<lparr>ln_phase = p, ln_input = s\<rparr>]. length (ln_input l)) < (\<Sum>l\<leftarrow>ls. length (ln_input l))"
proof (induction ls arbitrary: i)
  case (Cons l ls)
  then show ?case by (cases i) auto
qed simp

lemma step_takes_bytes:
  assumes "reception_step rc rc'"
  shows "bytes_left rc' < bytes_left rc"
  using assms
proof (cases rule: reception_step.cases)
  case (LaneStep i k)
  then obtain p s rc0 where "rc' = set_lane i p s rc0" "rc_lanes rc0 = rc_lanes rc"
    "length s < length (ln_input (rc_lanes rc ! i))"
    by (cases "ln_phase (rc_lanes rc ! i)")
       (fastforce simp: lane_action_def lane_start_def lane_next_extent_def lane_payload_def Let_def
         LANE_HEADER_LEN_def EXTENT_HEADER_LEN_def
         split: if_splits sum.splits prod.splits)+
  with LaneStep(1) show ?thesis by (simp add: bytes_left_def bytes_left_update)
qed

lemma agree_finishes: "agree rc ess \<Longrightarrow> \<exists>rc'. reception_step\<^sup>*\<^sup>* rc rc' \<and> all_lanes_done rc'"
proof (induction "bytes_left rc" arbitrary: rc ess rule: less_induct)
  case less
  show ?case
  proof (cases "all_lanes_done rc")
    case False
    then obtain i where i: "i < length (rc_lanes rc)" "ln_phase (rc_lanes rc ! i) \<noteq> LaneDone"
      by (auto simp: all_lanes_done_def list_all_length)
    then have "i < 4" using less.prems by (simp add: agree_def)
    then obtain rc' ess' where act: "lane_action 1 i rc = Inr rc'" and new: "agree rc' ess'"
      using agree_action [OF less.prems _ i(2), of 1] by auto
    have step: "reception_step rc rc'" using i act by (rule LaneStep)
    from less.hyps [OF step_takes_bytes [OF step] new] step show ?thesis
      by (meson converse_rtranclp_into_rtranclp)
  qed blast
qed

lemma reception_new_agree:
  assumes "0 < tot" and "reception_new tot (map (\<lambda>j. send_lane (word_of_nat j) tot) [0..<4]) = Inr rc"
  shows "agree rc (map (sent_extents tot) [0..<4])"
proof -
  have "rc_lanes rc = map (\<lambda>s. \<lparr>ln_phase = LaneStart, ln_input = s\<rparr>)
      (map (\<lambda>j. send_lane (word_of_nat j) tot) [0..<4])"
    and "rc_total_size rc = tot" "rc_seen_lanes rc = 0" "rc_progress rc = 0" "rc_log rc = []"
    using assms(2) by (auto simp: reception_new_def result_simps)
  with reception_new_log [OF assms(2)] assms(1) show ?thesis
    by (auto simp: agree_def lane_ok_def all_extents_def comp_def simp del: upt_Suc)
qed

section \<open>Properties\<close>


lemma sample_reception: "\<exists>rc. reception_new 3 (map (\<lambda>j. send_lane (word_of_nat j) 3) [0..<4]) = Inr rc"
  by (simp add: reception_new_def coverage_new_def EXTENT_SIZE_def del: upt_Suc)


text \<open>A reception that succeeds received the file exactly once: whatever the four streams contain
  and however their bytes interleave, if \<open>receive_memory\<close> accepts, then the extents its lanes
  recorded are a permutation of the extent grid, the byte counter is the declared size, and all
  four lanes appeared.\<close>

theorem reception_exactly_once:
  assumes "reception_new total_size streams = Inr rc" and "reception_step\<^sup>*\<^sup>* rc rc'"
    and "reception_outcome rc' = Inr ()"
  shows "mset (map header_pair (rc_log rc')) = mset (extent_grid (unat total_size) (unat EXTENT_SIZE)) \<and>
         rc_progress rc' = total_size \<and> rc_seen_lanes rc' = 15"
proof -
  have "rc_total_size rc = total_size"
    using assms(1) by (auto simp: reception_new_def result_simps)
  then show ?thesis
    using reception_run_log [OF assms(2) reception_new_log [OF assms(1)]] reception_complete assms(3)
    by simp
qed

theorem reception_exactly_once_witness:
  "\<exists>rc :: reception. mset (map header_pair (rc_log rc)) = mset (extent_grid 3 (unat EXTENT_SIZE)) \<and> rc_progress rc = 3"
proof -
  obtain rc where rc: "reception_new 3 (map (\<lambda>j. send_lane (word_of_nat j) 3) [0..<4]) = Inr rc"
    using sample_reception by blast
  have agree: "agree rc (map (sent_extents 3) [0..<4])" using rc by (intro reception_new_agree) simp_all
  obtain rc' where run: "reception_step\<^sup>*\<^sup>* rc rc'" and fin: "all_lanes_done rc'"
    using agree_finishes [OF agree] by blast
  obtain ess where "agree rc' ess" using agree_run [OF run agree] by blast
  from reception_exactly_once [OF rc run agree_done [OF this fin]] show ?thesis
    by (intro exI [of _ rc']) simp
qed

text \<open>The sender lanes share the file out: for every size the four lanes together send each extent
  of the grid exactly once, and lane \<open>l\<close> sends only extents whose number is \<open>l\<close> modulo four.\<close>

theorem sender_lanes_partition:
  "mset (map header_pair (concat (map (\<lambda>j. lane_extents_from (word_of_nat j) 0 tot) [0..<4]))) =
     mset (extent_grid (unat tot) (unat EXTENT_SIZE)) \<and>
   (\<forall>j < 4. \<forall>x \<in> set (lane_extents_from (word_of_nat j) 0 tot).
      unat (e_offset x) div unat EXTENT_SIZE mod 4 = j)"
proof -
  have fits: "unat tot < 2 ^ 64" using unat_lt64 [of tot] by simp
  have "unat (e_offset x) div unat EXTENT_SIZE mod 4 = j"
    if "j < 4" "x \<in> set (lane_extents_from (word_of_nat j) 0 tot)" for j x
    using memory_lanes.assigned_lane [OF fits that(1), of "header_pair x"] that(2)
    by (simp add: lane_pairs_def header_pair_def)
  then show ?thesis using all_extents_grid [of tot] by (simp add: all_extents_def sent_extents_def [abs_def])
qed

theorem sender_lanes_partition_witness:
  "mset (map header_pair (concat (map (\<lambda>j. lane_extents_from (word_of_nat j) 0 40000000) [0..<4]))) =
     mset [(0, 16777216), (16777216, 16777216), (33554432, 6445568)]"
  using sender_lanes_partition [of 40000000]
  by (simp add: EXTENT_SIZE_def extent_grid_def extent_count_def nat_div_ceil_def extent_len_def
      upt_rec del: upt_Suc)

end
