(* ===== verification/Memory_Session.thy ===== *)
theory Memory_Session
  imports Memory_Agreement
begin

text \<open>
  A memory benchmark session from its hello to its result, \<open>run_session\<close> and \<open>send_memory\<close> of
  crates/winrisef-agent/src/transfer.rs, over the opening in Memory_Transfer and the reception in
  Memory_Reception.

  How a sender lane ends, and what the streams of the control channel answer, are arguments; the
  elapsed time is the reading of the monitor, in nanoseconds.
\<close>

section \<open>The sending side\<close>

datatype lane_end = LanePanicked | LaneFailed | LaneSent

datatype payload_error =
    SenderLanePanicked
  | SenderLaneFailed
  | SenderCountWrong
  | ReceptionFailed receive_error

text \<open>The lanes are joined in the order in which they end; the first failure ends the sending.\<close>

fun join_lanes :: "lane_end list \<Rightarrow> payload_error + unit" where
  "join_lanes [] = Inr ()"
| "join_lanes (LanePanicked # ends) = Inl SenderLanePanicked"
| "join_lanes (LaneFailed # ends) = Inl SenderLaneFailed"
| "join_lanes (LaneSent # ends) = join_lanes ends"

definition send_memory :: "lane_end list \<Rightarrow> u64 \<Rightarrow> hello \<Rightarrow> payload_error + unit" where
  "send_memory ends progress h =
     and_then (join_lanes ends) (\<lambda>_. ensure (progress = h_total_size h) SenderCountWrong)"

text \<open>What a lane adds to the shared counter: the chunks of an extent, each at most a block.\<close>

function add_chunks :: "u64 \<Rightarrow> u64 \<Rightarrow> u64" where
  "add_chunks progress remaining =
     (if remaining = 0 then progress
      else let chunk_len = min remaining (word_of_nat BLOCK_SIZE)
           in add_chunks (progress + chunk_len) (remaining - chunk_len))"
  by auto
termination
proof (relation "measure (\<lambda>(progress, remaining). unat remaining)")
  fix progress remaining chunk_len :: u64
  assume "remaining \<noteq> 0" and chunk: "chunk_len = min remaining (word_of_nat BLOCK_SIZE)"
  then have "chunk_len \<noteq> 0" "chunk_len \<le> remaining" by (auto simp: BLOCK_SIZE_def min_def)
  then show "((progress + chunk_len, remaining - chunk_len), progress, remaining) \<in> measure (\<lambda>(progress, remaining). unat remaining)"
    by (simp add: unat_sub word_le_nat_alt) (metis diff_less le_zero_eq not_gr_zero unat_eq_zero)
qed simp

declare add_chunks.simps [simp del]

definition lane_progress :: "u64 \<Rightarrow> u16 \<Rightarrow> u64 \<Rightarrow> u64" where
  "lane_progress tot lane_id progress = fold (\<lambda>x n. add_chunks n (e_len x)) (lane_extents_from lane_id 0 tot) progress"

lemma add_chunks_sum: "add_chunks progress remaining = progress + remaining"
proof (induction progress remaining rule: add_chunks.induct)
  case (1 progress remaining)
  show ?case
  proof (cases "remaining = 0")
    case False
    with 1 [OF False refl] show ?thesis by (subst add_chunks.simps) (simp add: Let_def)
  qed (simp add: add_chunks.simps)
qed

lemma lane_progress_sum: "lane_progress tot lane_id progress = progress + (\<Sum>x\<leftarrow>lane_extents_from lane_id 0 tot. e_len x)"
proof -
  have "fold (\<lambda>x n. add_chunks n (e_len x)) xs progress = progress + (\<Sum>x\<leftarrow>xs. e_len x)" for xs
    by (induction xs arbitrary: progress) (simp_all add: add_chunks_sum)
  then show ?thesis by (simp add: lane_progress_def)
qed

text \<open>When all lanes are sent, the counter is the declared size, in whatever order they counted.\<close>

lemma sum_e_len: "(\<Sum>x\<leftarrow>xs. e_len x) = word_of_nat (\<Sum>x\<leftarrow>xs. unat (e_len x))"
  by (induction xs) simp_all

lemma all_lanes_progress:
  "fold (lane_progress tot) (map word_of_nat [0..<4]) 0 = tot"
proof -
  have "fold (lane_progress tot) ids n = n + (\<Sum>x\<leftarrow>concat (map (\<lambda>l. lane_extents_from l 0 tot) ids). e_len x)" for ids n
    by (induction ids arbitrary: n) (simp_all add: lane_progress_sum)
  then have "fold (lane_progress tot) (map word_of_nat [0..<4]) 0 = (\<Sum>x\<leftarrow>all_extents tot. e_len x)"
    by (simp add: all_extents_def sent_extents_def [abs_def] comp_def del: upt_Suc)
  also have "\<dots> = word_of_nat (unat tot)"
    using log_length_total [of "all_extents tot" "[]" tot] by (simp add: sum_e_len)
  finally show ?thesis by simp
qed

lemma send_memory_iff:
  "send_memory ends progress h = Inr () \<longleftrightarrow> set ends \<subseteq> {LaneSent} \<and> progress = h_total_size h"
proof -
  have "join_lanes ends = Inr () \<longleftrightarrow> set ends \<subseteq> {LaneSent}" by (induction ends rule: join_lanes.induct) simp_all
  then show ?thesis by (auto simp: send_memory_def result_simps)
qed

section \<open>The session\<close>

datatype stopped = StoppedInTime | StoppedLate | StoppedError

record control_stream =
  cs_ack_sent :: bool
  cs_result_sent :: bool
  cs_finished :: bool
  cs_stopped :: stopped

datatype memory_session_error =
    OpeningFailed session_error
  | AckNotSent
  | ResultNotSent
  | ResultNotConsumed
  | PayloadFailed payload_error

text \<open>After the payload phase: the result frame, the close code and the outcome.  Only what was sent is
  shown.\<close>

definition finish_memory_session ::
  "control_stream \<Rightarrow> payload_error + unit \<Rightarrow> u64 \<Rightarrow> nat \<Rightarrow>
     (memory_session_error + u64) \<times> transfer_result option \<times> nat option" where
  "finish_memory_session c outcome bytes elapsed_nanos =
     (let frame = session_result (is_ok outcome) bytes (word_of_nat (min elapsed_nanos (2 ^ 64 - 1)))
      in if \<not> cs_result_sent c then (Inl ResultNotSent, None, None)
         else if \<not> cs_finished c then (Inl ResultNotSent, Some frame, None)
         else case outcome of
           Inr _ \<Rightarrow> if cs_stopped c \<noteq> StoppedInTime then (Inl ResultNotConsumed, Some frame, None)
                    else (Inr bytes, Some frame, Some 0)
         | Inl e \<Rightarrow> (Inl (PayloadFailed e), Some frame, Some 1))"

text \<open>\<open>payload\<close> is the payload phase with the reading of its counter.\<close>

definition run_memory_session ::
  "int \<Rightarrow> u64 \<Rightarrow> bytes \<Rightarrow> control_stream \<Rightarrow> (hello \<Rightarrow> (payload_error + unit) \<times> u64) \<Rightarrow> nat \<Rightarrow> transfer_authenticator \<Rightarrow>
     ((memory_session_error + u64) \<times> transfer_result option \<times> nat option) \<times> hello_ack list \<times> transfer_authenticator" where
  "run_memory_session t max_transfer_size stream c payload elapsed_nanos a =
     (case session_open t max_transfer_size stream a of
        (Inl e, acks, a') \<Rightarrow> ((Inl (OpeningFailed e), None, None), if cs_ack_sent c then acks else [], a')
      | (Inr h, acks, a') \<Rightarrow>
          if \<not> cs_ack_sent c then ((Inl AckNotSent, None, None), [], a')
          else case payload h of (outcome, bytes) \<Rightarrow> (finish_memory_session c outcome bytes elapsed_nanos, acks, a'))"

text \<open>The payload phase of a session: the reception of what the streams carry, or the sending.  The lanes
  count concurrently, and additions commute; what a counter holds after a failure is left open.\<close>

inductive payload_of :: "bytes list \<Rightarrow> lane_end list \<Rightarrow> hello \<Rightarrow> (payload_error + unit) \<times> u64 \<Rightarrow> bool"
  for streams ends h where
    Received: "h_direction h = BrowserToAgentMemory \<Longrightarrow> reception_new (h_total_size h) streams = Inr rc \<Longrightarrow>
      reception_step\<^sup>*\<^sup>* rc rc' \<Longrightarrow> all_lanes_done rc' \<Longrightarrow>
      payload_of streams ends h (case reception_outcome rc' of Inl e \<Rightarrow> Inl (ReceptionFailed e) | Inr _ \<Rightarrow> Inr (), rc_progress rc')"
  | LaneBroke: "h_direction h = BrowserToAgentMemory \<Longrightarrow> reception_new (h_total_size h) streams = Inr rc \<Longrightarrow>
      reception_step\<^sup>*\<^sup>* rc rc' \<Longrightarrow> i < length (rc_lanes rc') \<Longrightarrow> lane_action k i rc' = Inl e \<Longrightarrow>
      payload_of streams ends h (Inl (ReceptionFailed e), rc_progress rc')"
  | NoCoverage: "h_direction h = BrowserToAgentMemory \<Longrightarrow> reception_new (h_total_size h) streams = Inl e \<Longrightarrow>
      payload_of streams ends h (Inl (ReceptionFailed (RecordFailed e)), 0)"
  | Sent: "h_direction h = AgentToBrowserMemory \<Longrightarrow> length ends = LANE_COUNT \<Longrightarrow>
      (set ends \<subseteq> {LaneSent} \<Longrightarrow> progress = fold (lane_progress (h_total_size h)) (map word_of_nat [0..<4]) 0) \<Longrightarrow>
      payload_of streams ends h (send_memory ends progress h, progress)"

lemma memory_session_frame:
  assumes "run_memory_session t max_transfer_size stream c payload elapsed_nanos a = ((Inr bytes, frame, code), acks, a')"
  obtains h where "hello_decode (take HELLO_LEN stream) = Inr h"
    and "fst (authenticator_consume t (h_token h) a) = Inr True" and "valid_configuration h max_transfer_size"
    and "acks = [ack_for h Accepted]" and "payload h = (Inr (), bytes)" and "code = Some 0"
    and "frame = Some (session_result True bytes (word_of_nat (min elapsed_nanos (2 ^ 64 - 1))))"
  using assms
  by (auto simp: run_memory_session_def session_open_def finish_memory_session_def Let_def
      split: if_splits sum.splits prod.splits bool.splits)

text \<open>C8.  A memory benchmark session that ends well did everything it stands for: its hello decoded, its
  token was accepted, its configuration is the fixed one, the result frame the page got says accepted
  with the declared size, and the session was closed as complete; in an upload the recorded extents
  are a permutation of the grid, in a download all four lanes were sent to their end.\<close>
theorem memory_session_succeeds:
  assumes "run_memory_session t max_transfer_size stream c payload elapsed_nanos a = ((Inr bytes, frame, code), acks, a')"
    and "\<forall>h. hello_decode (take HELLO_LEN stream) = Inr h \<longrightarrow> payload_of streams ends h (payload h)"
  shows "\<exists>h. hello_decode (take HELLO_LEN stream) = Inr h \<and> fst (authenticator_consume t (h_token h) a) = Inr True \<and>
           valid_configuration h max_transfer_size \<and> acks = [ack_for h Accepted] \<and> bytes = h_total_size h \<and> code = Some 0 \<and>
           map_option r_status frame = Some Accepted \<and> map_option r_bytes frame = Some (h_total_size h) \<and>
           (case h_direction h of
              BrowserToAgentMemory \<Rightarrow> \<exists>rc rc'. reception_new (h_total_size h) streams = Inr rc \<and> reception_step\<^sup>*\<^sup>* rc rc' \<and>
                mset (map header_pair (rc_log rc')) = mset (extent_grid (unat (h_total_size h)) (unat EXTENT_SIZE))
            | AgentToBrowserMemory \<Rightarrow> ends = replicate LANE_COUNT LaneSent)"
proof -
  from memory_session_frame [OF assms(1)] obtain h where h: "hello_decode (take HELLO_LEN stream) = Inr h"
    "fst (authenticator_consume t (h_token h) a) = Inr True" "valid_configuration h max_transfer_size"
    "acks = [ack_for h Accepted]" "payload h = (Inr (), bytes)" "code = Some 0"
    "frame = Some (session_result True bytes (word_of_nat (min elapsed_nanos (2 ^ 64 - 1))))" by blast
  from assms(2) h(1,5) have "payload_of streams ends h (Inr (), bytes)" by metis
  then have "bytes = h_total_size h \<and> (case h_direction h of
      BrowserToAgentMemory \<Rightarrow> \<exists>rc rc'. reception_new (h_total_size h) streams = Inr rc \<and> reception_step\<^sup>*\<^sup>* rc rc' \<and>
        mset (map header_pair (rc_log rc')) = mset (extent_grid (unat (h_total_size h)) (unat EXTENT_SIZE))
    | AgentToBrowserMemory \<Rightarrow> ends = replicate LANE_COUNT LaneSent)"
  proof (cases rule: payload_of.cases)
    case (Received rc rc')
    then have outcome: "reception_outcome rc' = Inr ()" by (cases "reception_outcome rc'") simp_all
    have "rc_total_size rc = h_total_size h" using Received by (auto simp: reception_new_def result_simps)
    have "reception_step\<^sup>*\<^sup>* rc rc'" and "reception_new (h_total_size h) streams = Inr rc" using Received by simp_all
    note run = reception_run_log [OF this(1) reception_new_log [OF this(2)]]
    with \<open>rc_total_size rc = _\<close> reception_complete [OF _ outcome] Received
    show ?thesis by auto
  next
    case Sent
    then have "send_memory ends bytes h = Inr ()" by simp
    then have "set ends \<subseteq> {LaneSent}" "bytes = h_total_size h" by (simp_all add: send_memory_iff)
    moreover have "ends = replicate LANE_COUNT LaneSent"
      using \<open>set ends \<subseteq> {LaneSent}\<close> Sent(3) by (intro replicate_eqI) auto
    ultimately show ?thesis using Sent by simp
  qed
  with h show ?thesis by (intro exI [of _ h]) (simp add: session_result_def)
qed

definition download_hello :: hello where
  "download_hello = \<lparr>h_direction = AgentToBrowserMemory, h_lanes = 4, h_block_size = 4194304,
     h_extent_size = 16777216, h_total_size = 3, h_token = replicate 16 7\<rparr>"

lemma memory_session_succeeds_witness:
  "\<exists>frame. run_memory_session 5 100 (hello_encode download_hello)
       \<lparr>cs_ack_sent = True, cs_result_sent = True, cs_finished = True, cs_stopped = StoppedInTime\<rparr>
       (\<lambda>h. (send_memory (replicate LANE_COUNT LaneSent) 3 h, 3)) 9 (FixedToken (replicate 16 7)) =
     ((Inr 3, frame, Some 0), [ack_for download_hello Accepted], FixedToken (replicate 16 7)) \<and>
   map_option r_status frame = Some Accepted"
proof -
  let ?payload = "\<lambda>h. (send_memory (replicate LANE_COUNT LaneSent) 3 h, 3)"
  have len: "length (hello_encode download_hello) = HELLO_LEN"
    by (rule length_encodings(1)) (simp add: hello_wf_def download_hello_def)
  have decode: "hello_decode (hello_encode download_hello) = Inr download_hello"
    using hello_decode_encode [of download_hello]
    by (simp add: hello_wf_def hello_validate_def is_multiple_of_def download_hello_def)
  have token: "authenticator_consume 5 (h_token download_hello) (FixedToken (replicate 16 7)) = (Inr True, FixedToken (replicate 16 7))"
    by (simp add: authenticator_consume_def download_hello_def constant_time_equal_iff)
  have valid: "valid_configuration download_hello 100"
    by (simp add: valid_configuration_def download_hello_def LANE_COUNT_def BLOCK_SIZE_def EXTENT_SIZE_def)
  have sent: "send_memory (replicate LANE_COUNT LaneSent) 3 download_hello = Inr ()"
    by (simp add: send_memory_iff download_hello_def LANE_COUNT_def)
  obtain frame where run: "run_memory_session 5 100 (hello_encode download_hello)
       \<lparr>cs_ack_sent = True, cs_result_sent = True, cs_finished = True, cs_stopped = StoppedInTime\<rparr>
       ?payload 9 (FixedToken (replicate 16 7)) =
     ((Inr 3, frame, Some 0), [ack_for download_hello Accepted], FixedToken (replicate 16 7))"
    using len decode sent token valid
    by (simp add: run_memory_session_def session_open_def finish_memory_session_def Let_def)
  have "payload_of [] (replicate LANE_COUNT LaneSent) download_hello (?payload download_hello)"
    using all_lanes_progress [of 3] by (intro Sent) (simp_all add: download_hello_def)
  then have "\<forall>h. hello_decode (take HELLO_LEN (hello_encode download_hello)) = Inr h \<longrightarrow>
      payload_of [] (replicate LANE_COUNT LaneSent) h (?payload h)"
    using len decode by simp
  from memory_session_succeeds [OF run this] run show ?thesis by blast
qed

end
