(* ===== verification/Scheduler.thy ===== *)
theory Scheduler
  imports Extent_Grid
begin

text \<open>
  The atomic extent scheduler, crates/winrisef-core/src/scheduler.rs.  The counter is advanced
  with a wrapping fetch-and-add, so the order in which threads call \<open>next\<close> is the order of the
  calls here.
\<close>

section \<open>Model\<close>

record extent =
  x_offset :: u64
  x_len :: u64

datatype scheduler_error = EmptyTransfer | EmptyExtent

record extent_scheduler =
  es_total_size :: u64
  es_extent_size :: u64
  es_next_offset :: u64

definition scheduler_new :: "u64 \<Rightarrow> u64 \<Rightarrow> scheduler_error + extent_scheduler" where
  "scheduler_new total_size extent_size =
     (if total_size = 0 then Inl EmptyTransfer
      else if extent_size = 0 then Inl EmptyExtent
      else Inr \<lparr>es_total_size = total_size, es_extent_size = extent_size, es_next_offset = 0\<rparr>)"

definition scheduler_next :: "extent_scheduler \<Rightarrow> extent option \<times> extent_scheduler" where
  "scheduler_next s =
     (let offset = es_next_offset s;
          s' = s\<lparr>es_next_offset := es_next_offset s + es_extent_size s\<rparr>
      in if es_total_size s \<le> offset then (None, s')
         else (Some \<lparr>x_offset = offset,
                     x_len = min (es_extent_size s) (es_total_size s - offset)\<rparr>, s'))"

text \<open>The answers to \<open>n\<close> calls.\<close>

fun scheduler_calls :: "nat \<Rightarrow> extent_scheduler \<Rightarrow> extent option list" where
  "scheduler_calls 0 s = []"
| "scheduler_calls (Suc n) s = (let (x, s') = scheduler_next s in x # scheduler_calls n s')"

section \<open>Scheduling the grid\<close>

definition extent_pair :: "extent \<Rightarrow> nat \<times> nat" where
  "extent_pair x = (unat (x_offset x), unat (x_len x))"

definition grid_slot :: "nat \<Rightarrow> nat \<Rightarrow> nat \<Rightarrow> (nat \<times> nat) option" where
  "grid_slot tot ext i = (if i * ext < tot then Some (i * ext, extent_len tot ext i) else None)"

lemma scheduler_next_slot:
  assumes "unat (es_next_offset s) = i * unat (es_extent_size s)"
  shows "map_option extent_pair (fst (scheduler_next s)) =
           grid_slot (unat (es_total_size s)) (unat (es_extent_size s)) i"
  using assms
  by (simp add: scheduler_next_def grid_slot_def Let_def extent_pair_def extent_len_def
      word_le_nat_alt unat_simps)

lemma scheduler_calls_slots:
  assumes "unat (es_next_offset s) = i * unat (es_extent_size s)"
    and "(i + n) * unat (es_extent_size s) < 2 ^ 64 + unat (es_extent_size s)"
  shows "map (map_option extent_pair) (scheduler_calls n s) =
           map (grid_slot (unat (es_total_size s)) (unat (es_extent_size s))) [i..<i + n]"
  using assms
proof (induction n arbitrary: s i)
  case (Suc n)
  let ?ext = "unat (es_extent_size s)"
  obtain x s' where nx: "scheduler_next s = (x, s')" by fastforce
  then have s': "s' = s\<lparr>es_next_offset := es_next_offset s + es_extent_size s\<rparr>"
    by (auto simp: scheduler_next_def Let_def split: if_splits)
  have head: "map_option extent_pair x =
      grid_slot (unat (es_total_size s)) ?ext i"
    using scheduler_next_slot [OF Suc.prems(1)] nx by simp
  show ?case
  proof (cases "n = 0")
    case True
    with head nx show ?thesis by simp
  next
    case False
    then have "Suc i * ?ext \<le> (i + n) * ?ext" by (intro mult_le_mono1) simp
    also have "\<dots> < 2 ^ 64" using Suc.prems(2) by simp
    finally have "unat (es_next_offset s') = Suc i * ?ext"
      using Suc.prems(1) by (simp add: s' unat_simps)
    moreover have "(Suc i + n) * ?ext < 2 ^ 64 + ?ext" using Suc.prems(2) by simp
    ultimately have "map (map_option extent_pair) (scheduler_calls n s') =
        map (grid_slot (unat (es_total_size s)) ?ext) [Suc i..<Suc i + n]"
      using Suc.IH [of s' "Suc i"] by (simp add: s')
    moreover have "[i..<i + Suc n] = i # [Suc i..<Suc i + n]" by (simp add: upt_rec)
    ultimately show ?thesis using head nx by simp
  qed
qed simp

lemma map_grid_slot_grid:
  assumes "0 < ext"
  shows "map (grid_slot tot ext) [0..<extent_count tot ext] = map Some (extent_grid tot ext)"
  by (auto simp: extent_grid_def grid_slot_def less_extent_count_iff [OF assms])

lemma map_grid_slot_end:
  assumes "0 < ext"
  shows "map (grid_slot tot ext) [extent_count tot ext..<n] = replicate (n - extent_count tot ext) None"
  using less_extent_count_iff [OF assms, of _ tot]
  by (intro nth_equalityI) (auto simp: grid_slot_def)

section \<open>Properties\<close>

text \<open>As long as the atomic counter does not wrap, the first calls to \<open>next\<close> hand out exactly
  the extents of the transfer in file order, and every later call answers that there is none.\<close>

theorem scheduler_hands_out_grid:
  assumes "scheduler_new total_size extent_size = Inr s"
    and "n * unat extent_size < 2 ^ 64 + unat extent_size"
    and "extent_count (unat total_size) (unat extent_size) \<le> n"
  shows "map (map_option extent_pair) (scheduler_calls n s) =
           map Some (extent_grid (unat total_size) (unat extent_size)) @
           replicate (n - extent_count (unat total_size) (unat extent_size)) None"
proof -
  let ?c = "extent_count (unat total_size) (unat extent_size)"
  from assms(1) have s: "es_total_size s = total_size" "es_extent_size s = extent_size"
    "es_next_offset s = 0" and ext: "0 < unat extent_size"
    by (auto simp: scheduler_new_def word_pos_iff split: if_splits)
  have "map (map_option extent_pair) (scheduler_calls n s) =
      map (grid_slot (unat total_size) (unat extent_size)) [0..<n]"
    using scheduler_calls_slots [of s 0 n] assms(2) s by simp
  also have "[0..<n] = [0..<?c] @ [?c..<n]"
    using assms(3) by (metis le_add_diff_inverse upt_add_eq_append zero_le)
  finally show ?thesis
    by (simp add: map_grid_slot_grid [OF ext] map_grid_slot_end [OF ext])
qed

theorem scheduler_hands_out_grid_witness:
  "map (map_option extent_pair)
     (scheduler_calls 4 \<lparr>es_total_size = 150, es_extent_size = 64, es_next_offset = 0\<rparr>) =
   map Some [(0, 64), (64, 64), (128, 22)] @ [None]"
  using scheduler_hands_out_grid [of 150 64 "\<lparr>es_total_size = 150, es_extent_size = 64, es_next_offset = 0\<rparr>" 4]
  by (simp add: scheduler_new_def extent_count_def nat_div_ceil_def extent_grid_def extent_len_def upt_rec)

text \<open>Past \<open>2 ^ 64\<close> the counter wraps: with extents of \<open>2 ^ 63\<close> bytes the third call to
  \<open>next\<close> hands the first extent out a second time, and no call ever answers that there is none.\<close>

theorem scheduler_wraps:
  "scheduler_calls 4 \<lparr>es_total_size = 2 ^ 63 + 1, es_extent_size = 2 ^ 63, es_next_offset = 0\<rparr> =
     [Some \<lparr>x_offset = 0, x_len = 2 ^ 63\<rparr>, Some \<lparr>x_offset = 2 ^ 63, x_len = 1\<rparr>,
      Some \<lparr>x_offset = 0, x_len = 2 ^ 63\<rparr>, Some \<lparr>x_offset = 2 ^ 63, x_len = 1\<rparr>]"
  by code_simp

end
