(* ===== verification/Startup.thy ===== *)
theory Startup
  imports Launch
begin

text \<open>
  What the agent does before and around a launch: trusted origins of the command line (cli.rs), the
  certificate (certificate.rs), the registration of the protocol (protocol_registration.rs), the
  first run (bootstrap.rs, main.rs) and the enumeration of the addresses (network_endpoints.rs).

  The url crate, the text of an address, the programs reg.exe and rundll32.exe and the call
  GetAdaptersAddresses are arguments.
\<close>

section \<open>Trusted origins\<close>

datatype cli_error = OriginNotUrl | OriginNotExact | OriginNotSecure

definition parse_trusted_origin :: "(string \<Rightarrow> url_view option) \<Rightarrow> string \<Rightarrow> cli_error + string" where
  "parse_trusted_origin url_parse v =
     (case url_parse v of
        None \<Rightarrow> Inl OriginNotUrl
      | Some url \<Rightarrow>
          if url_origin url \<noteq> v then Inl OriginNotExact
          else let loopback = is_loopback_host (url_host_str url)
               in if url_scheme url \<noteq> ''https'' \<and> \<not> (url_scheme url = ''http'' \<and> loopback) then Inl OriginNotSecure
                  else Inr v)"

text \<open>The command line accepts exactly the origins that the server accepts.\<close>

lemma parse_trusted_origin_iff: "parse_trusted_origin url_parse v = Inr w \<longleftrightarrow> w = v \<and> valid_origin url_parse v"
  by (auto simp: parse_trusted_origin_def valid_origin_def Let_def split: option.splits)

section \<open>The certificate\<close>

definition add_name :: "string \<Rightarrow> string list \<Rightarrow> string list" where
  "add_name name names = (if name \<in> set names then names else names @ [name])"

definition certificate_names :: "(ip_addr \<Rightarrow> string) \<Rightarrow> ip_addr list \<Rightarrow> string list" where
  "certificate_names show_ip additional_ips =
     fold (\<lambda>ip. add_name (show_ip ip)) additional_ips [''localhost'', ''127.0.0.1'', ''::1'']"

text \<open>From \<open>not_before\<close> to \<open>not_after\<close>, in seconds.\<close>

definition certificate_validity :: "int \<Rightarrow> int \<times> int" where
  "certificate_validity now = (now - 5 * 60, now + 13 * 24 * 3600)"

lemma certificate_names_spec:
  "distinct (certificate_names show_ip ips) \<and>
   set (certificate_names show_ip ips) = {''localhost'', ''127.0.0.1'', ''::1''} \<union> show_ip ` set ips"
proof -
  have "distinct names \<Longrightarrow> distinct (fold (\<lambda>ip. add_name (show_ip ip)) ips names) \<and>
      set (fold (\<lambda>ip. add_name (show_ip ip)) ips names) = set names \<union> show_ip ` set ips" for names
    by (induction ips arbitrary: names) (auto simp: add_name_def)
  from this [of "[''localhost'', ''127.0.0.1'', ''::1'']"] show ?thesis by (simp add: certificate_names_def)
qed

text \<open>A browser accepts a certificate by its hash only when it is valid for at most two weeks.\<close>

lemma certificate_valid_two_weeks:
  "case certificate_validity now of (not_before, not_after) \<Rightarrow>
     not_before \<le> now \<and> now \<le> not_after \<and> not_after - not_before \<le> 14 * 24 * 3600"
  by (simp add: certificate_validity_def)

section \<open>The registration\<close>

datatype registration_error = NoAgentPath | AgentPathNotUnicode | RegFailed | RegRefused | OnlyOnWindows

type_synonym 's reg_tool = "string list \<Rightarrow> 's \<Rightarrow> (unit + bool) \<times> 's"

definition quote_char :: char where "quote_char = CHR 0x22"

definition launch_command :: "string \<Rightarrow> string list \<Rightarrow> string" where
  "launch_command executable trusted_origins =
     quote_char # executable @ quote_char # '' launch '' @ quote_char # ''%1'' @ [quote_char] @
     concat (map (\<lambda>origin. '' --trusted-origin '' @ quote_char # origin @ [quote_char]) trusted_origins)"

definition PROTOCOL_KEY :: string where
  "PROTOCOL_KEY = ''HKCU'' @ [CHR 0x5C] @ ''Software'' @ [CHR 0x5C] @ ''Classes'' @ [CHR 0x5C] @ ''winrisef''"

definition COMMAND_KEY :: string where
  "COMMAND_KEY = PROTOCOL_KEY @ [CHR 0x5C] @ ''shell'' @ [CHR 0x5C] @ ''open'' @ [CHR 0x5C] @ ''command''"

definition reg_add_args :: "string \<Rightarrow> string option \<Rightarrow> string \<Rightarrow> string list" where
  "reg_add_args key value_name data =
     [''add'', key] @ (case value_name of Some name \<Rightarrow> [''/v'', name] | None \<Rightarrow> [''/ve'']) @ [''/d'', data, ''/f'']"

definition run_reg :: "'s reg_tool \<Rightarrow> string list \<Rightarrow> 's \<Rightarrow> (registration_error + unit) \<times> 's" where
  "run_reg reg args s =
     (case reg args s of
        (Inl _, s') \<Rightarrow> (Inl RegFailed, s')
      | (Inr success, s') \<Rightarrow> (if success then Inr () else Inl RegRefused, s'))"

fun reg_adds :: "'s reg_tool \<Rightarrow> string list list \<Rightarrow> 's \<Rightarrow> (registration_error + unit) \<times> 's" where
  "reg_adds reg [] s = (Inr (), s)"
| "reg_adds reg (args # more_args) s =
     (case run_reg reg args s of (Inl e, s') \<Rightarrow> (Inl e, s') | (Inr _, s') \<Rightarrow> reg_adds reg more_args s')"

definition register_entries :: "string \<Rightarrow> string list \<Rightarrow> string list list" where
  "register_entries executable trusted_origins =
     [reg_add_args PROTOCOL_KEY None ''URL:WinriseF Native Transfer'', reg_add_args PROTOCOL_KEY (Some ''URL Protocol'') [],
      reg_add_args COMMAND_KEY None (launch_command executable trusted_origins)]"

definition register ::
  "bool \<Rightarrow> 's reg_tool \<Rightarrow> string option option \<Rightarrow> string list \<Rightarrow> 's \<Rightarrow> (registration_error + unit) \<times> 's" where
  "register windows reg executable trusted_origins s =
     (if \<not> windows then (Inl OnlyOnWindows, s)
      else case executable of
        None \<Rightarrow> (Inl NoAgentPath, s)
      | Some None \<Rightarrow> (Inl AgentPathNotUnicode, s)
      | Some (Some path) \<Rightarrow> reg_adds reg (register_entries path trusted_origins) s)"

definition unregister :: "bool \<Rightarrow> 's reg_tool \<Rightarrow> 's \<Rightarrow> (registration_error + unit) \<times> 's" where
  "unregister windows reg s =
     (if \<not> windows then (Inl OnlyOnWindows, s) else run_reg reg [''delete'', PROTOCOL_KEY, ''/f''] s)"

text \<open>How a command line of quoted arguments is read: a quotation mark opens or closes an argument, as
  long as no backslash stands before it.\<close>

fun read_arguments :: "bool \<Rightarrow> string \<Rightarrow> string \<Rightarrow> string list" where
  "read_arguments inside word [] = (if word = [] then [] else [rev word])"
| "read_arguments inside word (c # s) =
     (if c = quote_char then (if inside then rev word # read_arguments False [] s else read_arguments True word s)
      else if c = CHR '' '' \<and> \<not> inside then (if word = [] then [] else [rev word]) @ read_arguments False [] s
      else read_arguments inside (c # word) s)"

lemma read_inside:
  "quote_char \<notin> set a \<Longrightarrow> read_arguments True word (a @ quote_char # s) = (rev word @ a) # read_arguments False [] s"
  by (induction a arbitrary: word) auto

lemma read_quoted: "quote_char \<notin> set a \<Longrightarrow> read_arguments False [] (quote_char # a @ quote_char # s) = a # read_arguments False [] s"
  by (simp add: read_inside)

lemma read_plain:
  "quote_char \<notin> set a \<Longrightarrow> CHR '' '' \<notin> set a \<Longrightarrow> a \<noteq> [] \<Longrightarrow>
     read_arguments False [] (a @ CHR '' '' # s) = a # read_arguments False [] s"
proof -
  have "quote_char \<notin> set a \<Longrightarrow> CHR '' '' \<notin> set a \<Longrightarrow> word @ a \<noteq> [] \<Longrightarrow>
      read_arguments False (rev word) (a @ CHR '' '' # s) = (word @ a) # read_arguments False [] s" for word
  proof (induction a arbitrary: word)
    case (Cons c a)
    then have "c \<noteq> quote_char" "c \<noteq> CHR '' ''" by auto
    with Cons.IH [of "word @ [c]"] Cons.prems show ?case by simp
  qed (simp add: quote_char_def)
  from this [of "[]"] show "quote_char \<notin> set a \<Longrightarrow> CHR '' '' \<notin> set a \<Longrightarrow> a \<noteq> [] \<Longrightarrow>
     read_arguments False [] (a @ CHR '' '' # s) = a # read_arguments False [] s" by simp
qed

text \<open>The command that Windows runs for a link of the protocol is read as the agent, its \<open>launch\<close>
  command, the link as one argument, and each trusted origin as the value of its own option, whatever
  spaces the path of the agent has.\<close>
theorem registered_command_reads_back:
  assumes "quote_char \<notin> set executable" and "\<forall>origin \<in> set trusted_origins. quote_char \<notin> set origin"
  shows "read_arguments False [] (launch_command executable trusted_origins) =
           [executable, ''launch'', ''%1''] @ concat (map (\<lambda>origin. [''--trusted-origin'', origin]) trusted_origins)"
proof -
  have plain: "quote_char \<notin> set ''launch''" "CHR '' '' \<notin> set ''launch''" "quote_char \<notin> set ''--trusted-origin''"
    "CHR '' '' \<notin> set ''--trusted-origin''" "quote_char \<notin> set ''%1''" "quote_char \<noteq> CHR '' ''"
    by (simp_all add: quote_char_def)
  have space: "read_arguments False [] (CHR '' '' # s) = read_arguments False [] s" for s
    using plain(6) by simp
  have origins: "read_arguments False []
      (concat (map (\<lambda>origin. '' --trusted-origin '' @ quote_char # origin @ [quote_char]) trusted_origins)) =
    concat (map (\<lambda>origin. [''--trusted-origin'', origin]) trusted_origins)"
    using assms(2)
  proof (induction trusted_origins)
    case (Cons origin origins)
    let ?rest = "concat (map (\<lambda>origin. '' --trusted-origin '' @ quote_char # origin @ [quote_char]) origins)"
    have "'' --trusted-origin '' @ quote_char # origin @ quote_char # ?rest =
        CHR '' '' # ''--trusted-origin'' @ CHR '' '' # quote_char # origin @ quote_char # ?rest" by simp
    then have "read_arguments False [] ('' --trusted-origin '' @ quote_char # origin @ quote_char # ?rest) =
        ''--trusted-origin'' # origin # read_arguments False [] ?rest"
      unfolding \<open>_ = CHR '' '' # _\<close> space using Cons.prems
      by (subst read_plain [OF plain(3,4)]) (simp_all add: read_quoted del: read_arguments.simps)
    with Cons show ?case by simp
  qed simp
  let ?rest = "concat (map (\<lambda>origin. '' --trusted-origin '' @ quote_char # origin @ [quote_char]) trusted_origins)"
  have "launch_command executable trusted_origins =
      quote_char # executable @ quote_char # CHR '' '' # ''launch'' @ CHR '' '' # quote_char # ''%1'' @ quote_char # ?rest"
    by (simp add: launch_command_def)
  then show ?thesis
    using read_quoted [OF assms(1)] space read_plain [OF plain(1,2)] read_quoted [OF plain(5)] origins
    by (simp del: read_arguments.simps append_Cons)
qed

lemma registered_command_reads_back_witness:
  "read_arguments False [] (launch_command ''C:/My Tools/agent.exe'' [''https://a.b'']) =
     [''C:/My Tools/agent.exe'', ''launch'', ''%1'', ''--trusted-origin'', ''https://a.b'']"
  using registered_command_reads_back [of "''C:/My Tools/agent.exe''" "[''https://a.b'']"] by (simp add: quote_char_def)

text \<open>The three entries are written in their order, up to the first that fails.\<close>

lemma reg_adds_ok:
  "reg_adds reg entries s = (Inr (), s') \<Longrightarrow>
     \<forall>args \<in> set entries. \<exists>t t'. reg args t = (Inr True, t')"
  by (induction entries arbitrary: s) (fastforce simp: run_reg_def split: prod.splits sum.splits if_splits)+

section \<open>The first run\<close>

definition READY_URL :: string where "READY_URL = ''https://e.winrisef.top/toolbox/agent?agent-ready=1''"
definition FAILED_URL :: string where "FAILED_URL = ''https://e.winrisef.top/toolbox/agent?agent-ready=0''"

datatype bootstrap_error = ReadyPageFailed | RegistrationFailed registration_error

definition open_page :: "bool \<Rightarrow> (string \<Rightarrow> 's \<Rightarrow> bool \<times> 's) \<Rightarrow> string \<Rightarrow> 's \<Rightarrow> bool \<times> 's" where
  "open_page windows browse url s = (if windows then browse url s else (False, s))"

definition bootstrap_run ::
  "bool \<Rightarrow> 's reg_tool \<Rightarrow> (string \<Rightarrow> 's \<Rightarrow> bool \<times> 's) \<Rightarrow> string option option \<Rightarrow> 's \<Rightarrow> (bootstrap_error + unit) \<times> 's" where
  "bootstrap_run windows reg browse executable s =
     (case register windows reg executable [] s of
        (Inr _, s1) \<Rightarrow> (case open_page windows browse READY_URL s1 of
            (opened, s2) \<Rightarrow> (if opened then Inr () else Inl ReadyPageFailed, s2))
      | (Inl e, s1) \<Rightarrow> (Inl (RegistrationFailed e), snd (open_page windows browse FAILED_URL s1)))"

datatype agent_command =
    Serve
  | LaunchUri string
  | RegisterProtocol "string list"
  | UnregisterProtocol

datatype agent_start = Bootstrap | Refused | Run agent_command

text \<open>\<open>parse\<close> is the parser of the arguments.\<close>

definition agent_main :: "(string list \<Rightarrow> agent_command option) \<Rightarrow> string list \<Rightarrow> agent_start" where
  "agent_main parse args =
     (case args of [] \<Rightarrow> Bootstrap | _ \<Rightarrow> (case parse args of None \<Rightarrow> Refused | Some command \<Rightarrow> Run command))"

text \<open>The first run shows the ready page only after every entry of the registration was written.\<close>

lemma ready_page_after_registration:
  assumes "bootstrap_run True reg browse (Some (Some path)) s = (Inr (), s')"
  shows "\<exists>s1. reg_adds reg (register_entries path []) s = (Inr (), s1) \<and> browse READY_URL s1 = (True, s')"
  using assms by (auto simp: bootstrap_run_def register_def open_page_def split: prod.splits sum.splits if_splits)

section \<open>The addresses of the adapters\<close>

datatype socket_address = NoAddress | Inet bytes | Inet6 bytes | OtherFamily

definition big_endian :: "bytes \<Rightarrow> nat" where
  "big_endian bs = foldl (\<lambda>n b. n * 256 + unat b) 0 bs"

definition socket_address_to_ip :: "socket_address \<Rightarrow> ip_addr option" where
  "socket_address_to_ip a =
     (case a of
        Inet octets \<Rightarrow> Some (V4 (word_of_nat (big_endian octets)))
      | Inet6 octets \<Rightarrow> Some (V6 (word_of_nat (big_endian octets)))
      | _ \<Rightarrow> None)"

record adapter =
  ad_up :: bool
  ad_unicast :: "(bool \<times> socket_address) list"

definition RECOMMENDED_BUFFER_BYTES :: u32 where "RECOMMENDED_BUFFER_BYTES = 15 * 1024"

datatype enumeration_error = EnumerationFailed u32 | NoEnumeration

text \<open>\<open>get\<close> is the call with a buffer size: its code, the size it wants and the adapters it found.  The two
  codes it is compared with are the call's.\<close>

definition ERROR_SUCCESS :: u32 where "ERROR_SUCCESS = 0"
definition ERROR_BUFFER_OVERFLOW :: u32 where "ERROR_BUFFER_OVERFLOW = 111"

definition adapter_ips :: "adapter \<Rightarrow> ip_addr list" where
  "adapter_ips a =
     (if ad_up a
      then concat (map (\<lambda>(preferred, address).
             case socket_address_to_ip address of
               Some ip \<Rightarrow> if preferred \<and> is_webtransport_address ip then [ip] else []
             | None \<Rightarrow> []) (ad_unicast a))
      else [])"

definition platform_addresses ::
  "bool \<Rightarrow> (u32 \<Rightarrow> u32 \<times> u32 \<times> adapter list) \<Rightarrow> enumeration_error + ip_addr list" where
  "platform_addresses windows get =
     (if \<not> windows then Inl NoEnumeration
      else
        let (code, size, adapters) = get RECOMMENDED_BUFFER_BYTES;
            (code1, adapters1) = (if code = ERROR_BUFFER_OVERFLOW then (case get size of (c, _, found) \<Rightarrow> (c, found))
                                  else (code, adapters))
        in if code1 \<noteq> ERROR_SUCCESS then Inl (EnumerationFailed code1) else Inr (concat (map adapter_ips adapters1)))"

lemma platform_addresses_usable:
  assumes "platform_addresses windows get = Inr ips" and "ip \<in> set ips"
  shows "\<exists>code wanted size adapters a address. get wanted = (code, size, adapters) \<and> code = ERROR_SUCCESS \<and> a \<in> set adapters \<and>
           ad_up a \<and> (True, address) \<in> set (ad_unicast a) \<and> socket_address_to_ip address = Some ip \<and> is_webtransport_address ip"
proof -
  obtain code size adapters where first: "get RECOMMENDED_BUFFER_BYTES = (code, size, adapters)" by (metis prod.collapse)
  obtain code2 size2 adapters2 where second: "get size = (code2, size2, adapters2)" by (metis prod.collapse)
  have "\<exists>wanted code size adapters. get wanted = (code, size, adapters) \<and> code = ERROR_SUCCESS \<and> ips = concat (map adapter_ips adapters)"
    using assms(1) first second by (auto simp: platform_addresses_def split: if_splits)
  with assms(2) show ?thesis
    by (fastforce simp: adapter_ips_def split: if_splits option.splits)
qed

end
