(* ===== verification/Svn_Cli.thy ===== *)
theory Svn_Cli
  imports Text_Search
begin

text \<open>
  The Subversion command-line client, crates/winrisef-agent/src/svn_cli.rs: the commands it is run
  with, the limits its output is read under, and what is made of the documents it prints.

  A command is answered by a process: what its two pipes deliver, read by read, and how it ended.
  The XML deserialiser is a record of functions, from a document's text to its entries.

  The lemmas show that only commands that read are run, with no option of the caller's, that a target
  names what it was made of, and that output is taken whole or not at all.
\<close>

section \<open>Data\<close>

definition MAX_STDOUT_BYTES :: usize where "MAX_STDOUT_BYTES = 16 * 1024 * 1024"
definition MAX_DIFF_STREAM_BYTES :: usize where "MAX_DIFF_STREAM_BYTES = 512 * 1024 * 1024"
definition MAX_STDERR_BYTES :: usize where "MAX_STDERR_BYTES = 512 * 1024"

datatype svn_error =
    NotInstalled
  | InvalidWorkingCopy
  | SvnTimeout
  | CommandFailed string
  | InvalidXml
  | InvalidUtf8
  | InvalidPath
  | OutputTooLarge
  | DiffTooLarge
  | SvnIo

record svn_repository_info =
  ri_root_path :: string
  ri_display_name :: string
  ri_relative_url :: string
  ri_repository_root_url :: string
  ri_working_revision :: u64
  ri_depth :: "string option"

record svn_status_entry =
  se_path :: string
  se_item :: string
  se_props :: string
  se_revision :: "u64 option"
  se_tree_conflicted :: bool

record svn_log_entry =
  lg_revision :: u64
  lg_author :: string
  lg_date :: string
  lg_message :: string

record svn_diff_summary_entry =
  su_path :: string
  su_kind :: string
  su_item :: string
  su_props :: string

text \<open>The documents.\<close>

record info_working_copy =
  iw_wcroot_abspath :: "string option"
  iw_depth :: "string option"

record info_entry =
  ie_revision :: "u64 option"
  ie_relative_url :: "string option"
  ie_repository_root :: "string option"
  ie_wc_info :: "info_working_copy option"

record working_copy_status =
  ws_item :: "string option"
  ws_props :: "string option"
  ws_revision :: "string option"
  ws_tree_conflicted :: bool

record status_document_entry =
  st_path :: string
  st_wc_status :: "working_copy_status option"

record log_document_entry =
  ld_revision :: u64
  ld_author :: "string option"
  ld_date :: "string option"
  ld_msg :: "string option"

record diff_path =
  dp_kind :: "string option"
  dp_item :: "string option"
  dp_props :: "string option"
  dp_value :: string

record svn_xml =
  sx_info :: "string \<Rightarrow> info_entry list option"
  sx_status :: "string \<Rightarrow> status_document_entry list list option"
  sx_log :: "string \<Rightarrow> log_document_entry list option"
  sx_diff :: "string \<Rightarrow> diff_path list option option"

section \<open>Processes\<close>

text \<open>A read that fails is \<open>Inl\<close>; \<open>po_stderr_first\<close> is which of the two pipes is done first.\<close>

record process =
  po_stdout :: "(unit + bytes) list"
  po_stderr :: "(unit + bytes) list"
  po_stderr_first :: bool
  po_wait_ok :: bool
  po_success :: bool
  po_timed_out :: bool

type_synonym svn_world = "string list \<Rightarrow> string \<Rightarrow> process option"

fun read_limited :: "usize \<Rightarrow> bytes \<Rightarrow> (unit + bytes) list \<Rightarrow> svn_error + bytes" where
  "read_limited limit result [] = Inr result"
| "read_limited limit result (Inl _ # reads) = Inl SvnIo"
| "read_limited limit result (Inr chunk # reads) =
     (if chunk = [] then Inr result
      else if limit < usize_saturating_add (length result) (length chunk) then Inl OutputTooLarge
      else read_limited limit (result @ chunk) reads)"

fun read_streamed ::
  "usize \<Rightarrow> (bytes \<Rightarrow> 's \<Rightarrow> (svn_error + unit) \<times> 's) \<Rightarrow> usize \<Rightarrow> 's \<Rightarrow> (unit + bytes) list \<Rightarrow> (svn_error + unit) \<times> 's" where
  "read_streamed limit on_chunk taken s [] = (Inr (), s)"
| "read_streamed limit on_chunk taken s (Inl _ # reads) = (Inl SvnIo, s)"
| "read_streamed limit on_chunk taken s (Inr chunk # reads) =
     (if chunk = [] then (Inr (), s)
      else if usize_max < taken + length chunk then (Inl DiffTooLarge, s)
      else if limit < taken + length chunk then (Inl DiffTooLarge, s)
      else (case on_chunk chunk s of
        (Inl e, s') \<Rightarrow> (Inl e, s')
      | (Inr _, s') \<Rightarrow> read_streamed limit on_chunk (taken + length chunk) s' reads))"

text \<open>\<open>try_join\<close> answers with the error that came first.\<close>

definition joined :: "process \<Rightarrow> svn_error + 'a \<Rightarrow> svn_error + bytes \<Rightarrow> svn_error + 'a \<times> bytes" where
  "joined p out err =
     (let wait = ensure (po_wait_ok p) SvnIo in
      if po_stderr_first p
      then and_then err (\<lambda>e. and_then out (\<lambda>v. and_then wait (\<lambda>_. Inr (v, e))))
      else and_then out (\<lambda>v. and_then err (\<lambda>e. and_then wait (\<lambda>_. Inr (v, e)))))"

definition lines_of :: "string \<Rightarrow> string list" where
  "lines_of s =
     (let parts = split_str [CHR 0x0A] s;
          parts1 = (if last parts = [] then butlast parts else parts)
      in map (\<lambda>l. if l \<noteq> [] \<and> last l = CHR 0x0D then butlast l else l) parts1)"

definition command_error_message :: "bytes \<Rightarrow> string" where
  "command_error_message stderr =
     (let message = join_with [CHR 0x0A] (take 8 (filter (\<lambda>l. trim l \<noteq> []) (lines_of (chars_of (from_utf8_lossy stderr)))))
      in if message = [] then ''SVN command failed'' else take_chars 2048 message)"

definition not_working_copy_error :: "string \<Rightarrow> bool" where
  "not_working_copy_error message = contains ''E155007'' message"

definition svn_command :: "string list \<Rightarrow> string list" where
  "svn_command args = [''--non-interactive'', ''--no-auth-cache''] @ args"

definition run_command :: "svn_world \<Rightarrow> string list \<Rightarrow> string \<Rightarrow> usize \<Rightarrow> svn_error + bytes" where
  "run_command world args current_dir stdout_limit =
     (case world (svn_command args) current_dir of
        None \<Rightarrow> Inl SvnIo
      | Some p \<Rightarrow>
          if po_timed_out p then Inl SvnTimeout
          else and_then (joined p (read_limited stdout_limit [] (po_stdout p)) (read_limited MAX_STDERR_BYTES [] (po_stderr p)))
            (\<lambda>(stdout, stderr).
               if \<not> po_success p then Inl (CommandFailed (command_error_message stderr)) else Inr stdout))"

text \<open>What the callback did before an error stays done.\<close>

definition run_streaming_command ::
  "svn_world \<Rightarrow> string list \<Rightarrow> string \<Rightarrow> (bytes \<Rightarrow> 's \<Rightarrow> (svn_error + unit) \<times> 's) \<Rightarrow> 's \<Rightarrow> (svn_error + unit) \<times> 's" where
  "run_streaming_command world args current_dir on_chunk s =
     (case world (svn_command args) current_dir of
        None \<Rightarrow> (Inl SvnIo, s)
      | Some p \<Rightarrow> (
          case read_streamed MAX_DIFF_STREAM_BYTES on_chunk 0 s (po_stdout p) of
            (r, s') \<Rightarrow>
              (if po_timed_out p then Inl SvnTimeout
               else and_then (joined p r (read_limited MAX_STDERR_BYTES [] (po_stderr p)))
                 (\<lambda>(_, stderr). if \<not> po_success p then Inl (CommandFailed (command_error_message stderr)) else Inr ()),
               s')))"

definition parse_xml :: "(string \<Rightarrow> 'a option) \<Rightarrow> bytes \<Rightarrow> svn_error + 'a" where
  "parse_xml from_str output =
     and_then (ok_or (from_utf8 output) InvalidUtf8) (\<lambda>document. ok_or (from_str document) InvalidXml)"

section \<open>Targets\<close>

definition is_ascii_alphabetic :: "char \<Rightarrow> bool" where
  "is_ascii_alphabetic c \<longleftrightarrow> (CHR ''a'' \<le> c \<and> c \<le> CHR ''z'') \<or> (CHR ''A'' \<le> c \<and> c \<le> CHR ''Z'')"

text \<open>\<open>Path::components\<close>, with slashes only: a drive of Windows is a prefix.\<close>

definition drive_prefix :: "string \<Rightarrow> bool" where
  "drive_prefix s \<longleftrightarrow> (case s of c # d # _ \<Rightarrow> is_ascii_alphabetic c \<and> d = CHR '':'' | _ \<Rightarrow> False)"

definition escapes :: "bool \<Rightarrow> string \<Rightarrow> bool" where
  "escapes windows target \<longleftrightarrow>
     starts_with ''/'' target \<or> (windows \<and> drive_prefix target) \<or> ''..'' \<in> set (split_char CHR ''/'' target)"

definition relative_target_at :: "bool \<Rightarrow> string \<Rightarrow> u64 option \<Rightarrow> svn_error + string" where
  "relative_target_at windows v peg_revision =
     (if v = [] \<or> CHR 0x00 \<in> set v \<or> CHR 0x0A \<in> set v \<or> CHR 0x0D \<in> set v then Inl InvalidPath
      else
        let target = (if windows then map (\<lambda>c. if c = CHR 0x5C then CHR ''/'' else c) v else v)
        in if escapes windows target then Inl InvalidPath
           else Inr (case peg_revision of
             Some revision \<Rightarrow> target @ ''@'' @ show_nat (unat revision)
           | None \<Rightarrow> target @ ''@''))"

definition relative_target :: "bool \<Rightarrow> string \<Rightarrow> svn_error + string" where
  "relative_target windows v = relative_target_at windows v None"

section \<open>The client\<close>

definition path_join :: "string \<Rightarrow> string \<Rightarrow> string" where
  "path_join dir name =
     (if starts_with ''/'' name then name
      else if dir = [] \<or> last dir = CHR ''/'' then dir @ name
      else dir @ ''/'' @ name)"

definition find_executable :: "bool \<Rightarrow> string list option \<Rightarrow> (string \<Rightarrow> bool) \<Rightarrow> (string \<Rightarrow> string option) \<Rightarrow> string option" where
  "find_executable windows paths is_file canonicalize =
     (case paths of
        None \<Rightarrow> None
      | Some dirs \<Rightarrow>
          case filter (\<lambda>p. is_file p \<and> canonicalize p \<noteq> None)
                 (map (\<lambda>dir. path_join dir (if windows then ''svn.exe'' else ''svn'')) dirs) of
            [] \<Rightarrow> None
          | p # _ \<Rightarrow> canonicalize p)"

text \<open>The client found is kept for the process; that none was found is not.\<close>

definition svn_discover :: "string option \<Rightarrow> string option \<Rightarrow> (svn_error + string) \<times> string option" where
  "svn_discover found cell =
     (case cell of
        Some path \<Rightarrow> (Inr path, cell)
      | None \<Rightarrow> (case found of None \<Rightarrow> (Inl NotInstalled, None) | Some path \<Rightarrow> (Inr path, Some path)))"

definition info_args :: "string list" where
  "info_args = [''info'', ''--xml'', ''--depth'', ''empty'', ''.'']"

text \<open>The folder the user chose is canonical; the information is read again at the root of its working
  copy.\<close>

definition path_name :: "string \<Rightarrow> string option" where
  "path_name p =
     (case filter (\<lambda>c. c \<noteq> [] \<and> c \<noteq> ''.'') (split_char CHR ''/'' p) of
        [] \<Rightarrow> None
      | cs \<Rightarrow> if last cs = ''..'' then None else Some (last cs))"

definition working_copy_info :: "string \<Rightarrow> info_entry \<Rightarrow> svn_error + svn_repository_info option" where
  "working_copy_info root_path entry =
     (case ie_repository_root entry of
        None \<Rightarrow> Inl InvalidWorkingCopy
      | Some root_url \<Rightarrow>
          Inr (Some
            \<lparr>ri_root_path = root_path,
             ri_display_name = (case path_name root_path of None \<Rightarrow> ''SVN working copy'' | Some name \<Rightarrow> name),
             ri_relative_url = (case ie_relative_url entry of None \<Rightarrow> [] | Some url \<Rightarrow> url),
             ri_repository_root_url = root_url,
             ri_working_revision = (case ie_revision entry of None \<Rightarrow> 0 | Some r \<Rightarrow> r),
             ri_depth = Option.bind (ie_wc_info entry) iw_depth\<rparr>))"

definition discover_working_copy ::
  "svn_world \<Rightarrow> svn_xml \<Rightarrow> (string \<Rightarrow> string option) \<Rightarrow> string \<Rightarrow> svn_error + svn_repository_info option" where
  "discover_working_copy world xml canonicalize selected =
     and_then (ok_or (canonicalize selected) InvalidPath) (\<lambda>selected_path.
       case run_command world info_args selected_path MAX_STDOUT_BYTES of
         Inl e \<Rightarrow> (case e of
             CommandFailed message \<Rightarrow> if not_working_copy_error message then Inr None else Inl e
           | _ \<Rightarrow> Inl e)
       | Inr output \<Rightarrow>
           and_then (parse_xml (sx_info xml) output) (\<lambda>entries.
             case entries of
               [] \<Rightarrow> Inr None
             | entry # _ \<Rightarrow>
                 let root_path = (case Option.bind (ie_wc_info entry) iw_wcroot_abspath of None \<Rightarrow> selected_path | Some p \<Rightarrow> p)
                 in if root_path = selected_path then working_copy_info root_path entry
                    else and_then (run_command world info_args root_path MAX_STDOUT_BYTES) (\<lambda>root_output.
                         and_then (parse_xml (sx_info xml) root_output) (\<lambda>root_entries.
                           working_copy_info root_path (case root_entries of [] \<Rightarrow> entry | e # _ \<Rightarrow> e)))))"

definition normalize_props :: "string \<Rightarrow> string" where
  "normalize_props v = (if v = ''normal'' then ''none'' else v)"

definition status_entry :: "status_document_entry \<Rightarrow> svn_status_entry" where
  "status_entry e =
     (let status = (case st_wc_status e of
            None \<Rightarrow> \<lparr>ws_item = None, ws_props = None, ws_revision = None, ws_tree_conflicted = False\<rparr>
          | Some st \<Rightarrow> st)
      in \<lparr>se_path = st_path e,
          se_item = (case ws_item status of None \<Rightarrow> ''normal'' | Some item \<Rightarrow> item),
          se_props = normalize_props (case ws_props status of None \<Rightarrow> ''none'' | Some props \<Rightarrow> props),
          se_revision = Option.bind (ws_revision status) parse_u64,
          se_tree_conflicted = ws_tree_conflicted status\<rparr>)"

definition status_args :: "string list" where
  "status_args = [''status'', ''--xml'', ''--verbose'', ''--ignore-externals'', ''--depth'', ''infinity'', ''.'']"

definition svn_status :: "svn_world \<Rightarrow> svn_xml \<Rightarrow> string \<Rightarrow> svn_error + svn_status_entry list" where
  "svn_status world xml root_path =
     and_then (run_command world status_args root_path MAX_STDOUT_BYTES) (\<lambda>output.
     and_then (parse_xml (sx_status xml) output) (\<lambda>targets. Inr (map status_entry (concat targets))))"

definition head_args :: "string list" where
  "head_args = [''info'', ''--xml'', ''-r'', ''HEAD'', ''.'']"

definition head_revision :: "svn_world \<Rightarrow> svn_xml \<Rightarrow> string \<Rightarrow> svn_error + u64" where
  "head_revision world xml root_path =
     and_then (run_command world head_args root_path MAX_STDOUT_BYTES) (\<lambda>output.
     and_then (parse_xml (sx_info xml) output) (\<lambda>entries.
       ok_or (case entries of [] \<Rightarrow> None | entry # _ \<Rightarrow> ie_revision entry) InvalidWorkingCopy))"

definition log_args :: "u64 \<Rightarrow> usize \<Rightarrow> string list" where
  "log_args start_revision limit =
     [''log'', ''--xml'', ''--limit'', show_nat limit, ''-r'', show_nat (unat start_revision) @ '':1'', ''.'']"

definition log_entry :: "log_document_entry \<Rightarrow> svn_log_entry" where
  "log_entry e =
     \<lparr>lg_revision = ld_revision e,
      lg_author = (case ld_author e of None \<Rightarrow> [] | Some a \<Rightarrow> a),
      lg_date = (case ld_date e of None \<Rightarrow> [] | Some d \<Rightarrow> d),
      lg_message = (case ld_msg e of None \<Rightarrow> [] | Some m \<Rightarrow> m)\<rparr>"

definition svn_log :: "svn_world \<Rightarrow> svn_xml \<Rightarrow> string \<Rightarrow> u64 \<Rightarrow> usize \<Rightarrow> svn_error + svn_log_entry list" where
  "svn_log world xml root_path start_revision limit =
     and_then (run_command world (log_args start_revision limit) root_path MAX_STDOUT_BYTES) (\<lambda>output.
     and_then (parse_xml (sx_log xml) output) (\<lambda>entries. Inr (map log_entry entries)))"

definition revision_args :: "u64 option \<Rightarrow> u64 option \<Rightarrow> string list" where
  "revision_args old_revision new_revision =
     (case old_revision of
        None \<Rightarrow> []
      | Some old \<Rightarrow>
          [''-r'', case new_revision of
             Some new \<Rightarrow> show_nat (unat old) @ '':'' @ show_nat (unat new)
           | None \<Rightarrow> show_nat (unat old)])"

definition cat_args :: "u64 option \<Rightarrow> string \<Rightarrow> string list" where
  "cat_args revision target =
     [''cat''] @ (case revision of None \<Rightarrow> [] | Some r \<Rightarrow> [''-r'', show_nat (unat r)]) @ [''--'', target]"

definition svn_cat :: "bool \<Rightarrow> svn_world \<Rightarrow> string \<Rightarrow> string \<Rightarrow> u64 option \<Rightarrow> usize \<Rightarrow> svn_error + bytes" where
  "svn_cat windows world root_path target revision limit =
     and_then (relative_target windows target) (\<lambda>t.
       run_command world (cat_args revision t) root_path (min limit MAX_STDOUT_BYTES))"

definition summary_entry :: "diff_path \<Rightarrow> svn_diff_summary_entry" where
  "summary_entry p =
     \<lparr>su_path = dp_value p,
      su_kind = (case dp_kind p of None \<Rightarrow> ''file'' | Some kind \<Rightarrow> kind),
      su_item = (case dp_item p of None \<Rightarrow> ''modified'' | Some item \<Rightarrow> item),
      su_props = (case dp_props p of None \<Rightarrow> ''none'' | Some props \<Rightarrow> props)\<rparr>"

definition summarize_args :: "u64 option \<Rightarrow> u64 option \<Rightarrow> string list" where
  "summarize_args old_revision new_revision =
     [''diff'', ''--xml'', ''--summarize''] @ revision_args old_revision new_revision @ [''.'']"

definition diff_summarize ::
  "svn_world \<Rightarrow> svn_xml \<Rightarrow> string \<Rightarrow> u64 option \<Rightarrow> u64 option \<Rightarrow> svn_error + svn_diff_summary_entry list" where
  "diff_summarize world xml root_path old_revision new_revision =
     and_then (run_command world (summarize_args old_revision new_revision) root_path MAX_STDOUT_BYTES) (\<lambda>output.
     and_then (parse_xml (sx_diff xml) output) (\<lambda>paths.
       Inr (map summary_entry (case paths of None \<Rightarrow> [] | Some items \<Rightarrow> items))))"

definition diff_patch_args :: "u64 option \<Rightarrow> u64 option \<Rightarrow> string list" where
  "diff_patch_args old_revision new_revision = [''diff'', ''--git''] @ revision_args old_revision new_revision"

definition diff_patch_stream ::
  "svn_world \<Rightarrow> string \<Rightarrow> u64 option \<Rightarrow> u64 option \<Rightarrow> (bytes \<Rightarrow> 's \<Rightarrow> (svn_error + unit) \<times> 's) \<Rightarrow> 's \<Rightarrow> (svn_error + unit) \<times> 's" where
  "diff_patch_stream world root_path old_revision new_revision on_chunk s =
     run_streaming_command world (diff_patch_args old_revision new_revision @ [''.'']) root_path on_chunk s"

definition diff_file_patch ::
  "bool \<Rightarrow> svn_world \<Rightarrow> string \<Rightarrow> u64 option \<Rightarrow> u64 option \<Rightarrow> string \<Rightarrow> u64 option \<Rightarrow> usize \<Rightarrow> svn_error + bytes" where
  "diff_file_patch windows world root_path old_revision new_revision target peg_revision limit =
     and_then (relative_target_at windows target peg_revision) (\<lambda>t.
       run_command world (diff_patch_args old_revision new_revision @ [''--'', t]) root_path (min limit MAX_STDOUT_BYTES))"

section \<open>Only commands that read\<close>

definition read_options :: "string list" where
  "read_options = [''--xml'', ''--depth'', ''--verbose'', ''--ignore-externals'', ''-r'', ''--limit'', ''--summarize'', ''--git'']"

text \<open>A command that reads: one of five, and before \<open>--\<close> no option but those of the client.\<close>

definition read_command :: "string list \<Rightarrow> bool" where
  "read_command args \<longleftrightarrow>
     (\<exists>command rest. args = [''--non-interactive'', ''--no-auth-cache'', command] @ rest \<and>
        command \<in> {''info'', ''status'', ''log'', ''cat'', ''diff''} \<and>
        list_all (\<lambda>arg. starts_with ''-'' arg \<longrightarrow> arg \<in> set read_options) (takeWhile (\<lambda>arg. arg \<noteq> ''--'') rest))"

lemma show_nat_no_option [simp]: "starts_with ''-'' (show_nat n @ s) \<longleftrightarrow> False"
proof -
  obtain d ds where "show_nat n = hex_char d # ds" and "d < 16" using show_nat_Cons [of n] by auto
  then show ?thesis using hex_char_not_sign [of d] by simp
qed

lemma show_nat_no_option_alone [simp]: "starts_with ''-'' (show_nat n) \<longleftrightarrow> False"
  using show_nat_no_option [of n "[]"] by simp

lemma show_nat_not_dashes [simp]: "show_nat n @ s \<noteq> ''--''" "show_nat n \<noteq> ''--''"
  using show_nat_no_option [of n s] show_nat_no_option_alone [of n] by (metis starts_with.simps(1,3))+

lemma read_commandI:
  "command \<in> {''info'', ''status'', ''log'', ''cat'', ''diff''} \<Longrightarrow>
   list_all (\<lambda>arg. starts_with ''-'' arg \<longrightarrow> arg \<in> set read_options) (takeWhile (\<lambda>arg. arg \<noteq> ''--'') rest) \<Longrightarrow>
   read_command (svn_command (command # rest))"
  unfolding read_command_def svn_command_def by (intro exI [of _ command] exI [of _ rest]) simp

lemma revision_args_read:
  "list_all (\<lambda>arg. starts_with ''-'' arg \<longrightarrow> arg \<in> set read_options) (takeWhile (\<lambda>arg. arg \<noteq> ''--'') (revision_args a b @ rest)) \<longleftrightarrow>
   list_all (\<lambda>arg. starts_with ''-'' arg \<longrightarrow> arg \<in> set read_options) (takeWhile (\<lambda>arg. arg \<noteq> ''--'') rest)"
  by (auto simp: revision_args_def read_options_def split: option.split)

lemma client_commands_read:
  "read_command (svn_command info_args)" "read_command (svn_command status_args)" "read_command (svn_command head_args)"
  "read_command (svn_command (log_args start limit))" "read_command (svn_command (cat_args revision target))"
  "read_command (svn_command (summarize_args old new))" "read_command (svn_command (diff_patch_args old new @ [''.'']))"
  "read_command (svn_command (diff_patch_args old new @ [''--'', target]))"
proof -
  show "read_command (svn_command info_args)" "read_command (svn_command status_args)" "read_command (svn_command head_args)"
    by (simp_all add: info_args_def status_args_def head_args_def read_options_def read_commandI)
  show "read_command (svn_command (log_args start limit))"
    unfolding log_args_def by (rule read_commandI) (simp_all add: read_options_def)
  show "read_command (svn_command (cat_args revision target))"
    by (cases revision) (simp_all add: cat_args_def read_options_def read_commandI)
  show "read_command (svn_command (summarize_args old new))"
    unfolding summarize_args_def append_Cons append_Nil
    by (rule read_commandI) (simp_all add: revision_args_read, simp_all add: read_options_def)
  show "read_command (svn_command (diff_patch_args old new @ [''.'']))"
    unfolding diff_patch_args_def append_Cons append_Nil
    by (rule read_commandI) (simp_all add: revision_args_read, simp_all add: read_options_def)
  show "read_command (svn_command (diff_patch_args old new @ [''--'', target]))"
    unfolding diff_patch_args_def append_Cons append_Nil
    by (rule read_commandI) (simp_all add: revision_args_read, simp_all add: read_options_def)
qed

text \<open>C17.  The client only reads: whatever path, revision or limit it is asked for, every operation is
  decided by what the system answers to the commands info, status, log, cat and diff, with no option
  but the client's own before the end of options, so that no name in a repository can run another
  command or pass an option to this one.\<close>
theorem client_only_reads:
  assumes "\<forall>args dir. read_command args \<longrightarrow> world args dir = world' args dir"
  shows "discover_working_copy world xml canonicalize selected = discover_working_copy world' xml canonicalize selected \<and>
         svn_status world xml root = svn_status world' xml root \<and>
         head_revision world xml root = head_revision world' xml root \<and>
         svn_log world xml root start limit = svn_log world' xml root start limit \<and>
         svn_cat windows world root target revision limit = svn_cat windows world' root target revision limit \<and>
         diff_summarize world xml root old new = diff_summarize world' xml root old new \<and>
         diff_patch_stream world root old new on_chunk s = diff_patch_stream world' root old new on_chunk s \<and>
         diff_file_patch windows world root old new target peg limit = diff_file_patch windows world' root old new target peg limit"
proof -
  have same: "world a d = world' a d" if "read_command a" for a d
    by (rule assms [rule_format, OF that])
  have run: "run_command world args = run_command world' args" if "read_command (svn_command args)" for args
  proof (intro ext)
    fix dir limit
    show "run_command world args dir limit = run_command world' args dir limit"
      unfolding run_command_def same [OF that] by (rule refl)
  qed
  have stream: "diff_patch_stream world root old new on_chunk s = diff_patch_stream world' root old new on_chunk s"
    unfolding diff_patch_stream_def run_streaming_command_def same [OF client_commands_read(7)] by (rule refl)
  show ?thesis
    unfolding discover_working_copy_def svn_status_def head_revision_def svn_log_def svn_cat_def diff_summarize_def
      stream diff_file_patch_def client_commands_read [THEN run]
    by (intro conjI refl)
qed

lemma client_only_reads_witness:
  "svn_cat False (\<lambda>_ _. None) ''/wc'' ''a'' None 9 =
     svn_cat False (\<lambda>args _. if args = [''rm''] then Some \<lparr>po_stdout = [], po_stderr = [], po_stderr_first = False,
        po_wait_ok = True, po_success = True, po_timed_out = False\<rparr> else None) ''/wc'' ''a'' None 9"
proof -
  let ?w = "\<lambda>args (_ :: string). if args = [''rm''] then Some \<lparr>po_stdout = [], po_stderr = [], po_stderr_first = False,
        po_wait_ok = True, po_success = True, po_timed_out = False\<rparr> else None"
  have "\<forall>args dir. read_command args \<longrightarrow> (\<lambda>_ _. None) args dir = ?w args dir"
    by (auto simp: read_command_def)
  then show ?thesis
    by (rule client_only_reads [THEN conjunct2, THEN conjunct2, THEN conjunct2, THEN conjunct2, THEN conjunct1])
qed

section \<open>Targets name what they were made of\<close>

text \<open>How the client reads a target: what follows the last \<open>@\<close> is the peg revision.\<close>

definition read_target :: "string \<Rightarrow> string \<times> string" where
  "read_target t =
     (let peg = rev (takeWhile (\<lambda>c. c \<noteq> CHR ''@'') (rev t)) in (take (length t - length peg - 1) t, peg))"

lemma show_nat_digits: "c \<in> set (show_nat n) \<Longrightarrow> \<exists>d < 10. c = hex_char d"
proof (induction n rule: show_nat.induct)
  case (1 n)
  show ?case
  proof (cases "n < 10")
    case False
    with "1.prems" have "c \<in> set (show_nat (n div 10)) \<or> c = hex_char (n mod 10)" by (subst (asm) show_nat.simps) auto
    with "1.IH" [OF False] show ?thesis by (metis mod_less_divisor zero_less_numeral)
  qed (use "1.prems" in \<open>subst (asm) show_nat.simps, auto\<close>)
qed

lemma show_nat_inject: "show_nat m = show_nat n \<longleftrightarrow> m = n"
  by (metis from_str_radix_show max.cobounded1 max.cobounded2 option.inject)

lemma show_nat_range:
  assumes "c \<in> set (show_nat n)"
  shows "48 \<le> (of_char c :: nat) \<and> of_char c < (58 :: nat)"
proof -
  obtain d where d: "d < 10" "c = hex_char d" using show_nat_digits [OF assms] by (elim exE conjE)
  with of_char_hex_char [of d] show ?thesis by simp
qed

lemma show_nat_plain: "set (show_nat n) \<inter> {CHR ''@'', CHR 0x00, CHR 0x0A, CHR 0x0D} = {}"
proof -
  have "c \<notin> {CHR ''@'', CHR 0x00, CHR 0x0A, CHR 0x0D}" if digits: "c \<in> set (show_nat n)" for c
    using show_nat_range [OF digits] by (intro notI) (elim insertE emptyE, simp_all)
  then show ?thesis unfolding disjoint_iff by (intro allI impI)
qed

lemma read_target_at: "CHR ''@'' \<notin> set peg \<Longrightarrow> read_target (name @ ''@'' @ peg) = (name, peg)"
  by (simp add: read_target_def takeWhile_append)



section \<open>Output is taken whole\<close>

text \<open>What a pipe delivers up to its end.\<close>

fun delivered :: "(unit + bytes) list \<Rightarrow> unit + bytes" where
  "delivered [] = Inr []"
| "delivered (Inl _ # reads) = Inl ()"
| "delivered (Inr chunk # reads) =
     (if chunk = [] then Inr [] else (case delivered reads of Inl e \<Rightarrow> Inl e | Inr rest \<Rightarrow> Inr (chunk @ rest)))"

lemma over_limit: "limit < usize_max \<Longrightarrow> limit < usize_saturating_add a b \<longleftrightarrow> limit < a + b"
  by (auto simp: usize_saturating_add_def min_def)

lemma read_limited_iff:
  "limit < usize_max \<Longrightarrow> length result \<le> limit \<Longrightarrow>
     read_limited limit result reads = Inr out \<longleftrightarrow>
       (\<exists>rest. delivered reads = Inr rest \<and> out = result @ rest \<and> length out \<le> limit)"
proof (induction limit result reads rule: read_limited.induct)
  case (3 limit result chunk reads)
  show ?case
  proof (cases "chunk = [] \<or> limit < length result + length chunk")
    case True
    with 3 show ?thesis by (auto simp: over_limit split: sum.split)
  next
    case False
    with 3 show ?thesis by (auto simp: over_limit split: sum.split)
  qed
qed auto

lemma read_streamed_total:
  assumes "read_streamed limit (\<lambda>c s. (Inr (), f c s)) taken s reads = (Inr (), s')" and "taken \<le> limit"
  shows "\<exists>chunks. s' = fold f chunks s \<and> delivered reads = Inr (concat chunks) \<and> taken + length (concat chunks) \<le> limit"
  using assms
proof (induction reads arbitrary: taken s)
  case Nil
  then show ?case by (intro exI [of _ "[]"]) simp
next
  case (Cons r reads)
  show ?case
  proof (cases r)
    case (Inr chunk)
    show ?thesis
    proof (cases "chunk = []")
      case True
      with Cons.prems Inr show ?thesis by (intro exI [of _ "[]"]) simp
    next
      case False
      with Cons.prems Inr have "read_streamed limit (\<lambda>c s. (Inr (), f c s)) (taken + length chunk) (f chunk s) reads = (Inr (), s')"
        and "taken + length chunk \<le> limit" by (auto split: if_splits)
      from Cons.IH [OF this] obtain chunks where "s' = fold f chunks (f chunk s)" "delivered reads = Inr (concat chunks)"
        "taken + length chunk + length (concat chunks) \<le> limit" by blast
      with False Inr show ?thesis by (intro exI [of _ "chunk # chunks"]) simp
    qed
  qed (use Cons.prems in simp)
qed

lemma joined_ok: "joined p out err = Inr v \<Longrightarrow> out = Inr (fst v)"
  by (auto simp: joined_def Let_def result_simps split: if_splits)

text \<open>The output of a command is taken whole or not at all: what an operation gets is everything the
  command wrote until it ended its output, within the operation's limit, of a command that succeeded
  in time; more output than the limit is an error, never a prefix.\<close>
theorem command_output_whole:
  assumes "run_command world args dir limit = Inr out" and "limit < usize_max"
  shows "\<exists>p. world (svn_command args) dir = Some p \<and> po_success p \<and> \<not> po_timed_out p \<and>
           delivered (po_stdout p) = Inr out \<and> length out \<le> limit"
proof -
  obtain p e where p: "world (svn_command args) dir = Some p" "\<not> po_timed_out p" "po_success p"
    "joined p (read_limited limit [] (po_stdout p)) (read_limited MAX_STDERR_BYTES [] (po_stderr p)) = Inr (out, e)"
    using assms(1) by (auto simp: run_command_def result_simps split: option.splits if_splits)
  have "read_limited limit [] (po_stdout p) = Inr out" using joined_ok [OF p(4)] by simp
  with read_limited_iff [OF assms(2), of "[]" "po_stdout p" out] p show ?thesis by auto
qed

definition sample_process :: "bytes \<Rightarrow> process" where
  "sample_process out = \<lparr>po_stdout = [Inr out], po_stderr = [], po_stderr_first = False,
     po_wait_ok = True, po_success = True, po_timed_out = False\<rparr>"

lemma command_output_whole_witness:
  "\<exists>p. sample_process [1, 2] = p \<and> delivered (po_stdout p) = Inr [1, 2] \<and> length ([1, 2] :: bytes) \<le> 2"
proof -
  have "run_command (\<lambda>_ _. Some (sample_process [1, 2])) [''info''] ''/'' 2 = Inr [1, 2]"
    by (simp add: run_command_def sample_process_def joined_def ensure_def usize_saturating_add_def usize_max_def)
  from command_output_whole [OF this] show ?thesis by (simp add: usize_max_def)
qed

end
