(* ===== verification/Byte_Cache.thy ===== *)
theory Byte_Cache
  imports Prelude "HOL-Library.AList"
begin

text \<open>
  The caches of the Subversion backend: \<open>PreviewCache\<close> and \<open>SourceCache\<close> (svn_repository.rs) and
  \<open>SvnPatchCache\<close> (svn_patch.rs) are the same structure, a hash map with a recency queue and a byte
  count, at three sizes.  The operations are written once, over the size of a value and the two
  limits; each cache is an instance in the theory of its module.

  A hash map is an association list with distinct keys, so that its length is the number of its
  entries.  The abstract cache is the list of its entries from the least to the most recently used.
  The lemmas show that the operations refine it, and that it stays within both limits.
\<close>

section \<open>The contract of a cache\<close>

text \<open>A cache may forget, but what it returns was put in under the same key.\<close>

locale value_cache =
  fixes invar :: "'s \<Rightarrow> bool"
    and cached :: "'s \<Rightarrow> 'k \<Rightarrow> 'v option"
    and get :: "'k \<Rightarrow> 's \<Rightarrow> 'v option \<times> 's"
    and put :: "'k \<Rightarrow> 'v \<Rightarrow> 's \<Rightarrow> 's"
  assumes get_spec: "invar s \<Longrightarrow> get k s = (r, s') \<Longrightarrow> invar s' \<and> r = cached s k \<and> cached s' = cached s"
    and put_spec: "invar s \<Longrightarrow> invar (put k v s) \<and>
        (\<forall>j w. cached (put k v s) j = Some w \<longrightarrow> cached s j = Some w \<or> (j = k \<and> w = v))"
begin

text \<open>Reading through the cache: what is not cached is fetched and, when that succeeds, put in.\<close>

definition read_through :: "('k \<Rightarrow> 'e + 'v) \<Rightarrow> 'k \<Rightarrow> 's \<Rightarrow> ('e + 'v) \<times> 's" where
  "read_through fetch k s =
     (case get k s of
        (Some v, s1) \<Rightarrow> (Inr v, s1)
      | (None, s1) \<Rightarrow> (
          case fetch k of
            Inl e \<Rightarrow> (Inl e, s1)
          | Inr v \<Rightarrow> (Inr v, put k v s1)))"

definition coherent :: "('k \<Rightarrow> 'e + 'v) \<Rightarrow> 's \<Rightarrow> bool" where
  "coherent fetch s \<longleftrightarrow> invar s \<and> (\<forall>k v. cached s k = Some v \<longrightarrow> fetch k = Inr v)"

lemma read_through_transparent:
  assumes "coherent fetch s"
  shows "fst (read_through fetch k s) = fetch k \<and> coherent fetch (snd (read_through fetch k s))"
proof -
  obtain r s1 where g: "get k s = (r, s1)" by fastforce
  have inv: "invar s" using assms by (simp add: coherent_def)
  note spec = get_spec [OF inv g]
  show ?thesis
  proof (cases r)
    case (Some v)
    with spec have "cached s k = Some v" by simp
    moreover from this assms have "fetch k = Inr v" by (simp add: coherent_def)
    ultimately show ?thesis
      using g Some spec assms by (simp add: read_through_def coherent_def)
  next
    case None
    show ?thesis
    proof (cases "fetch k")
      case (Inr v)
      from spec have "invar s1" by simp
      from put_spec [OF this, of k v] spec assms Inr
      have "\<forall>j w. cached (put k v s1) j = Some w \<longrightarrow> fetch j = Inr w"
        by (auto simp: coherent_def)
      with g None Inr \<open>invar s1\<close> put_spec [of s1 k v] show ?thesis
        by (simp add: read_through_def coherent_def)
    qed (use g None spec assms in \<open>simp add: read_through_def coherent_def\<close>)
  qed
qed

lemma read_through_run:
  "coherent fetch s \<Longrightarrow>
     coherent fetch (foldl (\<lambda>t k. snd (read_through fetch k t)) s ks)"
  by (induction ks arbitrary: s) (simp_all add: read_through_transparent)

end

section \<open>Model\<close>

record ('k, 'v) byte_cache =
  bc_items :: "('k \<times> 'v) list"
  bc_order :: "'k list"
  bc_bytes :: usize

definition cache_new :: "('k, 'v) byte_cache" where
  "cache_new = \<lparr>bc_items = [], bc_order = [], bc_bytes = 0\<rparr>"

definition cache_get :: "'k \<Rightarrow> ('k, 'v) byte_cache \<Rightarrow> 'v option \<times> ('k, 'v) byte_cache" where
  "cache_get k c =
     (case map_of (bc_items c) k of
        None \<Rightarrow> (None, c)
      | Some v \<Rightarrow> (Some v, c\<lparr>bc_order := filter (\<lambda>x. x \<noteq> k) (bc_order c) @ [k]\<rparr>))"

text \<open>The eviction loop, from the front of the queue.\<close>

fun cache_evict ::
  "('v \<Rightarrow> usize) \<Rightarrow> usize \<Rightarrow> usize \<Rightarrow> usize \<Rightarrow> ('k \<times> 'v) list \<Rightarrow> 'k list \<Rightarrow> usize \<Rightarrow>
     ('k \<times> 'v) list \<times> 'k list \<times> usize" where
  "cache_evict size_of limit max_items need items order bytes =
     (if max_items \<le> length items \<or> limit < usize_saturating_add bytes need
      then (case order of
        [] \<Rightarrow> (items, order, bytes)
      | oldest # rest \<Rightarrow> (
          case map_of items oldest of
            None \<Rightarrow> cache_evict size_of limit max_items need items rest bytes
          | Some previous \<Rightarrow>
              cache_evict size_of limit max_items need (AList.delete oldest items) rest
                (bytes - size_of previous)))
      else (items, order, bytes))"

declare cache_evict.simps [simp del]

definition cache_insert ::
  "('v \<Rightarrow> usize) \<Rightarrow> usize \<Rightarrow> usize \<Rightarrow> 'k \<Rightarrow> 'v \<Rightarrow> ('k, 'v) byte_cache \<Rightarrow> ('k, 'v) byte_cache" where
  "cache_insert size_of limit max_items k v c =
     (if limit < size_of v then c
      else
        let c1 = (case map_of (bc_items c) k of
                    None \<Rightarrow> c
                  | Some previous \<Rightarrow>
                      \<lparr>bc_items = AList.delete k (bc_items c), bc_order = filter (\<lambda>x. x \<noteq> k) (bc_order c),
                       bc_bytes = bc_bytes c - size_of previous\<rparr>)
        in case cache_evict size_of limit max_items (size_of v) (bc_items c1) (bc_order c1) (bc_bytes c1) of
             (items, order, bytes) \<Rightarrow>
               \<lparr>bc_items = (k, v) # items, bc_order = order @ [k],
                bc_bytes = usize_saturating_add bytes (size_of v)\<rparr>)"

section \<open>The abstract cache\<close>

text \<open>Entries from the least to the most recently used.\<close>

type_synonym ('k, 'v) recency = "('k \<times> 'v) list"

definition recency_bytes :: "('v \<Rightarrow> nat) \<Rightarrow> ('k, 'v) recency \<Rightarrow> nat" where
  "recency_bytes size_of xs = sum_list (map (size_of \<circ> snd) xs)"

definition recency_get :: "'k \<Rightarrow> ('k, 'v) recency \<Rightarrow> 'v option \<times> ('k, 'v) recency" where
  "recency_get k xs =
     (case map_of xs k of None \<Rightarrow> (None, xs) | Some v \<Rightarrow> (Some v, AList.delete k xs @ [(k, v)]))"

text \<open>As few of the oldest entries as possible are dropped.\<close>

fun recency_trim :: "('v \<Rightarrow> nat) \<Rightarrow> nat \<Rightarrow> nat \<Rightarrow> nat \<Rightarrow> ('k, 'v) recency \<Rightarrow> ('k, 'v) recency" where
  "recency_trim size_of limit max_items need [] = []"
| "recency_trim size_of limit max_items need (x # xs) =
     (if length (x # xs) < max_items \<and> recency_bytes size_of (x # xs) + need \<le> limit then x # xs
      else recency_trim size_of limit max_items need xs)"

definition recency_put ::
  "('v \<Rightarrow> nat) \<Rightarrow> nat \<Rightarrow> nat \<Rightarrow> 'k \<Rightarrow> 'v \<Rightarrow> ('k, 'v) recency \<Rightarrow> ('k, 'v) recency" where
  "recency_put size_of limit max_items k v xs =
     (if limit < size_of v then xs
      else recency_trim size_of limit max_items (size_of v) (AList.delete k xs) @ [(k, v)])"

definition cache_abs :: "('k, 'v) byte_cache \<Rightarrow> ('k, 'v) recency" where
  "cache_abs c = map (\<lambda>k. (k, the (map_of (bc_items c) k))) (bc_order c)"

definition cache_inv :: "('v \<Rightarrow> usize) \<Rightarrow> usize \<Rightarrow> usize \<Rightarrow> ('k, 'v) byte_cache \<Rightarrow> bool" where
  "cache_inv size_of limit max_items c \<longleftrightarrow>
     distinct (bc_order c) \<and> distinct (map fst (bc_items c)) \<and>
     set (bc_order c) = fst ` set (bc_items c) \<and>
     bc_bytes c = sum_list (map (size_of \<circ> snd) (bc_items c)) \<and>
     bc_bytes c \<le> limit \<and> length (bc_items c) \<le> max_items"

section \<open>Refinement\<close>

definition entries_of :: "('k \<times> 'v) list \<Rightarrow> 'k list \<Rightarrow> ('k, 'v) recency" where
  "entries_of items order = map (\<lambda>k. (k, the (map_of items k))) order"

definition tied :: "('v \<Rightarrow> nat) \<Rightarrow> ('k \<times> 'v) list \<Rightarrow> 'k list \<Rightarrow> nat \<Rightarrow> bool" where
  "tied size_of items order bytes \<longleftrightarrow> distinct order \<and> distinct (map fst items) \<and>
     set order = fst ` set items \<and> bytes = sum_list (map (size_of \<circ> snd) items)"

lemma tied_length: "tied size_of items order bytes \<Longrightarrow> length items = length order"
  unfolding tied_def by (metis distinct_card length_map list.set_map)

lemma entries_keys [simp]: "map fst (entries_of items order) = order"
  by (simp add: entries_of_def comp_def)

lemma length_entries [simp]: "length (entries_of items order) = length order"
  by (simp add: entries_of_def)

lemma tied_bytes:
  assumes "tied size_of items order bytes"
  shows "recency_bytes size_of (entries_of items order) = bytes"
proof -
  have dist: "distinct order" "distinct (map fst items)" "set order = fst ` set items"
    using assms by (simp_all add: tied_def)
  then have inj: "inj_on fst (set items)" "distinct items" by (simp_all add: distinct_map)
  have "recency_bytes size_of (entries_of items order) = (\<Sum>k \<leftarrow> order. size_of (the (map_of items k)))"
    by (simp add: recency_bytes_def entries_of_def comp_def)
  also have "\<dots> = (\<Sum>k \<in> fst ` set items. size_of (the (map_of items k)))"
    using dist by (simp add: sum_list_distinct_conv_sum_set)
  also have "\<dots> = (\<Sum>x \<in> set items. size_of (snd x))"
    using inj(1) dist(2) by (auto simp: sum.reindex intro!: sum.cong)
  also have "\<dots> = sum_list (map (size_of \<circ> snd) items)"
    using inj(2) by (simp add: sum_list_distinct_conv_sum_set)
  finally show ?thesis using assms by (simp add: tied_def)
qed

lemma sum_delete:
  "distinct (map fst items) \<Longrightarrow> map_of items k = Some v \<Longrightarrow>
     sum_list (map (f \<circ> snd) (AList.delete k items)) + (f v :: nat) = sum_list (map (f \<circ> snd) items)"
proof (induction items)
  case (Cons x items)
  show ?case
  proof (cases "fst x = k")
    case True
    then have "AList.delete k items = items" using Cons.prems(1) by (auto intro: delete_idem)
    with True Cons.prems show ?thesis by (cases x) simp
  next
    case False
    with Cons show ?thesis by (cases x) simp
  qed
qed simp

lemma tied_delete:
  assumes "tied size_of items order bytes" and "map_of items k = Some v"
  shows "tied size_of (AList.delete k items) (filter (\<lambda>x. x \<noteq> k) order) (bytes - size_of v)"
proof -
  have d: "distinct (map fst items)" using assms(1) by (simp add: tied_def)
  have "bytes = sum_list (map (size_of \<circ> snd) items)" using assms(1) by (simp add: tied_def)
  with sum_delete [OF d assms(2), of size_of]
  have "bytes - size_of v = sum_list (map (size_of \<circ> snd) (AList.delete k items))" by simp
  moreover have "fst ` set (AList.delete k items) = fst ` set items - {k}"
    using delete_keys [of k items] by (metis list.set_map set_removeAll)
  moreover have "distinct (map fst (AList.delete k items))" using d by (rule distinct_delete)
  ultimately show ?thesis using assms(1) by (auto simp: tied_def)
qed

lemma entries_delete:
  "k \<notin> set order \<Longrightarrow> entries_of (AList.delete k items) order = entries_of items order"
  by (auto simp: entries_of_def delete_conv intro!: map_cong)

lemma delete_entries:
  "AList.delete k (entries_of items order) = entries_of items (filter (\<lambda>x. x \<noteq> k) order)"
  by (induction order) (simp_all add: entries_of_def)

lemma saturating_over: "limit < usize_max \<Longrightarrow> limit < usize_saturating_add a b \<longleftrightarrow> limit < a + b"
  by (auto simp: usize_saturating_add_def min_def)

lemma evict_refines:
  assumes "limit < usize_max" and "need \<le> limit" and "0 < max_items" and "tied size_of items order bytes"
    and "cache_evict size_of limit max_items need items order bytes = (items', order', bytes')"
  shows "tied size_of items' order' bytes' \<and> set order' \<subseteq> set order \<and>
         entries_of items' order' = recency_trim size_of limit max_items need (entries_of items order) \<and>
         length items' < max_items \<and> bytes' + need \<le> limit"
  using assms
proof (induction order arbitrary: items bytes)
  case Nil
  then have "items = []" using tied_length [OF Nil.prems(4)] by simp
  moreover from this have "bytes = 0" using Nil.prems(4) by (simp add: tied_def)
  ultimately show ?case
    using Nil.prems by (auto simp: cache_evict.simps entries_of_def saturating_over split: if_splits)
next
  case (Cons k order)
  note bytes = tied_bytes [OF Cons.prems(4)] and len = tied_length [OF Cons.prems(4)]
  have "k \<in> fst ` set items" using Cons.prems(4) unfolding tied_def by (metis list.set_intros(1))
  then obtain v where v: "map_of items k = Some v" by (metis map_of_eq_None_iff not_Some_eq)
  have new: "filter (\<lambda>x. x \<noteq> k) (k # order) = order" "k \<notin> set order"
    using Cons.prems(4) by (auto simp: tied_def filter_id_conv)
  note rest = tied_delete [OF Cons.prems(4) v, unfolded new(1)]
  show ?case
  proof (cases "max_items \<le> length items \<or> limit < usize_saturating_add bytes need")
    case True
    then have "cache_evict size_of limit max_items need (AList.delete k items) order (bytes - size_of v) =
        (items', order', bytes')"
      using Cons.prems(5) v by (subst (asm) cache_evict.simps) simp
    note IH = Cons.IH [OF Cons.prems(1-3) rest this]
    have "recency_trim size_of limit max_items need (entries_of items (k # order)) =
        recency_trim size_of limit max_items need (entries_of items order)"
      using True len bytes saturating_over [OF Cons.prems(1), of bytes need]
      by (auto simp: entries_of_def)
    with IH show ?thesis by (auto simp: entries_delete [OF new(2)])
  next
    case False
    then have "length items < max_items" "bytes + need \<le> limit"
      by (auto simp: saturating_over [OF Cons.prems(1)])
    moreover from this have "recency_trim size_of limit max_items need (entries_of items (k # order)) =
        entries_of items (k # order)"
      using len bytes by (simp add: entries_of_def)
    ultimately show ?thesis
      using False Cons.prems by (subst (asm) cache_evict.simps) simp
  qed
qed

lemma cache_inv_tied:
  "cache_inv size_of limit max_items c \<longleftrightarrow>
     tied size_of (bc_items c) (bc_order c) (bc_bytes c) \<and> bc_bytes c \<le> limit \<and> length (bc_items c) \<le> max_items"
  by (auto simp: cache_inv_def tied_def)

lemma cache_abs_entries: "cache_abs c = entries_of (bc_items c) (bc_order c)"
  by (simp add: cache_abs_def entries_of_def)

lemma map_of_entries:
  assumes "tied size_of items order bytes"
  shows "map_of (entries_of items order) k = map_of items k"
proof (cases "k \<in> set order")
  case True
  then have "map_of items k \<noteq> None" using assms by (auto simp: tied_def map_of_eq_None_iff)
  with True show ?thesis
    by (auto simp: entries_of_def map_of_map_restrict restrict_map_def)
next
  case False
  then have "map_of items k = None" using assms by (auto simp: tied_def map_of_eq_None_iff)
  moreover have "map_of (entries_of items order) k = None"
    using False by (simp add: map_of_eq_None_iff entries_of_def image_image)
  ultimately show ?thesis by simp
qed

lemma cache_new_spec: "cache_inv size_of limit max_items cache_new \<and> cache_abs cache_new = []"
  by (simp add: cache_inv_def cache_abs_def cache_new_def)

lemma cache_get_spec:
  assumes "cache_inv size_of limit max_items c" and "cache_get k c = (r, c')"
  shows "cache_inv size_of limit max_items c' \<and> (r, cache_abs c') = recency_get k (cache_abs c) \<and>
         r = map_of (bc_items c) k \<and> bc_items c' = bc_items c"
proof -
  have tied: "tied size_of (bc_items c) (bc_order c) (bc_bytes c)" using assms(1) by (simp add: cache_inv_tied)
  note look = map_of_entries [OF tied, of k]
  show ?thesis
  proof (cases "map_of (bc_items c) k")
    case None
    with assms look show ?thesis
      by (simp add: cache_get_def recency_get_def cache_abs_entries)
  next
    case (Some v)
    then have k: "k \<in> set (bc_order c)" using tied by (force simp: tied_def dest: map_of_SomeD)
    have c': "r = Some v" "c' = c\<lparr>bc_order := filter (\<lambda>x. x \<noteq> k) (bc_order c) @ [k]\<rparr>"
      using assms(2) Some by (simp_all add: cache_get_def)
    have "cache_inv size_of limit max_items c'"
      using assms(1) k by (auto simp: cache_inv_def c')
    moreover have "cache_abs c' = AList.delete k (cache_abs c) @ [(k, v)]"
      unfolding cache_abs_entries delete_entries using Some by (simp add: c' entries_of_def)
    ultimately show ?thesis
      using c' Some look by (simp add: recency_get_def cache_abs_entries)
  qed
qed

lemma cache_insert_spec:
  assumes "limit < usize_max" and "0 < max_items" and "cache_inv size_of limit max_items c"
  shows "cache_inv size_of limit max_items (cache_insert size_of limit max_items k v c) \<and>
         cache_abs (cache_insert size_of limit max_items k v c) =
           recency_put size_of limit max_items k v (cache_abs c)"
proof (cases "limit < size_of v")
  case True
  with assms show ?thesis by (simp add: cache_insert_def recency_put_def)
next
  case False
  have tied: "tied size_of (bc_items c) (bc_order c) (bc_bytes c)" using assms(3) by (simp add: cache_inv_tied)
  define c1 where "c1 = (case map_of (bc_items c) k of None \<Rightarrow> c
      | Some previous \<Rightarrow> \<lparr>bc_items = AList.delete k (bc_items c), bc_order = filter (\<lambda>x. x \<noteq> k) (bc_order c),
          bc_bytes = bc_bytes c - size_of previous\<rparr>)"
  have "tied size_of (bc_items c1) (bc_order c1) (bc_bytes c1) \<and> k \<notin> set (bc_order c1) \<and>
      entries_of (bc_items c1) (bc_order c1) = AList.delete k (cache_abs c)"
  proof (cases "map_of (bc_items c) k")
    case None
    then have "k \<notin> set (bc_order c)" using tied by (auto simp: tied_def map_of_eq_None_iff)
    moreover from this have "filter (\<lambda>x. x \<noteq> k) (bc_order c) = bc_order c" by (auto simp: filter_id_conv)
    ultimately show ?thesis
      using None tied by (simp add: c1_def cache_abs_entries delete_entries)
  next
    case (Some previous)
    with tied_delete [OF tied Some] show ?thesis
      by (simp add: c1_def cache_abs_entries delete_entries entries_delete)
  qed
  note c1 = conjunct1 [OF this] conjunct1 [OF conjunct2 [OF this]] conjunct2 [OF conjunct2 [OF this]]
  obtain items order bytes where
    ev: "cache_evict size_of limit max_items (size_of v) (bc_items c1) (bc_order c1) (bc_bytes c1) = (items, order, bytes)"
    by (metis surj_pair)
  from False have need: "size_of v \<le> limit" by simp
  note evict = evict_refines [OF assms(1) need assms(2) c1(1) ev]
  have new: "cache_insert size_of limit max_items k v c =
      \<lparr>bc_items = (k, v) # items, bc_order = order @ [k], bc_bytes = bytes + size_of v\<rparr>"
    using False ev evict assms(1) by (simp add: cache_insert_def c1_def Let_def usize_saturating_add_def)
  have k: "k \<notin> set order" using evict c1(2) by blast
  then have "tied size_of ((k, v) # items) (order @ [k]) (bytes + size_of v)"
    using evict by (auto simp: tied_def)
  moreover have "entries_of ((k, v) # items) (order @ [k]) = entries_of items order @ [(k, v)]"
    using k by (auto simp: entries_of_def)
  ultimately show ?thesis
    using evict c1(3) False unfolding new cache_inv_tied cache_abs_entries recency_put_def by simp
qed

text \<open>Runs of calls on a cache, with the answers of the lookups.\<close>

datatype ('k, 'v) cache_call = CacheGet 'k | CachePut 'k 'v

fun cache_answer ::
  "('v \<Rightarrow> usize) \<Rightarrow> usize \<Rightarrow> usize \<Rightarrow> ('k, 'v) cache_call \<Rightarrow> ('k, 'v) byte_cache \<Rightarrow>
     'v option \<times> ('k, 'v) byte_cache" where
  "cache_answer size_of limit max_items (CacheGet k) c = cache_get k c"
| "cache_answer size_of limit max_items (CachePut k v) c = (None, cache_insert size_of limit max_items k v c)"

fun recency_call ::
  "('v \<Rightarrow> nat) \<Rightarrow> nat \<Rightarrow> nat \<Rightarrow> ('k, 'v) cache_call \<Rightarrow> ('k, 'v) recency \<Rightarrow> 'v option \<times> ('k, 'v) recency" where
  "recency_call size_of limit max_items (CacheGet k) xs = recency_get k xs"
| "recency_call size_of limit max_items (CachePut k v) xs = (None, recency_put size_of limit max_items k v xs)"

fun run_calls :: "('op \<Rightarrow> 's \<Rightarrow> 'r \<times> 's) \<Rightarrow> 'op list \<Rightarrow> 's \<Rightarrow> 'r list \<times> 's" where
  "run_calls f [] s = ([], s)"
| "run_calls f (p # ps) s = (case f p s of (r, s1) \<Rightarrow> (case run_calls f ps s1 of (rs, s2) \<Rightarrow> (r # rs, s2)))"

lemma cache_answer_spec:
  assumes "limit < usize_max" and "0 < max_items" and "cache_inv size_of limit max_items c"
    and "cache_answer size_of limit max_items p c = (r, c')"
  shows "cache_inv size_of limit max_items c' \<and>
         recency_call size_of limit max_items p (cache_abs c) = (r, cache_abs c')"
  using assms cache_get_spec [OF assms(3)] cache_insert_spec [OF assms(1-3)] by (cases p) fastforce+

lemma cache_run_spec:
  assumes "limit < usize_max" and "0 < max_items"
  shows "cache_inv size_of limit max_items c \<Longrightarrow> run_calls (cache_answer size_of limit max_items) ps c = (rs, c') \<Longrightarrow>
     cache_inv size_of limit max_items c' \<and>
     run_calls (recency_call size_of limit max_items) ps (cache_abs c) = (rs, cache_abs c')"
proof (induction ps arbitrary: c rs)
  case (Cons p ps)
  obtain r c1 where c1: "cache_answer size_of limit max_items p c = (r, c1)" by fastforce
  obtain rs1 where rs1: "run_calls (cache_answer size_of limit max_items) ps c1 = (rs1, c')" "rs = r # rs1"
    using Cons.prems(2) c1 by (auto split: prod.splits)
  from cache_answer_spec [OF assms Cons.prems(1) c1] Cons.IH [OF _ rs1(1)] rs1(2) show ?case by simp
qed simp

lemma value_cache_byte_cache:
  assumes "limit < usize_max" and "0 < max_items"
  shows "value_cache (cache_inv size_of limit max_items) (\<lambda>c. map_of (bc_items c)) cache_get
           (cache_insert size_of limit max_items)"
proof
  fix k :: 'a and s s' :: "('a, 'b) byte_cache" and r
  assume "cache_inv size_of limit max_items s" "cache_get k s = (r, s')"
  from cache_get_spec [OF this]
  show "cache_inv size_of limit max_items s' \<and> r = map_of (bc_items s) k \<and> map_of (bc_items s') = map_of (bc_items s)"
    by simp
next
  fix k :: 'a and s :: "('a, 'b) byte_cache" and v
  assume inv: "cache_inv size_of limit max_items s"
  let ?s = "cache_insert size_of limit max_items k v s"
  note spec = cache_insert_spec [OF assms inv, of k v]
  have look: "map_of (bc_items t) j = map_of (cache_abs t) j" if "cache_inv size_of limit max_items t"
    for t :: "('a, 'b) byte_cache" and j
    using that map_of_entries by (fastforce simp: cache_inv_tied cache_abs_entries)
  have dist: "distinct (map fst (cache_abs s))" using inv by (simp add: cache_abs_entries cache_inv_def)
  have trim: "set (recency_trim size_of limit max_items need xs) \<subseteq> set xs" for need and xs :: "('a, 'b) recency"
    by (induction xs) auto
  have sub: "set (AList.delete k (cache_abs s)) \<subseteq> set (cache_abs s)" by (auto simp: AList.delete_eq)
  have "map_of (bc_items s) j = Some w \<or> (j = k \<and> w = v)" if "map_of (bc_items ?s) j = Some w" for j w
  proof -
    have "(j, w) \<in> set (cache_abs ?s)"
      using that spec look [of ?s j] by (auto dest: map_of_SomeD)
    then have "(j, w) \<in> set (cache_abs s) \<or> (j, w) = (k, v)"
      using spec trim [of "size_of v" "AList.delete k (cache_abs s)"] sub
      by (auto simp: recency_put_def split: if_splits)
    with look [OF inv, of j] dist show ?thesis by auto
  qed
  with spec show "cache_inv size_of limit max_items ?s \<and>
      (\<forall>j w. map_of (bc_items ?s) j = Some w \<longrightarrow> map_of (bc_items s) j = Some w \<or> (j = k \<and> w = v))"
    by blast
qed

end
