(* ===== verification/Svn_Patch.thy ===== *)
theory Svn_Patch
  imports Text_Utf8 Byte_Cache
begin

text \<open>
  The streaming parser of Subversion patches and its cache, crates/winrisef-agent/src/svn_patch.rs.

  The parser is fed the output of the client in chunks of any size; its state is what is kept of the
  current line, the file under construction and the files that are complete.  The limits are
  fields, as in \<open>with_limits\<close>; the path normalisation is an argument, as in the source.

  The lemmas show that chunk boundaries do not matter, and that what is retained stays within the
  limits.
\<close>

section \<open>Model\<close>

definition PATCH_CACHE_LIMIT :: usize where "PATCH_CACHE_LIMIT = 32 * 1024 * 1024"
definition PATCH_CACHE_MAX_ITEMS :: usize where "PATCH_CACHE_MAX_ITEMS = 3"
definition PATCH_PREVIEW_LIMIT :: usize where "PATCH_PREVIEW_LIMIT = 2 * 1024 * 1024"
definition METADATA_LINE_LIMIT :: usize where "METADATA_LINE_LIMIT = 64 * 1024"

datatype svn_patch_body = Retained bytes | Deferred | TooLarge

record svn_patch_file =
  pf_body :: svn_patch_body
  pf_additions :: usize
  pf_deletions :: usize
  pf_is_binary :: bool

record svn_patch_set =
  ps_files :: "(string \<times> svn_patch_file) list"
  ps_bytes :: usize

record current_file =
  cf_path :: string
  cf_patch :: bytes
  cf_patch_too_large :: bool
  cf_additions :: usize
  cf_deletions :: usize
  cf_is_binary :: bool
  cf_in_hunk :: bool

record svn_patch_parser =
  pp_files :: "(string \<times> svn_patch_file) list"
  pp_current :: "current_file option"
  pp_line :: bytes
  pp_line_overflow :: bool
  pp_line_has_nul :: bool
  pp_retained_bytes :: usize
  pp_file_limit :: usize
  pp_total_limit :: usize

definition patch_with_limits :: "usize \<Rightarrow> usize \<Rightarrow> svn_patch_parser" where
  "patch_with_limits file_limit total_limit =
     \<lparr>pp_files = [], pp_current = None, pp_line = [], pp_line_overflow = False, pp_line_has_nul = False,
      pp_retained_bytes = 0, pp_file_limit = file_limit, pp_total_limit = total_limit\<rparr>"

definition patch_parser_new :: svn_patch_parser where
  "patch_parser_new = patch_with_limits PATCH_PREVIEW_LIMIT PATCH_CACHE_LIMIT"

definition strip_suffix :: "'a list \<Rightarrow> 'a list \<Rightarrow> 'a list option" where
  "strip_suffix suffix xs =
     (if length suffix \<le> length xs \<and> drop (length xs - length suffix) xs = suffix
      then Some (take (length xs - length suffix) xs) else None)"

definition trim_line_end :: "bytes \<Rightarrow> bytes" where
  "trim_line_end line =
     (let line1 = (case strip_suffix [10] line of Some trimmed \<Rightarrow> trimmed | None \<Rightarrow> line)
      in case strip_suffix [13] line1 of Some trimmed \<Rightarrow> trimmed | None \<Rightarrow> line1)"

definition marks_binary :: "bytes \<Rightarrow> bool" where
  "marks_binary line =
     (if starts_with (bytes_of ''Cannot display:'') line then True
      else (case strip_prefix (bytes_of ''svn:mime-type = '') line of
        None \<Rightarrow> False
      | Some mime \<Rightarrow> (
          case from_utf8 mime of
            None \<Rightarrow> False
          | Some text_value \<Rightarrow> \<not> starts_with ''text/'' (trim text_value))))"

definition patch_finish_file :: "svn_patch_parser \<Rightarrow> svn_patch_parser" where
  "patch_finish_file p =
     (case pp_current p of
        None \<Rightarrow> p
      | Some current \<Rightarrow>
          let patch = from_utf8_lossy (cf_patch current);
              body = (if cf_is_binary current then Deferred
                      else if cf_patch_too_large current then TooLarge
                      else if pp_file_limit p < length patch then TooLarge
                      else if pp_total_limit p < usize_saturating_add (pp_retained_bytes p) (length patch)
                      then Deferred else Retained patch);
              retained = (case body of Retained patch \<Rightarrow> pp_retained_bytes p + length patch
                                     | _ \<Rightarrow> pp_retained_bytes p)
          in p\<lparr>pp_current := None, pp_retained_bytes := retained,
               pp_files := AList.update (cf_path current)
                 \<lparr>pf_body = body, pf_additions = cf_additions current, pf_deletions = cf_deletions current,
                  pf_is_binary = cf_is_binary current\<rparr> (pp_files p)\<rparr>)"

text \<open>What a complete line does to the file under construction.\<close>

definition patch_line :: "usize \<Rightarrow> bool \<Rightarrow> bool \<Rightarrow> bytes \<Rightarrow> current_file \<Rightarrow> current_file" where
  "patch_line file_limit overflow has_nul line current =
     (let trimmed = trim_line_end line;
          c1 = current\<lparr>cf_is_binary := cf_is_binary current \<or> has_nul \<or> marks_binary trimmed\<rparr>;
          c2 = (if cf_is_binary c1 then c1\<lparr>cf_patch := []\<rparr>
                else if overflow \<or> file_limit < usize_saturating_add (length (cf_patch c1)) (length line)
                then c1\<lparr>cf_patch := [], cf_patch_too_large := True\<rparr>
                else if \<not> cf_patch_too_large c1 then c1\<lparr>cf_patch := cf_patch c1 @ line\<rparr>
                else c1)
      in if starts_with (bytes_of ''@@'') trimmed then c2\<lparr>cf_in_hunk := True\<rparr>
         else if starts_with (bytes_of ''Property changes on:'') trimmed then c2\<lparr>cf_in_hunk := False\<rparr>
         else if cf_in_hunk c2 then
           (if starts_with (bytes_of ''+'') trimmed then c2\<lparr>cf_additions := cf_additions c2 + 1\<rparr>
            else if starts_with (bytes_of ''-'') trimmed then c2\<lparr>cf_deletions := cf_deletions c2 + 1\<rparr>
            else c2)
         else c2)"

definition patch_finish_line :: "(string \<Rightarrow> string) \<Rightarrow> svn_patch_parser \<Rightarrow> svn_patch_parser" where
  "patch_finish_line norm_path p =
     (let p1 = (case strip_prefix (bytes_of ''Index: '') (trim_line_end (pp_line p)) of
                  None \<Rightarrow> p
                | Some path \<Rightarrow>
                    (patch_finish_file p)\<lparr>pp_current :=
                       Some \<lparr>cf_path = norm_path (chars_of (from_utf8_lossy path)), cf_patch = [],
                             cf_patch_too_large = False, cf_additions = 0, cf_deletions = 0,
                             cf_is_binary = False, cf_in_hunk = False\<rparr>\<rparr>)
      in p1\<lparr>pp_current := map_option (patch_line (pp_file_limit p) (pp_line_overflow p) (pp_line_has_nul p)
                                        (pp_line p)) (pp_current p1),
            pp_line := [], pp_line_overflow := False, pp_line_has_nul := False\<rparr>)"

definition patch_line_limit :: "svn_patch_parser \<Rightarrow> usize" where
  "patch_line_limit p = max (usize_saturating_add (pp_file_limit p) 1) METADATA_LINE_LIMIT"

definition patch_segment :: "(string \<Rightarrow> string) \<Rightarrow> bytes \<Rightarrow> svn_patch_parser \<Rightarrow> svn_patch_parser" where
  "patch_segment norm_path segment p =
     (let p1 = p\<lparr>pp_line_has_nul := pp_line_has_nul p \<or> 0 \<in> set segment\<rparr>;
          p2 = (if length (pp_line p1) < patch_line_limit p
                then (let retained = min (patch_line_limit p - length (pp_line p1)) (length segment)
                      in p1\<lparr>pp_line := pp_line p1 @ take retained segment,
                            pp_line_overflow := pp_line_overflow p1 \<or> retained < length segment\<rparr>)
                else p1\<lparr>pp_line_overflow := True\<rparr>)
      in if segment \<noteq> [] \<and> last segment = 10 then patch_finish_line norm_path p2 else p2)"

text \<open>\<open>split_inclusive\<close>: the separator stays at the end of its segment.\<close>

fun split_inclusive :: "'a \<Rightarrow> 'a list \<Rightarrow> 'a list list" where
  "split_inclusive sep [] = []"
| "split_inclusive sep (x # xs) =
     (if x = sep then [x] # split_inclusive sep xs
      else (case split_inclusive sep xs of
        [] \<Rightarrow> [[x]]
      | segment # segments \<Rightarrow> (x # segment) # segments))"

definition patch_push :: "(string \<Rightarrow> string) \<Rightarrow> bytes \<Rightarrow> svn_patch_parser \<Rightarrow> svn_patch_parser" where
  "patch_push norm_path bytes p = fold (patch_segment norm_path) (split_inclusive 10 bytes) p"

definition patch_finish :: "(string \<Rightarrow> string) \<Rightarrow> svn_patch_parser \<Rightarrow> svn_patch_set" where
  "patch_finish norm_path p =
     (let p1 = (if pp_line p \<noteq> [] \<or> pp_line_overflow p then patch_finish_line norm_path p else p);
          p2 = patch_finish_file p1
      in \<lparr>ps_files = pp_files p2, ps_bytes = pp_retained_bytes p2\<rparr>)"

definition patch_set_parse :: "(string \<Rightarrow> string) \<Rightarrow> bytes \<Rightarrow> svn_patch_set" where
  "patch_set_parse norm_path bytes = patch_finish norm_path (patch_push norm_path bytes patch_parser_new)"

definition patch_set_file :: "string \<Rightarrow> svn_patch_set \<Rightarrow> svn_patch_file option" where
  "patch_set_file path s = map_of (ps_files s) path"

definition added_file_patch :: "string \<Rightarrow> bytes \<Rightarrow> bytes" where
  "added_file_patch path content =
     (let content1 = replace_all [13, 10] [10] (from_utf8_lossy content);
          header = bytes_of (''Index: '' @ path @ [CHR 0x0A] @ ''--- /dev/null'' @ [CHR 0x0A] @ ''+++ b/'' @ path @
                     [CHR 0x0A])
      in if content1 = [] then header
         else header @
              bytes_of (''@@ -0,0 +1,'' @ show_nat (length (split_inclusive 10 content1)) @ '' @@'' @ [CHR 0x0A]) @
              concat (map (\<lambda>line. bytes_of ''+'' @ line) (split_inclusive 10 content1)) @
              (if last content1 \<noteq> 10
               then bytes_of ([CHR 0x0A, CHR 0x5C] @ '' No newline at end of file'' @ [CHR 0x0A]) else []))"

section \<open>The cache of patches\<close>

type_synonym patch_key = "u64 option \<times> u64 option"
type_synonym svn_patch_cache = "(patch_key, svn_patch_set) byte_cache"

definition patch_cache_new :: svn_patch_cache where "patch_cache_new = cache_new"

definition patch_cache_get :: "patch_key \<Rightarrow> svn_patch_cache \<Rightarrow> svn_patch_set option \<times> svn_patch_cache" where
  "patch_cache_get = cache_get"

definition patch_cache_insert :: "patch_key \<Rightarrow> svn_patch_set \<Rightarrow> svn_patch_cache \<Rightarrow> svn_patch_cache" where
  "patch_cache_insert = cache_insert ps_bytes PATCH_CACHE_LIMIT PATCH_CACHE_MAX_ITEMS"

definition patch_cache_clear :: "svn_patch_cache \<Rightarrow> svn_patch_cache" where
  "patch_cache_clear c = \<lparr>bc_items = [], bc_order = [], bc_bytes = 0\<rparr>"

lemma patch_cache_limits: "PATCH_CACHE_LIMIT < usize_max" "0 < PATCH_CACHE_MAX_ITEMS"
  by (simp_all add: PATCH_CACHE_LIMIT_def PATCH_CACHE_MAX_ITEMS_def usize_max_def)

interpretation patch_cache: value_cache "cache_inv ps_bytes PATCH_CACHE_LIMIT PATCH_CACHE_MAX_ITEMS"
  "\<lambda>c. map_of (bc_items c)" patch_cache_get patch_cache_insert
  unfolding patch_cache_get_def patch_cache_insert_def
  by (rule value_cache_byte_cache [OF patch_cache_limits])

section \<open>Chunk boundaries\<close>

definition line_fits :: "svn_patch_parser \<Rightarrow> bool" where
  "line_fits p \<longleftrightarrow> length (pp_line p) \<le> patch_line_limit p"

lemma patch_segment_eq:
  assumes "line_fits p" and "segment \<noteq> []"
  shows "patch_segment norm_path segment p =
     (let q = p\<lparr>pp_line_has_nul := pp_line_has_nul p \<or> 0 \<in> set segment,
                pp_line := take (patch_line_limit p) (pp_line p @ segment),
                pp_line_overflow := pp_line_overflow p \<or> patch_line_limit p < length (pp_line p) + length segment\<rparr>
      in if last segment = 10 then patch_finish_line norm_path q else q)"
proof -
  let ?L = "patch_line_limit p"
  have "take (min (?L - length (pp_line p)) (length segment)) segment = take (?L - length (pp_line p)) segment"
    by (cases "?L - length (pp_line p) \<le> length segment") (simp_all add: min_def)
  moreover have "min (?L - length (pp_line p)) (length segment) < length segment \<longleftrightarrow> ?L < length (pp_line p) + length segment"
    if "length (pp_line p) < ?L" using that by auto
  moreover have "take ?L (pp_line p) = pp_line p" using assms(1) by (simp add: line_fits_def)
  moreover have "length (pp_line p) = ?L" if "\<not> length (pp_line p) < ?L" using that assms(1) by (simp add: line_fits_def)
  ultimately show ?thesis
    using assms(2) by (auto simp: patch_segment_def Let_def)
qed

lemma patch_line_limit_finish [simp]:
  "patch_line_limit (patch_finish_line norm_path p) = patch_line_limit p"
  by (simp add: patch_line_limit_def patch_finish_line_def patch_finish_file_def Let_def split: option.split)

lemma finish_line_fits [simp]: "line_fits (patch_finish_line norm_path p)"
  by (simp add: line_fits_def patch_finish_line_def Let_def)

lemma patch_segment_fits:
  assumes "line_fits p" and "segment \<noteq> []"
  shows "line_fits (patch_segment norm_path segment p) \<and>
         patch_line_limit (patch_segment norm_path segment p) = patch_line_limit p"
  unfolding patch_segment_eq [OF assms] by (simp add: Let_def del: take_append) (simp add: line_fits_def patch_line_limit_def del: take_append)

lemma patch_segment_Cons:
  assumes "line_fits p" and "x \<noteq> 10" and "segment \<noteq> []"
  shows "patch_segment norm_path (x # segment) p = patch_segment norm_path segment (patch_segment norm_path [x] p)"
proof -
  let ?L = "patch_line_limit p" and ?l = "pp_line p"
  define q where "q = patch_segment norm_path [x] p"
  have q: "q = p\<lparr>pp_line_has_nul := pp_line_has_nul p \<or> 0 \<in> set [x], pp_line := take ?L (?l @ [x]),
      pp_line_overflow := pp_line_overflow p \<or> ?L < length ?l + 1\<rparr>"
    using patch_segment_eq [OF assms(1), of "[x]" norm_path] assms(2) by (simp add: q_def)
  have "line_fits q" "patch_line_limit q = ?L"
    using patch_segment_fits [OF assms(1), of "[x]" norm_path] by (simp_all add: q_def)
  note seg = patch_segment_eq [OF this(1) assms(3), of norm_path, unfolded this(2)]
  have "take ?L (take ?L (?l @ [x]) @ segment) = take ?L (?l @ x # segment)"
    by (simp add: take_Cons' min_def not_le split: if_splits)
  moreover have "(pp_line_overflow p \<or> ?L < length ?l + 1) \<or> ?L < length (take ?L (?l @ [x])) + length segment \<longleftrightarrow>
      pp_line_overflow p \<or> ?L < length ?l + length (x # segment)"
    using assms(3) by (cases segment) (auto simp: min_def)
  ultimately show ?thesis
    unfolding q_def [symmetric] seg
    using patch_segment_eq [OF assms(1), of "x # segment" norm_path] assms(3)
    by (simp add: q Let_def disj_assoc)
qed

lemma split_inclusive_nonempty: "segment \<in> set (split_inclusive sep xs) \<Longrightarrow> segment \<noteq> []"
  by (induction xs arbitrary: segment) (auto split: if_splits list.splits)

lemma split_inclusive_Nil [simp]: "split_inclusive sep xs = [] \<longleftrightarrow> xs = []"
  by (cases xs) (auto split: list.split)

lemma patch_push_bytes:
  "line_fits p \<Longrightarrow> patch_push norm_path bs p = fold (\<lambda>b. patch_segment norm_path [b]) bs p"
proof (induction bs arbitrary: p)
  case (Cons b bs)
  have fits: "line_fits (patch_segment norm_path [b] p)" using patch_segment_fits [OF Cons.prems, of "[b]"] by simp
  show ?case
  proof (cases "b = 10 \<or> bs = []")
    case True
    then show ?thesis using Cons.IH [OF fits] by (auto simp: patch_push_def)
  next
    case False
    then obtain segment segments where split: "split_inclusive 10 bs = segment # segments"
      by (cases "split_inclusive 10 bs") auto
    then have "segment \<noteq> []" using split_inclusive_nonempty [of segment 10 bs] by simp
    from patch_segment_Cons [OF Cons.prems _ this] False split Cons.IH [OF fits] show ?thesis
      by (simp add: patch_push_def)
  qed
qed (simp add: patch_push_def)

lemma fold_bytes_fits:
  "line_fits p \<Longrightarrow> line_fits (fold (\<lambda>b. patch_segment norm_path [b]) bs p)"
  by (induction bs arbitrary: p) (simp_all add: patch_segment_fits)

lemma patch_push_fits: "line_fits p \<Longrightarrow> line_fits (patch_push norm_path bs p)"
  by (simp add: patch_push_bytes fold_bytes_fits)

lemma patch_push_chunks:
  "line_fits p \<Longrightarrow> fold (patch_push norm_path) chunks p = patch_push norm_path (concat chunks) p"
proof (induction chunks arbitrary: p)
  case (Cons chunk chunks)
  from Cons.IH [OF patch_push_fits [OF Cons.prems, of norm_path chunk]] Cons.prems patch_push_fits [OF Cons.prems]
  show ?case by (simp add: patch_push_bytes fold_bytes_fits)
qed (simp add: patch_push_def)

section \<open>What is retained\<close>

definition retained_len :: "svn_patch_file \<Rightarrow> nat" where
  "retained_len f = (case pf_body f of Retained patch \<Rightarrow> length patch | _ \<Rightarrow> 0)"

definition retained_total :: "(string \<times> svn_patch_file) list \<Rightarrow> nat" where
  "retained_total files = sum_list (map (retained_len \<circ> snd) files)"

definition patch_bounds :: "svn_patch_parser \<Rightarrow> bool" where
  "patch_bounds p \<longleftrightarrow> line_fits p \<and>
     (\<forall>c. pp_current p = Some c \<longrightarrow> length (cf_patch c) \<le> pp_file_limit p) \<and>
     (\<forall>f \<in> set (pp_files p). retained_len (snd f) \<le> pp_file_limit p) \<and> distinct (map fst (pp_files p)) \<and>
     retained_total (pp_files p) \<le> pp_retained_bytes p \<and> pp_retained_bytes p \<le> pp_total_limit p \<and>
     pp_total_limit p < usize_max \<and> pp_file_limit p < usize_max"

lemma retained_update:
  "retained_total (AList.update k f files) \<le> retained_total files + retained_len f"
  by (induction files) (auto simp: retained_total_def)

lemma update_files: "x \<in> set (AList.update k f files) \<Longrightarrow> x = (k, f) \<or> x \<in> set files"
  by (induction files) (auto split: if_splits)

lemma finish_file_bounds:
  assumes "patch_bounds p"
  shows "patch_bounds (patch_finish_file p) \<and> pp_current (patch_finish_file p) = None \<and>
         pp_file_limit (patch_finish_file p) = pp_file_limit p \<and> pp_line (patch_finish_file p) = pp_line p"
proof (cases "pp_current p")
  case (Some c)
  define patch where "patch = from_utf8_lossy (cf_patch c)"
  define body where "body = (if cf_is_binary c then Deferred else if cf_patch_too_large c then TooLarge
      else if pp_file_limit p < length patch then TooLarge
      else if pp_total_limit p < usize_saturating_add (pp_retained_bytes p) (length patch) then Deferred
      else Retained patch)"
  define f where "f = \<lparr>pf_body = body, pf_additions = cf_additions c, pf_deletions = cf_deletions c,
      pf_is_binary = cf_is_binary c\<rparr>"
  have eq: "patch_finish_file p = p\<lparr>pp_current := None, pp_retained_bytes := pp_retained_bytes p + retained_len f,
      pp_files := AList.update (cf_path c) f (pp_files p)\<rparr>"
    by (simp add: patch_finish_file_def Some Let_def f_def retained_len_def body_def patch_def)
  have len: "retained_len f \<le> pp_file_limit p" "pp_retained_bytes p + retained_len f \<le> pp_total_limit p"
    using assms by (auto simp: f_def retained_len_def body_def patch_bounds_def usize_saturating_add_def)
  have "retained_total (AList.update (cf_path c) f (pp_files p)) \<le> pp_retained_bytes p + retained_len f"
    using assms retained_update [of "cf_path c" f "pp_files p"] by (simp add: patch_bounds_def)
  with assms len show ?thesis
    unfolding eq patch_bounds_def line_fits_def patch_line_limit_def
    by (auto dest!: update_files intro: distinct_update)
qed (use assms in \<open>simp add: patch_finish_file_def\<close>)

lemma patch_line_bounds:
  "length (cf_patch c) \<le> limit \<Longrightarrow> limit < usize_max \<Longrightarrow>
     length (cf_patch (patch_line limit overflow has_nul line c)) \<le> limit"
  by (simp add: patch_line_def Let_def usize_saturating_add_def)

lemma finish_line_bounds:
  assumes "patch_bounds p"
  shows "patch_bounds (patch_finish_line norm_path p)"
proof (cases "strip_prefix (bytes_of ''Index: '') (trim_line_end (pp_line p))")
  case None
  with assms patch_line_bounds show ?thesis
    by (auto simp: patch_finish_line_def patch_bounds_def line_fits_def patch_line_limit_def)
next
  case (Some path)
  note spec = finish_file_bounds [OF assms]
  then show ?thesis
    using patch_line_bounds Some
    by (auto simp: patch_finish_line_def patch_bounds_def line_fits_def patch_line_limit_def Let_def)
qed

lemma patch_segment_bounds:
  assumes "patch_bounds p" and "segment \<noteq> []"
  shows "patch_bounds (patch_segment norm_path segment p)"
proof -
  have fits: "line_fits p" using assms(1) by (simp add: patch_bounds_def)
  have "patch_bounds (p\<lparr>pp_line_has_nul := n, pp_line := take (patch_line_limit p) line, pp_line_overflow := v\<rparr>)"
    for n line v
    using assms(1) by (simp add: patch_bounds_def line_fits_def patch_line_limit_def)
  then show ?thesis
    unfolding patch_segment_eq [OF fits assms(2)] by (simp add: Let_def finish_line_bounds del: take_append)
qed

lemma patch_push_bounds: "patch_bounds p \<Longrightarrow> patch_bounds (patch_push norm_path bs p)"
proof -
  assume p: "patch_bounds p"
  then have "line_fits p" by (simp add: patch_bounds_def)
  moreover have "patch_bounds (fold (\<lambda>b. patch_segment norm_path [b]) bs p)"
    using p by (induction bs arbitrary: p) (simp_all add: patch_segment_bounds)
  ultimately show ?thesis by (simp add: patch_push_bytes)
qed

lemma patch_pushes_bounds: "patch_bounds p \<Longrightarrow> patch_bounds (fold (patch_push norm_path) chunks p)"
  by (induction chunks arbitrary: p) (simp_all add: patch_push_bounds)

lemma patch_push_total [simp]: "pp_total_limit (patch_push norm_path bs p) = pp_total_limit p"
proof -
  have line: "pp_total_limit (patch_finish_line norm_path q) = pp_total_limit q" for q
    by (simp add: patch_finish_file_def patch_finish_line_def Let_def split: option.split)
  have "pp_total_limit (fold (patch_segment norm_path) segments p) = pp_total_limit p" for segments
    by (induction segments arbitrary: p) (simp_all add: patch_segment_def Let_def line)
  then show ?thesis by (simp add: patch_push_def)
qed

lemma patch_finish_bounds:
  assumes "patch_bounds p"
  shows "ps_bytes (patch_finish norm_path p) \<le> pp_total_limit p \<and>
         retained_total (ps_files (patch_finish norm_path p)) \<le> ps_bytes (patch_finish norm_path p)"
proof -
  have total: "pp_total_limit (patch_finish_file q) = pp_total_limit q"
    "pp_total_limit (patch_finish_line norm_path q) = pp_total_limit q" for q
    by (simp_all add: patch_finish_file_def patch_finish_line_def Let_def split: option.split)
  have "patch_bounds (if pp_line p \<noteq> [] \<or> pp_line_overflow p then patch_finish_line norm_path p else p)"
    (is "patch_bounds ?p1") using assms by (simp add: finish_line_bounds)
  from finish_file_bounds [OF this] have "patch_bounds (patch_finish_file ?p1)" by blast
  moreover have "pp_total_limit (patch_finish_file ?p1) = pp_total_limit p" by (simp add: total)
  ultimately show ?thesis by (simp add: patch_finish_def Let_def patch_bounds_def)
qed

lemma with_limits_bounds:
  "file_limit < usize_max \<Longrightarrow> total_limit < usize_max \<Longrightarrow> patch_bounds (patch_with_limits file_limit total_limit)"
  by (simp add: patch_bounds_def patch_with_limits_def line_fits_def retained_total_def)

section \<open>Properties\<close>

text \<open>C29. The chunks in which the output of the client arrives do not matter: the streamed parser gives
  the same files, counts, bodies and byte total as the parser of the whole output, for any
  division into chunks.\<close>

theorem patch_streaming_equivalent:
  "patch_finish norm_path (fold (patch_push norm_path) chunks patch_parser_new) =
     patch_set_parse norm_path (concat chunks)"
proof -
  have "line_fits patch_parser_new" by (simp add: line_fits_def patch_parser_new_def patch_with_limits_def)
  from patch_push_chunks [OF this] show ?thesis by (simp add: patch_set_parse_def)
qed



end
