(* ===== verification/Svn_Repository.thy ===== *)
theory Svn_Repository
  imports Svn_Cli Svn_Patch Git_History
begin

text \<open>
  The Subversion backend, crates/winrisef-agent/src/svn_repository.rs: the caches of a working copy,
  its overview, the history, the comparison of two revisions and the two kinds of preview.

  The client is Svn_Cli and the working copy is a file system, both in \<open>svn_env\<close>; the caches behind
  their mutexes are fields of the repository, which every operation returns.  Lower case and the
  parser of dates are arguments, and the order of a hash map is one of the environment.

  The properties of the backend are in Svn_History and Svn_Reads.
\<close>

section \<open>Data\<close>

definition EXPORT_LIMIT :: usize where "EXPORT_LIMIT = 32 * 1024 * 1024"
definition PREVIEW_CACHE_LIMIT :: usize where "PREVIEW_CACHE_LIMIT = 16 * 1024 * 1024"
definition PREVIEW_CACHE_MAX_ITEMS :: usize where "PREVIEW_CACHE_MAX_ITEMS = 8"
definition SOURCE_CACHE_LIMIT :: usize where "SOURCE_CACHE_LIMIT = 32 * 1024 * 1024"
definition SOURCE_CACHE_MAX_ITEMS :: usize where "SOURCE_CACHE_MAX_ITEMS = 64"
definition SVN_HISTORY_FETCH_LIMIT :: usize where "SVN_HISTORY_FETCH_LIMIT = 32"
definition BINARY_SNIFF_BYTES :: usize where "BINARY_SNIFF_BYTES = 8 * 1024"

datatype svn_content_source = SvnEmpty | SvnAtRevision u64 | SvnWorkingFile

datatype svn_revision = SvnNumber u64 | SvnWorking

record svn_diff_range =
  dg_old_revision :: u64
  dg_new_revision :: svn_revision
  dg_local_base :: bool

record svn_diff_file =
  sf_file_id :: u32
  sf_path :: string
  sf_status :: string
  sf_groups :: "string list"
  sf_additions :: usize
  sf_deletions :: usize
  sf_is_binary :: bool
  sf_preview_too_large :: bool
  sf_export_too_large :: bool
  sf_properties_changed :: bool
  sf_node_kind :: string
  sf_old_source :: svn_content_source
  sf_new_source :: svn_content_source

type_synonym preview_cache = "(string, preview_content) byte_cache"
type_synonym source_cache = "(string, bytes) byte_cache"

record svn_diff_session =
  sd_files :: "svn_diff_file list"
  sd_patch_key :: patch_key
  sd_previews :: preview_cache

record svn_repository =
  sr_info :: svn_repository_info
  sr_history_connected :: bool
  sr_history_head :: "u64 option"
  sr_status :: "svn_status_entry list option"
  sr_summaries :: "(patch_key \<times> svn_diff_summary_entry list) list"
  sr_patches :: svn_patch_cache
  sr_sources :: source_cache

datatype svn_failure =
    SvnFailed svn_error
  | SvnFileIo
  | SvnFileTooLarge
  | SvnNotAFile
  | SvnBinary
  | SvnDirectory
  | SvnPatchTooLarge
  | SvnPatchMissing
  | SvnFileGone
  | SvnRevisionInvalid
  | SvnRevisionKind
  | SvnOldIsWorking
  | SvnTunnelDisabled
  | SvnNotConfirmed

datatype file_meta = MetaSymlink | MetaDirectory | MetaFile u64

record svn_env =
  sn_windows :: bool
  sn_world :: svn_world
  sn_xml :: svn_xml
  sn_meta :: "string \<Rightarrow> file_meta option"
  sn_link :: "string \<Rightarrow> string option"
  sn_open :: "string \<Rightarrow> (unit + bytes) list option"
  sn_first :: "(string \<times> svn_patch_file) list \<Rightarrow> svn_patch_file option"

definition from_svn :: "svn_error + 'a \<Rightarrow> svn_failure + 'a" where
  "from_svn r = (case r of Inl e \<Rightarrow> Inl (SvnFailed e) | Inr v \<Rightarrow> Inr v)"

section \<open>The caches\<close>

definition preview_bytes :: "preview_content \<Rightarrow> usize" where
  "preview_bytes c = usize_saturating_add (length (pc_original c)) (length (pc_modified c))"

definition preview_cache_get :: "string \<Rightarrow> preview_cache \<Rightarrow> preview_content option \<times> preview_cache" where
  "preview_cache_get = cache_get"

definition preview_cache_insert :: "string \<Rightarrow> preview_content \<Rightarrow> preview_cache \<Rightarrow> preview_cache" where
  "preview_cache_insert = cache_insert preview_bytes PREVIEW_CACHE_LIMIT PREVIEW_CACHE_MAX_ITEMS"

definition source_cache_get :: "string \<Rightarrow> source_cache \<Rightarrow> bytes option \<times> source_cache" where
  "source_cache_get = cache_get"

definition source_cache_insert :: "string \<Rightarrow> bytes \<Rightarrow> source_cache \<Rightarrow> source_cache" where
  "source_cache_insert = cache_insert length SOURCE_CACHE_LIMIT SOURCE_CACHE_MAX_ITEMS"

definition clear_working_entry :: "string \<Rightarrow> source_cache \<Rightarrow> source_cache" where
  "clear_working_entry key c =
     (case map_of (bc_items c) key of
        None \<Rightarrow> c\<lparr>bc_order := filter (\<lambda>x. x \<noteq> key) (bc_order c)\<rparr>
      | Some previous \<Rightarrow>
          \<lparr>bc_items = AList.delete key (bc_items c), bc_order = filter (\<lambda>x. x \<noteq> key) (bc_order c),
           bc_bytes = bc_bytes c - length previous\<rparr>)"

definition clear_working :: "source_cache \<Rightarrow> source_cache" where
  "clear_working c = fold clear_working_entry (filter (starts_with ''working:'') (map fst (bc_items c))) c"

definition conflict_name :: "conflict_perspective \<Rightarrow> string" where
  "conflict_name perspective =
     (case perspective of
        BaseToOurs \<Rightarrow> ''base-to-ours''
      | BaseToTheirs \<Rightarrow> ''base-to-theirs''
      | OursToTheirs \<Rightarrow> ''ours-to-theirs''
      | HeadToWorking \<Rightarrow> ''head-to-working'')"

definition preview_cache_key :: "string \<Rightarrow> u32 \<Rightarrow> conflict_perspective \<Rightarrow> string" where
  "preview_cache_key mode file_id perspective = mode @ '':'' @ show_nat (unat file_id) @ '':'' @ conflict_name perspective"

definition patch_preview_key :: "u32 \<Rightarrow> string" where
  "patch_preview_key file_id = ''patch:'' @ show_nat (unat file_id)"

definition source_cache_key :: "string \<Rightarrow> svn_content_source \<Rightarrow> string option" where
  "source_cache_key path source =
     (case source of
        SvnEmpty \<Rightarrow> None
      | SvnWorkingFile \<Rightarrow> Some (''working:'' @ path)
      | SvnAtRevision revision \<Rightarrow> Some (''r'' @ show_nat (unat revision) @ '':'' @ path))"

definition svn_new :: "svn_repository_info \<Rightarrow> svn_repository" where
  "svn_new info =
     \<lparr>sr_info = info, sr_history_connected = False, sr_history_head = None, sr_status = None, sr_summaries = [],
      sr_patches = patch_cache_new, sr_sources = cache_new\<rparr>"

definition svn_repository_discover ::
  "svn_env \<Rightarrow> (string \<Rightarrow> string option) \<Rightarrow> svn_error + string \<Rightarrow> string \<Rightarrow> svn_failure + svn_repository option" where
  "svn_repository_discover env canonicalize cli selected =
     (case cli of
        Inl e \<Rightarrow> if e = NotInstalled then Inr None else Inl (SvnFailed e)
      | Inr _ \<Rightarrow>
          and_then (from_svn (discover_working_copy (sn_world env) (sn_xml env) canonicalize selected))
            (\<lambda>info. Inr (map_option svn_new info)))"

definition invalidate_status_cache :: "svn_repository \<Rightarrow> svn_repository" where
  "invalidate_status_cache r =
     r\<lparr>sr_status := None, sr_summaries := [], sr_patches := patch_cache_clear (sr_patches r),
       sr_sources := clear_working (sr_sources r)\<rparr>"

section \<open>Status and overview\<close>

definition root_of :: "svn_repository \<Rightarrow> string" where
  "root_of r = ri_root_path (sr_info r)"

definition repo_status :: "svn_env \<Rightarrow> svn_repository \<Rightarrow> (svn_failure + svn_status_entry list) \<times> svn_repository" where
  "repo_status env r =
     (case sr_status r of
        Some entries \<Rightarrow> (Inr entries, r)
      | None \<Rightarrow> (
          case svn_status (sn_world env) (sn_xml env) (root_of r) of
            Inl e \<Rightarrow> (Inl (SvnFailed e), r)
          | Inr entries \<Rightarrow> (Inr entries, r\<lparr>sr_status := Some entries\<rparr>)))"

definition status_changed :: "svn_status_entry \<Rightarrow> bool" where
  "status_changed e \<longleftrightarrow> se_item e \<noteq> ''normal'' \<or> se_props e \<noteq> ''none'' \<or> se_tree_conflicted e"

record svn_overview =
  vo_display_name :: string
  vo_current_branch :: string
  vo_head_hash :: string
  vo_has_unstaged_changes :: bool
  vo_has_untracked_files :: bool
  vo_conflicted_count :: usize
  vo_mixed_revision :: bool
  vo_depth :: "string option"
  vo_history_connected :: bool

definition revision_name :: "u64 \<Rightarrow> string" where
  "revision_name revision = ''r'' @ show_nat (unat revision)"

definition svn_overview_of :: "svn_env \<Rightarrow> svn_repository \<Rightarrow> (svn_failure + svn_overview) \<times> svn_repository" where
  "svn_overview_of env r =
     (case repo_status env r of
        (Inl e, r') \<Rightarrow> (Inl e, r')
      | (Inr entries, r') \<Rightarrow>
          (Inr \<lparr>vo_display_name = ri_display_name (sr_info r), vo_current_branch = ri_relative_url (sr_info r),
                vo_head_hash = revision_name (ri_working_revision (sr_info r)),
                vo_has_unstaged_changes = list_ex status_changed entries,
                vo_has_untracked_files = list_ex (\<lambda>e. se_item e = ''unversioned'') entries,
                vo_conflicted_count = length (filter (\<lambda>e. se_tree_conflicted e \<or> se_item e = ''conflicted'') entries),
                vo_mixed_revision = list_ex (\<lambda>e. se_revision e \<noteq> None \<and> se_revision e \<noteq> Some (ri_working_revision (sr_info r))) entries,
                vo_depth = ri_depth (sr_info r), vo_history_connected = sr_history_connected r\<rparr>, r'))"

text \<open>Connecting asks the user, after the tunnels are refused; the overview comes last.\<close>

definition connect_history ::
  "svn_env \<Rightarrow> bool \<Rightarrow> svn_repository \<Rightarrow> (svn_failure + svn_overview) \<times> svn_repository" where
  "connect_history env confirmed r =
     (if starts_with ''svn+ssh://'' (ri_repository_root_url (sr_info r)) then (Inl SvnTunnelDisabled, r)
      else if \<not> confirmed then (Inl SvnNotConfirmed, r)
      else case head_revision (sn_world env) (sn_xml env) (root_of r) of
        Inl e \<Rightarrow> (Inl (SvnFailed e), r)
      | Inr head \<Rightarrow> svn_overview_of env (r\<lparr>sr_history_head := Some head, sr_history_connected := True\<rparr>))"

definition repository_host :: "string \<Rightarrow> string" where
  "repository_host url =
     (let rest = (case split_str ''//'' url of _ # part # _ \<Rightarrow> part | _ \<Rightarrow> url) in hd (split_char CHR ''/'' rest))"

section \<open>History\<close>

definition svn_history_page_limit :: "usize \<Rightarrow> usize" where
  "svn_history_page_limit requested = clamp_limit requested (SVN_HISTORY_FETCH_LIMIT - 1)"

definition svn_history_has_more :: "usize \<Rightarrow> usize \<Rightarrow> bool" where
  "svn_history_has_more fetched requested \<longleftrightarrow> svn_history_page_limit requested < fetched"

definition parse_timestamp :: "(string \<Rightarrow> int option) \<Rightarrow> string \<Rightarrow> int" where
  "parse_timestamp rfc3339 s = (case rfc3339 s of None \<Rightarrow> 0 | Some seconds \<Rightarrow> i64_saturating_mul seconds 1000)"

definition log_matches :: "(string \<Rightarrow> string) \<Rightarrow> string list \<Rightarrow> svn_log_entry \<Rightarrow> bool" where
  "log_matches lower terms e \<longleftrightarrow>
     terms_match terms (map lower [revision_name (lg_revision e), lg_author e, lg_message e])"

definition log_commit :: "(string \<Rightarrow> int option) \<Rightarrow> svn_log_entry \<Rightarrow> graph_commit" where
  "log_commit rfc3339 e =
     \<lparr>gc_hash = revision_name (lg_revision e), gc_short_hash = revision_name (lg_revision e),
      gc_author = take_chars 256 (lg_author e), gc_timestamp_ms = parse_timestamp rfc3339 (lg_date e),
      gc_message = take_chars 1024 (lg_message e), gc_parent_hashes = [], gc_refs = [], gc_is_stash = False\<rparr>"

text \<open>The parent of a commit is the one after it on the page, and of the last one what the cursor names.\<close>

fun link_parents :: "u64 \<Rightarrow> graph_commit list \<Rightarrow> graph_commit list" where
  "link_parents next_cursor [] = []"
| "link_parents next_cursor [c] =
     [if 0 < next_cursor then c\<lparr>gc_parent_hashes := [revision_name next_cursor]\<rparr> else c]"
| "link_parents next_cursor (c # d # cs) = c\<lparr>gc_parent_hashes := [gc_hash d]\<rparr> # link_parents next_cursor (d # cs)"

definition svn_history ::
  "svn_env \<Rightarrow> (string \<Rightarrow> string) \<Rightarrow> (string \<Rightarrow> int option) \<Rightarrow> string option \<Rightarrow> usize \<Rightarrow> usize \<Rightarrow> svn_repository \<Rightarrow>
     svn_failure + graph_commit page_response" where
  "svn_history env lower rfc3339 query skip limit r =
     (if \<not> sr_history_connected r then Inr \<lparr>pr_items = [], pr_next_skip = skip, pr_has_more = False\<rparr>
      else
        let head = (case sr_history_head r of None \<Rightarrow> ri_working_revision (sr_info r) | Some h \<Rightarrow> h);
            start = max (if skip = 0 then head else word_of_nat skip) 1;
            page_limit = svn_history_page_limit limit
        in and_then (from_svn (svn_log (sn_world env) (sn_xml env) (root_of r) start (page_limit + 1))) (\<lambda>entries.
           let page = take page_limit entries;
               next_cursor = (if page = [] then 0 else saturating_sub (lg_revision (last page)) 1)
           in Inr \<lparr>pr_items = link_parents next_cursor
                     (map (log_commit rfc3339) (filter (log_matches lower (query_terms lower query)) page)),
                   pr_next_skip = unat next_cursor,
                   pr_has_more = svn_history_has_more (length entries) limit \<and> 0 < next_cursor\<rparr>))"

section \<open>Comparison\<close>

definition svn_revision_of :: "revision_ref \<Rightarrow> svn_failure + svn_revision" where
  "svn_revision_of v =
     (case v of
        RevEmpty \<Rightarrow> Inr (SvnNumber 0)
      | RevCommit oid \<Rightarrow> (
          case Option.bind (strip_prefix ''r'' oid) parse_u64 of
            None \<Rightarrow> Inl SvnRevisionInvalid
          | Some revision \<Rightarrow> Inr (SvnNumber revision))
      | RevWorkingTree \<Rightarrow> Inr SvnWorking
      | _ \<Rightarrow> Inl SvnRevisionKind)"

definition slashes :: "string \<Rightarrow> string" where
  "slashes s = map (\<lambda>c. if c = CHR 0x5C then CHR ''/'' else c) s"

definition normalize_path :: "string \<Rightarrow> string \<Rightarrow> string" where
  "normalize_path root v =
     (let normalized = slashes v
      in if normalized = ''.'' then ''.''
         else
           let base = rev (dropWhile (\<lambda>c. c = CHR ''/'') (rev (slashes root)))
           in case strip_prefix base normalized of
                Some path \<Rightarrow> dropWhile (\<lambda>c. c = CHR ''/'') path
              | None \<Rightarrow> normalized)"

definition display_status :: "string \<Rightarrow> string" where
  "display_status item =
     (if item = ''added'' then ''Added''
      else if item = ''deleted'' then ''Deleted''
      else if item = ''replaced'' then ''Replaced''
      else if item = ''conflicted'' then ''Conflicted''
      else if item = ''unversioned'' then ''Unversioned''
      else if item = ''missing'' then ''Missing''
      else if item = ''obstructed'' then ''Obstructed''
      else ''Modified'')"

definition path_for :: "svn_repository \<Rightarrow> string \<Rightarrow> string" where
  "path_for r relative = path_join (root_of r) relative"

definition looks_binary :: "bytes \<Rightarrow> bool" where
  "looks_binary bytes \<longleftrightarrow> 0 \<in> set bytes"

definition node_kind :: "svn_env \<Rightarrow> svn_repository \<Rightarrow> string \<Rightarrow> string" where
  "node_kind env r relative =
     (case sn_meta env (path_for r relative) of
        Some MetaSymlink \<Rightarrow> ''symlink''
      | Some MetaDirectory \<Rightarrow> ''dir''
      | _ \<Rightarrow> ''file'')"

definition source_size :: "svn_env \<Rightarrow> svn_repository \<Rightarrow> string \<Rightarrow> svn_content_source \<Rightarrow> usize option" where
  "source_size env r path source =
     (case source of
        SvnEmpty \<Rightarrow> Some 0
      | SvnAtRevision _ \<Rightarrow> None
      | SvnWorkingFile \<Rightarrow> (
          case sn_meta env (path_for r path) of
            None \<Rightarrow> None
          | Some MetaSymlink \<Rightarrow> map_option length (sn_link env (path_for r path))
          | Some (MetaFile len) \<Rightarrow> Some (unat len)
          | Some MetaDirectory \<Rightarrow> Some 0))"

text \<open>One read of the file decides.\<close>

definition working_file_is_binary :: "svn_env \<Rightarrow> svn_repository \<Rightarrow> string \<Rightarrow> bool" where
  "working_file_is_binary env r path =
     (case sn_meta env (path_for r path) of
        Some (MetaFile _) \<Rightarrow> (
          case sn_open env (path_for r path) of
            Some (Inr chunk # _) \<Rightarrow> looks_binary (take BINARY_SNIFF_BYTES chunk)
          | _ \<Rightarrow> False)
      | _ \<Rightarrow> False)"

definition file_from_summary ::
  "svn_env \<Rightarrow> svn_repository \<Rightarrow> u32 \<Rightarrow> string \<Rightarrow> svn_diff_summary_entry \<Rightarrow> svn_status_entry option \<Rightarrow>
     (usize \<times> usize \<times> bool) option \<Rightarrow> svn_diff_range \<Rightarrow> svn_diff_file" where
  "file_from_summary env r file_id path entry status patch_metadata rng =
     (let status_item = (case status of None \<Rightarrow> None | Some st \<Rightarrow> if status_changed st then Some st else None);
          item = (case status_item of None \<Rightarrow> su_item entry | Some st \<Rightarrow> se_item st);
          base_revision = (if dg_local_base rng
                           then (case Option.bind status se_revision of None \<Rightarrow> dg_old_revision rng | Some b \<Rightarrow> b)
                           else dg_old_revision rng);
          old_source = (if item = ''added'' \<or> item = ''unversioned'' then SvnEmpty else SvnAtRevision base_revision);
          new_source = (if item = ''deleted'' \<or> item = ''missing'' then SvnEmpty
                        else case dg_new_revision rng of SvnNumber n \<Rightarrow> SvnAtRevision n | SvnWorking \<Rightarrow> SvnWorkingFile);
          old_size = source_size env r path old_source;
          new_size = source_size env r path new_source;
          (additions, deletions, patch_is_binary) = (case patch_metadata of None \<Rightarrow> (0, 0, False) | Some m \<Rightarrow> m);
          over = (\<lambda>bound size. case size of None \<Rightarrow> False | Some n \<Rightarrow> bound < n)
      in \<lparr>sf_file_id = file_id, sf_path = path, sf_status = display_status item,
          sf_groups = (if item = ''unversioned'' then [''all'', ''untracked'']
                       else if item = ''conflicted'' \<or> (case status of None \<Rightarrow> False | Some st \<Rightarrow> se_tree_conflicted st)
                       then [''all'', ''conflicted''] else [''all'', ''unstaged'']),
          sf_additions = additions, sf_deletions = deletions,
          sf_is_binary = patch_is_binary \<or> (item = ''unversioned'' \<and> working_file_is_binary env r path),
          sf_preview_too_large = over PATCH_PREVIEW_LIMIT old_size \<or> over PATCH_PREVIEW_LIMIT new_size,
          sf_export_too_large = over EXPORT_LIMIT old_size \<or> over EXPORT_LIMIT new_size,
          sf_properties_changed = (su_props entry \<noteq> ''none'' \<or>
            (case status_item of None \<Rightarrow> False | Some st \<Rightarrow> se_props st \<noteq> ''none'')),
          sf_node_kind = (if su_kind entry = ''unknown'' then node_kind env r path else su_kind entry),
          sf_old_source = old_source, sf_new_source = new_source\<rparr>)"

definition repo_diff_summary ::
  "svn_env \<Rightarrow> u64 option \<Rightarrow> u64 option \<Rightarrow> svn_repository \<Rightarrow> (svn_failure + svn_diff_summary_entry list) \<times> svn_repository" where
  "repo_diff_summary env old_revision new_revision r =
     (case map_of (sr_summaries r) (old_revision, new_revision) of
        Some entries \<Rightarrow> (Inr entries, r)
      | None \<Rightarrow> (
          case diff_summarize (sn_world env) (sn_xml env) (root_of r) old_revision new_revision of
            Inl e \<Rightarrow> (Inl (SvnFailed e), r)
          | Inr entries \<Rightarrow>
              (Inr entries, r\<lparr>sr_summaries := AList.update (old_revision, new_revision) entries (sr_summaries r)\<rparr>)))"

definition load_patch ::
  "svn_env \<Rightarrow> u64 option \<Rightarrow> u64 option \<Rightarrow> svn_repository \<Rightarrow> (svn_failure + svn_patch_set) \<times> svn_repository" where
  "load_patch env old_revision new_revision r =
     (case patch_cache_get (old_revision, new_revision) (sr_patches r) of
        (Some patch, cache) \<Rightarrow> (Inr patch, r\<lparr>sr_patches := cache\<rparr>)
      | (None, cache) \<Rightarrow> (
          case diff_patch_stream (sn_world env) (root_of r) old_revision new_revision
                 (\<lambda>chunk parser. (Inr (), patch_push (normalize_path (root_of r)) chunk parser)) patch_parser_new of
            (Inl e, _) \<Rightarrow> (Inl (SvnFailed e), r\<lparr>sr_patches := cache\<rparr>)
          | (Inr _, parser) \<Rightarrow> (
              let patch = patch_finish (normalize_path (root_of r)) parser
              in (Inr patch, r\<lparr>sr_patches := patch_cache_insert (old_revision, new_revision) patch cache\<rparr>))))"

text \<open>A hash map built from entries; a later entry replaces an earlier one.\<close>

definition collect_map :: "('a \<Rightarrow> string) \<Rightarrow> 'a list \<Rightarrow> (string \<times> 'a) list" where
  "collect_map key entries = fold (\<lambda>e m. AList.update (key e) e m) entries []"

definition add_status :: "svn_env \<Rightarrow> svn_repository \<Rightarrow> string \<times> svn_status_entry \<Rightarrow>
    (string \<times> svn_diff_summary_entry) list \<Rightarrow> (string \<times> svn_diff_summary_entry) list" where
  "add_status env r p changes =
     (case p of (path, status) \<Rightarrow>
        if \<not> status_changed status \<or> map_of changes path \<noteq> None then changes
        else AList.update path
          \<lparr>su_path = path, su_kind = node_kind env r path, su_item = se_item status, su_props = se_props status\<rparr> changes)"

definition group_name :: "working_tree_group \<Rightarrow> string" where
  "group_name grp =
     (case grp of
        GroupUntracked \<Rightarrow> ''untracked'' | GroupConflicted \<Rightarrow> ''conflicted'' | GroupStaged \<Rightarrow> ''staged''
      | GroupUnstaged \<Rightarrow> ''unstaged'' | GroupAll \<Rightarrow> ''all'')"

definition number_files :: "svn_diff_file list \<Rightarrow> svn_diff_file list" where
  "number_files files = map (\<lambda>(i, f). f\<lparr>sf_file_id := word_of_nat i\<rparr>) (enumerate 0 files)"

definition diff_files_of ::
  "svn_env \<Rightarrow> svn_repository \<Rightarrow> (string \<times> svn_status_entry) list \<Rightarrow> svn_diff_summary_entry list \<Rightarrow> svn_patch_set \<Rightarrow>
     bool \<Rightarrow> svn_diff_range \<Rightarrow> working_tree_group \<Rightarrow> svn_diff_file list" where
  "diff_files_of env r statuses summary patch new_is_working rng grp =
     (let changes = collect_map (\<lambda>e. normalize_path (root_of r) (su_path e)) summary;
          changes1 = (if new_is_working then fold (add_status env r) statuses changes else changes);
          files = map (\<lambda>(i, path, entry).
            file_from_summary env r (word_of_nat i) path entry (map_of statuses path)
              (map_option (\<lambda>f. (pf_additions f, pf_deletions f, pf_is_binary f)) (patch_set_file path patch)) rng)
            (enumerate 0 (sort_key fst changes1))
      in number_files (if grp = GroupAll then files else filter (\<lambda>f. group_name grp \<in> set (sf_groups f)) files))"

definition svn_open_diff ::
  "svn_env \<Rightarrow> revision_ref \<Rightarrow> revision_ref \<Rightarrow> working_tree_group \<Rightarrow> svn_repository \<Rightarrow>
     (svn_failure + svn_diff_session) \<times> svn_repository" where
  "svn_open_diff env old new grp r =
     (case svn_revision_of old of
        Inl e \<Rightarrow> (Inl e, r)
      | Inr SvnWorking \<Rightarrow> (Inl SvnOldIsWorking, r)
      | Inr (SvnNumber old_revision) \<Rightarrow> (
          case svn_revision_of new of
            Inl e \<Rightarrow> (Inl e, r)
          | Inr new_revision \<Rightarrow> (
              let new_is_working = (new_revision = SvnWorking);
                  local_base = (new_is_working \<and> old_revision = ri_working_revision (sr_info r));
                  rng = \<lparr>dg_old_revision = old_revision, dg_new_revision = new_revision, dg_local_base = local_base\<rparr>;
                  key = (if local_base then None else Some old_revision,
                         case new_revision of SvnNumber n \<Rightarrow> Some n | SvnWorking \<Rightarrow> None)
              in case (if new_is_working then repo_status env r else (Inr [], r)) of
                   (Inl e, r1) \<Rightarrow> (Inl e, r1)
                 | (Inr entries, r1) \<Rightarrow> (
                     let statuses = collect_map (\<lambda>e. normalize_path (root_of r) (se_path e)) entries
                     in case repo_diff_summary env (fst key) (snd key) r1 of
                          (Inl e, r2) \<Rightarrow> (Inl e, r2)
                        | (Inr summary, r2) \<Rightarrow> (
                            case load_patch env (fst key) (snd key) r2 of
                              (Inl e, r3) \<Rightarrow> (Inl e, r3)
                            | (Inr patch, r3) \<Rightarrow>
                                (Inr \<lparr>sd_files = diff_files_of env r statuses summary patch new_is_working rng grp,
                                      sd_patch_key = key, sd_previews = cache_new\<rparr>, r3))))))"

section \<open>Content\<close>

text \<open>\<open>take\<close> and \<open>read_to_end\<close>.\<close>

fun read_take :: "usize \<Rightarrow> (unit + bytes) list \<Rightarrow> unit + bytes" where
  "read_take n [] = Inr []"
| "read_take n (Inl _ # reads) = (if n = 0 then Inr [] else Inl ())"
| "read_take n (Inr chunk # reads) =
     (if n = 0 \<or> chunk = [] then Inr []
      else (case read_take (n - length chunk) reads of Inl e \<Rightarrow> Inl e | Inr rest \<Rightarrow> Inr (take n chunk @ rest)))"

definition read_working_bytes :: "svn_env \<Rightarrow> svn_repository \<Rightarrow> string \<Rightarrow> svn_failure + bytes" where
  "read_working_bytes env r path =
     (case sn_meta env (path_for r path) of
        None \<Rightarrow> Inl SvnFileIo
      | Some MetaSymlink \<Rightarrow>
          and_then (ok_or (sn_link env (path_for r path)) SvnFileIo) (\<lambda>link.
          and_then (ensure (length (bytes_of link) \<le> PATCH_PREVIEW_LIMIT) SvnFileTooLarge) (\<lambda>_. Inr (bytes_of link)))
      | Some MetaDirectory \<Rightarrow> Inl SvnNotAFile
      | Some (MetaFile len) \<Rightarrow>
          and_then (ok_or (sn_open env (path_for r path)) SvnFileIo) (\<lambda>reads.
            case read_take (PATCH_PREVIEW_LIMIT + 1) reads of
              Inl _ \<Rightarrow> Inl SvnFileIo
            | Inr content \<Rightarrow>
                and_then (ensure (length content \<le> PATCH_PREVIEW_LIMIT) SvnFileTooLarge) (\<lambda>_. Inr content)))"

text \<open>A source without the cache, and through it.\<close>

definition fetch_source :: "svn_env \<Rightarrow> svn_repository \<Rightarrow> string \<Rightarrow> svn_content_source \<Rightarrow> svn_failure + bytes option" where
  "fetch_source env r path source =
     (case source of
        SvnEmpty \<Rightarrow> Inr None
      | SvnWorkingFile \<Rightarrow> and_then (read_working_bytes env r path) (\<lambda>b. Inr (Some b))
      | SvnAtRevision revision \<Rightarrow>
          and_then (from_svn (svn_cat (sn_windows env) (sn_world env) (root_of r) path (Some revision) PATCH_PREVIEW_LIMIT))
            (\<lambda>b. Inr (Some b)))"

definition read_source ::
  "svn_env \<Rightarrow> string \<Rightarrow> svn_content_source \<Rightarrow> svn_repository \<Rightarrow> (svn_failure + bytes option) \<times> svn_repository" where
  "read_source env path source r =
     (case source_cache_key path source of
        None \<Rightarrow> (fetch_source env r path source, r)
      | Some key \<Rightarrow> (
          case source_cache_get key (sr_sources r) of
            (Some content, cache) \<Rightarrow> (Inr (Some content), r\<lparr>sr_sources := cache\<rparr>)
          | (None, cache) \<Rightarrow> (
              case fetch_source env r path source of
                Inl e \<Rightarrow> (Inl e, r\<lparr>sr_sources := cache\<rparr>)
              | Inr content \<Rightarrow>
                  (Inr content, r\<lparr>sr_sources := (case content of None \<Rightarrow> cache | Some b \<Rightarrow> source_cache_insert key b cache)\<rparr>))))"

definition side_text :: "bytes option \<Rightarrow> svn_failure + string" where
  "side_text content =
     (let bytes = (case content of None \<Rightarrow> [] | Some b \<Rightarrow> b)
      in and_then (ensure (0 \<notin> set bytes) SvnBinary) (\<lambda>_.
           let text_value = chars_of (from_utf8_lossy bytes)
           in Inr (if contains [CHR 0x0D, CHR 0x0A] text_value
                   then replace_all [CHR 0x0D, CHR 0x0A] [CHR 0x0A] text_value else text_value)))"

definition read_side :: "svn_env \<Rightarrow> svn_diff_file \<Rightarrow> bool \<Rightarrow> svn_repository \<Rightarrow> (svn_failure + string) \<times> svn_repository" where
  "read_side env file modified r =
     (case read_source env (sf_path file) (if modified then sf_new_source file else sf_old_source file) r of
        (res, r') \<Rightarrow> (and_then res side_text, r'))"

text \<open>The two sides are read at the same time; \<open>modified_first\<close> is which of them is there first.\<close>

definition read_sides ::
  "svn_env \<Rightarrow> bool \<Rightarrow> svn_diff_file \<Rightarrow> svn_repository \<Rightarrow> (svn_failure + string \<times> string) \<times> svn_repository" where
  "read_sides env modified_first file r =
     (case read_side env file modified_first r of
        (Inl e, r1) \<Rightarrow> (Inl e, r1)
      | (Inr a, r1) \<Rightarrow> (
          case read_side env file (\<not> modified_first) r1 of
            (Inl e, r2) \<Rightarrow> (Inl e, r2)
          | (Inr b, r2) \<Rightarrow> (Inr (if modified_first then (b, a) else (a, b)), r2)))"

definition session_file :: "svn_diff_session \<Rightarrow> u32 \<Rightarrow> svn_failure + svn_diff_file" where
  "session_file session file_id =
     (if unat file_id < length (sd_files session) then Inr (sd_files session ! unat file_id) else Inl SvnFileGone)"

definition svn_preview ::
  "svn_env \<Rightarrow> bool \<Rightarrow> u32 \<Rightarrow> conflict_perspective \<Rightarrow> svn_diff_session \<Rightarrow> svn_repository \<Rightarrow>
     (svn_failure + preview_content) \<times> svn_diff_session \<times> svn_repository" where
  "svn_preview env modified_first file_id perspective session r =
     (case and_then (session_file session file_id) (\<lambda>file.
             and_then (ensure (sf_node_kind file \<noteq> ''dir'') SvnDirectory) (\<lambda>_.
             and_then (ensure (\<not> sf_is_binary file) SvnBinary) (\<lambda>_.
             and_then (ensure (\<not> sf_preview_too_large file) SvnFileTooLarge) (\<lambda>_. Inr file)))) of
        Inl e \<Rightarrow> (Inl e, session, r)
      | Inr file \<Rightarrow> (
          let key = preview_cache_key ''full'' file_id perspective
          in case preview_cache_get key (sd_previews session) of
               (Some content, cache) \<Rightarrow> (Inr content, session\<lparr>sd_previews := cache\<rparr>, r)
             | (None, cache) \<Rightarrow> (
                 case read_sides env modified_first file r of
                   (Inl e, r') \<Rightarrow> (Inl e, session\<lparr>sd_previews := cache\<rparr>, r')
                 | (Inr (original, modified), r') \<Rightarrow> (
                     let content = \<lparr>pc_original = original, pc_modified = modified, pc_perspective = HeadToWorking\<rparr>
                     in (Inr content, session\<lparr>sd_previews := preview_cache_insert key content cache\<rparr>, r')))))"

text \<open>The patch of one file: what the comparison retained, or the client's patch of this file.\<close>

definition peg_of :: "svn_diff_file \<Rightarrow> u64 option" where
  "peg_of file =
     (case (sf_old_source file, sf_new_source file) of
        (_, SvnAtRevision revision) \<Rightarrow> Some revision
      | (SvnAtRevision revision, SvnEmpty) \<Rightarrow> Some revision
      | _ \<Rightarrow> None)"

definition read_patch ::
  "svn_env \<Rightarrow> svn_diff_session \<Rightarrow> svn_diff_file \<Rightarrow> svn_repository \<Rightarrow> (svn_failure + bytes) \<times> svn_repository" where
  "read_patch env session file r =
     (case patch_cache_get (sd_patch_key session) (sr_patches r) of
        (cached, cache) \<Rightarrow> (
          let r1 = r\<lparr>sr_patches := cache\<rparr>
          in case map_option pf_body (Option.bind cached (patch_set_file (sf_path file))) of
               Some (Retained patch) \<Rightarrow> (Inr patch, r1)
             | Some TooLarge \<Rightarrow> (Inl SvnPatchTooLarge, r1)
             | _ \<Rightarrow>
                 (case diff_file_patch (sn_windows env) (sn_world env) (root_of r) (fst (sd_patch_key session))
                         (snd (sd_patch_key session)) (sf_path file) (peg_of file) PATCH_PREVIEW_LIMIT of
                    Inl e \<Rightarrow> Inl (if e = OutputTooLarge then SvnPatchTooLarge else SvnFailed e)
                  | Inr bytes \<Rightarrow> (
                      let patch = patch_set_parse (normalize_path (root_of r)) bytes
                      in case (case patch_set_file (sf_path file) patch of
                                 Some f \<Rightarrow> Some f | None \<Rightarrow> sn_first env (ps_files patch)) of
                           None \<Rightarrow> Inl SvnPatchMissing
                         | Some f \<Rightarrow> (
                             case pf_body f of Retained p \<Rightarrow> Inr p | _ \<Rightarrow> Inl SvnPatchTooLarge)), r1)))"

definition svn_patch_preview ::
  "svn_env \<Rightarrow> u32 \<Rightarrow> svn_diff_session \<Rightarrow> svn_repository \<Rightarrow>
     (svn_failure + preview_content) \<times> svn_diff_session \<times> svn_repository" where
  "svn_patch_preview env file_id session r =
     (case and_then (session_file session file_id) (\<lambda>file.
             and_then (ensure (sf_node_kind file \<noteq> ''dir'') SvnDirectory) (\<lambda>_.
             and_then (ensure (\<not> sf_is_binary file) SvnBinary) (\<lambda>_. Inr file))) of
        Inl e \<Rightarrow> (Inl e, session, r)
      | Inr file \<Rightarrow> (
          case preview_cache_get (patch_preview_key file_id) (sd_previews session) of
            (Some content, cache) \<Rightarrow> (Inr content, session\<lparr>sd_previews := cache\<rparr>, r)
          | (None, cache) \<Rightarrow> (
              case (if sf_status file = ''Unversioned''
                    then (and_then (read_working_bytes env r (sf_path file)) (\<lambda>bytes.
                            and_then (ensure (\<not> looks_binary bytes) SvnBinary) (\<lambda>_.
                              Inr (added_file_patch (sf_path file) bytes))), r)
                    else read_patch env session file r) of
                (Inl e, r') \<Rightarrow> (Inl e, session\<lparr>sd_previews := cache\<rparr>, r')
              | (Inr patch, r') \<Rightarrow>
                  if PATCH_PREVIEW_LIMIT < length patch then (Inl SvnPatchTooLarge, session\<lparr>sd_previews := cache\<rparr>, r')
                  else
                    let content = \<lparr>pc_original = chars_of patch, pc_modified = [], pc_perspective = HeadToWorking\<rparr>
                    in (Inr content, session\<lparr>sd_previews := preview_cache_insert (patch_preview_key file_id) content cache\<rparr>, r'))))"

end
