(* ===== verification/Vc_Export.thy ===== *)
theory Vc_Export
  imports Text_Codec
begin

text \<open>
  Running an export: \<open>CancellableWriter\<close>, \<open>run_export\<close> and \<open>spawn_export\<close> of
  crates/winrisef-agent/src/version_control_bridge.rs.

  The cancellation flag is set by another thread: \<open>xe_cancelled\<close> gives the value of its loads in
  their order.  The file below the writer, the system calls and the buffers the export writes are
  arguments.  \<open>write_all\<close> of the standard library retries when a write was interrupted; it may not
  return, and then its value is \<open>None\<close>.
\<close>

datatype io_error = Interrupted | WriteZero | OtherIo

datatype export_error =
    ExportIo io_error
  | ExportSource
  | ExportCancelledError

datatype export_event =
    ExportComplete string bool
  | ExportFailed string export_error
  | ExportCancelled string

record export_env =
  xe_cancelled :: "nat \<Rightarrow> bool"
  xe_inner :: "nat \<Rightarrow> bytes \<Rightarrow> io_error + nat"
  xe_create_ok :: bool
  xe_buffers :: "bytes list"
  xe_source_ok :: bool
  xe_flush_ok :: bool
  xe_sync_ok :: bool
  xe_replace_ok :: bool
  xe_remove_ok :: bool

section \<open>The writer\<close>

text \<open>One \<open>write\<close>: a load of the flag, then the file.\<close>

definition cancellable_write :: "export_env \<Rightarrow> nat \<Rightarrow> bytes \<Rightarrow> io_error + nat" where
  "cancellable_write env k buffer =
     (if xe_cancelled env k then Inl Interrupted else xe_inner env k buffer)"

partial_function (option) write_all ::
  "export_env \<Rightarrow> nat \<Rightarrow> bytes \<Rightarrow> bytes \<Rightarrow> ((io_error + unit) \<times> nat \<times> bytes) option" where
  "write_all env k buffer out =
     (if buffer = [] then Some (Inr (), k, out)
      else case cancellable_write env k buffer of
        Inl e \<Rightarrow> if e = Interrupted then write_all env (Suc k) buffer out else Some (Inl e, Suc k, out)
      | Inr n \<Rightarrow>
          if n = 0 then Some (Inl WriteZero, Suc k, out)
          else write_all env (Suc k) (drop n buffer) (out @ take n buffer))"

fun write_buffers :: "export_env \<Rightarrow> nat \<Rightarrow> bytes list \<Rightarrow> bytes \<Rightarrow> ((io_error + unit) \<times> nat \<times> bytes) option" where
  "write_buffers env k [] out = Some (Inr (), k, out)"
| "write_buffers env k (b # bs) out =
     (case write_all env k b out of
        None \<Rightarrow> None
      | Some (Inl e, k', out') \<Rightarrow> Some (Inl e, k', out')
      | Some (Inr _, k', out') \<Rightarrow> write_buffers env k' bs out')"

section \<open>The export\<close>

type_synonym files = "string list \<Rightarrow> bytes option"

text \<open>The body up to the replacement: the temporary file, its content, and the last look at the flag.\<close>

definition export_body ::
  "export_env \<Rightarrow> string list \<Rightarrow> string list \<Rightarrow> files \<Rightarrow> ((export_error + unit) \<times> nat \<times> files) option" where
  "export_body env temp target fs =
     (if \<not> xe_create_ok env then Some (Inl (ExportIo OtherIo), 0, fs)
      else case write_buffers env 0 (xe_buffers env) [] of
        None \<Rightarrow> None
      | Some (r, k, out) \<Rightarrow> (
          let written = fs(temp \<mapsto> out) in
          case r of
            Inl e \<Rightarrow> Some (Inl (ExportIo e), k, written)
          | Inr _ \<Rightarrow>
              if \<not> xe_source_ok env then Some (Inl ExportSource, k, written)
              else if \<not> xe_flush_ok env \<or> \<not> xe_sync_ok env then Some (Inl (ExportIo OtherIo), k, written)
              else if xe_cancelled env k then Some (Inl ExportCancelledError, Suc k, written)
              else if \<not> xe_replace_ok env then Some (Inl (ExportIo OtherIo), Suc k, written)
              else Some (Inr (), Suc k, (written(temp := None))(target \<mapsto> out))))"

definition run_export ::
  "export_env \<Rightarrow> string \<Rightarrow> bool \<Rightarrow> string list \<Rightarrow> string list \<Rightarrow> files \<Rightarrow> ((export_error + export_event) \<times> files) option" where
  "run_export env target_id inside temp target fs =
     (case export_body env temp target fs of
        None \<Rightarrow> None
      | Some (Inr _, k, fs') \<Rightarrow> Some (Inr (ExportComplete target_id inside), fs')
      | Some (Inl e, k, fs') \<Rightarrow> (
          let cleaned = (if xe_remove_ok env then fs'(temp := None) else fs') in
          if xe_cancelled env k then Some (Inr (ExportCancelled target_id), cleaned)
          else Some (Inl e, cleaned)))"

text \<open>The event the task announces, after \<open>finish_export\<close>.\<close>

definition spawn_event :: "string \<Rightarrow> export_error + export_event \<Rightarrow> export_event" where
  "spawn_event target_id r = (case r of Inr event \<Rightarrow> event | Inl e \<Rightarrow> ExportFailed target_id e)"

section \<open>A cancelled writer never returns\<close>

lemma write_all_returned:
  assumes "write_all env k buffer out = Some res" and "\<forall>j \<ge> k. xe_cancelled env j"
  shows "buffer = []"
proof -
  have "(\<forall>j \<ge> k. xe_cancelled env j) \<longrightarrow> buffer = []"
  proof (rule write_all.raw_induct [where P = "\<lambda>env k buffer out res. (\<forall>j \<ge> k. xe_cancelled env j) \<longrightarrow> buffer = []", OF _ assms(1)])
    fix f env k out and buffer :: bytes and res :: "(io_error + unit) \<times> nat \<times> bytes"
    assume IH: "\<And>env k buffer out res. f env k buffer out = Some res \<Longrightarrow>
        (\<forall>j \<ge> k. xe_cancelled env j) \<longrightarrow> (buffer :: bytes) = []"
      and body: "(if buffer = [] then Some (Inr (), k, out)
         else case cancellable_write env k buffer of
           Inl e \<Rightarrow> if e = Interrupted then f env (Suc k) buffer out else Some (Inl e, Suc k, out)
         | Inr n \<Rightarrow> if n = 0 then Some (Inl WriteZero, Suc k, out)
             else f env (Suc k) (drop n buffer) (out @ take n buffer)) = Some res"
    show "(\<forall>j \<ge> k. xe_cancelled env j) \<longrightarrow> buffer = []"
    proof
      assume cancelled: "\<forall>j \<ge> k. xe_cancelled env j"
      then have "cancellable_write env k buffer = Inl Interrupted" by (simp add: cancellable_write_def)
      with body cancelled IH [of env "Suc k" buffer out res] show "buffer = []" by (auto split: if_splits)
    qed
  qed
  with assms(2) show ?thesis by simp
qed

lemma write_all_cancelled:
  "\<forall>j \<ge> k. xe_cancelled env j \<Longrightarrow> buffer \<noteq> [] \<Longrightarrow> write_all env k buffer out = None"
  using write_all_returned [of env k buffer out] by (cases "write_all env k buffer out") auto

lemma write_all_ok:
  assumes "write_all env k buffer out = Some res"
  shows "is_ok (fst res) \<longrightarrow> snd (snd res) = out @ buffer"
proof (rule write_all.raw_induct [where P = "\<lambda>env k buffer out res. is_ok (fst res) \<longrightarrow> snd (snd res) = out @ buffer", OF _ assms])
  fix f env k out and buffer :: bytes and res :: "(io_error + unit) \<times> nat \<times> bytes"
  assume IH: "\<And>env k buffer out res. f env k buffer out = Some res \<Longrightarrow>
      is_ok (fst res) \<longrightarrow> snd (snd res) = out @ buffer"
    and body: "(if buffer = [] then Some (Inr (), k, out)
       else case cancellable_write env k buffer of
         Inl e \<Rightarrow> if e = Interrupted then f env (Suc k) buffer out else Some (Inl e, Suc k, out)
       | Inr n \<Rightarrow> if n = 0 then Some (Inl WriteZero, Suc k, out)
           else f env (Suc k) (drop n buffer) (out @ take n buffer)) = Some res"
  show "is_ok (fst res) \<longrightarrow> snd (snd res) = out @ buffer"
    using body IH [of env "Suc k" buffer out res] IH [of env "Suc k" _ _ res]
    by (auto split: if_splits sum.splits)
qed

lemma write_buffers_ok:
  assumes "write_buffers env k bs out = Some (Inr u, k', out')"
  shows "out' = out @ concat bs"
  using assms
proof (induction bs arbitrary: k out)
  case (Cons b bs)
  then obtain v k1 out1 where one: "write_all env k b out = Some (Inr v, k1, out1)"
    and rest: "write_buffers env k1 bs out1 = Some (Inr u, k', out')"
    by (auto split: option.splits sum.splits)
  from Cons.IH [OF rest] write_all_ok [OF one] show ?case by simp
qed simp

lemma write_buffers_append:
  "write_buffers env k bs out = Some (Inr u, k', out') \<Longrightarrow>
     write_buffers env k (bs @ cs) out = write_buffers env k' cs out'"
  by (induction bs arbitrary: k out) (auto split: option.splits sum.splits)

lemma export_hangs:
  assumes "xe_create_ok env" and "xe_buffers env = before @ buffer # rest"
    and "write_buffers env 0 before [] = Some (Inr (), k, out)"
    and "\<forall>j \<ge> k. xe_cancelled env j" and "buffer \<noteq> []"
  shows "run_export env target_id inside temp target fs = None"
proof -
  have "write_buffers env 0 (xe_buffers env) [] = write_buffers env k (buffer # rest) out"
    unfolding assms(2) by (rule write_buffers_append [OF assms(3)])
  also have "\<dots> = None" using write_all_cancelled [OF assms(4,5)] by simp
  finally show ?thesis using assms(1) by (simp add: run_export_def export_body_def)
qed

text \<open>Cancelling does not stop an export, it hangs it: once the flag is set with anything left to
  write, the interrupted write is retried for ever and the export never returns, so that it is
  neither reported as cancelled nor is its temporary file removed.\<close>
theorem cancelled_export_never_returns:
  assumes "xe_create_ok env" and "xe_buffers env = before @ buffer # rest"
    and "write_buffers env 0 before [] = Some (Inr (), k, out)"
    and "\<forall>j \<ge> k. xe_cancelled env j" and "buffer \<noteq> []"
  shows "run_export env target_id inside temp target fs = None"
  using assms by (rule export_hangs)

definition sample_export :: "(nat \<Rightarrow> bool) \<Rightarrow> export_env" where
  "sample_export cancelled =
     \<lparr>xe_cancelled = cancelled, xe_inner = (\<lambda>_ buffer. Inr (length buffer)), xe_create_ok = True,
      xe_buffers = [[1, 2], [3]], xe_source_ok = True, xe_flush_ok = True, xe_sync_ok = True,
      xe_replace_ok = True, xe_remove_ok = True\<rparr>"

lemma cancelled_export_never_returns_witness:
  "run_export (sample_export (\<lambda>k. 1 \<le> k)) ''id'' False [''t''] [''f''] (\<lambda>_. None) = None"
proof -
  have "write_buffers (sample_export (\<lambda>k. 1 \<le> k)) 0 [[1, 2]] [] = Some (Inr (), 1, [1, 2])"
    by (simp add: write_all.simps cancellable_write_def sample_export_def)
  then show ?thesis
    by (intro cancelled_export_never_returns [where before = "[[1, 2]]" and buffer = "[3]" and rest = "[]" and k = 1])
       (simp_all add: sample_export_def)
qed

section \<open>An export that returns\<close>

text \<open>C27.  An export touches its two files only: a completed one has put the whole content under the
  target's name and no temporary file is left; one that ends otherwise leaves the target as it was,
  and the temporary file is gone when it can be removed.\<close>
theorem export_is_atomic:
  assumes "run_export env target_id inside temp target fs = Some (r, fs')" and "temp \<noteq> target"
  shows "(if r = Inr (ExportComplete target_id inside)
          then fs' target = Some (concat (xe_buffers env)) \<and> fs' temp = None
          else fs' target = fs target \<and> (xe_remove_ok env \<longrightarrow> fs' temp = None)) \<and>
         (\<forall>p. p \<noteq> temp \<and> p \<noteq> target \<longrightarrow> fs' p = fs p)"
proof -
  have keep: "fs1 p = fs p" if "export_body env temp target fs = Some (Inl e, k, fs1)" "p \<noteq> temp" for e k fs1 p
    using that by (auto simp: export_body_def Let_def split: if_splits option.splits sum.splits)
  have put: "fs1 = (fs(temp := None))(target \<mapsto> concat (xe_buffers env))"
    if "export_body env temp target fs = Some (Inr u, k, fs1)" for u k fs1
    using that by (auto simp: export_body_def Let_def split: if_splits option.splits sum.splits
        dest!: write_buffers_ok)
  obtain b k fs1 where body: "export_body env temp target fs = Some (b, k, fs1)"
    using assms(1) by (auto simp: run_export_def split: option.splits)
  show ?thesis
  proof (cases b)
    case (Inl e)
    with assms body keep [of e k fs1] show ?thesis
      by (auto simp: run_export_def Let_def split: if_splits)
  next
    case (Inr u)
    with assms body put [of u k fs1] show ?thesis by (auto simp: run_export_def)
  qed
qed

lemma export_is_atomic_witness:
  "\<exists>r fs'. run_export (sample_export (\<lambda>_. False)) ''id'' False [''t''] [''f''] (\<lambda>_. None) = Some (r, fs') \<and>
     fs' [''f''] = Some [1, 2, 3]"
proof -
  let ?env = "sample_export (\<lambda>_. False)"
  have "write_buffers ?env 0 [[1, 2], [3]] [] = Some (Inr (), 2, [1, 2, 3])"
    by (simp add: write_all.simps cancellable_write_def sample_export_def)
  then obtain fs' where run: "run_export ?env ''id'' False [''t''] [''f''] (\<lambda>_. None) =
      Some (Inr (ExportComplete ''id'' False), fs')"
    by (simp add: run_export_def export_body_def sample_export_def)
  from export_is_atomic [OF run] run show ?thesis by (simp add: sample_export_def)
qed

text \<open>A file that takes some bytes of every write takes all of them, when nobody cancels.\<close>

lemma write_all_complete:
  assumes "\<forall>k. \<not> xe_cancelled env k" and "\<forall>k b. b \<noteq> [] \<longrightarrow> (\<exists>n > 0. xe_inner env k b = Inr n)"
  shows "\<exists>k'. write_all env k buffer out = Some (Inr (), k', out @ buffer)"
proof (induction "length buffer" arbitrary: k buffer out rule: less_induct)
  case less
  show ?case
  proof (cases "buffer = []")
    case False
    with assms(2) obtain n where n: "0 < n" "xe_inner env k buffer = Inr n" by blast
    with False have "length (drop n buffer) < length buffer" by simp
    from less.hyps [OF this, of "Suc k" "out @ take n buffer"] show ?thesis
      using n False assms(1) by (simp add: write_all.simps [of env k buffer out] cancellable_write_def)
  qed (simp add: write_all.simps)
qed

lemma write_buffers_complete:
  assumes "\<forall>k. \<not> xe_cancelled env k" and "\<forall>k b. b \<noteq> [] \<longrightarrow> (\<exists>n > 0. xe_inner env k b = Inr n)"
  shows "\<exists>k'. write_buffers env k bs out = Some (Inr (), k', out @ concat bs)"
proof (induction bs arbitrary: k out)
  case (Cons b bs)
  from write_all_complete [OF assms, of k b out] obtain k1 where one: "write_all env k b out = Some (Inr (), k1, out @ b)" ..
  from Cons.IH [of k1 "out @ b"] one show ?case by auto
qed simp

lemma run_export_complete:
  assumes "\<forall>k. \<not> xe_cancelled env k" and "\<forall>k b. b \<noteq> [] \<longrightarrow> (\<exists>n > 0. xe_inner env k b = Inr n)"
    and "xe_create_ok env" and "xe_source_ok env" and "xe_flush_ok env" and "xe_sync_ok env" and "xe_replace_ok env"
  shows "\<exists>fs'. run_export env target_id inside temp target fs = Some (Inr (ExportComplete target_id inside), fs') \<and>
           fs' target = Some (concat (xe_buffers env))"
  using write_buffers_complete [OF assms(1,2), of 0 "xe_buffers env" "[]"] assms
  by (auto simp: run_export_def export_body_def)

text \<open>An export nobody cancels comes to an end, whatever the file answers, unless the file itself
  keeps interrupting.\<close>
theorem uncancelled_export_returns:
  assumes "\<forall>k. \<not> xe_cancelled env k" and "\<forall>k b. xe_inner env k b \<noteq> Inl Interrupted"
  shows "run_export env target_id inside temp target fs \<noteq> None"
proof -
  have one: "write_all env k buffer out \<noteq> None" for k buffer out
  proof (induction "length buffer" arbitrary: k buffer out rule: less_induct)
    case less
    show ?case
    proof (cases "buffer = []")
      case False
      show ?thesis
      proof (cases "xe_inner env k buffer")
        case (Inl e)
        with assms False show ?thesis by (simp add: write_all.simps cancellable_write_def) metis
      next
        case (Inr n)
        then show ?thesis
          using assms(1) False less.hyps [of "drop n buffer" "Suc k" "out @ take n buffer"]
          by (simp add: write_all.simps [of env k buffer out] cancellable_write_def)
      qed
    qed (simp add: write_all.simps)
  qed
  have "write_buffers env k bs out \<noteq> None" for k bs out
    using one by (induction bs arbitrary: k out) (auto split: option.splits sum.splits)
  then obtain res where "write_buffers env 0 (xe_buffers env) [] = Some res" by blast
  then show ?thesis
    by (cases res) (auto simp: run_export_def export_body_def Let_def split: sum.splits)
qed

lemma uncancelled_export_returns_witness:
  "run_export (sample_export (\<lambda>_. False)) ''id'' False [''t''] [''f''] (\<lambda>_. None) \<noteq> None"
  by (rule uncancelled_export_returns) (simp_all add: sample_export_def)

end
