(* ===== verification/Vc_Manager.thy ===== *)
theory Vc_Manager
  imports Vc_Export Vc_Paging Git_Export
begin

text \<open>
  The version-control manager, \<open>VersionControlManager\<close> of
  crates/winrisef-agent/src/version_control_bridge.rs: the open repository, its diff sessions, the
  candidates of a selection, and the export from its preparation to its end.

  The readers of the two backends, the dialogs and the random identifiers are arguments; a JSON
  value of a backend is of an arbitrary type.  The state behind the mutex is a record with its poison
  flag, the flag of an export is an entry of a list that its job shares, and the tasks that run an
  export are part of the state.

  The lemmas show that at most one export runs, what an export was authorised for, and what becomes
  of a manager whose export never returns.
\<close>

section \<open>State\<close>

definition MAX_DIFF_SESSIONS :: usize where "MAX_DIFF_SESSIONS = 3"

datatype ('g, 's) backend = Git 'g | Svn 's
datatype 'd diff_state = GitDiff diff_session | SvnDiff 'd

record ('g, 's, 'd) repository_state =
  rs_id :: string
  rs_backend :: "('g, 's) backend"
  rs_diffs :: "(string \<times> 'd diff_state) list"
  rs_diff_order :: "string list"

record pending_export =
  px_id :: string
  px_repository_id :: string
  px_diff :: diff_session
  px_path :: "string list"
  px_inside :: bool
  px_options :: export_options

record 'g export_job =
  jb_target_id :: string
  jb_reader :: 'g
  jb_diff :: diff_session
  jb_path :: "string list"
  jb_inside :: bool
  jb_options :: export_options
  jb_flag :: nat

record ('g, 's, 'd) manager =
  mg_repository :: "('g, 's, 'd) repository_state option"
  mg_candidates :: "(string \<times> ('g, 's) backend) list"
  mg_pending :: "(string \<times> pending_export) list"
  mg_active :: "(string \<times> nat) option"
  mg_flags :: "bool list"
  mg_jobs :: "'g export_job list"
  mg_events :: "export_event list"
  mg_poisoned :: bool

definition manager_new :: "('g, 's, 'd) manager" where
  "manager_new = \<lparr>mg_repository = None, mg_candidates = [], mg_pending = [], mg_active = None,
     mg_flags = [], mg_jobs = [], mg_events = [], mg_poisoned = False\<rparr>"

datatype 'e manager_error =
    StateUnavailable
  | NoRepository
  | RepositoryMismatch
  | CandidateGone
  | NotAWorkingCopy
  | DiffGone
  | BackendMismatch
  | IdUnavailable
  | SvnExportUnavailable
  | NothingSelected
  | DuplicateIds
  | UnsupportedFile
  | ExportRunning
  | TargetGone
  | ConfirmationRequired
  | Selection selection_error
  | Backend 'e

datatype 'v manager_value =
    Cancelled bool
  | Candidates "string list"
  | Opened string 'v
  | Closed
  | DiffOpened string usize
  | ExportTarget string bool
  | Json_value 'v

definition locked ::
  "(('g, 's, 'd) manager \<Rightarrow> ('e manager_error + 'a) \<times> ('g, 's, 'd) manager) \<Rightarrow> ('g, 's, 'd) manager \<Rightarrow>
     ('e manager_error + 'a) \<times> ('g, 's, 'd) manager" where
  "locked f m = (if mg_poisoned m then (Inl StateUnavailable, m) else f m)"

definition ensure_repository ::
  "string \<Rightarrow> ('g, 's, 'd) manager \<Rightarrow> 'e manager_error + ('g, 's, 'd) repository_state" where
  "ensure_repository repository_id m =
     and_then (ok_or (mg_repository m) NoRepository) (\<lambda>r.
     and_then (ensure (rs_id r = repository_id) RepositoryMismatch) (\<lambda>_. Inr r))"

definition cancel_active_export :: "('g, 's, 'd) manager \<Rightarrow> ('g, 's, 'd) manager" where
  "cancel_active_export m =
     (case mg_active m of None \<Rightarrow> m | Some (_, flag) \<Rightarrow> m\<lparr>mg_flags := (mg_flags m)[flag := True]\<rparr>)"

section \<open>Repositories\<close>

definition open_backend_locked ::
  "(('g, 's) backend \<Rightarrow> 'e + 'v) \<Rightarrow> string option \<Rightarrow> ('g, 's) backend \<Rightarrow> ('g, 's, 'd) manager \<Rightarrow>
     ('e manager_error + 'v manager_value) \<times> ('g, 's, 'd) manager" where
  "open_backend_locked overview random backend m =
     (case overview backend of
        Inl e \<Rightarrow> (Inl (Backend e), m)
      | Inr v \<Rightarrow> (
          case random of
            None \<Rightarrow> (Inl IdUnavailable, m)
          | Some repository_id \<Rightarrow>
              (Inr (Opened repository_id v),
               (cancel_active_export m)\<lparr>mg_candidates := [],
                 mg_repository := Some \<lparr>rs_id = repository_id, rs_backend = backend, rs_diffs = [], rs_diff_order = []\<rparr>,
                 mg_pending := []\<rparr>)))"

text \<open>The candidates of a selection, each under an identifier of its own.\<close>

fun insert_candidates ::
  "(nat \<Rightarrow> string option) \<Rightarrow> nat \<Rightarrow> ('g, 's) backend list \<Rightarrow> ('g, 's, 'd) manager \<Rightarrow>
     ('e manager_error + string list) \<times> ('g, 's, 'd) manager" where
  "insert_candidates randoms i [] m = (Inr [], m)"
| "insert_candidates randoms i (b # bs) m =
     (case randoms i of
        None \<Rightarrow> (Inl IdUnavailable, m)
      | Some candidate_id \<Rightarrow> (
          case insert_candidates randoms (Suc i) bs
                 (m\<lparr>mg_candidates := AList.update candidate_id b (mg_candidates m)\<rparr>) of
            (Inl e, m') \<Rightarrow> (Inl e, m')
          | (Inr ids, m') \<Rightarrow> (Inr (candidate_id # ids), m')))"

text \<open>The folder the user picked, and what was discovered in it; nothing picked is no error.\<close>

definition select_repository ::
  "bool \<Rightarrow> 'g option \<Rightarrow> 'e + 's option \<Rightarrow> (('g, 's) backend \<Rightarrow> 'e + 'v) \<Rightarrow> (nat \<Rightarrow> string option) \<Rightarrow>
     ('g, 's, 'd) manager \<Rightarrow> ('e manager_error + 'v manager_value) \<times> ('g, 's, 'd) manager" where
  "select_repository picked git svn overview randoms m =
     (if \<not> picked then (Inr (Cancelled True), m)
      else case svn of
        Inl e \<Rightarrow> (Inl (Backend e), m)
      | Inr found \<Rightarrow> (
          let detected = (case git of None \<Rightarrow> [] | Some g \<Rightarrow> [Git g]) @ (case found of None \<Rightarrow> [] | Some s \<Rightarrow> [Svn s])
          in if detected = [] then (Inl NotAWorkingCopy, m)
             else locked (\<lambda>m.
               let m1 = m\<lparr>mg_candidates := []\<rparr>
               in if 1 < length detected
                  then (case insert_candidates randoms 0 detected m1 of
                          (Inl e, m2) \<Rightarrow> (Inl e, m2)
                        | (Inr ids, m2) \<Rightarrow> (Inr (Candidates ids), m2))
                  else open_backend_locked overview (randoms 0) (hd detected) m1) m))"

definition open_repository_candidate ::
  "(('g, 's) backend \<Rightarrow> 'e + 'v) \<Rightarrow> string option \<Rightarrow> string \<Rightarrow> ('g, 's, 'd) manager \<Rightarrow>
     ('e manager_error + 'v manager_value) \<times> ('g, 's, 'd) manager" where
  "open_repository_candidate overview random candidate_id =
     locked (\<lambda>m. case map_of (mg_candidates m) candidate_id of
        None \<Rightarrow> (Inl CandidateGone, m)
      | Some backend \<Rightarrow>
          open_backend_locked overview random backend (m\<lparr>mg_candidates := AList.delete candidate_id (mg_candidates m)\<rparr>))"

definition close_repository ::
  "string \<Rightarrow> ('g, 's, 'd) manager \<Rightarrow> ('e manager_error + 'v manager_value) \<times> ('g, 's, 'd) manager" where
  "close_repository repository_id =
     locked (\<lambda>m. case ensure_repository repository_id m of
        Inl e \<Rightarrow> (Inl e, m)
      | Inr _ \<Rightarrow> (Inr Closed, (cancel_active_export m)\<lparr>mg_repository := None, mg_candidates := [], mg_pending := []\<rparr>))"

text \<open>Overview, refresh and the history go to the backend; connecting the history may change it.\<close>

definition backend_request ::
  "string \<Rightarrow> (('g, 's) backend \<Rightarrow> ('e + 'v) \<times> ('g, 's) backend) \<Rightarrow> ('g, 's, 'd) manager \<Rightarrow>
     ('e manager_error + 'v manager_value) \<times> ('g, 's, 'd) manager" where
  "backend_request repository_id request =
     locked (\<lambda>m. case ensure_repository repository_id m of
        Inl e \<Rightarrow> (Inl e, m)
      | Inr r \<Rightarrow> (
          case request (rs_backend r) of
            (Inl e, b) \<Rightarrow> (Inl (Backend e), m\<lparr>mg_repository := Some (r\<lparr>rs_backend := b\<rparr>)\<rparr>)
          | (Inr v, b) \<Rightarrow> (Inr (Json_value v), m\<lparr>mg_repository := Some (r\<lparr>rs_backend := b\<rparr>)\<rparr>)))"

section \<open>Diff sessions\<close>

fun diff_len :: "('d \<Rightarrow> usize) \<Rightarrow> 'd diff_state \<Rightarrow> usize" where
  "diff_len svn_len (GitDiff d) = diff_session_len d"
| "diff_len svn_len (SvnDiff d) = svn_len d"

text \<open>The oldest sessions are dropped.\<close>

function expire_diffs :: "(string \<times> 'd diff_state) list \<Rightarrow> string list \<Rightarrow> (string \<times> 'd diff_state) list \<times> string list" where
  "expire_diffs diffs order =
     (if MAX_DIFF_SESSIONS < length order
      then (case order of [] \<Rightarrow> (diffs, []) | expired # rest \<Rightarrow> expire_diffs (AList.delete expired diffs) rest)
      else (diffs, order))"
  by pat_completeness auto
termination by (relation "measure (\<lambda>(diffs, order). length order)") auto

declare expire_diffs.simps [simp del]

definition open_diff ::
  "(('g, 's) backend \<Rightarrow> 'e + 'd diff_state) \<Rightarrow> ('d \<Rightarrow> usize) \<Rightarrow> string option \<Rightarrow> string \<Rightarrow> ('g, 's, 'd) manager \<Rightarrow>
     ('e manager_error + 'v manager_value) \<times> ('g, 's, 'd) manager" where
  "open_diff compute svn_len random repository_id =
     locked (\<lambda>m. case ensure_repository repository_id m of
        Inl e \<Rightarrow> (Inl e, m)
      | Inr r \<Rightarrow> (
          case compute (rs_backend r) of
            Inl e \<Rightarrow> (Inl (Backend e), m)
          | Inr diff \<Rightarrow> (
              case random of
                None \<Rightarrow> (Inl IdUnavailable, m)
              | Some diff_id \<Rightarrow> (
                  case expire_diffs (AList.update diff_id diff (rs_diffs r)) (rs_diff_order r @ [diff_id]) of
                    (diffs, order) \<Rightarrow>
                      (Inr (DiffOpened diff_id (diff_len svn_len diff)),
                       m\<lparr>mg_repository := Some (r\<lparr>rs_diffs := diffs, rs_diff_order := order\<rparr>)\<rparr>)))))"

definition with_diff ::
  "string \<Rightarrow> string \<Rightarrow> (('g, 's) backend \<Rightarrow> 'd diff_state \<Rightarrow> 'e manager_error + 'a) \<Rightarrow> ('g, 's, 'd) manager \<Rightarrow>
     ('e manager_error + 'a) \<times> ('g, 's, 'd) manager" where
  "with_diff repository_id diff_id request =
     locked (\<lambda>m. (and_then (ensure_repository repository_id m) (\<lambda>r.
       and_then (ok_or (map_of (rs_diffs r) diff_id) DiffGone) (\<lambda>diff. request (rs_backend r) diff)), m))"

text \<open>A preview reads the session with the backend that made it.\<close>

fun preview_request ::
  "('g \<Rightarrow> diff_session \<Rightarrow> 'e + 'a) \<Rightarrow> ('s \<Rightarrow> 'd \<Rightarrow> 'e + 'a) \<Rightarrow> ('g, 's) backend \<Rightarrow> 'd diff_state \<Rightarrow> 'e manager_error + 'a" where
  "preview_request git svn (Git g) (GitDiff d) = (case git g d of Inl e \<Rightarrow> Inl (Backend e) | Inr v \<Rightarrow> Inr v)"
| "preview_request git svn (Svn s) (SvnDiff d) = (case svn s d of Inl e \<Rightarrow> Inl (Backend e) | Inr v \<Rightarrow> Inr v)"
| "preview_request git svn _ _ = Inl BackendMismatch"

section \<open>Exports\<close>

definition selectable :: "diff_session \<Rightarrow> u32 list \<Rightarrow> diff_file list" where
  "selectable diff ids = filter (\<lambda>f. df_file_id f \<in> set ids) (diff_session_files diff)"

definition check_selection :: "diff_session \<Rightarrow> file_selection \<Rightarrow> 'e manager_error + u32 list" where
  "check_selection diff selection =
     (case resolve selection (diff_session_len diff) of
        Inl e \<Rightarrow> Inl (Selection e)
      | Inr ids \<Rightarrow>
          and_then (ensure (ids \<noteq> []) NothingSelected) (\<lambda>_.
          and_then (ensure (card (set ids) = length ids) DuplicateIds) (\<lambda>_.
          and_then (ensure (length (selectable diff ids) = card (set ids) \<and>
             list_all (\<lambda>f. \<not> df_is_binary f \<and> \<not> df_export_too_large f) (selectable diff ids)) UnsupportedFile) (\<lambda>_.
          Inr ids))))"

text \<open>The path is the user's answer to the save dialog; \<open>is_inside\<close> compares canonical paths.\<close>

definition prepare_export ::
  "string list option \<Rightarrow> (string list \<Rightarrow> 'g \<Rightarrow> bool) \<Rightarrow> string option \<Rightarrow> string \<Rightarrow> string \<Rightarrow> export_format \<Rightarrow>
     export_layout \<Rightarrow> file_selection \<Rightarrow> ('g, 's, 'd) manager \<Rightarrow>
     ('e manager_error + 'v manager_value) \<times> ('g, 's, 'd) manager" where
  "prepare_export path is_inside random repository_id diff_id format layout selection =
     locked (\<lambda>m. case ensure_repository repository_id m of
        Inl e \<Rightarrow> (Inl e, m)
      | Inr r \<Rightarrow> (
          case rs_backend r of
            Svn _ \<Rightarrow> (Inl SvnExportUnavailable, m)
          | Git reader \<Rightarrow> (
              case map_of (rs_diffs r) diff_id of
                None \<Rightarrow> (Inl DiffGone, m)
              | Some (SvnDiff _) \<Rightarrow> (Inl BackendMismatch, m)
              | Some (GitDiff diff) \<Rightarrow> (
                  case check_selection diff selection of
                    Inl e \<Rightarrow> (Inl e, m)
                  | Inr ids \<Rightarrow> (
                      case path of
                        None \<Rightarrow> (Inr (Cancelled True), m)
                      | Some p \<Rightarrow> (
                          case random of
                            None \<Rightarrow> (Inl IdUnavailable, m)
                          | Some target_id \<Rightarrow>
                              (Inr (ExportTarget target_id (is_inside p reader)),
                               m\<lparr>mg_pending := [(target_id,
                                 \<lparr>px_id = target_id, px_repository_id = repository_id, px_diff = diff, px_path = p,
                                  px_inside = is_inside p reader,
                                  px_options = \<lparr>eo_format = format, eo_layout = layout, eo_selected_file_ids = ids\<rparr>\<rparr>)]\<rparr>)))))))"

text \<open>The pending target is taken out before it is looked at.\<close>

definition begin_export ::
  "string \<Rightarrow> bool \<Rightarrow> ('g, 's, 'd) manager \<Rightarrow> ('e manager_error + 'g export_job) \<times> ('g, 's, 'd) manager" where
  "begin_export target_id allow_inside =
     locked (\<lambda>m.
       if mg_active m \<noteq> None then (Inl ExportRunning, m)
       else case map_of (mg_pending m) target_id of
         None \<Rightarrow> (Inl TargetGone, m)
       | Some p \<Rightarrow> (
           let m1 = m\<lparr>mg_pending := AList.delete target_id (mg_pending m)\<rparr>
           in if \<not> (\<not> px_inside p \<or> allow_inside) then (Inl ConfirmationRequired, m1)
              else case ensure_repository (px_repository_id p) m1 of
                Inl e \<Rightarrow> (Inl e, m1)
              | Inr r \<Rightarrow> (
                  case rs_backend r of
                    Svn _ \<Rightarrow> (Inl SvnExportUnavailable, m1)
                  | Git reader \<Rightarrow> (
                      let flag = length (mg_flags m1);
                          job = \<lparr>jb_target_id = px_id p, jb_reader = reader, jb_diff = px_diff p, jb_path = px_path p,
                                 jb_inside = px_inside p, jb_options = px_options p, jb_flag = flag\<rparr>
                      in (Inr job, m1\<lparr>mg_flags := mg_flags m1 @ [False], mg_active := Some (px_id p, flag)\<rparr>)))))"

text \<open>Confirming an export spawns its job.\<close>

definition confirm_export :: "string \<Rightarrow> bool \<Rightarrow> ('g, 's, 'd) manager \<Rightarrow> ('g, 's, 'd) manager" where
  "confirm_export target_id allow_inside m =
     (case begin_export target_id allow_inside m of
        (Inl (_ :: unit manager_error), m') \<Rightarrow> m'
      | (Inr job, m') \<Rightarrow> m'\<lparr>mg_jobs := mg_jobs m' @ [job]\<rparr>)"

definition cancel_export ::
  "string \<Rightarrow> ('g, 's, 'd) manager \<Rightarrow> ('e manager_error + 'v manager_value) \<times> ('g, 's, 'd) manager" where
  "cancel_export target_id =
     locked (\<lambda>m.
       if map_of (mg_pending m) target_id \<noteq> None
       then (Inr (Cancelled True), m\<lparr>mg_pending := AList.delete target_id (mg_pending m)\<rparr>)
       else case mg_active m of
         Some (active_id, flag) \<Rightarrow>
           if active_id = target_id then (Inr (Cancelled True), m\<lparr>mg_flags := (mg_flags m)[flag := True]\<rparr>)
           else (Inr (Cancelled False), m)
       | None \<Rightarrow> (Inr (Cancelled False), m))"

definition finish_export :: "string \<Rightarrow> ('g, 's, 'd) manager \<Rightarrow> ('g, 's, 'd) manager" where
  "finish_export target_id m =
     (if mg_poisoned m then m
      else case mg_active m of
        Some (active_id, _) \<Rightarrow> if active_id = target_id then m\<lparr>mg_active := None\<rparr> else m
      | None \<Rightarrow> m)"

text \<open>The task of a job goes on only when its export returned.\<close>

definition job_returns ::
  "((export_error + export_event) \<times> files) option \<Rightarrow> nat \<Rightarrow> ('g, 's, 'd) manager \<Rightarrow> ('g, 's, 'd) manager" where
  "job_returns outcome i m =
     (if i < length (mg_jobs m)
      then (case outcome of
              None \<Rightarrow> m
            | Some (r, _) \<Rightarrow> (
                let job = mg_jobs m ! i
                in (finish_export (jb_target_id job) m)
                     \<lparr>mg_jobs := take i (mg_jobs m) @ drop (Suc i) (mg_jobs m),
                      mg_events := mg_events m @ [spawn_event (jb_target_id job) r]\<rparr>))
      else m)"

definition shutdown :: "('g, 's, 'd) manager \<Rightarrow> ('g, 's, 'd) manager" where
  "shutdown m =
     (if mg_poisoned m then m
      else (cancel_active_export m)\<lparr>mg_repository := None, mg_candidates := [], mg_pending := []\<rparr>)"

section \<open>Runs\<close>

text \<open>The answers an operation got are part of it; what comes back is left out.\<close>

datatype ('g, 's, 'd, 'e, 'v) manager_op =
    Select bool "'g option" "'e + 's option" "('g, 's) backend \<Rightarrow> 'e + 'v" "nat \<Rightarrow> string option"
  | OpenCandidate "('g, 's) backend \<Rightarrow> 'e + 'v" "string option" string
  | Close string
  | Request string "('g, 's) backend \<Rightarrow> ('e + 'v) \<times> ('g, 's) backend"
  | OpenDiff "('g, 's) backend \<Rightarrow> 'e + 'd diff_state" "'d \<Rightarrow> usize" "string option" string
  | PrepareExport "string list option" "string list \<Rightarrow> 'g \<Rightarrow> bool" "string option" string string export_format
      export_layout file_selection
  | ConfirmExport string bool
  | CancelExport string
  | JobReturns "((export_error + export_event) \<times> files) option" nat
  | Shutdown

fun manager_step :: "('g, 's, 'd, 'e, 'v) manager_op \<Rightarrow> ('g, 's, 'd) manager \<Rightarrow> ('g, 's, 'd) manager" where
  "manager_step (Select picked git svn overview randoms) m =
     snd (select_repository picked git svn overview randoms m :: ('e manager_error + 'v manager_value) \<times> _)"
| "manager_step (OpenCandidate overview random candidate_id) m =
     snd (open_repository_candidate overview random candidate_id m :: ('e manager_error + 'v manager_value) \<times> _)"
| "manager_step (Close repository_id) m =
     snd (close_repository repository_id m :: ('e manager_error + 'v manager_value) \<times> _)"
| "manager_step (Request repository_id request) m =
     snd (backend_request repository_id request m :: ('e manager_error + 'v manager_value) \<times> _)"
| "manager_step (OpenDiff compute svn_len random repository_id) m =
     snd (open_diff compute svn_len random repository_id m :: ('e manager_error + 'v manager_value) \<times> _)"
| "manager_step (PrepareExport path is_inside random repository_id diff_id format layout selection) m =
     snd (prepare_export path is_inside random repository_id diff_id format layout selection m
            :: ('e manager_error + 'v manager_value) \<times> _)"
| "manager_step (ConfirmExport target_id allow_inside) m = confirm_export target_id allow_inside m"
| "manager_step (CancelExport target_id) m =
     snd (cancel_export target_id m :: ('e manager_error + 'v manager_value) \<times> _)"
| "manager_step (JobReturns outcome i) m = job_returns outcome i m"
| "manager_step Shutdown m = shutdown m"

definition manager_run :: "('g, 's, 'd, 'e, 'v) manager_op list \<Rightarrow> ('g, 's, 'd) manager \<Rightarrow> ('g, 's, 'd) manager" where
  "manager_run ops m = foldl (\<lambda>n op. manager_step op n) m ops"

section \<open>Invariant\<close>

definition export_ok :: "diff_session \<Rightarrow> export_options \<Rightarrow> bool" where
  "export_ok diff options \<longleftrightarrow>
     eo_selected_file_ids options \<noteq> [] \<and> distinct (eo_selected_file_ids options) \<and>
     (\<forall>f \<in> set (diff_session_files diff). df_file_id f \<in> set (eo_selected_file_ids options) \<longrightarrow>
        \<not> df_is_binary f \<and> \<not> df_export_too_large f)"

definition repository_inv :: "('g, 's, 'd) repository_state \<Rightarrow> bool" where
  "repository_inv r \<longleftrightarrow> length (rs_diff_order r) \<le> MAX_DIFF_SESSIONS \<and>
     fst ` set (rs_diffs r) \<subseteq> set (rs_diff_order r)"

definition pending_inv :: "('g, 's, 'd) manager \<Rightarrow> bool" where
  "pending_inv m \<longleftrightarrow> length (mg_pending m) \<le> 1 \<and>
     (\<forall>(k, p) \<in> set (mg_pending m). k = px_id p \<and> export_ok (px_diff p) (px_options p) \<and>
        (\<exists>r. mg_repository m = Some r \<and> rs_id r = px_repository_id p))"

definition active_inv :: "('g, 's, 'd) manager \<Rightarrow> bool" where
  "active_inv m \<longleftrightarrow>
     (case mg_active m of
        None \<Rightarrow> mg_jobs m = []
      | Some (i, flag) \<Rightarrow> \<exists>j. mg_jobs m = [j] \<and> jb_target_id j = i \<and> jb_flag j = flag \<and>
          flag < length (mg_flags m) \<and> export_ok (jb_diff j) (jb_options j))"

definition manager_inv :: "('g, 's, 'd) manager \<Rightarrow> bool" where
  "manager_inv m \<longleftrightarrow> \<not> mg_poisoned m \<and> pred_option repository_inv (mg_repository m) \<and> pending_inv m \<and> active_inv m"

lemma manager_new_inv: "manager_inv manager_new"
  by (simp add: manager_inv_def manager_new_def pending_inv_def active_inv_def)

lemma locked_inv:
  "manager_inv m \<Longrightarrow> manager_inv (snd (f m)) \<Longrightarrow> manager_inv (snd (locked f m))"
  by (simp add: locked_def)

lemma cancel_active_frame [simp]:
  "mg_repository (cancel_active_export m) = mg_repository m"
  "mg_pending (cancel_active_export m) = mg_pending m"
  "mg_active (cancel_active_export m) = mg_active m"
  "mg_jobs (cancel_active_export m) = mg_jobs m"
  "mg_poisoned (cancel_active_export m) = mg_poisoned m"
  "length (mg_flags (cancel_active_export m)) = length (mg_flags m)"
  by (simp_all add: cancel_active_export_def split: option.splits prod.splits)

lemma inv_frame:
  assumes "manager_inv m" and "mg_poisoned m' = mg_poisoned m" and "mg_active m' = mg_active m"
    and "mg_jobs m' = mg_jobs m" and "length (mg_flags m') = length (mg_flags m)"
    and "pred_option repository_inv (mg_repository m')" and "pending_inv m'"
  shows "manager_inv m'"
  using assms by (cases "mg_active m") (auto simp: manager_inv_def active_inv_def)

lemma pending_inv_none [simp]: "mg_pending m = [] \<Longrightarrow> pending_inv m"
  by (simp add: pending_inv_def)

lemma open_backend_inv: "manager_inv m \<Longrightarrow> manager_inv (snd (open_backend_locked overview random backend m))"
  by (auto simp: open_backend_locked_def repository_inv_def split: sum.splits option.splits intro: inv_frame)

lemma candidates_inv [simp]: "manager_inv (m\<lparr>mg_candidates := cs\<rparr>) = manager_inv m"
  by (cases "mg_active m") (auto simp: manager_inv_def pending_inv_def active_inv_def)

lemma insert_candidates_inv: "manager_inv m \<Longrightarrow> manager_inv (snd (insert_candidates randoms i bs m))"
  by (induction randoms i bs m rule: insert_candidates.induct)
     (auto split: option.splits prod.splits sum.splits)

lemma insert_candidates_result:
  "insert_candidates randoms i bs m = (r, m') \<Longrightarrow> manager_inv m \<Longrightarrow> manager_inv m'"
  by (metis insert_candidates_inv snd_conv)

lemma select_inv: "manager_inv m \<Longrightarrow> manager_inv (snd (select_repository picked git svn overview randoms m))"
proof -
  assume inv: "manager_inv m"
  have some: "manager_inv (snd (case insert_candidates randoms 0 bs m1 of
      (Inl e, m2) \<Rightarrow> (Inl e, m2) | (Inr ids, m2) \<Rightarrow> (Inr (Candidates ids), m2)))"
    if m1: "manager_inv m1" for bs m1
    by (auto split: prod.splits sum.splits dest: insert_candidates_result [OF _ m1])
  show ?thesis
    using inv by (auto simp: select_repository_def Let_def intro!: locked_inv open_backend_inv some split: sum.splits)
qed

lemma ensure_repository_ok: "ensure_repository i m = Inr r \<longleftrightarrow> mg_repository m = Some r \<and> rs_id r = i"
  by (auto simp: ensure_repository_def result_simps)

lemma open_candidate_inv: "manager_inv m \<Longrightarrow> manager_inv (snd (open_repository_candidate overview random c m))"
  unfolding open_repository_candidate_def
  by (rule locked_inv, assumption) (auto split: option.splits intro: open_backend_inv)

lemma close_inv: "manager_inv m \<Longrightarrow> manager_inv (snd (close_repository i m))"
  unfolding close_repository_def
  by (rule locked_inv, assumption) (auto split: sum.splits intro: inv_frame)

lemma pending_inv_repository:
  "pending_inv m \<Longrightarrow> mg_repository m = Some r \<Longrightarrow> rs_id r' = rs_id r \<Longrightarrow> pending_inv (m\<lparr>mg_repository := Some r'\<rparr>)"
  by (auto simp: pending_inv_def)

lemma manager_request_inv: "manager_inv m \<Longrightarrow> manager_inv (snd (backend_request i request m))"
proof -
  assume inv: "manager_inv m"
  have "manager_inv (m\<lparr>mg_repository := Some (r\<lparr>rs_backend := b\<rparr>)\<rparr>)" if "mg_repository m = Some r" for r b
    using inv that pending_inv_repository [of m r "r\<lparr>rs_backend := b\<rparr>"]
    by (intro inv_frame [OF inv]) (auto simp: manager_inv_def repository_inv_def)
  with inv show ?thesis
    unfolding backend_request_def
    by (intro locked_inv) (auto simp: ensure_repository_ok split: sum.splits prod.splits)
qed

lemma expire_diffs_spec:
  "fst ` set diffs \<subseteq> set order \<Longrightarrow> expire_diffs diffs order = (diffs', order') \<Longrightarrow>
     length order' \<le> MAX_DIFF_SESSIONS \<and> fst ` set diffs' \<subseteq> set order'"
proof (induction diffs order arbitrary: diffs' order' rule: expire_diffs.induct)
  case (1 diffs order)
  show ?case
  proof (cases "MAX_DIFF_SESSIONS < length order")
    case True
    then obtain e rest where order: "order = e # rest" by (cases order) auto
    have "fst ` set (AList.delete e diffs) \<subseteq> set rest"
      using 1(2) order by (auto simp: AList.delete_eq)
    moreover have "expire_diffs (AList.delete e diffs) rest = (diffs', order')"
    proof -
      have "expire_diffs diffs order = expire_diffs (AList.delete e diffs) rest"
        using True order by (subst expire_diffs.simps) simp
      with 1(3) show ?thesis by simp
    qed
    ultimately show ?thesis using 1(1) [OF True order] by blast
  next
    case False
    with 1(2,3) show ?thesis by (auto simp: expire_diffs.simps [of diffs order])
  qed
qed

lemma open_diff_inv: "manager_inv m \<Longrightarrow> manager_inv (snd (open_diff compute svn_len random i m))"
proof -
  assume inv: "manager_inv m"
  have "manager_inv (m\<lparr>mg_repository := Some (r\<lparr>rs_diffs := diffs, rs_diff_order := order\<rparr>)\<rparr>)"
    if r: "mg_repository m = Some r"
      and e: "expire_diffs (AList.update diff_id diff (rs_diffs r)) (rs_diff_order r @ [diff_id]) = (diffs, order)"
    for r diff_id diff diffs order
  proof -
    have "repository_inv r" using inv r by (simp add: manager_inv_def)
    then have "fst ` set (AList.update diff_id diff (rs_diffs r)) \<subseteq> set (rs_diff_order r @ [diff_id])"
      by (auto simp: repository_inv_def dom_update)
    from expire_diffs_spec [OF this e] show ?thesis
      using inv r pending_inv_repository [of m r "r\<lparr>rs_diffs := diffs, rs_diff_order := order\<rparr>"]
      by (intro inv_frame [OF inv]) (auto simp: manager_inv_def repository_inv_def)
  qed
  with inv show ?thesis
    unfolding open_diff_def
    by (intro locked_inv) (auto simp: ensure_repository_ok split: sum.splits prod.splits option.splits)
qed

text \<open>Preparing, confirming and cancelling.\<close>

lemma file_ids_distinct_selection:
  assumes "check_selection diff selection = Inr ids"
  shows "export_ok diff \<lparr>eo_format = f, eo_layout = l, eo_selected_file_ids = ids\<rparr>"
proof -
  have "distinct ids"
    using assms by (auto simp: check_selection_def result_simps card_distinct split: sum.splits)
  with assms show ?thesis
    by (auto simp: check_selection_def export_ok_def result_simps selectable_def list_all_iff split: sum.splits)
qed

lemma pending_new_inv:
  assumes inv: "manager_inv m" and "mg_repository m = Some r" and "rs_id r = px_repository_id p"
    and "export_ok (px_diff p) (px_options p)" and "px_id p = k"
  shows "manager_inv (m\<lparr>mg_pending := [(k, p)]\<rparr>)"
  using assms by (intro inv_frame [OF inv]) (auto simp: manager_inv_def pending_inv_def)

lemma prepare_inv:
  "manager_inv m \<Longrightarrow>
     manager_inv (snd (prepare_export path is_inside random repository_id diff_id format layout selection m))"
  unfolding prepare_export_def
  by (rule locked_inv, assumption)
     (auto simp: ensure_repository_ok split: sum.split option.split backend.split diff_state.split
        intro!: pending_new_inv intro: file_ids_distinct_selection)

lemma pending_delete_inv:
  assumes inv: "manager_inv m"
  shows "manager_inv (m\<lparr>mg_pending := AList.delete k (mg_pending m)\<rparr>)"
proof -
  have p: "pending_inv m" using inv by (simp add: manager_inv_def)
  have "length (AList.delete k (mg_pending m)) \<le> length (mg_pending m)" by (simp add: AList.delete_eq)
  with p have "length (AList.delete k (mg_pending m)) \<le> 1" by (simp add: pending_inv_def)
  moreover have "set (AList.delete k (mg_pending m)) \<subseteq> set (mg_pending m)" by (auto simp: AList.delete_eq)
  ultimately have "pending_inv (m\<lparr>mg_pending := AList.delete k (mg_pending m)\<rparr>)"
    using p unfolding pending_inv_def by simp blast
  then show ?thesis
    using inv by (intro inv_frame [OF inv]) (simp_all add: manager_inv_def)
qed

lemma flags_inv: "manager_inv m \<Longrightarrow> length fs = length (mg_flags m) \<Longrightarrow> manager_inv (m\<lparr>mg_flags := fs\<rparr>)"
  by (rule inv_frame [of m]) (auto simp: manager_inv_def pending_inv_def)

lemma cancel_inv: "manager_inv m \<Longrightarrow> manager_inv (snd (cancel_export i m))"
  unfolding cancel_export_def
  by (rule locked_inv, assumption) (auto split: option.splits prod.splits intro: flags_inv pending_delete_inv)

text \<open>What an export that began was authorised for.\<close>

lemma begin_export_Inr:
  assumes "begin_export target_id allow_inside m = (Inr job, m')"
  shows "\<exists>p r g. mg_active m = None \<and> map_of (mg_pending m) target_id = Some p \<and>
    (px_inside p \<longrightarrow> allow_inside) \<and> mg_repository m = Some r \<and> rs_id r = px_repository_id p \<and>
    rs_backend r = Git g \<and>
    job = \<lparr>jb_target_id = px_id p, jb_reader = g, jb_diff = px_diff p, jb_path = px_path p,
           jb_inside = px_inside p, jb_options = px_options p, jb_flag = length (mg_flags m)\<rparr> \<and>
    m' = m\<lparr>mg_pending := AList.delete target_id (mg_pending m), mg_flags := mg_flags m @ [False],
           mg_active := Some (px_id p, length (mg_flags m))\<rparr>"
  using assms
  by (cases "mg_active m")
     (auto simp: begin_export_def locked_def Let_def ensure_repository_ok
       split: if_splits option.splits sum.splits backend.splits)

lemma begin_export_Inl:
  assumes "begin_export target_id allow_inside m = (Inl e, m')"
  shows "m' = m \<or> m' = m\<lparr>mg_pending := AList.delete target_id (mg_pending m)\<rparr>"
  using assms
  by (auto simp: begin_export_def locked_def Let_def split: if_splits option.splits sum.splits backend.splits)

lemma confirm_inv:
  assumes inv: "manager_inv m"
  shows "manager_inv (confirm_export target_id allow_inside m)"
proof (cases "begin_export target_id allow_inside m :: (unit manager_error + _) \<times> _")
  case (Pair result m')
  show ?thesis
  proof (cases result)
    case (Inl e)
    with Pair inv begin_export_Inl [of target_id allow_inside m e m'] pending_delete_inv [of m target_id] show ?thesis
      by (auto simp: confirm_export_def)
  next
    case (Inr job)
    with Pair obtain p r g where b: "mg_active m = None" "map_of (mg_pending m) target_id = Some p"
        "mg_repository m = Some r"
      and job: "job = \<lparr>jb_target_id = px_id p, jb_reader = g, jb_diff = px_diff p, jb_path = px_path p,
           jb_inside = px_inside p, jb_options = px_options p, jb_flag = length (mg_flags m)\<rparr>"
      and m': "m' = m\<lparr>mg_pending := AList.delete target_id (mg_pending m), mg_flags := mg_flags m @ [False],
           mg_active := Some (px_id p, length (mg_flags m))\<rparr>"
      using begin_export_Inr [of target_id allow_inside m job m'] by blast
    have "pending_inv m" "mg_jobs m = []" using inv b by (simp_all add: manager_inv_def active_inv_def)
    moreover have "export_ok (px_diff p) (px_options p)"
      using \<open>pending_inv m\<close> map_of_SomeD [OF b(2)] by (auto simp: pending_inv_def)
    moreover have "pending_inv (m\<lparr>mg_pending := AList.delete target_id (mg_pending m)\<rparr>)"
      using pending_delete_inv [OF inv, of target_id] by (simp add: manager_inv_def)
    ultimately show ?thesis
      using inv b Pair Inr by (simp add: confirm_export_def manager_inv_def active_inv_def pending_inv_def job m')
  qed
qed

lemma returns_inv: "manager_inv m \<Longrightarrow> manager_inv (job_returns outcome i m)"
  by (cases "mg_active m")
     (auto simp: job_returns_def finish_export_def manager_inv_def active_inv_def pending_inv_def split: option.splits)

lemma manager_shutdown_inv: "manager_inv m \<Longrightarrow> manager_inv (shutdown m)"
  by (auto simp: shutdown_def intro: inv_frame)

lemma manager_step_inv: "manager_inv m \<Longrightarrow> manager_inv (manager_step op m)"
  by (cases op)
     (simp_all add: select_inv open_candidate_inv close_inv manager_request_inv open_diff_inv prepare_inv confirm_inv
       cancel_inv returns_inv manager_shutdown_inv)

lemma manager_run_inv: "manager_inv m \<Longrightarrow> manager_inv (manager_run ops m)"
  unfolding manager_run_def by (induction ops arbitrary: m) (simp_all add: manager_step_inv)

lemma insert_candidates_active [simp]:
  "mg_active (snd (insert_candidates randoms i bs m)) = mg_active m"
  "mg_poisoned (snd (insert_candidates randoms i bs m)) = mg_poisoned m"
  by (induction randoms i bs m rule: insert_candidates.induct) (auto split: option.splits prod.splits sum.splits)

lemma insert_candidates_frame:
  "insert_candidates randoms i bs m = (r, m') \<Longrightarrow> mg_active m' = mg_active m \<and> mg_poisoned m' = mg_poisoned m"
  by (metis insert_candidates_active snd_conv)

lemma select_active:
  "mg_active (snd (select_repository picked git svn overview randoms m)) = mg_active m"
  by (auto simp: select_repository_def locked_def open_backend_locked_def Let_def
      split: sum.split prod.split option.split dest!: insert_candidates_frame)

lemma other_ops_active:
  "mg_active (snd (open_repository_candidate overview random c m)) = mg_active m"
  "mg_active (snd (close_repository i m)) = mg_active m"
  "mg_active (snd (backend_request i request m)) = mg_active m"
  "mg_active (snd (open_diff compute svn_len random i m)) = mg_active m"
  "mg_active (snd (prepare_export path is_inside random i d format layout selection m)) = mg_active m"
  "mg_active (snd (cancel_export i m)) = mg_active m"
  "mg_active (shutdown m) = mg_active m"
  by (auto simp: open_repository_candidate_def close_repository_def backend_request_def open_diff_def
      prepare_export_def cancel_export_def shutdown_def locked_def open_backend_locked_def
      split: sum.split prod.split option.split backend.split diff_state.split)

text \<open>A running export keeps its slot as long as its task does not return.\<close>

lemma running_step:
  "mg_active m = Some a \<Longrightarrow> (\<forall>outcome i. op = JobReturns outcome i \<longrightarrow> outcome = None) \<Longrightarrow>
     mg_active (manager_step op m) = Some a"
  by (cases op) (auto simp: select_active other_ops_active confirm_export_def begin_export_def locked_def job_returns_def)

lemma running_export_stays:
  "mg_active m = Some a \<Longrightarrow> (\<forall>outcome i. JobReturns outcome i \<in> set later \<longrightarrow> outcome = None) \<Longrightarrow>
     mg_active (manager_run later m) = Some a"
  unfolding manager_run_def
proof (induction later arbitrary: m)
  case (Cons op later)
  have "mg_active (manager_step op m) = Some a" using Cons.prems by (intro running_step) auto
  moreover have "\<forall>outcome i. JobReturns outcome i \<in> set later \<longrightarrow> outcome = None" using Cons.prems by auto
  ultimately show ?case using Cons.IH by simp
qed simp

lemma manager_run_append: "manager_run (ops @ later) m = manager_run later (manager_run ops m)"
  by (simp add: manager_run_def)

text \<open>A run that prepares an export of one file.\<close>

definition sample_diff :: diff_session where
  "sample_diff = \<lparr>ds_old_revision = RevEmpty, ds_new_revision = RevWorkingTree, ds_group = GroupAll,
     ds_summary = summary_zero,
     ds_records = [\<lparr>dr_public = \<lparr>df_file_id = 0, df_path = ''a'', df_old_path = None, df_status = ''Added'',
       df_groups = [], df_additions = 1, df_deletions = 0, df_is_binary = False, df_is_submodule = False,
       df_preview_too_large = False, df_export_too_large = False, df_has_conflict_views = False\<rparr>,
       dr_original = SourceEmpty, dr_modified = Workdir ''a'', dr_conflict = None\<rparr>]\<rparr>"

definition sample_ops :: "(nat, unit, unit, unit, unit) manager_op list" where
  "sample_ops =
     [Select True (Some 7) (Inr None) (\<lambda>_. Inr ()) (\<lambda>_. Some ''r''),
      OpenDiff (\<lambda>_. Inr (GitDiff sample_diff)) (\<lambda>_. 0) (Some ''d'') ''r'',
      PrepareExport (Some [''out'']) (\<lambda>_ _. True) (Some ''t'') ''r'' ''d'' Markdown Unified
        \<lparr>fs_mode = Include, fs_ranges = [(0, 0)]\<rparr>]"

lemma sample_selection:
  "check_selection sample_diff \<lparr>fs_mode = Include, fs_ranges = [(0, 0)]\<rparr> = (Inr [0] :: unit manager_error + _)"
  by (simp add: check_selection_def resolve_def diff_session_len_def sample_diff_def fill_range_def selectable_def
      diff_session_files_def ensure_def)

lemmas sample_simps = manager_run_def manager_new_def select_repository_def locked_def open_backend_locked_def
  open_diff_def ensure_repository_def ensure_def expire_diffs.simps MAX_DIFF_SESSIONS_def prepare_export_def
  cancel_active_export_def

lemma sample_prepared:
  "mg_pending (manager_run sample_ops manager_new) = [(''t'', \<lparr>px_id = ''t'', px_repository_id = ''r'',
     px_diff = sample_diff, px_path = [''out''], px_inside = True,
     px_options = \<lparr>eo_format = Markdown, eo_layout = Unified, eo_selected_file_ids = [0]\<rparr>\<rparr>)]"
  "mg_active (manager_run sample_ops manager_new) = None"
  "mg_poisoned (manager_run sample_ops manager_new) = False"
  "map_option rs_id (mg_repository (manager_run sample_ops manager_new)) = Some ''r''"
  "map_option rs_backend (mg_repository (manager_run sample_ops manager_new)) = Some (Git 7)"
  by (simp_all add: sample_ops_def sample_simps sample_selection)

section \<open>What the manager guarantees\<close>

text \<open>One export at a time, of one repository: whatever is asked of the manager and whenever jobs
  return, at most one job runs, the manager names it as long as it does, and its files are a selection
  without repetition that can be exported; at most one prepared target waits, of the repository that
  is open; and a repository keeps at most three diff sessions.\<close>
theorem manager_invariant:
  fixes ops :: "('g, 's, 'd, 'e, 'v) manager_op list"
  shows "let m = manager_run ops manager_new in
     map jb_target_id (mg_jobs m) = (case mg_active m of None \<Rightarrow> [] | Some (i, _) \<Rightarrow> [i]) \<and>
     (\<forall>j \<in> set (mg_jobs m). export_ok (jb_diff j) (jb_options j)) \<and>
     length (mg_pending m) \<le> 1 \<and>
     (\<forall>(k, p) \<in> set (mg_pending m). map_option rs_id (mg_repository m) = Some (px_repository_id p)) \<and>
     (\<forall>r. mg_repository m = Some r \<longrightarrow> card (fst ` set (rs_diffs r)) \<le> MAX_DIFF_SESSIONS)"
proof -
  define m where "m = manager_run ops manager_new"
  have inv: "manager_inv m" unfolding m_def by (rule manager_run_inv [OF manager_new_inv])
  have "card (fst ` set (rs_diffs r)) \<le> MAX_DIFF_SESSIONS" if "mg_repository m = Some r" for r
  proof -
    have "repository_inv r" using inv that by (simp add: manager_inv_def)
    then have "card (fst ` set (rs_diffs r)) \<le> card (set (rs_diff_order r))"
      by (simp add: repository_inv_def card_mono)
    also have "\<dots> \<le> length (rs_diff_order r)" by (rule card_length)
    finally show ?thesis using \<open>repository_inv r\<close> by (simp add: repository_inv_def)
  qed
  moreover have "length (mg_pending m) \<le> 1"
    and "\<forall>(k, p) \<in> set (mg_pending m). map_option rs_id (mg_repository m) = Some (px_repository_id p)"
    using inv by (auto simp: manager_inv_def pending_inv_def)
  moreover have "map jb_target_id (mg_jobs m) = (case mg_active m of None \<Rightarrow> [] | Some (i, _) \<Rightarrow> [i]) \<and>
      (\<forall>j \<in> set (mg_jobs m). export_ok (jb_diff j) (jb_options j))"
    using inv by (auto simp: manager_inv_def active_inv_def split: option.splits)
  ultimately show ?thesis by (simp add: m_def Let_def)
qed

lemma manager_invariant_witness: "length (mg_pending (manager_run sample_ops manager_new)) \<le> 1"
  using manager_invariant [of sample_ops] by (simp add: Let_def)

text \<open>C14.  What an export is authorised for: when the manager starts a job, no other job was running,
  the target had been prepared and is used up now, the repository it was prepared for is still open and
  gives the reader, a place inside the repository was confirmed, and the files are a valid selection of
  the session the target was prepared from; the job's cancellation flag is its own and is not set.\<close>
theorem export_job_authorised:
  fixes ops :: "('g, 's, 'd, 'e, 'v) manager_op list"
  assumes "begin_export target_id allow_inside (manager_run ops manager_new) = (Inr job, m')"
  shows "let m = manager_run ops manager_new in
     mg_jobs m = [] \<and>
     (\<exists>p r. mg_pending m = [(target_id, p)] \<and> mg_pending m' = [] \<and> px_id p = target_id \<and>
        mg_repository m = Some r \<and> rs_id r = px_repository_id p \<and> rs_backend r = Git (jb_reader job) \<and>
        jb_target_id job = target_id \<and> jb_diff job = px_diff p \<and> jb_path job = px_path p \<and>
        jb_options job = px_options p \<and> jb_inside job = px_inside p) \<and>
     (jb_inside job \<longrightarrow> allow_inside) \<and> export_ok (jb_diff job) (jb_options job) \<and>
     mg_active m' = Some (target_id, jb_flag job) \<and> jb_flag job = length (mg_flags m) \<and> \<not> mg_flags m' ! jb_flag job"
proof -
  define m where "m = manager_run ops manager_new"
  have inv: "manager_inv m" unfolding m_def by (rule manager_run_inv [OF manager_new_inv])
  from begin_export_Inr [OF assms [folded m_def]] obtain p r g where
    b: "mg_active m = None" "map_of (mg_pending m) target_id = Some p" "px_inside p \<longrightarrow> allow_inside"
      "mg_repository m = Some r" "rs_id r = px_repository_id p" "rs_backend r = Git g"
    and job: "job = \<lparr>jb_target_id = px_id p, jb_reader = g, jb_diff = px_diff p, jb_path = px_path p,
           jb_inside = px_inside p, jb_options = px_options p, jb_flag = length (mg_flags m)\<rparr>"
    and m': "m' = m\<lparr>mg_pending := AList.delete target_id (mg_pending m), mg_flags := mg_flags m @ [False],
           mg_active := Some (px_id p, length (mg_flags m))\<rparr>" by blast
  have "pending_inv m" "mg_jobs m = []" using inv b(1) by (simp_all add: manager_inv_def active_inv_def)
  moreover have "(target_id, p) \<in> set (mg_pending m)" by (rule map_of_SomeD [OF b(2)])
  ultimately have "mg_pending m = [(target_id, p)]" and "px_id p = target_id" and "export_ok (px_diff p) (px_options p)"
    by (cases "mg_pending m"; auto simp: pending_inv_def)+
  then show ?thesis
    unfolding m_def [symmetric] using b \<open>mg_jobs m = []\<close> by (simp add: job m' Let_def)
qed

lemma sample_begin_export:
  "begin_export ''t'' True (manager_run sample_ops manager_new) = (r :: (unit manager_error + nat export_job) \<times> _) \<Longrightarrow>
     \<exists>job m'. r = (Inr job, m') \<and> jb_path job = [''out''] \<and> mg_active m' = Some (''t'', jb_flag job)"
proof -
  assume r: "begin_export ''t'' True (manager_run sample_ops manager_new) = r"
  obtain repo where "mg_repository (manager_run sample_ops manager_new) = Some repo" "rs_id repo = ''r''" "rs_backend repo = Git 7"
    using sample_prepared(4,5) by fastforce
  with r sample_prepared(1-3) show ?thesis
    by (auto simp: begin_export_def locked_def ensure_repository_def ensure_def Let_def)
qed

lemma export_job_authorised_witness:
  "\<exists>(job :: nat export_job) m'.
     begin_export ''t'' True (manager_run sample_ops manager_new) = (Inr job :: unit manager_error + _, m') \<and>
     jb_path job = [''out''] \<and> mg_pending m' = []"
proof -
  obtain job m' where b: "begin_export ''t'' True (manager_run sample_ops manager_new) = (Inr job :: unit manager_error + nat export_job, m')"
      and "jb_path job = [''out'']"
    using sample_begin_export [OF refl] by blast
  with export_job_authorised [OF b] show ?thesis by (auto simp: Let_def)
qed

text \<open>Nothing but the end of its job frees the export slot: after an export was cancelled while it
  writes, so that it never returns, every later export is refused, whatever is closed, opened, prepared
  or cancelled in between, and also after the session has ended.\<close>
theorem hanging_export_blocks:
  fixes ops later :: "('g, 's, 'd, 'e, 'v) manager_op list"
  assumes "mg_active (manager_run ops manager_new) = Some (target_id, flag)"
    and "xe_create_ok env" and "xe_buffers env = before @ buffer # rest"
    and "write_buffers env 0 before [] = Some (Inr (), k, out)"
    and "\<forall>j \<ge> k. xe_cancelled env j" and "buffer \<noteq> []"
    and "\<forall>outcome i. JobReturns outcome i \<in> set later \<longrightarrow>
           outcome = run_export env target_id inside temp target fs"
  shows "let m = manager_run (ops @ later) manager_new in begin_export t allow_inside m = (Inl ExportRunning, m)"
proof -
  have "manager_inv (manager_run ops manager_new)" by (rule manager_run_inv [OF manager_new_inv])
  with assms(1) show ?thesis
    using running_export_stays [of "manager_run ops manager_new" "(target_id, flag)" later]
      export_hangs [OF assms(2-6)] assms(7) manager_run_inv [of "manager_run ops manager_new" later]
    by (auto simp: manager_run_append Let_def begin_export_def locked_def manager_inv_def)
qed

lemma hanging_export_blocks_witness:
  "fst (begin_export ''u'' False (manager_run ((sample_ops @ [ConfirmExport ''t'' True]) @
      [Close ''r'', JobReturns (run_export (sample_export (\<lambda>k. 1 \<le> k)) ''t'' True [''tmp''] [''out''] (\<lambda>_. None)) 0])
      manager_new)) = (Inl ExportRunning :: unit manager_error + nat export_job)"
proof -
  obtain job m' where b: "begin_export ''t'' True (manager_run sample_ops manager_new) = (Inr job :: unit manager_error + nat export_job, m')"
      and m': "mg_active m' = Some (''t'', jb_flag job)"
    using sample_begin_export [OF refl] by blast
  have active: "mg_active (manager_run (sample_ops @ [ConfirmExport ''t'' True]) manager_new) = Some (''t'', jb_flag job)"
    using b m' by (simp add: manager_run_append) (simp add: manager_run_def confirm_export_def)
  let ?env = "sample_export (\<lambda>k. 1 \<le> k)"
  let ?later = "[Close ''r'', JobReturns (run_export ?env ''t'' True [''tmp''] [''out''] (\<lambda>_. None)) 0]
    :: (nat, unit, unit, unit, unit) manager_op list"
  have w: "write_buffers ?env 0 [[1, 2]] [] = Some (Inr (), 1, [1, 2])"
    by (simp add: write_all.simps cancellable_write_def sample_export_def)
  have "let m = manager_run ((sample_ops @ [ConfirmExport ''t'' True]) @ ?later) manager_new
      in begin_export ''u'' False m = (Inl ExportRunning :: unit manager_error + nat export_job, m)"
    by (rule hanging_export_blocks [OF active _ _ w, where buffer = "[3]" and rest = "[]"])
       (simp_all add: sample_export_def)
  then show ?thesis by (simp add: Let_def)
qed

section \<open>From the selection to the file\<close>

text \<open>The export of a job: what it writes, and the answers of the file system.\<close>

definition job_env :: "export_env \<Rightarrow> written \<Rightarrow> export_env" where
  "job_env answers w = answers\<lparr>xe_buffers := map bytes_of (snd w), xe_source_ok := is_ok (fst w)\<rparr>"

lemma resolve_ranges_length:
  "resolve_ranges v n ranges previous selected = Inr selected' \<Longrightarrow> length selected = n \<Longrightarrow> length selected' = n"
  by (induction v n ranges previous selected rule: resolve_ranges.induct)
     (auto simp: length_fill_range word_le_nat_alt split: if_splits)

lemma resolve_ids:
  assumes "resolve selection n = Inr ids"
  obtains P where "ids = map word_of_nat (filter P [0..<n])"
proof -
  from assms obtain selected where
    "resolve_ranges (fs_mode selection = Include) n (fs_ranges selection) None
       (replicate n (fs_mode selection = Exclude)) = Inr selected"
    and "ids = map word_of_nat (filter (\<lambda>i. selected ! i) [0..<length selected])"
    by (auto simp: resolve_def result_simps)
  with resolve_ranges_length [of _ n] that show ?thesis by force
qed

lemma export_records_ids:
  assumes "session_ok session" and "diff_session_len session \<le> 2 ^ 32"
    and "resolve selection (diff_session_len session) = Inr ids"
  shows "map (\<lambda>r. df_file_id (dr_public r))
           (export_records session \<lparr>eo_format = format, eo_layout = layout, eo_selected_file_ids = ids\<rparr>) = ids"
proof -
  let ?n = "diff_session_len session"
  obtain P where ids: "ids = map word_of_nat (filter P [0..<?n])" using resolve_ids [OF assms(3)] .
  have oid: "df_file_id (dr_public (ds_records session ! i)) = word_of_nat i" if "i < ?n" for i
    using assms(1) that by (simp add: session_ok_def diff_session_files_def diff_session_len_def)
  have inj: "(word_of_nat i :: u32) = word_of_nat j \<longleftrightarrow> i = j" if "i < ?n" "j < ?n" for i j
    using that assms(2) by (simp add: word_eq_nat_iff unat_of_nat)
  have sel: "(word_of_nat i :: u32) \<in> set ids \<longleftrightarrow> P i" if "i < ?n" for i
    using that inj [OF that] by (auto simp: ids image_iff)
  have "ds_records session = map (\<lambda>i. ds_records session ! i) [0..<?n]"
    by (simp add: diff_session_len_def map_nth)
  then have "export_records session \<lparr>eo_format = format, eo_layout = layout, eo_selected_file_ids = ids\<rparr> =
      filter (\<lambda>r. df_file_id (dr_public r) \<in> set ids) (map (\<lambda>i. ds_records session ! i) [0..<?n])"
    by (simp add: export_records_def)
  also have "\<dots> = map (\<lambda>i. ds_records session ! i) (filter P [0..<?n])"
    unfolding filter_map comp_def by (rule arg_cong [of _ _ "map _"], rule filter_cong) (simp_all add: oid sel)
  finally show ?thesis by (simp add: ids oid comp_def cong: map_cong)
qed

text \<open>C15.  From the selection to the file: when the manager accepts a selection of a session, the
  repository has not changed, libgit2 saw every zero byte, the layout needs no native patches, the file
  system works, however short its writes are, and nobody cancels, then the export completes and the
  target holds the whole text, with exactly the selected files in the order of the session.\<close>
theorem accepted_selection_exports:
  assumes "create_diff g old new grp = Inr session" and "env_ok g" and "\<not> late_nul g"
    and "diff_session_len session \<le> 2 ^ 32"
    and "check_selection session selection = (Inr ids :: unit manager_error + u32 list)"
    and "layout \<noteq> GitPatch" and "\<forall>entry. xt_json tools entry \<noteq> None"
    and "\<forall>k. \<not> xe_cancelled answers k"
    and "\<forall>k b. b \<noteq> [] \<longrightarrow> (\<exists>n > 0. xe_inner answers k b = Inr n)"
    and "xe_create_ok answers \<and> xe_flush_ok answers \<and> xe_sync_ok answers \<and> xe_replace_ok answers"
  shows "let options = \<lparr>eo_format = format, eo_layout = layout, eo_selected_file_ids = ids\<rparr>;
             w = write_export g tools session options
         in map (\<lambda>r. df_file_id (dr_public r)) (export_records session options) = ids \<and> ids \<noteq> [] \<and>
            (\<exists>fs'. run_export (job_env answers w) target_id inside temp target fs =
               Some (Inr (ExportComplete target_id inside), fs') \<and>
             fs' target = Some (bytes_of (concat (snd w))))"
proof -
  define options where "options = \<lparr>eo_format = format, eo_layout = layout, eo_selected_file_ids = ids\<rparr>"
  define w where "w = write_export g tools session options"
  have "session_ok session" using create_diff_session [OF assms(1)] finish_session_ok by blast
  moreover have "resolve selection (diff_session_len session) = Inr ids" "ids \<noteq> []"
    using assms(5) by (auto simp: check_selection_def result_simps split: sum.splits)
  ultimately have ids: "map (\<lambda>r. df_file_id (dr_public r)) (export_records session options) = ids"
    using export_records_ids assms(4) by (simp add: options_def)
  have flags: "export_ok session options"
    unfolding options_def by (rule file_ids_distinct_selection [OF assms(5)])
  have "fst w = Inr () \<or> (fst w = Inl BinaryFile \<and> late_nul g)"
    unfolding w_def
  proof (rule write_export_ok [OF assms(1,2)])
    show "eo_layout options \<noteq> GitPatch" using assms(6) by (simp add: options_def)
    show "export_records session options \<noteq> []" using ids \<open>ids \<noteq> []\<close> by auto
    show "xt_json tools entry \<noteq> None" for entry using assms(7) by blast
    show "\<not> df_is_binary (dr_public r) \<and> \<not> df_export_too_large (dr_public r)"
      if "r \<in> set (export_records session options)" for r
      using that flags by (auto simp: export_ok_def export_records_def diff_session_files_def)
  qed
  then have done_ok: "fst w = Inr ()" using assms(3) by blast
  have "concat (map bytes_of texts) = bytes_of (concat texts)" for texts
    by (induction texts) simp_all
  then show ?thesis
    using run_export_complete [of "job_env answers w" target_id inside temp target fs] assms(8-10) done_ok ids \<open>ids \<noteq> []\<close>
    by (simp add: job_env_def Let_def options_def [symmetric] w_def [symmetric])
qed

definition sample_tools :: export_tools where
  "sample_tools = \<lparr>xt_changes = (\<lambda>a b. [(ChangeDelete, a), (ChangeInsert, b)]),
     xt_buffer_patch = (\<lambda>_ _ _ _. None), xt_native_patch = (\<lambda>_ _. None), xt_json = (\<lambda>_. Some ''{}'')\<rparr>"

lemma accepted_selection_exports_witness:
  "\<exists>session w fs'. create_diff (sample_git ([65], False)) RevEmpty RevIndex GroupStaged = Inr session \<and>
     w = write_export (sample_git ([65], False)) sample_tools session
           \<lparr>eo_format = Xml, eo_layout = Unified, eo_selected_file_ids = [0]\<rparr> \<and>
     run_export (job_env (sample_export (\<lambda>_. False)) w) ''t'' False [''tmp''] [''out''] (\<lambda>_. None) =
       Some (Inr (ExportComplete ''t'' False), fs')"
proof -
  let ?g = "sample_git ([65], False)"
  have "valid_utf8 [65]" by (simp add: valid_utf8_def utf8_check.simps utf8_next_def)
  then obtain s r where s: "create_diff ?g RevEmpty RevIndex GroupStaged = Inr s" "ds_records s = [r]"
    "df_file_id (dr_public r) = 0" "\<not> df_is_binary (dr_public r)" "\<not> df_export_too_large (dr_public r)"
    using sample_session [of "([65], False)"] by (auto simp: PREVIEW_SIDE_LIMIT_def)
  have len: "diff_session_len s = 1" using s(2) by (simp add: diff_session_len_def)
  have "check_selection s \<lparr>fs_mode = Include, fs_ranges = [(0, 0)]\<rparr> = (Inr [0] :: unit manager_error + _)"
    using s(2-5) by (simp add: check_selection_def resolve_def len fill_range_def selectable_def
        diff_session_files_def ensure_def)
  moreover have "env_ok ?g" "\<not> late_nul ?g" by (simp_all add: env_ok_def late_nul_def sample_git_def sample_delta_def)
  ultimately show ?thesis
    using accepted_selection_exports [OF s(1), of _ "[0]" Unified sample_tools "sample_export (\<lambda>_. False)" Xml
        "''t''" False "[''tmp'']" "[''out'']" "\<lambda>_. None"] s(1) len
    by (auto simp: sample_tools_def sample_export_def Let_def)
qed

text \<open>A refused confirmation uses the target up: the page has to prepare the export again.\<close>

lemma refused_confirmation_consumes_target:
  assumes "begin_export target_id False m = (Inl ConfirmationRequired, m')"
  shows "map_of (mg_pending m') target_id = None \<and> begin_export target_id True m' = (Inl TargetGone, m')"
  using assms
  by (auto simp: begin_export_def locked_def Let_def ensure_repository_def result_simps AList.delete_conv'
      split: if_splits option.splits sum.splits backend.splits)

end
