(* ===== verification/Vc_Session.thy ===== *)
theory Vc_Session
  imports Vc_Manager Framing Auth
begin

text \<open>
  The read-only version-control session: \<open>run_session\<close>, \<open>handle_input\<close>, \<open>run_task\<close> and
  \<open>spawn_export\<close> of crates/winrisef-agent/src/version_control_bridge.rs, the preview stream of
  version_control_io.rs and the one connection version_control_server.rs accepts.

  A session is a record of the manager, what was written and how it ended; its events are what
  arrives on the stream, the events of the manager and the ends of export tasks.  The answers of the
  environment to a request are a record, and the JSON encoding is an argument.  A worker that panics
  is not modelled: the operations here are total.

  The lemmas show that nothing is done for a client that did not authenticate, that the session only
  runs the operations of the manager, and that its end, whatever the reason, closes everything.
\<close>

section \<open>Requests\<close>

definition VC_VERSION :: u16 where "VC_VERSION = 2"
definition VERSION_CONTROL_PATH :: string where "VERSION_CONTROL_PATH = ''/winrisef/version-control/v2''"

datatype preview_mode = FullPreview | PatchPreview

datatype vc_input =
    VcHello u16 string
  | SelectRepository u32
  | OpenRepositoryCandidate u32 string
  | ConnectHistory u32 string
  | CloseRepository u32 string
  | GetRepositoryOverview u32 string
  | GetHistoryPage u32 string "string option" usize usize
  | OpenDiffRequest u32 string revision_ref revision_ref working_tree_group
  | GetDiffFilesPage u32 string string usize usize
  | OpenFilePreview u32 string string u32 conflict_perspective preview_mode
  | PrepareExportRequest u32 string string export_format export_layout file_selection
  | ConfirmExportRequest u32 string bool
  | CancelExportRequest u32 string
  | RefreshRepository u32 string

datatype blocking_task =
    TaskSelect
  | TaskOpenCandidate string
  | TaskConnectHistory string
  | TaskClose string
  | TaskOverview string
  | TaskRefresh string
  | TaskHistory string "string option" usize usize
  | TaskOpenDiff string revision_ref revision_ref working_tree_group
  | TaskFiles string string usize usize
  | TaskPreview string string u32 conflict_perspective preview_mode
  | TaskPrepareExport string string export_format export_layout file_selection
  | TaskCancelExport string

text \<open>What the environment answers to one request: the folder dialog and what is found in it, the
  readers of the two backends, the save dialog, and the random identifiers.\<close>

record ('g, 's, 'd, 'e, 'v) task_env =
  te_picked :: bool
  te_git :: "'g option"
  te_svn :: "'e + 's option"
  te_overview :: "('g, 's) backend \<Rightarrow> 'e + 'v"
  te_refresh :: "('g, 's) backend \<Rightarrow> ('e + 'v) \<times> ('g, 's) backend"
  te_connect :: "('g, 's) backend \<Rightarrow> ('e + 'v) \<times> ('g, 's) backend"
  te_history :: "string option \<Rightarrow> usize \<Rightarrow> usize \<Rightarrow> ('g, 's) backend \<Rightarrow> 'e + 'v"
  te_compute :: "revision_ref \<Rightarrow> revision_ref \<Rightarrow> working_tree_group \<Rightarrow> ('g, 's) backend \<Rightarrow> 'e + 'd diff_state"
  te_svn_files :: "'d \<Rightarrow> 'v list"
  te_file_json :: "diff_file \<Rightarrow> 'v"
  te_page_size :: "'v page_size"
  te_git_preview :: "'g \<Rightarrow> diff_session \<Rightarrow> u32 \<Rightarrow> conflict_perspective \<Rightarrow> 'e + preview_content"
  te_svn_preview :: "preview_mode \<Rightarrow> 's \<Rightarrow> 'd \<Rightarrow> u32 \<Rightarrow> conflict_perspective \<Rightarrow> 'e + preview_content"
  te_path :: "string list option"
  te_is_inside :: "string list \<Rightarrow> 'g \<Rightarrow> bool"
  te_randoms :: "nat \<Rightarrow> string option"

datatype 'e task_error = Failed "'e manager_error" | PageFailed page_error

datatype 'v task_result =
    TaskValue "'v manager_value"
  | TaskPage "'v page_response"
  | TaskPreviewed preview_content
  | Started

definition from_manager ::
  "('a \<Rightarrow> 'v task_result) \<Rightarrow> ('e manager_error + 'a) \<times> ('g, 's, 'd) manager \<Rightarrow>
     ('e task_error + 'v task_result) \<times> ('g, 's, 'd) manager" where
  "from_manager f r = (case r of (Inl e, m) \<Rightarrow> (Inl (Failed e), m) | (Inr v, m) \<Rightarrow> (Inr (f v), m))"

text \<open>\<open>diff_files\<close>: the files of the session as values, and the page of them.\<close>

definition session_files :: "('g, 's, 'd, 'e, 'v) task_env \<Rightarrow> 'd diff_state \<Rightarrow> 'v list" where
  "session_files env diff =
     (case diff of GitDiff d \<Rightarrow> map (te_file_json env) (diff_session_files d) | SvnDiff d \<Rightarrow> te_svn_files env d)"

definition files_task ::
  "('g, 's, 'd, 'e, 'v) task_env \<Rightarrow> string \<Rightarrow> string \<Rightarrow> usize \<Rightarrow> usize \<Rightarrow> ('g, 's, 'd) manager \<Rightarrow>
     ('e task_error + 'v task_result) \<times> ('g, 's, 'd) manager" where
  "files_task env repository_id diff_id skip limit m =
     (case with_diff repository_id diff_id (\<lambda>_ diff. Inr diff) m of
        (Inl e, m') \<Rightarrow> (Inl (Failed e), m')
      | (Inr diff, m') \<Rightarrow> (
          case diff_files_page (te_page_size env) (session_files env diff) skip limit of
            Inl e \<Rightarrow> (Inl (PageFailed e), m')
          | Inr page \<Rightarrow> (Inr (TaskPage page), m')))"

fun run_task ::
  "('g, 's, 'd, 'e, 'v) task_env \<Rightarrow> blocking_task \<Rightarrow> ('g, 's, 'd) manager \<Rightarrow>
     ('e task_error + 'v task_result) \<times> ('g, 's, 'd) manager" where
  "run_task env TaskSelect m =
     from_manager TaskValue
       (select_repository (te_picked env) (te_git env) (te_svn env) (te_overview env) (te_randoms env) m)"
| "run_task env (TaskOpenCandidate candidate_id) m =
     from_manager TaskValue (open_repository_candidate (te_overview env) (te_randoms env 0) candidate_id m)"
| "run_task env (TaskConnectHistory repository_id) m =
     from_manager TaskValue (backend_request repository_id (te_connect env) m)"
| "run_task env (TaskClose repository_id) m = from_manager TaskValue (close_repository repository_id m)"
| "run_task env (TaskOverview repository_id) m =
     from_manager TaskValue (backend_request repository_id (\<lambda>b. (te_overview env b, b)) m)"
| "run_task env (TaskRefresh repository_id) m =
     from_manager TaskValue (backend_request repository_id (te_refresh env) m)"
| "run_task env (TaskHistory repository_id query skip limit) m =
     from_manager TaskValue
       (backend_request repository_id (\<lambda>b. (te_history env query skip (clamp_limit limit MAX_HISTORY_PAGE) b, b)) m)"
| "run_task env (TaskOpenDiff repository_id old new grp) m =
     from_manager TaskValue
       (open_diff (te_compute env old new grp) (\<lambda>d. length (te_svn_files env d)) (te_randoms env 0) repository_id m)"
| "run_task env (TaskFiles repository_id diff_id skip limit) m = files_task env repository_id diff_id skip limit m"
| "run_task env (TaskPreview repository_id diff_id file_id perspective mode) m =
     from_manager TaskPreviewed
       (with_diff repository_id diff_id
          (preview_request (\<lambda>g d. te_git_preview env g d file_id perspective)
             (\<lambda>s d. te_svn_preview env mode s d file_id perspective)) m)"
| "run_task env (TaskPrepareExport repository_id diff_id format layout selection) m =
     from_manager TaskValue
       (prepare_export (te_path env) (te_is_inside env) (te_randoms env 0) repository_id diff_id format layout selection m)"
| "run_task env (TaskCancelExport target_id) m = from_manager TaskValue (cancel_export target_id m)"

text \<open>The request's identifier and its task; a hello is none, and confirming an export is done at once.\<close>

fun request_of :: "vc_input \<Rightarrow> (u32 \<times> blocking_task) option" where
  "request_of (VcHello version launch_token) = None"
| "request_of (SelectRepository request_id) = Some (request_id, TaskSelect)"
| "request_of (OpenRepositoryCandidate request_id candidate_id) = Some (request_id, TaskOpenCandidate candidate_id)"
| "request_of (ConnectHistory request_id repository_id) = Some (request_id, TaskConnectHistory repository_id)"
| "request_of (CloseRepository request_id repository_id) = Some (request_id, TaskClose repository_id)"
| "request_of (GetRepositoryOverview request_id repository_id) = Some (request_id, TaskOverview repository_id)"
| "request_of (GetHistoryPage request_id repository_id query skip limit) =
     Some (request_id, TaskHistory repository_id query skip limit)"
| "request_of (OpenDiffRequest request_id repository_id old new grp) = Some (request_id, TaskOpenDiff repository_id old new grp)"
| "request_of (GetDiffFilesPage request_id repository_id diff_id skip limit) =
     Some (request_id, TaskFiles repository_id diff_id skip limit)"
| "request_of (OpenFilePreview request_id repository_id diff_id file_id perspective mode) =
     Some (request_id, TaskPreview repository_id diff_id file_id perspective mode)"
| "request_of (PrepareExportRequest request_id repository_id diff_id format layout selection) =
     Some (request_id, TaskPrepareExport repository_id diff_id format layout selection)"
| "request_of (ConfirmExportRequest request_id target_id allow_inside) = None"
| "request_of (CancelExportRequest request_id target_id) = Some (request_id, TaskCancelExport target_id)"
| "request_of (RefreshRepository request_id repository_id) = Some (request_id, TaskRefresh repository_id)"

datatype 'e session_error =
    NoStream
  | HelloTimeout
  | HelloMissing
  | VcHelloRequired
  | VcHelloRepeated
  | VcTokenInvalid
  | VcRejected
  | VcAuth auth_error
  | VcFrame frame_error
  | StreamBroken

definition handle_vc_input ::
  "('g, 's, 'd, 'e, 'v) task_env \<Rightarrow> vc_input \<Rightarrow> ('g, 's, 'd) manager \<Rightarrow>
     ('e session_error + u32 \<times> ('e task_error + 'v task_result)) \<times> ('g, 's, 'd) manager" where
  "handle_vc_input env input m =
     (case input of
        ConfirmExportRequest request_id target_id allow_inside \<Rightarrow> (
          case begin_export target_id allow_inside m of
            (Inl e, m') \<Rightarrow> (Inr (request_id, Inl (Failed e)), m')
          | (Inr job, m') \<Rightarrow> (Inr (request_id, Inr Started), m'\<lparr>mg_jobs := mg_jobs m' @ [job]\<rparr>))
      | _ \<Rightarrow> (
          case request_of input of
            None \<Rightarrow> (Inl VcHelloRepeated, m)
          | Some (request_id, task) \<Rightarrow> (case run_task env task m of (r, m') \<Rightarrow> (Inr (request_id, r), m'))))"

section \<open>The session\<close>

datatype ('e, 'v) vc_output =
    VcHelloAck bool
  | VcResponse u32 "'e task_error + 'v task_result"
  | VcEvent export_event

text \<open>The preview goes over a stream of its own: its sizes, then both sides.\<close>

definition write_preview_stream ::
  "(u32 \<Rightarrow> usize \<Rightarrow> usize \<Rightarrow> conflict_perspective \<Rightarrow> bytes) \<Rightarrow> u32 \<Rightarrow> preview_content \<Rightarrow> bytes" where
  "write_preview_stream metadata_json request_id content =
     (let original = bytes_of (pc_original content);
          modified = bytes_of (pc_modified content);
          metadata = metadata_json request_id (length original) (length modified) (pc_perspective content)
      in u32_to_be_bytes (word_of_nat (length metadata)) @ metadata @ original @ modified)"

record ('e, 'v) wire =
  wi_encode :: "('e, 'v) vc_output \<Rightarrow> bytes"
  wi_metadata :: "u32 \<Rightarrow> usize \<Rightarrow> usize \<Rightarrow> conflict_perspective \<Rightarrow> bytes"

record ('g, 's, 'd, 'e, 'v) vc_session =
  vs_manager :: "('g, 's, 'd) manager"
  vs_outputs :: "('e, 'v) vc_output list"
  vs_sent :: bytes
  vs_previews :: "bytes list"
  vs_ended :: "('e session_error + unit) option"

text \<open>\<open>SessionGuard\<close> shuts the manager down whenever the session returns.\<close>

definition end_session ::
  "'e session_error + unit \<Rightarrow> ('g, 's, 'd, 'e, 'v) vc_session \<Rightarrow> ('g, 's, 'd, 'e, 'v) vc_session" where
  "end_session r s = s\<lparr>vs_manager := shutdown (vs_manager s), vs_ended := Some r\<rparr>"

text \<open>\<open>write_frame\<close>; \<open>up\<close> is whether the stream takes the frame.\<close>

definition vc_send ::
  "('e, 'v) wire \<Rightarrow> ('e, 'v) vc_output \<Rightarrow> bool \<Rightarrow> ('g, 's, 'd, 'e, 'v) vc_session \<Rightarrow> ('g, 's, 'd, 'e, 'v) vc_session" where
  "vc_send wire out up s =
     (case version_control_write_frame (wi_encode wire out) of
        Inl e \<Rightarrow> end_session (Inl (VcFrame e)) s
      | Inr frame \<Rightarrow>
          if \<not> up then end_session (Inl StreamBroken) s
          else s\<lparr>vs_outputs := vs_outputs s @ [out], vs_sent := vs_sent s @ frame\<rparr>)"

definition vc_send_preview ::
  "('e, 'v) wire \<Rightarrow> u32 \<Rightarrow> preview_content \<Rightarrow> bool \<Rightarrow> ('g, 's, 'd, 'e, 'v) vc_session \<Rightarrow> ('g, 's, 'd, 'e, 'v) vc_session" where
  "vc_send_preview wire request_id content up s =
     (if vs_ended s \<noteq> None then s
      else if \<not> up then end_session (Inl StreamBroken) s
      else s\<lparr>vs_previews := vs_previews s @ [write_preview_stream (wi_metadata wire) request_id content]\<rparr>)"

text \<open>The first frame: the stream may not come, and the hello neither.  A client that presents no
  hello gets no answer.\<close>

datatype first_frame = NoBiStream | NoFrame | FirstEnd | FirstError frame_error | First vc_input

definition vc_hello ::
  "int \<Rightarrow> first_frame \<Rightarrow> ticket_authority \<Rightarrow> ('e session_error + bool) \<times> ticket_authority" where
  "vc_hello t first a =
     (case first of
        NoBiStream \<Rightarrow> (Inl NoStream, a)
      | NoFrame \<Rightarrow> (Inl HelloTimeout, a)
      | FirstEnd \<Rightarrow> (Inl HelloMissing, a)
      | FirstError e \<Rightarrow> (Inl (VcFrame e), a)
      | First (VcHello version launch_token) \<Rightarrow> (
          case parse_hex 16 launch_token of
            Inl _ \<Rightarrow> (Inl VcTokenInvalid, a)
          | Inr token \<Rightarrow>
              if version \<noteq> VC_VERSION then (Inr False, a)
              else (case consume_launch_token t token a of
                  (Inl e, a') \<Rightarrow> (Inl (VcAuth e), a')
                | (Inr accepted, a') \<Rightarrow> (Inr accepted, a')))
      | First _ \<Rightarrow> (Inl VcHelloRequired, a))"

definition vc_open ::
  "('e, 'v) wire \<Rightarrow> int \<Rightarrow> first_frame \<Rightarrow> bool \<Rightarrow> ticket_authority \<Rightarrow> ('g, 's, 'd) manager \<Rightarrow>
     ('g, 's, 'd, 'e, 'v) vc_session \<times> ticket_authority" where
  "vc_open wire t first up authority m =
     (let s = \<lparr>vs_manager = m, vs_outputs = [], vs_sent = [], vs_previews = [], vs_ended = None\<rparr>
      in case vc_hello t first authority of
        (Inl e, a) \<Rightarrow> (end_session (Inl e) s, a)
      | (Inr accepted, a) \<Rightarrow> (
          let s1 = vc_send wire (VcHelloAck accepted) up s
          in if vs_ended s1 \<noteq> None then (s1, a)
             else if accepted then (s1, a) else (end_session (Inl VcRejected) s1, a)))"

text \<open>The branches of the loop, and the end of an export task beside it.\<close>

datatype ('g, 's, 'd, 'e, 'v) session_event =
    Arrived "('g, 's, 'd, 'e, 'v) task_env" vc_input bool bool
  | ArrivedEnd
  | ArrivedError frame_error
  | Announced export_event bool
  | EventsLagged
  | EventsGone
  | TaskReturns "((export_error + export_event) \<times> files) option" nat

fun session_branch ::
  "('e, 'v) wire \<Rightarrow> ('g, 's, 'd, 'e, 'v) session_event \<Rightarrow> ('g, 's, 'd, 'e, 'v) vc_session \<Rightarrow> ('g, 's, 'd, 'e, 'v) vc_session" where
  "session_branch wire (Arrived env input up preview_up) s =
     (case handle_vc_input env input (vs_manager s) of
        (Inl e, m) \<Rightarrow> end_session (Inl e) (s\<lparr>vs_manager := m\<rparr>)
      | (Inr (request_id, r), m) \<Rightarrow> (
          let s1 = vc_send wire (VcResponse request_id r) up (s\<lparr>vs_manager := m\<rparr>)
          in case r of
               Inr (TaskPreviewed content) \<Rightarrow> vc_send_preview wire request_id content preview_up s1
             | _ \<Rightarrow> s1))"
| "session_branch wire ArrivedEnd s = end_session (Inr ()) s"
| "session_branch wire (ArrivedError e) s = end_session (Inl (VcFrame e)) s"
| "session_branch wire (Announced event up) s = vc_send wire (VcEvent event) up s"
| "session_branch wire EventsLagged s = s"
| "session_branch wire EventsGone s = end_session (Inr ()) s"
| "session_branch wire (TaskReturns outcome i) s = s"

fun session_step ::
  "('e, 'v) wire \<Rightarrow> ('g, 's, 'd, 'e, 'v) session_event \<Rightarrow> ('g, 's, 'd, 'e, 'v) vc_session \<Rightarrow> ('g, 's, 'd, 'e, 'v) vc_session" where
  "session_step wire (TaskReturns outcome i) s = s\<lparr>vs_manager := job_returns outcome i (vs_manager s)\<rparr>"
| "session_step wire e s = (if vs_ended s = None then session_branch wire e s else s)"

definition session_run ::
  "('e, 'v) wire \<Rightarrow> ('g, 's, 'd, 'e, 'v) session_event list \<Rightarrow> ('g, 's, 'd, 'e, 'v) vc_session \<Rightarrow> ('g, 's, 'd, 'e, 'v) vc_session" where
  "session_run wire es s = foldl (\<lambda>r e. session_step wire e r) s es"

section \<open>The one connection\<close>

record connection_env =
  cn_incoming :: bool
  cn_loopback :: bool
  cn_handshakes_ok :: bool
  cn_origin :: "string option"
  cn_path :: string

definition connection_accepted :: "string \<Rightarrow> connection_env \<Rightarrow> bool" where
  "connection_accepted allowed_origin c \<longleftrightarrow>
     cn_incoming c \<and> cn_loopback c \<and> cn_handshakes_ok c \<and>
     \<not> (cn_origin c \<noteq> Some allowed_origin \<or> cn_path c \<noteq> VERSION_CONTROL_PATH)"

text \<open>The server after it is ready: a connection that is refused ends it.\<close>

definition vc_server ::
  "('e, 'v) wire \<Rightarrow> string \<Rightarrow> connection_env \<Rightarrow> int \<Rightarrow> first_frame \<Rightarrow> bool \<Rightarrow> ('g, 's, 'd, 'e, 'v) session_event list \<Rightarrow>
     ticket_authority \<Rightarrow> ('g, 's, 'd, 'e, 'v) vc_session option \<times> ticket_authority" where
  "vc_server wire allowed_origin c t first up es authority =
     (if \<not> connection_accepted allowed_origin c then (None, authority)
      else case vc_open wire t first up authority manager_new of
        (s, a) \<Rightarrow> (Some (session_run wire es s), a))"

section \<open>A session runs the operations of the manager\<close>

definition vs_runs :: "('g, 's, 'd, 'e, 'v) vc_session \<Rightarrow> ('g, 's, 'd, 'e, 'v) vc_session \<Rightarrow> bool" where
  "vs_runs s s' \<longleftrightarrow> (\<exists>ops :: ('g, 's, 'd, 'e, 'v) manager_op list. vs_manager s' = manager_run ops (vs_manager s))"

definition closed_manager :: "('g, 's, 'd) manager \<Rightarrow> bool" where
  "closed_manager m \<longleftrightarrow> mg_repository m = None \<and> mg_candidates m = [] \<and> mg_pending m = [] \<and>
     (\<forall>target_id flag. mg_active m = Some (target_id, flag) \<longrightarrow> mg_flags m ! flag)"

definition vc_session_ok :: "('g, 's, 'd, 'e, 'v) vc_session \<Rightarrow> bool" where
  "vc_session_ok s \<longleftrightarrow> manager_inv (vs_manager s) \<and> (vs_ended s \<noteq> None \<longrightarrow> closed_manager (vs_manager s))"

lemma vs_runs_same: "vs_manager s' = vs_manager s \<Longrightarrow> vs_runs s s'"
  unfolding vs_runs_def by (rule exI [of _ "[]"]) (simp add: manager_run_def)

lemma vs_runs_step:
  fixes op :: "('g, 's, 'd, 'e, 'v) manager_op" and s :: "('g, 's, 'd, 'e, 'v) vc_session"
  shows "vs_manager s' = manager_step op (vs_manager s) \<Longrightarrow> vs_runs s s'"
  unfolding vs_runs_def by (rule exI [of _ "[op]"]) (simp add: manager_run_def)

lemma vs_runs_trans: "vs_runs s t \<Longrightarrow> vs_runs t u \<Longrightarrow> vs_runs s u"
  unfolding vs_runs_def by (metis manager_run_append)

lemma snd_from_manager [simp]: "snd (from_manager f r) = snd r"
  by (cases r) (simp add: from_manager_def split: sum.split)

lemma with_diff_state [simp]: "snd (with_diff repository_id diff_id request m) = m"
  by (simp add: with_diff_def locked_def)

lemma with_diff_frame: "with_diff repository_id diff_id request m = (r, m') \<Longrightarrow> m' = m"
  by (metis snd_conv with_diff_state)

lemma files_task_state [simp]: "snd (files_task env repository_id diff_id skip limit m) = m"
  by (auto simp: files_task_def split: prod.split sum.split dest: with_diff_frame)

lemma run_task_step:
  fixes env :: "('g, 's, 'd, 'e, 'v) task_env"
  shows "\<exists>ops :: ('g, 's, 'd, 'e, 'v) manager_op list. snd (run_task env task m) = manager_run ops m"
proof -
  have one: "\<exists>ops :: ('g, 's, 'd, 'e, 'v) manager_op list. m' = manager_run ops m"
    if "m' = manager_step op m" for m' and op :: "('g, 's, 'd, 'e, 'v) manager_op"
    using that by (intro exI [of _ "[op]"]) (simp add: manager_run_def)
  have none: "\<exists>ops :: ('g, 's, 'd, 'e, 'v) manager_op list. m = manager_run ops m"
    by (rule exI [of _ "[]"]) (simp add: manager_run_def)
  show ?thesis
  proof (cases task)
    case TaskSelect
    then show ?thesis
      by (intro one [of _ "Select (te_picked env) (te_git env) (te_svn env) (te_overview env) (te_randoms env)"]) simp
  next
    case (TaskOpenCandidate c)
    then show ?thesis by (intro one [of _ "OpenCandidate (te_overview env) (te_randoms env 0) c"]) simp
  next
    case (TaskConnectHistory i)
    then show ?thesis by (intro one [of _ "Request i (te_connect env)"]) simp
  next
    case (TaskClose i)
    then show ?thesis by (intro one [of _ "Close i"]) simp
  next
    case (TaskOverview i)
    then show ?thesis by (intro one [of _ "Request i (\<lambda>b. (te_overview env b, b))"]) simp
  next
    case (TaskRefresh i)
    then show ?thesis by (intro one [of _ "Request i (te_refresh env)"]) simp
  next
    case (TaskHistory i query skip limit)
    then show ?thesis
      by (intro one [of _ "Request i (\<lambda>b. (te_history env query skip (clamp_limit limit MAX_HISTORY_PAGE) b, b))"]) simp
  next
    case (TaskOpenDiff i old new grp)
    then show ?thesis
      by (intro one [of _ "OpenDiff (te_compute env old new grp) (\<lambda>d. length (te_svn_files env d)) (te_randoms env 0) i"]) simp
  next
    case (TaskPrepareExport i d format layout selection)
    then show ?thesis
      by (intro one [of _ "PrepareExport (te_path env) (te_is_inside env) (te_randoms env 0) i d format layout selection"]) simp
  next
    case (TaskCancelExport i)
    then show ?thesis by (intro one [of _ "CancelExport i"]) simp
  qed (use none in simp_all)
qed

lemma ensure_repository_cases:
  "ensure_repository repository_id m =
     (case mg_repository m of
        None \<Rightarrow> Inl NoRepository
      | Some r \<Rightarrow> if rs_id r = repository_id then Inr r else Inl RepositoryMismatch)"
  by (simp add: ensure_repository_def ensure_def ok_or_simps split: option.split)

lemma begin_export_confirm:
  "(case begin_export target_id allow_inside m of
      (Inl (e :: 'e manager_error), m') \<Rightarrow> m'
    | (Inr job, m') \<Rightarrow> m'\<lparr>mg_jobs := mg_jobs m' @ [job]\<rparr>) = confirm_export target_id allow_inside m"
  by (simp add: confirm_export_def begin_export_def locked_def Let_def ensure_repository_cases
      split: option.split sum.split backend.split)

lemma handle_vc_input_run:
  fixes env :: "('g, 's, 'd, 'e, 'v) task_env"
  shows "\<exists>ops :: ('g, 's, 'd, 'e, 'v) manager_op list. snd (handle_vc_input env input m) = manager_run ops m"
proof (cases "\<exists>request_id target_id allow. input = ConfirmExportRequest request_id target_id allow")
  case True
  then obtain request_id target_id allow where input: "input = ConfirmExportRequest request_id target_id allow" by blast
  have "snd (handle_vc_input env input m) = confirm_export target_id allow m"
    unfolding input handle_vc_input_def begin_export_confirm [where ?'e = 'e, symmetric]
    by (auto split: prod.split sum.split)
  then show ?thesis by (intro exI [of _ "[ConfirmExport target_id allow]"]) (simp add: manager_run_def)
next
  case False
  then have "snd (handle_vc_input env input m) =
      (case request_of input of None \<Rightarrow> m | Some (request_id, task) \<Rightarrow> snd (run_task env task m))"
    by (cases input) (simp_all add: handle_vc_input_def case_prod_beta)
  moreover have "\<exists>ops :: ('g, 's, 'd, 'e, 'v) manager_op list. m = manager_run ops m"
    by (rule exI [of _ "[]"]) (simp add: manager_run_def)
  ultimately show ?thesis
    using run_task_step [of env _ m] by (auto split: option.split prod.split)
qed

lemma run_from_manager:
  fixes s s' :: "('g, 's, 'd, 'e, 'v) vc_session"
  shows "\<exists>ops :: ('g, 's, 'd, 'e, 'v) manager_op list. m = manager_run ops (vs_manager s) \<Longrightarrow>
    vs_manager s' = m \<Longrightarrow> vs_runs s s'"
  by (auto simp: vs_runs_def)

lemma end_session_run: "vs_runs s (end_session r s)"
  by (rule vs_runs_step [of _ Shutdown]) (simp add: end_session_def)

lemma vc_send_run: "vs_runs s (vc_send wire out up s)"
  by (auto simp: vc_send_def end_session_run intro: vs_runs_same split: sum.split)

lemma vc_send_preview_run: "vs_runs s (vc_send_preview wire request_id content up s)"
  by (auto simp: vc_send_preview_def end_session_run intro: vs_runs_same)

lemma session_branch_run:
  fixes s :: "('g, 's, 'd, 'e, 'v) vc_session"
  shows "vs_runs s (session_branch wire e s)"
proof (cases e)
  case (Arrived env input up preview_up)
  obtain r m where handled: "handle_vc_input env input (vs_manager s) = (r, m)" by fastforce
  with handle_vc_input_run [of env input "vs_manager s"]
  have m: "vs_runs s (s\<lparr>vs_manager := m\<rparr>)" by (auto simp: vs_runs_def)
  show ?thesis
  proof (cases r)
    case (Inl x)
    with Arrived handled show ?thesis using vs_runs_trans [OF m end_session_run] by simp
  next
    case (Inr answer)
    note sent = vs_runs_trans [OF m vc_send_run]
    from Arrived handled Inr sent show ?thesis
      by (auto simp: Let_def intro: vs_runs_trans [OF sent vc_send_preview_run]
          split: prod.split sum.split task_result.split)
  qed
qed (simp_all add: end_session_run vc_send_run vs_runs_same)

lemma session_step_run: "vs_runs s (session_step wire e s)"
proof (cases e)
  case (TaskReturns outcome i)
  then show ?thesis by (intro vs_runs_step [of _ "JobReturns outcome i"]) simp
qed (simp_all add: session_branch_run vs_runs_same del: session_branch.simps)

lemma session_run_run: "vs_runs s (session_run wire es s)"
proof (induction es arbitrary: s)
  case (Cons e es)
  show ?case using vs_runs_trans [OF session_step_run Cons.IH] by (simp add: session_run_def)
qed (simp add: session_run_def vs_runs_same)

section \<open>The end of a session\<close>

lemma shutdown_closed:
  assumes "manager_inv m"
  shows "closed_manager (shutdown m)"
  using assms
  by (cases "mg_active m")
    (auto simp: closed_manager_def shutdown_def cancel_active_export_def manager_inv_def active_inv_def)

lemma job_returns_closed: "closed_manager m \<Longrightarrow> closed_manager (job_returns outcome i m)"
  by (cases "mg_active m")
    (auto simp: closed_manager_def job_returns_def finish_export_def Let_def split: option.split if_splits)

lemma vs_runs_inv: "vs_runs s s' \<Longrightarrow> manager_inv (vs_manager s) \<Longrightarrow> manager_inv (vs_manager s')"
  by (auto simp: vs_runs_def manager_run_inv)

lemma end_session_ok: "manager_inv (vs_manager s) \<Longrightarrow> vc_session_ok (end_session r s)"
  by (simp add: vc_session_ok_def end_session_def shutdown_closed manager_shutdown_inv)

lemma vc_session_ok_ended: "vc_session_ok s \<Longrightarrow> vc_session_ok (end_session r s)"
  by (rule end_session_ok) (simp add: vc_session_ok_def)

lemma vc_session_ok_written [simp]:
  "vc_session_ok (s\<lparr>vs_outputs := outs, vs_sent := sent\<rparr>) = vc_session_ok s"
  "vc_session_ok (s\<lparr>vs_previews := previews\<rparr>) = vc_session_ok s"
  by (simp_all add: vc_session_ok_def)

lemma vc_send_ok: "vc_session_ok s \<Longrightarrow> vc_session_ok (vc_send wire out up s)"
  by (simp add: vc_send_def vc_session_ok_ended split: sum.split)

lemma vc_send_preview_ok: "vc_session_ok s \<Longrightarrow> vc_session_ok (vc_send_preview wire request_id content up s)"
  by (simp add: vc_send_preview_def vc_session_ok_ended)

lemma session_branch_ok:
  assumes "vc_session_ok s" and "vs_ended s = None"
  shows "vc_session_ok (session_branch wire e s)"
proof (cases e)
  case (Arrived env input up preview_up)
  obtain r m where handled: "handle_vc_input env input (vs_manager s) = (r, m)" by fastforce
  with handle_vc_input_run [of env input "vs_manager s"] assms
  have m: "vc_session_ok (s\<lparr>vs_manager := m\<rparr>)" by (auto simp: vc_session_ok_def manager_run_inv)
  then have "vc_session_ok (end_session x (s\<lparr>vs_manager := m\<rparr>))" for x by (intro end_session_ok) (simp add: vc_session_ok_def)
  with Arrived handled m show ?thesis
    by (auto simp: Let_def intro: vc_send_ok vc_send_preview_ok split: prod.split sum.split task_result.split)
qed (use assms in \<open>simp_all add: vc_send_ok vc_session_ok_ended\<close>)

lemma session_step_ok: "vc_session_ok s \<Longrightarrow> vc_session_ok (session_step wire e s)"
proof (cases e)
  case (TaskReturns outcome i)
  assume "vc_session_ok s"
  with TaskReturns show ?thesis by (simp add: vc_session_ok_def returns_inv job_returns_closed)
qed (simp_all add: session_branch_ok del: session_branch.simps)

lemma session_run_ok: "vc_session_ok s \<Longrightarrow> vc_session_ok (session_run wire es s)"
  unfolding session_run_def by (induction es arbitrary: s) (simp_all add: session_step_ok)

lemma vc_open_ok:
  fixes wire :: "('e, 'v) wire" and m :: "('g, 's, 'd) manager"
  assumes "manager_inv m"
  shows "vc_session_ok (fst (vc_open wire t first up authority m))"
    and "vs_runs \<lparr>vs_manager = m, vs_outputs = [], vs_sent = [], vs_previews = [], vs_ended = None\<rparr>
           (fst (vc_open wire t first up authority m))"
proof -
  let ?s = "\<lparr>vs_manager = m, vs_outputs = [], vs_sent = [], vs_previews = [], vs_ended = None\<rparr>
    :: ('g, 's, 'd, 'e, 'v) vc_session"
  have ok: "vc_session_ok ?s" using assms by (simp add: vc_session_ok_def)
  note sent = vc_send_ok [OF ok, of wire _ up] and ended = vc_session_ok_ended [OF ok]
  have "vc_session_ok (end_session r (vc_send wire out up ?s))" for r out by (rule vc_session_ok_ended [OF sent])
  with sent ended show "vc_session_ok (fst (vc_open wire t first up authority m))"
    by (simp add: vc_open_def Let_def split: prod.split sum.split)
  show "vs_runs ?s (fst (vc_open wire t first up authority m))"
    using end_session_run [of ?s] vc_send_run [of ?s] vs_runs_trans [OF vc_send_run end_session_run, of ?s]
    by (auto simp: vc_open_def Let_def split: prod.split sum.split)
qed

text \<open>C13.  A session only runs the operations of the manager, and it leaves nothing open: however it
  goes on, the manager's state is one its operations reach; and once the session is over, because the
  client did not authenticate, the stream ended or broke, a frame was no request or an answer was too
  large, no repository is open, no candidate and no prepared export is left, and an export that still
  runs is told to stop.\<close>
theorem session_closes_everything:
  fixes es :: "('g, 's, 'd, 'e, 'v) session_event list"
  assumes "manager_inv m"
  shows "let s = session_run wire es (fst (vc_open wire t first up authority m)) in
         (\<exists>ops :: ('g, 's, 'd, 'e, 'v) manager_op list. vs_manager s = manager_run ops m) \<and>
         (vs_ended s \<noteq> None \<longrightarrow>
            mg_repository (vs_manager s) = None \<and> mg_candidates (vs_manager s) = [] \<and> mg_pending (vs_manager s) = [] \<and>
            (\<forall>target_id flag. mg_active (vs_manager s) = Some (target_id, flag) \<longrightarrow> mg_flags (vs_manager s) ! flag))"
proof -
  let ?s = "session_run wire es (fst (vc_open wire t first up authority m))"
  have "vc_session_ok ?s" by (intro session_run_ok vc_open_ok assms(1))
  moreover have "vs_runs \<lparr>vs_manager = m, vs_outputs = [], vs_sent = [], vs_previews = [], vs_ended = None\<rparr> ?s"
    by (rule vs_runs_trans [OF vc_open_ok(2) [OF assms(1)] session_run_run])
  ultimately show ?thesis by (simp add: vs_runs_def vc_session_ok_def closed_manager_def Let_def)
qed

lemma session_closes_everything_witness:
  "\<forall>(wire :: (nat, nat) wire) t up authority.
     let s = session_run wire [ArrivedEnd]
           (fst (vc_open wire t (First (VcHello 2 ''00'')) up authority (manager_new :: (nat, nat, nat) manager)))
     in vs_ended s \<noteq> None \<and> mg_repository (vs_manager s) = None"
proof (intro allI)
  fix wire :: "(nat, nat) wire" and t up authority
  let ?o = "fst (vc_open wire t (First (VcHello 2 ''00'')) up authority (manager_new :: (nat, nat, nat) manager))"
  have "vs_ended (session_run wire [ArrivedEnd] ?o) \<noteq> None"
    by (simp add: session_run_def end_session_def)
  then show "let s = session_run wire [ArrivedEnd] ?o in vs_ended s \<noteq> None \<and> mg_repository (vs_manager s) = None"
    using session_closes_everything [OF manager_new_inv, of wire "[ArrivedEnd]" t "First (VcHello 2 ''00'')" up authority]
    unfolding Let_def by blast
qed

section \<open>Who is served\<close>

lemma vc_hello_accepted:
  assumes "vc_hello t first a = (Inr True, a')" and "length (ta_launch_token a) = 16"
  shows "(\<exists>token. first = First (VcHello VC_VERSION token) \<and> parse_hex 16 token = Inr (ta_launch_token a)) \<and>
         \<not> ta_launch_used a \<and> ta_launch_used a'"
proof -
  obtain version token bs where first: "first = First (VcHello version token)" "parse_hex 16 token = Inr bs"
    "version = VC_VERSION" "consume_launch_token t bs a = (Inr True, a')"
    using assms(1) by (auto simp: vc_hello_def split: first_frame.splits vc_input.splits sum.splits prod.splits if_splits)
  moreover have "length bs = length (ta_launch_token a)"
    using parse_hex_length [OF first(2)] assms(2) by simp
  ultimately show ?thesis
    by (auto simp: consume_launch_token_def constant_time_equal_iff split: sum.splits if_splits)
qed

lemma job_returns_none: "mg_jobs m = [] \<Longrightarrow> job_returns outcome i m = m"
  by (simp add: job_returns_def)

lemma session_ended_stays:
  assumes "vs_ended s \<noteq> None" and "mg_jobs (vs_manager s) = []"
  shows "session_run wire es s = s"
proof -
  have "session_step wire e s = s" for e using assms by (cases e) (auto simp: job_returns_none)
  then show ?thesis unfolding session_run_def by (induction es) simp_all
qed

lemma shutdown_new [simp]: "shutdown manager_new = manager_new"
  by (simp add: shutdown_def manager_new_def cancel_active_export_def)

lemma vc_send_effect:
  "vs_ended s = None \<Longrightarrow>
     vs_outputs (vc_send wire out up s) = (if vs_ended (vc_send wire out up s) = None then vs_outputs s @ [out] else vs_outputs s) \<and>
     vs_manager (vc_send wire out up s) = (if vs_ended (vc_send wire out up s) = None then vs_manager s else shutdown (vs_manager s))"
  by (auto simp: vc_send_def end_session_def split: sum.split)

text \<open>A client that is not accepted.\<close>

lemma vc_open_refused:
  fixes wire :: "('e, 'v) wire" and up :: bool
  assumes "fst (vc_hello t first authority) \<noteq> (Inr True :: 'e session_error + bool)"
  defines "s \<equiv> fst (vc_open wire t first up authority (manager_new :: ('g, 's, 'd) manager))"
  shows "vs_ended s \<noteq> None" and "vs_manager s = manager_new" and "vs_outputs s \<in> {[], [VcHelloAck False]}"
proof -
  let ?s = "\<lparr>vs_manager = manager_new, vs_outputs = [], vs_sent = [], vs_previews = [], vs_ended = None\<rparr>
    :: ('g, 's, 'd, 'e, 'v) vc_session"
  obtain r a where hello: "vc_hello t first authority = (r :: 'e session_error + bool, a)" by fastforce
  show "vs_ended s \<noteq> None" and "vs_manager s = manager_new" and "vs_outputs s \<in> {[], [VcHelloAck False]}"
    using assms(1) hello vc_send_effect [of ?s wire "VcHelloAck False" up]
    by (auto simp: s_def vc_open_def Let_def end_session_def split: sum.splits)
qed

text \<open>C34.  Only the page that started the agent is served: unless the one connection comes from the
  loopback with the allowed origin and the path of this service, and its first frame is a hello of
  this version with the launch token, which nobody used before, no request is handled, whatever the
  client sends; the client gets at most the refusal, and the manager stays as it was created.\<close>
theorem vc_server_serves_launching_page:
  fixes wire :: "('e, 'v) wire" and es :: "('g, 's, 'd, 'e, 'v) session_event list"
  assumes "length (ta_launch_token authority) = 16"
    and "vc_server wire allowed_origin c t first up es authority = (Some s, authority')"
  shows "cn_loopback c \<and> cn_origin c = Some allowed_origin \<and> cn_path c = VERSION_CONTROL_PATH \<and>
         (vs_outputs s \<in> {[], [VcHelloAck False]} \<and> vs_manager s = manager_new \<or>
          (\<exists>token. first = First (VcHello 2 token) \<and> parse_hex 16 token = Inr (ta_launch_token authority)) \<and>
          \<not> ta_launch_used authority \<and> ta_launch_used authority')"
proof -
  obtain s0 where opened: "vc_open wire t first up authority manager_new = (s0, authority')"
    and s: "s = session_run wire es s0" and accepted: "connection_accepted allowed_origin c"
    using assms(2) by (auto simp: vc_server_def split: if_splits prod.splits)
  have "vs_outputs s \<in> {[], [VcHelloAck False]} \<and> vs_manager s = manager_new"
    if "fst (vc_hello t first authority) \<noteq> (Inr True :: 'e session_error + bool)"
  proof -
    note refused = vc_open_refused [OF that, of wire up, where ?'g = 'g and ?'s = 's and ?'d = 'd, unfolded opened fst_conv]
    have "s = s0" unfolding s using refused(1,2) by (intro session_ended_stays) (simp_all add: manager_new_def)
    with refused show ?thesis by simp
  qed
  moreover have "snd (vc_hello t first authority :: ('e session_error + bool) \<times> _) = authority'"
    using opened by (auto simp: vc_open_def Let_def split: prod.splits sum.splits if_splits)
  ultimately show ?thesis
    using accepted vc_hello_accepted [OF _ assms(1), of t first authority', where ?'a = 'e]
    by (cases "vc_hello t first authority :: ('e session_error + bool) \<times> _")
      (auto simp: connection_accepted_def VC_VERSION_def)
qed

lemma vc_server_serves_launching_page_witness:
  "\<forall>wire env. \<exists>(s :: (nat, nat, nat, nat, nat) vc_session) a.
     vc_server wire ''o'' \<lparr>cn_incoming = True, cn_loopback = True, cn_handshakes_ok = True, cn_origin = Some ''o'', cn_path = VERSION_CONTROL_PATH\<rparr>
       5 (First (SelectRepository 1)) True [Arrived env (SelectRepository 2) True True] (authority_new (replicate 16 7) 100) = (Some s, a) \<and>
     vs_outputs s \<in> {[], [VcHelloAck False]} \<and> vs_manager s = manager_new"
proof (intro allI)
  fix wire :: "(nat, nat) wire" and env :: "(nat, nat, nat, nat, nat) task_env"
  let ?c = "\<lparr>cn_incoming = True, cn_loopback = True, cn_handshakes_ok = True, cn_origin = Some ''o'', cn_path = VERSION_CONTROL_PATH\<rparr>"
  let ?r = "vc_server wire ''o'' ?c 5 (First (SelectRepository 1)) True [Arrived env (SelectRepository 2) True True]
      (authority_new (replicate 16 7) 100)"
  obtain s a where served: "?r = (Some s, a)"
    by (cases "vc_open wire 5 (First (SelectRepository 1)) True (authority_new (replicate 16 7) 100) manager_new
        :: (nat, nat, nat, nat, nat) vc_session \<times> _")
      (simp add: vc_server_def connection_accepted_def)
  have "length (ta_launch_token (authority_new (replicate 16 7) 100)) = 16" by (simp add: authority_new_def)
  from served vc_server_serves_launching_page [OF this served]
  show "\<exists>s a. ?r = (Some s, a) \<and> vs_outputs s \<in> {[], [VcHelloAck False]} \<and> vs_manager s = manager_new" by auto
qed

section \<open>The preview stream\<close>

text \<open>The page reads the sizes from the metadata and cuts the two sides.\<close>

definition read_preview_stream :: "(bytes \<Rightarrow> (usize \<times> usize) option) \<Rightarrow> bytes \<Rightarrow> (bytes \<times> bytes) option" where
  "read_preview_stream parse stream =
     (let metadata = take (unat (u32_from_be_bytes (take 4 stream))) (drop 4 stream);
          content = drop (4 + length metadata) stream
      in case parse metadata of
           None \<Rightarrow> None
         | Some (m, n) \<Rightarrow> if length content = m + n then Some (take m content, drop m content) else None)"

text \<open>A preview arrives whole: the page that reads the length, the metadata and then as many bytes
  as the metadata says gets both sides of the file, whatever bytes are in them.\<close>
theorem preview_stream_reads_back:
  assumes "m = length (pc_original content)" and "n = length (pc_modified content)"
    and "parse (metadata_json request_id m n (pc_perspective content)) = Some (m, n)"
    and "length (metadata_json request_id m n (pc_perspective content)) < 2 ^ 32"
  shows "read_preview_stream parse (write_preview_stream metadata_json request_id content) =
           Some (bytes_of (pc_original content), bytes_of (pc_modified content))"
proof -
  have "unat (word_of_nat (length (metadata_json request_id m n (pc_perspective content))) :: u32) =
      length (metadata_json request_id m n (pc_perspective content))"
    using assms(4) by (simp add: unat_of_nat)
  then show ?thesis
    using assms(1-3) by (simp add: read_preview_stream_def write_preview_stream_def Let_def)
qed

lemma preview_stream_reads_back_witness:
  "read_preview_stream (\<lambda>b. Some (unat (b ! 0), unat (b ! 1)))
     (write_preview_stream (\<lambda>_ m n _. [word_of_nat m, word_of_nat n]) 7
        \<lparr>pc_original = ''a'', pc_modified = ''bc'', pc_perspective = HeadToWorking\<rparr>) = Some (bytes_of ''a'', bytes_of ''bc'')"
  using preview_stream_reads_back [of 1 "\<lparr>pc_original = ''a'', pc_modified = ''bc'', pc_perspective = HeadToWorking\<rparr>" 2
      "\<lambda>b. Some (unat (b ! 0), unat (b ! 1))" "\<lambda>_ m n _. [word_of_nat m, word_of_nat n]" 7]
  by simp

end
