(* ===== verification/Svn_History.thy ===== *)
theory Svn_History
  imports Svn_Repository Vc_Session
begin

text \<open>
  The history of the Subversion backend: following its pages delivers every matching entry of the log
  once, and what a page of long messages does to the session.
\<close>

section \<open>Pages of the log\<close>

text \<open>A history as the server has it: its entries from the newest revision on, each once, none zero.\<close>

definition log_ok :: "svn_log_entry list \<Rightarrow> bool" where
  "log_ok log \<longleftrightarrow> sorted_wrt (\<lambda>a b. lg_revision b < lg_revision a) log \<and> (\<forall>e \<in> set log. 0 < lg_revision e)"

text \<open>The log command answers from a revision on, downwards, up to its limit.\<close>

definition serves_log :: "svn_env \<Rightarrow> string \<Rightarrow> svn_log_entry list \<Rightarrow> bool" where
  "serves_log env root log \<longleftrightarrow>
     (\<forall>start limit. svn_log (sn_world env) (sn_xml env) root start limit =
        Inr (take limit (filter (\<lambda>e. lg_revision e \<le> start) log)))"

definition whole_log :: "(string \<Rightarrow> string) \<Rightarrow> string option \<Rightarrow> svn_log_entry list \<Rightarrow> string list" where
  "whole_log lower query log =
     map (\<lambda>e. revision_name (lg_revision e)) (filter (log_matches lower (query_terms lower query)) log)"

lemma link_parents_hashes [simp]: "map gc_hash (link_parents cursor cs) = map gc_hash cs"
  by (induction cursor cs rule: link_parents.induct) simp_all

lemma hashes_log_commit [simp]: "map gc_hash (map (log_commit rfc3339) es) = map (\<lambda>e. revision_name (lg_revision e)) es"
  by (simp add: log_commit_def)

text \<open>The entries after a page are those up to its cursor.\<close>

lemma filter_from_cursor:
  assumes "log_ok log" and "n < length log" and "0 < n"
  shows "filter (\<lambda>e. lg_revision e \<le> saturating_sub (lg_revision (log ! (n - 1))) 1) log = drop n log"
proof -
  let ?c = "saturating_sub (lg_revision (log ! (n - 1))) 1"
  have pos: "0 < lg_revision (log ! (n - 1))" using assms by (auto simp: log_ok_def)
  then have "1 \<le> unat (lg_revision (log ! (n - 1)))" by (simp add: word_less_nat_alt Suc_le_eq)
  then have c: "unat ?c = unat (lg_revision (log ! (n - 1))) - 1" by (simp add: unat_saturating_sub)
  have le: "lg_revision e \<le> ?c \<longleftrightarrow> lg_revision e < lg_revision (log ! (n - 1))" for e :: svn_log_entry
    unfolding word_le_nat_alt word_less_nat_alt c using \<open>1 \<le> unat (lg_revision (log ! (n - 1)))\<close> by arith
  have after: "lg_revision (log ! j) < lg_revision (log ! i)" if "i < j" "j < length log" for i j
    using assms(1) that by (auto simp: log_ok_def sorted_wrt_iff_nth_less)
  have "filter (\<lambda>e. lg_revision e \<le> ?c) (take n log) = []"
  proof (rule filter_False, rule ballI)
    fix e
    assume "e \<in> set (take n log)"
    then obtain i where "i < n" "i < length log" "e = log ! i" by (auto simp: in_set_conv_nth)
    moreover from this have "lg_revision (log ! (n - 1)) \<le> lg_revision e"
      using after [of i "n - 1"] assms(2,3) by (cases "i = n - 1") (auto simp: less_imp_le)
    ultimately show "\<not> lg_revision e \<le> ?c" using le [of e] by simp
  qed
  moreover have "filter (\<lambda>e. lg_revision e \<le> ?c) (drop n log) = drop n log"
  proof (rule filter_True, rule ballI)
    fix e
    assume "e \<in> set (drop n log)"
    then obtain j where "n \<le> j" "j < length log" "e = log ! j" by (auto simp: in_set_conv_nth) (metis add.commute le_add1 less_diff_conv)
    then show "lg_revision e \<le> ?c" using after [of "n - 1" j] assms(3) le [of e] by simp
  qed
  ultimately show ?thesis by (metis append_Nil append_take_drop_id filter_append)
qed

lemma svn_page_limit_pos: "0 < svn_history_page_limit limit"
  by (simp add: svn_history_page_limit_def clamp_limit_def)

lemma svn_history_page:
  fixes env :: svn_env and lower rfc3339 query skip limit
  defines "bound \<equiv> svn_history_page_limit limit"
  assumes "sr_history_connected r" and "sr_history_head r = Some head" and "serves_log env (root_of r) log" and "log_ok log"
    and start: "filter (\<lambda>e. lg_revision e \<le> max (if skip = 0 then head else word_of_nat skip) 1) log = drop n log"
    and "n \<le> length log"
  obtains page where "svn_history env lower rfc3339 query skip limit r = Inr page"
    and "map gc_hash (pr_items page) = whole_log lower query (take bound (drop n log))"
    and "pr_has_more page \<longleftrightarrow> n + bound < length log"
    and "n + bound < length log \<Longrightarrow> pr_next_skip page \<noteq> 0 \<and>
           filter (\<lambda>e. lg_revision e \<le> max (word_of_nat (pr_next_skip page)) 1) log = drop (n + bound) log"
proof -
  let ?page = "take bound (drop n log)"
  define cursor where "cursor = (if ?page = [] then 0 else saturating_sub (lg_revision (last ?page)) 1)"
  let ?answer = "\<lparr>pr_items = link_parents cursor
       (map (log_commit rfc3339) (filter (log_matches lower (query_terms lower query)) ?page)),
     pr_next_skip = unat cursor, pr_has_more = svn_history_has_more (length (take (bound + 1) (drop n log))) limit \<and> 0 < cursor\<rparr>"
  have bound: "0 < bound" by (simp add: bound_def svn_page_limit_pos)
  have answer: "svn_history env lower rfc3339 query skip limit r = Inr ?answer"
    using assms(2-4) start
    by (simp add: svn_history_def serves_log_def from_svn_def bound_def cursor_def Let_def)
  have later: "0 < cursor \<and> filter (\<lambda>e. lg_revision e \<le> max (word_of_nat (unat cursor)) 1) log = drop (n + bound) log"
    if more: "n + bound < length log"
  proof -
    have last: "last ?page = log ! (n + bound - 1)"
      using more bound by (simp add: last_conv_nth)
    then have c: "cursor = saturating_sub (lg_revision (log ! (n + bound - 1))) 1"
      using more bound by (simp add: cursor_def)
    have rest: "filter (\<lambda>e. lg_revision e \<le> cursor) log = drop (n + bound) log"
      unfolding c using filter_from_cursor [OF assms(5) more] bound by simp
    have "log ! (n + bound) \<in> set (drop (n + bound) log)" using more by (metis Cons_nth_drop_Suc list.set_intros(1))
    then have "log ! (n + bound) \<in> set log" "lg_revision (log ! (n + bound)) \<le> cursor"
      unfolding rest [symmetric] by simp_all
    with assms(5) have "0 < cursor" by (auto simp: log_ok_def)
    moreover from this have "max (word_of_nat (unat cursor)) 1 = cursor"
      by (simp add: max_def word_le_nat_alt word_less_nat_alt word_eq_nat_iff)
    ultimately show ?thesis using rest by simp
  qed
  show ?thesis
  proof (rule that [OF answer])
    show "map gc_hash (pr_items ?answer) = whole_log lower query ?page" by (simp add: whole_log_def log_commit_def comp_def)
    show "pr_has_more ?answer \<longleftrightarrow> n + bound < length log"
      using later by (auto simp: svn_history_has_more_def bound_def [symmetric])
    show "pr_next_skip ?answer \<noteq> 0 \<and> filter (\<lambda>e. lg_revision e \<le> max (word_of_nat (pr_next_skip ?answer)) 1) log = drop (n + bound) log"
      if "n + bound < length log"
      using later [OF that] by (simp add: word_less_nat_alt)
  qed
qed

lemma whole_log_append: "whole_log lower query (xs @ ys) = whole_log lower query xs @ whole_log lower query ys"
  by (simp add: whole_log_def)

lemma svn_pages_rest:
  assumes "sr_history_connected r" and "sr_history_head r = Some head" and "serves_log env (root_of r) log" and "log_ok log"
  shows "length log - n < fuel \<Longrightarrow> n \<le> length log \<Longrightarrow>
    filter (\<lambda>e. lg_revision e \<le> max (if skip = 0 then head else word_of_nat skip) 1) log = drop n log \<Longrightarrow>
    map_option (map gc_hash) (read_pages (\<lambda>s. svn_history env lower rfc3339 query s limit r) fuel skip) =
      Some (whole_log lower query (drop n log))"
proof (induction fuel arbitrary: n skip)
  case (Suc fuel)
  let ?b = "svn_history_page_limit limit"
  obtain page where page: "svn_history env lower rfc3339 query skip limit r = Inr page"
    "map gc_hash (pr_items page) = whole_log lower query (take ?b (drop n log))"
    "pr_has_more page \<longleftrightarrow> n + ?b < length log"
    and next_page: "n + ?b < length log \<Longrightarrow> pr_next_skip page \<noteq> 0 \<and>
       filter (\<lambda>e. lg_revision e \<le> max (word_of_nat (pr_next_skip page)) 1) log = drop (n + ?b) log"
    by (rule svn_history_page [OF assms Suc.prems(3,2), of lower rfc3339 query limit]) blast
  have split: "whole_log lower query (drop n log) = whole_log lower query (take ?b (drop n log)) @ whole_log lower query (drop (n + ?b) log)"
    unfolding whole_log_append [symmetric] by (simp add: add.commute [of n] flip: drop_drop)
  show ?case
  proof (cases "n + ?b < length log")
    case True
    have "map_option (map gc_hash) (read_pages (\<lambda>s. svn_history env lower rfc3339 query s limit r) fuel (pr_next_skip page)) =
        Some (whole_log lower query (drop (n + ?b) log))"
      using Suc.IH [of "n + ?b" "pr_next_skip page"] Suc.prems(1) True next_page svn_page_limit_pos [of limit] by simp
    then obtain rest where "read_pages (\<lambda>s. svn_history env lower rfc3339 query s limit r) fuel (pr_next_skip page) = Some rest"
      "map gc_hash rest = whole_log lower query (drop (n + ?b) log)" by auto
    then have "read_pages (\<lambda>s. svn_history env lower rfc3339 query s limit r) (Suc fuel) skip = Some (pr_items page @ rest)"
      and "map gc_hash (pr_items page @ rest) = whole_log lower query (drop n log)"
      using page(1,2) page(3) True unfolding split by simp_all
    then show ?thesis by (simp del: read_pages.simps)
  next
    case False
    then have "read_pages (\<lambda>s. svn_history env lower rfc3339 query s limit r) (Suc fuel) skip = Some (pr_items page)"
      and "map gc_hash (pr_items page) = whole_log lower query (drop n log)"
      using page by simp_all
    then show ?thesis by (simp del: read_pages.simps)
  qed
qed simp


text \<open>A server of the two revisions 2 and 1.\<close>

lemma chars_of_bytes_of [simp]: "chars_of (bytes_of s) = s"
proof -
  have "char_of (unat (word_of_nat (of_char c) :: u8)) = c" for c :: char
    by (simp add: unat_of_nat)
  then show ?thesis by (simp add: chars_of_def bytes_of_def comp_def)
qed

definition sample_log :: "svn_log_entry list" where
  "sample_log = map (\<lambda>n. \<lparr>lg_revision = n, lg_author = ''a'', lg_date = [], lg_message = ''m''\<rparr>) [2, 1]"

definition sample_text :: "string list \<Rightarrow> string" where
  "sample_text args =
     take (if args ! 5 = show_nat 0 then 0 else if args ! 5 = show_nat 1 then 1 else 2)
       (if args ! 7 = show_nat 0 @ '':1'' then [] else if args ! 7 = show_nat 1 @ '':1'' then ''1'' else ''21'')"

definition sample_env :: svn_env where
  "sample_env =
     \<lparr>sn_windows = False, sn_world = (\<lambda>args _. Some (sample_process (bytes_of (sample_text args)))),
      sn_xml = \<lparr>sx_info = (\<lambda>_. None), sx_status = (\<lambda>_. None),
        sx_log = (\<lambda>s. Some (map (\<lambda>c. \<lparr>ld_revision = if c = CHR ''2'' then 2 else 1, ld_author = Some ''a'', ld_date = None,
          ld_msg = Some ''m''\<rparr>) s)), sx_diff = (\<lambda>_. None)\<rparr>,
      sn_meta = (\<lambda>_. None), sn_link = (\<lambda>_. None), sn_open = (\<lambda>_. None), sn_first = (\<lambda>_. None)\<rparr>"

definition sample_repository :: svn_repository where
  "sample_repository =
     (svn_new \<lparr>ri_root_path = ''/wc'', ri_display_name = ''wc'', ri_relative_url = ''^/'', ri_repository_root_url = ''http://h'',
        ri_working_revision = 2, ri_depth = None\<rparr>)\<lparr>sr_history_connected := True, sr_history_head := Some 2\<rparr>"

lemma sample_serves: "serves_log sample_env root sample_log"
  unfolding serves_log_def
proof (intro allI)
  fix start :: u64 and limit :: usize
  let ?text = "sample_text (svn_command (log_args start limit))"
  have bound: "limit = 0 \<or> limit = 1 \<or> 2 \<le> limit" by arith
  have shown: "?text = take limit (if unat start = 0 then [] else if unat start = 1 then ''1'' else ''21'')"
    using bound by (auto simp: sample_text_def svn_command_def log_args_def show_nat_inject)
  have plain: "length ?text \<le> 2" "set ?text \<subseteq> {CHR ''1'', CHR ''2''}"
    unfolding shown by (auto dest: in_set_takeD)
  have "\<forall>b \<in> set (bytes_of ?text). b < 128"
    using plain(2) by (auto simp: bytes_of_def)
  then have "from_utf8 (bytes_of ?text) = Some ?text"
    by (simp add: from_utf8_def valid_utf8_def ascii_valid)
  moreover have "run_command (sn_world sample_env) (log_args start limit) root MAX_STDOUT_BYTES = Inr (bytes_of ?text)"
    using plain(1) by (simp add: run_command_def sample_env_def sample_process_def joined_def ensure_def usize_saturating_add_def usize_max_def
        MAX_STDOUT_BYTES_def)
  ultimately have "svn_log (sn_world sample_env) (sn_xml sample_env) root start limit =
      Inr (map (\<lambda>c. \<lparr>lg_revision = if c = CHR ''2'' then 2 else 1, lg_author = ''a'', lg_date = [], lg_message = ''m''\<rparr>) ?text)"
    by (simp add: svn_log_def parse_xml_def sample_env_def ok_or_simps log_entry_def comp_def)
  also have "\<dots> = Inr (take limit (filter (\<lambda>e. lg_revision e \<le> start) sample_log))"
    unfolding shown by (auto simp: sample_log_def word_le_nat_alt take_Cons' split: if_splits)
  finally show "svn_log (sn_world sample_env) (sn_xml sample_env) root start limit =
      Inr (take limit (filter (\<lambda>e. lg_revision e \<le> start) sample_log))" .
qed


section \<open>A page that is too large\<close>

lemma too_large_ends:
  "MAX_FRAME_BYTES < length (wi_encode wire out) \<Longrightarrow> vc_send wire out up s = end_session (Inl (VcFrame FrameTooLarge)) s"
  by (simp add: vc_send_def version_control_write_frame_def)


text \<open>Thirty-two entries with a message of 1024 characters of three bytes.\<close>

definition three_bytes :: string where "three_bytes = [CHR 0xE4, CHR 0xB8, CHR 0xAD]"

lemma take_chars_three: "take_chars n (concat (replicate n three_bytes)) = concat (replicate n three_bytes)"
  by (induction n) (simp_all add: three_bytes_def char_start_def)

definition long_env :: svn_env where
  "long_env = sample_env\<lparr>sn_world := (\<lambda>_ _. Some (sample_process [])),
     sn_xml := (sn_xml sample_env)\<lparr>sx_log := (\<lambda>_. Some (replicate 32 \<lparr>ld_revision = 5, ld_author = None, ld_date = None,
       ld_msg = Some (concat (replicate 1024 three_bytes))\<rparr>))\<rparr>\<rparr>"

lemma long_page:
  "\<exists>page. svn_history long_env lower rfc3339 None 0 64 sample_repository = Inr page \<and>
     map (length \<circ> gc_message) (pr_items page) = replicate 31 3072"
proof -
  let ?e = "\<lparr>lg_revision = 5, lg_author = [], lg_date = [], lg_message = concat (replicate 1024 three_bytes)\<rparr>"
  have "from_utf8 [] = Some ([] :: string)" by (simp add: from_utf8_def valid_utf8_def ascii_valid chars_of_def)
  then have log: "svn_log (sn_world long_env) (sn_xml long_env) root start limit = Inr (replicate 32 ?e)" for root start limit
    by (simp add: svn_log_def run_command_def long_env_def sample_env_def sample_process_def joined_def ensure_def parse_xml_def
        ok_or_simps log_entry_def)
  have bound: "svn_history_page_limit 64 = 31"
    by (simp add: svn_history_page_limit_def clamp_limit_def SVN_HISTORY_FETCH_LIMIT_def)
  have terms: "query_terms lower None = []"
    by (simp add: query_terms_def split_whitespace_def words_from.simps white_space_def)
  have messages: "map (length \<circ> gc_message) (link_parents c cs) = map (length \<circ> gc_message) cs" for c cs
    by (induction c cs rule: link_parents.induct) simp_all
  have "map (length \<circ> gc_message) (link_parents c (map (log_commit rfc3339) (replicate 31 ?e))) = replicate 31 3072" for c
  proof -
    have "length (concat (replicate 1024 three_bytes)) = 3072"
      by (simp add: length_concat sum_list_replicate three_bytes_def)
    then show ?thesis unfolding messages by (simp add: log_commit_def take_chars_three)
  qed
  then show ?thesis
    by (simp add: svn_history_def log from_svn_def bound terms log_matches_def terms_match_def sample_repository_def Let_def)
qed


end
