(* ===== verification/Svn_Reads.thy ===== *)
theory Svn_Reads
  imports Svn_Repository
begin

text \<open>
  What the Subversion backend reads: the caches never answer with something the working copy or the
  server no longer says, a comparison is well formed, and how a file added since the old revision is
  shown when it was also changed locally.
\<close>

section \<open>The caches as caches\<close>

lemma cache_limits:
  "SOURCE_CACHE_LIMIT < usize_max" "0 < SOURCE_CACHE_MAX_ITEMS" "PREVIEW_CACHE_LIMIT < usize_max" "0 < PREVIEW_CACHE_MAX_ITEMS"
  by (simp_all add: SOURCE_CACHE_LIMIT_def SOURCE_CACHE_MAX_ITEMS_def PREVIEW_CACHE_LIMIT_def PREVIEW_CACHE_MAX_ITEMS_def usize_max_def)

interpretation source_store: value_cache "cache_inv length SOURCE_CACHE_LIMIT SOURCE_CACHE_MAX_ITEMS"
  "\<lambda>c. map_of (bc_items c)" source_cache_get source_cache_insert
  unfolding source_cache_get_def source_cache_insert_def by (rule value_cache_byte_cache [OF cache_limits(1,2)])

interpretation preview_store: value_cache "cache_inv preview_bytes PREVIEW_CACHE_LIMIT PREVIEW_CACHE_MAX_ITEMS"
  "\<lambda>c. map_of (bc_items c)" preview_cache_get preview_cache_insert
  unfolding preview_cache_get_def preview_cache_insert_def by (rule value_cache_byte_cache [OF cache_limits(3,4)])

abbreviation sources_inv :: "source_cache \<Rightarrow> bool" where
  "sources_inv \<equiv> cache_inv length SOURCE_CACHE_LIMIT SOURCE_CACHE_MAX_ITEMS"

text \<open>A key names one source.\<close>

lemma show_nat_no_colon: "CHR '':'' \<notin> set (show_nat n)"
  using show_nat_range [of "CHR '':''" n] by (intro notI) simp

lemma source_key_inject:
  assumes "source_cache_key path source = Some key" and "source_cache_key path' source' = Some key"
  shows "path = path' \<and> source = source'"
proof -
  have digits: "takeWhile (\<lambda>c. c \<noteq> CHR '':'') (show_nat k @ CHR '':'' # p) = show_nat k" for k p
    using show_nat_no_colon [of k] by (subst takeWhile_append2) auto
  have revision: "m = n \<and> p = q" if eq: "show_nat m @ CHR '':'' # p = show_nat n @ CHR '':'' # q" for m n p q
  proof -
    have "show_nat m = show_nat n" using digits [of m p] digits [of n q] unfolding eq by simp
    then show ?thesis using eq unfolding show_nat_inject by simp
  qed
  show ?thesis
  proof (cases source)
    case (SvnAtRevision a)
    with assms obtain b where "source' = SvnAtRevision b" by (cases source') (auto simp: source_cache_key_def)
    moreover from this SvnAtRevision assms have "show_nat (unat a) @ CHR '':'' # path = show_nat (unat b) @ CHR '':'' # path'"
      by (simp add: source_cache_key_def) (metis list.inject)
    from revision [OF this] have "unat a = unat b" "path = path'" by simp_all
    ultimately show ?thesis using SvnAtRevision by (simp add: word_eq_nat_iff)
  next
    case SvnWorkingFile
    with assms show ?thesis by (cases source') (auto simp: source_cache_key_def)
  qed (use assms in \<open>simp add: source_cache_key_def\<close>)
qed

section \<open>What is read is current\<close>

lemma clear_working_entry_spec:
  assumes "sources_inv c"
  shows "sources_inv (clear_working_entry key c) \<and>
         (\<forall>k. map_of (bc_items (clear_working_entry key c)) k = (if k = key then None else map_of (bc_items c) k))"
proof (cases "map_of (bc_items c) key")
  case None
  have tied: "tied length (bc_items c) (bc_order c) (bc_bytes c)" using assms by (simp add: cache_inv_tied)
  then have "key \<notin> set (bc_order c)" using None by (metis map_of_eq_None_iff tied_def)
  then have "filter (\<lambda>x. x \<noteq> key) (bc_order c) = bc_order c" by (auto simp: filter_id_conv)
  with None assms show ?thesis by (simp add: clear_working_entry_def)
next
  case (Some previous)
  have tied: "tied length (bc_items c) (bc_order c) (bc_bytes c)" and len: "length (bc_items c) \<le> SOURCE_CACHE_MAX_ITEMS"
    and bytes: "bc_bytes c \<le> SOURCE_CACHE_LIMIT"
    using assms by (simp_all add: cache_inv_tied)
  have "length (AList.delete key (bc_items c)) \<le> SOURCE_CACHE_MAX_ITEMS"
    using len length_delete_le [of key "bc_items c"] by simp
  with tied_delete [OF tied Some] bytes Some show ?thesis
    by (auto simp: clear_working_entry_def cache_inv_tied AList.delete_conv')
qed

lemma clear_working_spec:
  assumes "sources_inv c"
  shows "sources_inv (clear_working c)"
    and "map_of (bc_items (clear_working c)) k = (if starts_with ''working:'' k then None else map_of (bc_items c) k)"
proof -
  have fold: "sources_inv (fold clear_working_entry keys c) \<and>
      map_of (bc_items (fold clear_working_entry keys c)) k = (if k \<in> set keys then None else map_of (bc_items c) k)" for keys
    using assms
  proof (induction keys arbitrary: c)
    case (Cons key keys)
    with clear_working_entry_spec [OF Cons.prems, of key] show ?case by simp
  qed simp
  from fold show "sources_inv (clear_working c)" by (simp add: clear_working_def)
  show "map_of (bc_items (clear_working c)) k = (if starts_with ''working:'' k then None else map_of (bc_items c) k)"
    using fold [of "filter (starts_with ''working:'') (map fst (bc_items c))"]
    by (auto simp: clear_working_def map_of_eq_None_iff)
qed

definition sources_coherent :: "svn_env \<Rightarrow> svn_repository \<Rightarrow> bool" where
  "sources_coherent env r \<longleftrightarrow> sources_inv (sr_sources r) \<and>
     (\<forall>path source key b. source_cache_key path source = Some key \<longrightarrow> map_of (bc_items (sr_sources r)) key = Some b \<longrightarrow>
        fetch_source env r path source = Inr (Some b))"

lemma fetch_source_root: "root_of r' = root_of r \<Longrightarrow> fetch_source env r' = fetch_source env r"
proof (intro ext)
  fix path source
  assume root: "root_of r' = root_of r"
  then have "path_for r' = path_for r" by (simp add: path_for_def fun_eq_iff)
  then have "read_working_bytes env r' path = read_working_bytes env r path"
    unfolding read_working_bytes_def by (simp only:)
  with root show "fetch_source env r' path source = fetch_source env r path source"
    by (simp add: fetch_source_def split: svn_content_source.split)
qed

lemma coherent_frame:
  "sources_coherent env r \<Longrightarrow> sources_inv c \<Longrightarrow> (\<And>k b. map_of (bc_items c) k = Some b \<Longrightarrow> map_of (bc_items (sr_sources r)) k = Some b) \<Longrightarrow>
     sources_coherent env (r\<lparr>sr_sources := c\<rparr>)"
  using fetch_source_root [of "r\<lparr>sr_sources := c\<rparr>" r env] by (simp add: sources_coherent_def root_of_def)

lemma read_source_coherent:
  assumes "sources_coherent env r" and "read_source env path source r = (res, r')"
  shows "res = fetch_source env r path source \<and> sources_coherent env r' \<and> root_of r' = root_of r"
proof (cases "source_cache_key path source")
  case None
  with assms show ?thesis by (auto simp: read_source_def)
next
  case (Some key)
  have inv: "sources_inv (sr_sources r)" using assms(1) by (simp add: sources_coherent_def)
  obtain found c where got: "source_cache_get key (sr_sources r) = (found, c)" by fastforce
  note spec = source_store.get_spec [OF inv got]
  then have same: "sources_coherent env (r\<lparr>sr_sources := c\<rparr>)"
    by (intro coherent_frame [OF assms(1)]) auto
  show ?thesis
  proof (cases found)
    case (Some b)
    with spec have "map_of (bc_items (sr_sources r)) key = Some b" by simp
    with assms(1) \<open>source_cache_key path source = Some key\<close> have "fetch_source env r path source = Inr (Some b)"
      unfolding sources_coherent_def by blast
    with Some got same assms(2) \<open>source_cache_key path source = Some key\<close> show ?thesis
      by (auto simp: read_source_def root_of_def)
  next
    case missing: None
    show ?thesis
    proof (cases "fetch_source env r path source")
      case (Inl e)
      with missing got same assms(2) Some show ?thesis by (auto simp: read_source_def root_of_def)
    next
      case (Inr content)
      have "sources_coherent env (r\<lparr>sr_sources := source_cache_insert key b c\<rparr>)" if content: "content = Some b" for b
      proof -
        let ?c = "source_cache_insert key b c"
        have put: "sources_inv ?c" "\<forall>j w. map_of (bc_items ?c) j = Some w \<longrightarrow> map_of (bc_items c) j = Some w \<or> (j = key \<and> w = b)"
          using source_store.put_spec [of c key b] spec by auto
        have "fetch_source env r p s = Inr (Some w)"
          if k: "source_cache_key p s = Some j" and "map_of (bc_items ?c) j = Some w" for p s j w
        proof -
          from put(2) that(2) consider "map_of (bc_items c) j = Some w" | "j = key" "w = b" by blast
          then show ?thesis
          proof cases
            case 1
            with spec k assms(1) show ?thesis by (auto simp: sources_coherent_def)
          next
            case 2
            with source_key_inject [OF k, of path source] Some Inr content show ?thesis by simp
          qed
        qed
        with put(1) show ?thesis
          using fetch_source_root [of "r\<lparr>sr_sources := ?c\<rparr>" r env] by (simp add: sources_coherent_def root_of_def)
      qed
      with Inr missing got same assms(2) Some show ?thesis
        by (auto simp: read_source_def root_of_def split: option.splits)
    qed
  qed
qed

text \<open>Reads, and refreshes, which is when the working copy may have changed; a revision never does.\<close>

datatype source_op = ReadSource string svn_content_source | Refreshed svn_env

fun source_step :: "source_op \<Rightarrow> svn_env \<times> svn_repository \<Rightarrow> svn_env \<times> svn_repository" where
  "source_step (ReadSource path source) (env, r) = (env, snd (read_source env path source r))"
| "source_step (Refreshed env') (env, r) = (env', invalidate_status_cache r)"

definition source_run :: "source_op list \<Rightarrow> svn_env \<times> svn_repository \<Rightarrow> svn_env \<times> svn_repository" where
  "source_run ops s = foldl (\<lambda>t op. source_step op t) s ops"

definition same_revisions :: "svn_repository \<Rightarrow> svn_env \<Rightarrow> svn_env \<Rightarrow> bool" where
  "same_revisions r env env' \<longleftrightarrow>
     (\<forall>path revision. fetch_source env' r path (SvnAtRevision revision) = fetch_source env r path (SvnAtRevision revision))"

lemma starts_with_append: "starts_with p (p @ s)"
  by (induction p) simp_all

lemma refresh_coherent:
  assumes "sources_coherent env r" and "same_revisions r env env'"
  shows "sources_coherent env' (invalidate_status_cache r)"
proof -
  have inv: "sources_inv (sr_sources r)" using assms(1) by (simp add: sources_coherent_def)
  note clear = clear_working_spec [OF inv]
  have root: "fetch_source env' (invalidate_status_cache r) = fetch_source env' r"
    by (rule fetch_source_root) (simp add: invalidate_status_cache_def root_of_def)
  have "fetch_source env' r path source = Inr (Some b)"
    if "source_cache_key path source = Some key" and "map_of (bc_items (clear_working (sr_sources r))) key = Some b"
    for path source key b
  proof -
    from that(2) have kept: "\<not> starts_with ''working:'' key" "map_of (bc_items (sr_sources r)) key = Some b"
      by (simp_all add: clear(2) split: if_splits)
    have "source \<noteq> SvnWorkingFile"
      using that(1) kept(1) starts_with_append [of "''working:''" path] by (auto simp: source_cache_key_def simp del: append_Cons)
    with that(1) obtain revision where "source = SvnAtRevision revision" by (cases source) (auto simp: source_cache_key_def)
    with assms kept(2) that(1) show ?thesis by (auto simp: sources_coherent_def same_revisions_def)
  qed
  with clear(1) show ?thesis
    unfolding sources_coherent_def root by (simp add: invalidate_status_cache_def)
qed

lemma source_run_coherent:
  assumes "sources_coherent env r" and "\<forall>env'. Refreshed env' \<in> set ops \<longrightarrow> same_revisions r env env'"
    and "source_run ops (env, r) = (env_n, r_n)"
  shows "sources_coherent env_n r_n \<and> root_of r_n = root_of r"
  using assms
proof (induction ops arbitrary: env r)
  case (Cons op ops)
  obtain env1 r1 where step: "source_step op (env, r) = (env1, r1)" by fastforce
  have one: "sources_coherent env1 r1 \<and> root_of r1 = root_of r \<and> same_revisions r env env1"
  proof (cases op)
    case (ReadSource path source)
    obtain res r' where "read_source env path source r = (res, r')" by fastforce
    with read_source_coherent [OF Cons.prems(1) this] ReadSource step show ?thesis by (simp add: same_revisions_def)
  next
    case (Refreshed env')
    with Cons.prems step refresh_coherent [OF Cons.prems(1), of env'] show ?thesis
      by (auto simp: invalidate_status_cache_def root_of_def)
  qed
  have "\<forall>env'. Refreshed env' \<in> set ops \<longrightarrow> same_revisions r1 env1 env'"
    using Cons.prems(2) one fetch_source_root [of r1 r] by (auto simp: same_revisions_def)
  with Cons.IH [of env1 r1] one Cons.prems(3) step show ?case by (simp add: source_run_def)
qed (simp add: source_run_def)


definition reads_env :: "bytes \<Rightarrow> svn_env" where
  "reads_env content =
     \<lparr>sn_windows = False, sn_world = (\<lambda>_ _. None),
      sn_xml = \<lparr>sx_info = (\<lambda>_. None), sx_status = (\<lambda>_. None), sx_log = (\<lambda>_. None), sx_diff = (\<lambda>_. None)\<rparr>,
      sn_meta = (\<lambda>_. Some (MetaFile 1)), sn_link = (\<lambda>_. None), sn_open = (\<lambda>_. Some [Inr content]), sn_first = (\<lambda>_. None)\<rparr>"

definition reads_info :: svn_repository_info where
  "reads_info = \<lparr>ri_root_path = ''/wc'', ri_display_name = ''wc'', ri_relative_url = ''^/'', ri_repository_root_url = ''http://h'',
     ri_working_revision = 2, ri_depth = None\<rparr>"


section \<open>Comparisons\<close>

lemma length_number_files [simp]: "length (number_files files) = length files"
  by (simp add: number_files_def)

lemma nth_number_files: "i < length files \<Longrightarrow> number_files files ! i = (files ! i)\<lparr>sf_file_id := word_of_nat i\<rparr>"
  by (simp add: number_files_def nth_enumerate_eq)

lemma number_files_paths [simp]: "map sf_path (number_files files) = map sf_path files"
  by (rule nth_equalityI) (simp_all add: nth_number_files)

lemma distinct_collect_map: "distinct (map fst (collect_map key entries))"
proof -
  have "distinct (map fst m) \<Longrightarrow> distinct (map fst (fold (\<lambda>e m. AList.update (key e) e m) entries m))" for m
    by (induction entries arbitrary: m) (simp_all add: distinct_update)
  then show ?thesis by (simp add: collect_map_def)
qed

lemma distinct_add_status: "distinct (map fst changes) \<Longrightarrow> distinct (map fst (fold (add_status env r) statuses changes))"
  by (induction statuses arbitrary: changes) (auto simp: add_status_def distinct_update split: prod.split)

lemma file_from_summary_path [simp]: "sf_path (file_from_summary env r i path entry status metadata rng) = path"
  by (simp add: file_from_summary_def Let_def split: prod.split)

text \<open>A comparison of a working copy is well formed, whatever the client prints and in whatever order
  the hash maps give it back: its files are in the order of their paths and no path is there twice, a
  file's identifier is its position, and with a group chosen every file belongs to it.\<close>
theorem svn_comparison_well_formed:
  assumes "svn_open_diff env old new grp r = (Inr session, r')"
  shows "sorted (map sf_path (sd_files session)) \<and> distinct (map sf_path (sd_files session)) \<and>
         (\<forall>i < length (sd_files session). sf_file_id (sd_files session ! i) = word_of_nat i \<and>
            (grp \<noteq> GroupAll \<longrightarrow> group_name grp \<in> set (sf_groups (sd_files session ! i))))"
proof -
  obtain r0 statuses summary patch working rng where
    session: "sd_files session = diff_files_of env r statuses summary patch working rng grp"
    using assms by (auto simp: svn_open_diff_def Let_def split: sum.splits svn_revision.splits prod.splits if_splits)
  define changes where "changes = (let c = collect_map (\<lambda>e. normalize_path (root_of r) (su_path e)) summary
    in if working then fold (add_status env r) statuses c else c)"
  define files where "files = map (\<lambda>(i, path, entry).
            file_from_summary env r (word_of_nat i) path entry (map_of statuses path)
              (map_option (\<lambda>f. (pf_additions f, pf_deletions f, pf_is_binary f)) (patch_set_file path patch)) rng)
            (enumerate 0 (sort_key fst changes))"
  define kept where "kept = (if grp = GroupAll then files else filter (\<lambda>f. group_name grp \<in> set (sf_groups f)) files)"
  have numbered: "sd_files session = number_files kept"
    by (simp add: session diff_files_of_def changes_def files_def kept_def Let_def)
  have "map sf_path files = map fst (sort_key fst changes)"
  proof -
    have "map sf_path files = map (fst \<circ> snd) (enumerate 0 (sort_key fst changes))"
      by (simp add: files_def case_prod_beta comp_def)
    also have "\<dots> = map fst (sort_key fst changes)" by (simp flip: map_map)
    finally show ?thesis .
  qed
  moreover have "distinct (map fst changes)"
    by (simp add: changes_def Let_def distinct_collect_map distinct_add_status)
  then have "distinct (map fst (sort_key fst changes))" by (simp add: distinct_map)
  ultimately have "sorted (map sf_path files)" "distinct (map sf_path files)" by simp_all
  then have "sorted (map sf_path kept)" "distinct (map sf_path kept)"
    by (simp_all add: kept_def distinct_map_filter sorted_filter)
  moreover have "group_name grp \<in> set (sf_groups (kept ! i))" if "grp \<noteq> GroupAll" "i < length kept" for i
    using that nth_mem [of i kept] by (simp add: kept_def)
  ultimately show ?thesis by (simp add: numbered nth_number_files)
qed

definition compared_env :: svn_env where
  "compared_env =
     \<lparr>sn_windows = False, sn_world = (\<lambda>_ _. Some (sample_process [])),
      sn_xml = \<lparr>sx_info = (\<lambda>_. None), sx_status = (\<lambda>_. None), sx_log = (\<lambda>_. None),
        sx_diff = (\<lambda>_. Some (Some [\<lparr>dp_kind = None, dp_item = None, dp_props = None, dp_value = ''b''\<rparr>,
                                  \<lparr>dp_kind = None, dp_item = None, dp_props = None, dp_value = ''a''\<rparr>]))\<rparr>,
      sn_meta = (\<lambda>_. None), sn_link = (\<lambda>_. None), sn_open = (\<lambda>_. None), sn_first = (\<lambda>_. None)\<rparr>"

lemma sample_process_run: "run_command (\<lambda>_ _. Some (sample_process [])) args dir limit = Inr []"
  by (simp add: run_command_def sample_process_def joined_def ensure_def)

lemma compared_summary:
  "\<exists>entries. diff_summarize (sn_world compared_env) (sn_xml compared_env) root (Some 1) (Some 2) = Inr entries"
  by (simp add: diff_summarize_def compared_env_def sample_process_run parse_xml_def ok_or_simps from_utf8_def valid_utf8_def)

lemma compared_patch:
  "fst (diff_patch_stream (sn_world compared_env) root (Some 1) (Some 2) f s) = Inr ()"
  by (simp add: diff_patch_stream_def run_streaming_command_def compared_env_def sample_process_def joined_def ensure_def)

lemma compared_opens:
  "\<exists>session r'. svn_open_diff compared_env (RevCommit ''r1'') (RevCommit ''r2'') GroupAll (svn_new reads_info) = (Inr session, r')"
proof -
  let ?r = "svn_new reads_info"
  have revisions: "svn_revision_of (RevCommit ''r1'') = Inr (SvnNumber 1)" "svn_revision_of (RevCommit ''r2'') = Inr (SvnNumber 2)"
    by (simp_all add: svn_revision_of_def parse_u64_def from_str_radix_def digit_value_def ok_or_simps)
  obtain summary r2 where summary: "repo_diff_summary compared_env (Some 1) (Some 2) ?r = (Inr summary, r2)"
    using compared_summary [of "root_of ?r"] by (auto simp: repo_diff_summary_def svn_new_def)
  let ?chunk = "\<lambda>chunk parser. (Inr (), patch_push (normalize_path (root_of r2)) chunk parser)"
  obtain parser where "diff_patch_stream (sn_world compared_env) (root_of r2) (Some 1) (Some 2) ?chunk patch_parser_new = (Inr (), parser)"
    using compared_patch [of "root_of r2" ?chunk patch_parser_new] by (metis prod.collapse)
  then obtain patch r3 where "load_patch compared_env (Some 1) (Some 2) r2 = (Inr patch, r3)"
    by (cases "patch_cache_get (Some 1, Some 2) (sr_patches r2)", cases "fst (patch_cache_get (Some 1, Some 2) (sr_patches r2))")
      (simp_all add: load_patch_def Let_def)
  with revisions summary show ?thesis by (simp add: svn_open_diff_def Let_def)
qed

lemma svn_comparison_well_formed_witness:
  "\<exists>session r'. svn_open_diff compared_env (RevCommit ''r1'') (RevCommit ''r2'') GroupAll (svn_new reads_info) = (Inr session, r') \<and>
     sorted (map sf_path (sd_files session)) \<and> distinct (map sf_path (sd_files session))"
proof -
  obtain session r' where opened:
    "svn_open_diff compared_env (RevCommit ''r1'') (RevCommit ''r2'') GroupAll (svn_new reads_info) = (Inr session, r')"
    using compared_opens by (elim exE)
  from svn_comparison_well_formed [OF opened] opened show ?thesis by blast
qed

section \<open>A file added since the old revision\<close>

text \<open>The working copy's own status hides that a file was added since the old revision: a file that
  the comparison summarises as added, and that was also changed locally, is shown as modified, and
  its old content is asked of the old revision, where it was not; the preview of it then fails with
  the client's error.\<close>
theorem locally_changed_addition_unreadable:
  assumes "shown = file_from_summary env r i path entry (Some st) metadata
             \<lparr>dg_old_revision = old, dg_new_revision = SvnWorking, dg_local_base = False\<rparr>"
    and "su_item entry = ''added''" and "su_kind entry = ''file''" and "se_item st = ''modified''"
    and "svn_cat (sn_windows env) (sn_world env) (root_of r) path (Some old) PATCH_PREVIEW_LIMIT = Inl e"
    and "\<not> sf_is_binary shown" and "\<not> sf_preview_too_large shown"
    and "sd_files session = [shown]" and "sd_previews session = cache_new" and "sr_sources r = cache_new"
  shows "sf_status shown = ''Modified'' \<and> sf_old_source shown = SvnAtRevision old \<and>
         fst (svn_preview env False 0 perspective session r) = Inl (SvnFailed e)"
proof -
  have shown: "sf_status shown = ''Modified''" "sf_old_source shown = SvnAtRevision old" "sf_node_kind shown = ''file''" "sf_path shown = path"
    using assms(2-4) unfolding assms(1)
    by (simp_all add: file_from_summary_def status_changed_def display_status_def Let_def split: prod.split)
  have "fetch_source env r path (SvnAtRevision old) = Inl (SvnFailed e)"
    using assms(5) by (simp add: fetch_source_def from_svn_def)
  then have "fst (read_sides env False shown r) = Inl (SvnFailed e)"
    using shown assms(10)
    by (simp add: read_sides_def read_side_def read_source_def source_cache_key_def source_cache_get_def cache_get_def cache_new_def
        split: prod.split)
  with shown assms(6-9) show ?thesis
    by (auto simp: svn_preview_def session_file_def ensure_def Let_def preview_cache_get_def cache_get_def cache_new_def
        split: prod.splits sum.splits)
qed

end
