(* ===== verification/Vc_Summary.thy ===== *)
theory Vc_Summary
  imports Svn_Reads
begin

text \<open>
  What the bridge tells of a repository and of a comparison, crates/winrisef-agent/src/version_control_helpers.rs:
  the candidate, the overview of either backend and the summary of a comparison.

  A JSON object is the record of its fields.
\<close>

section \<open>Either backend\<close>

record candidate =
  cd_id :: string
  cd_kind :: string
  cd_display_name :: string
  cd_relative_url :: "string option"

datatype backend_view =
    GitView "string option"
  | SvnView svn_repository

definition candidate_of :: "string \<Rightarrow> backend_view \<Rightarrow> candidate" where
  "candidate_of candidate_id backend =
     (case backend of
        GitView folder_name \<Rightarrow>
          \<lparr>cd_id = candidate_id, cd_kind = ''git'',
           cd_display_name = (case folder_name of None \<Rightarrow> ''Git repository'' | Some name \<Rightarrow> name), cd_relative_url = None\<rparr>
      | SvnView r \<Rightarrow>
          \<lparr>cd_id = candidate_id, cd_kind = ''svn'', cd_display_name = ri_display_name (sr_info r),
           cd_relative_url = Some (ri_relative_url (sr_info r))\<rparr>)"

section \<open>The summary of a comparison\<close>

text \<open>The counts are JSON numbers of 64 bits.\<close>

definition svn_summary_add :: "diff_summary \<Rightarrow> svn_diff_file \<Rightarrow> diff_summary" where
  "svn_summary_add s f =
     (let counted = (if sf_status f \<in> {''Added'', ''Unversioned''} then s\<lparr>su_files_added := su_files_added s + 1\<rparr>
                     else if sf_status f \<in> {''Deleted'', ''Missing''} then s\<lparr>su_files_deleted := su_files_deleted s + 1\<rparr>
                     else if sf_status f = ''Conflicted'' then s\<lparr>su_files_conflicted := su_files_conflicted s + 1\<rparr>
                     else if sf_status f \<in> {''Renamed'', ''Copied''} then s\<lparr>su_files_renamed := su_files_renamed s + 1\<rparr>
                     else s\<lparr>su_files_modified := su_files_modified s + 1\<rparr>)
      in counted\<lparr>su_insertions := su_insertions counted + sf_additions f, su_deletions := su_deletions counted + sf_deletions f\<rparr>)"

datatype diff_state = GitDiff diff_session | SvnDiff svn_diff_session

definition diff_summary_of :: "diff_state \<Rightarrow> diff_summary \<times> usize" where
  "diff_summary_of d =
     (case d of
        GitDiff session \<Rightarrow> (ds_summary session, diff_session_len session)
      | SvnDiff session \<Rightarrow>
          (foldl svn_summary_add (summary_zero\<lparr>su_files_changed := length (sd_files session)\<rparr>) (sd_files session),
           length (sd_files session)))"

lemma svn_summary_fold:
  "summary_total (foldl svn_summary_add s fs) = summary_total s + length fs \<and>
   su_files_changed (foldl svn_summary_add s fs) = su_files_changed s \<and>
   su_insertions (foldl svn_summary_add s fs) = su_insertions s + sum_list (map sf_additions fs) \<and>
   su_deletions (foldl svn_summary_add s fs) = su_deletions s + sum_list (map sf_deletions fs)"
  by (induction fs arbitrary: s) (simp_all add: svn_summary_add_def summary_total_def Let_def)

text \<open>The summary counts every file of a comparison in exactly one class, of either backend, and its length
  is the number of the files; the lines are the sums over the files.\<close>

lemma summary_counts_each_file:
  assumes "d = GitDiff (finish_session old new grp records) \<or> d = SvnDiff session"
  shows "su_files_changed (fst (diff_summary_of d)) = snd (diff_summary_of d) \<and>
         summary_total (fst (diff_summary_of d)) = snd (diff_summary_of d)"
  using assms finish_session_ok [of old new grp records] svn_summary_fold [of "summary_zero\<lparr>su_files_changed := length (sd_files session)\<rparr>" "sd_files session"]
  by (auto simp: diff_summary_of_def session_ok_def summary_total_def summary_zero_def)

end
